(* ===== verification/Prelude.thy ===== *)
theory Prelude
  imports Complex_Main "HOL-Library.Word" "HOL-Library.Sublist" "HOL-Library.Signed_Division"
    "HOL-Library.Log_Nat"
begin

text \<open>
  Shared vocabulary of the development: the machine integers, byte strings and library
  routines of Go that the sources use, and the generic lemmas on lists and keyed tables that
  the components share.

  A Go \<open>string\<close> is a byte sequence, so it is a HOL \<open>string\<close> whose characters are bytes and
  whose \<open>length\<close> is Go's \<open>len\<close>.  An \<open>int64\<close> is an \<open>int\<close>; wherever the source can leave the
  64-bit range the wrap-around is written out with \<open>wrap64\<close>.  A \<open>uint64\<close> counter is a
  \<open>64 word\<close>.  Case mapping and white space (\<open>strings.ToLower\<close>, \<open>EqualFold\<close>, \<open>TrimSpace\<close>) are
  modelled on ASCII bytes; other bytes are left alone.
\<close>

named_theorems row_simps \<open>unfolding the records and rows of the store\<close>
named_theorems table_intros \<open>preservation of the invariants of the tables\<close>

section \<open>Machine integers\<close>

type_synonym u64 = "64 word"

definition wrap64 :: "int \<Rightarrow> int" where
  "wrap64 n = (n + 2 ^ 63) mod 2 ^ 64 - 2 ^ 63"

definition int64_range :: "int \<Rightarrow> bool" where
  "int64_range n \<longleftrightarrow> - (2 ^ 63) \<le> n \<and> n < 2 ^ 63"

lemma wrap64_id [simp]: "int64_range n \<Longrightarrow> wrap64 n = n"
  by (simp add: int64_range_def wrap64_def)

lemma wrap64_range [simp]: "int64_range (wrap64 n)"
proof -
  have "0 \<le> (n + 2 ^ 63) mod 2 ^ 64" and "(n + 2 ^ 63) mod 2 ^ 64 < (2 ^ 64 :: int)"
    by simp_all
  then show ?thesis
    by (simp add: int64_range_def wrap64_def)
qed

lemma int64_range_small: "0 \<le> n \<Longrightarrow> n \<le> 9 * 10 ^ 18 \<Longrightarrow> int64_range n"
  by (simp add: int64_range_def)

text \<open>\<open>uint64(n)\<close> of an \<open>int64\<close> and \<open>int64(w)\<close> of a \<open>uint64\<close>.\<close>

definition u64_of_int :: "int \<Rightarrow> u64" where
  "u64_of_int n = word_of_int n"

definition int_of_u64 :: "u64 \<Rightarrow> int" where
  "int_of_u64 w = sint w"

lemma int_of_u64_range [simp]: "int64_range (int_of_u64 w)"
  using sint_greater_eq [of w] sint_less [of w] by (simp add: int64_range_def int_of_u64_def)

lemma u64_of_int_of_u64 [simp]: "u64_of_int (int_of_u64 w) = w"
  by (simp add: u64_of_int_def int_of_u64_def)

lemma int_of_u64_of_int [simp]: "int64_range n \<Longrightarrow> int_of_u64 (u64_of_int n) = n"
  by (simp add: int64_range_def u64_of_int_def int_of_u64_def int_word_sint)

section \<open>Byte strings\<close>

definition byte_in :: "int \<Rightarrow> int \<Rightarrow> char \<Rightarrow> bool" where
  "byte_in lo hi c \<longleftrightarrow> lo \<le> of_char c \<and> (of_char c :: int) \<le> hi"

definition ascii_lower :: "char \<Rightarrow> char" where
  "ascii_lower c = (if byte_in 65 90 c then char_of ((of_char c :: int) + 32) else c)"

text \<open>\<open>strings.ToLower\<close> and \<open>strings.EqualFold\<close>.\<close>

definition to_lower :: "string \<Rightarrow> string" where
  "to_lower s = map ascii_lower s"

definition equal_fold :: "string \<Rightarrow> string \<Rightarrow> bool" where
  "equal_fold s t \<longleftrightarrow> to_lower s = to_lower t"

lemma length_to_lower [simp]: "length (to_lower s) = length s"
  by (simp add: to_lower_def)

lemma to_lower_Nil [simp]: "to_lower [] = []"
  by (simp add: to_lower_def)

text \<open>\<open>strings.TrimSpace\<close>: tab, newline, vertical tab, form feed, carriage return, space.\<close>

definition is_space :: "char \<Rightarrow> bool" where
  "is_space c \<longleftrightarrow> of_char c = (32::int) \<or> byte_in 9 13 c"

definition trim_space :: "string \<Rightarrow> string" where
  "trim_space s = rev (dropWhile is_space (rev (dropWhile is_space s)))"

lemma dropWhile_id: "(\<And>x. x \<in> set xs \<Longrightarrow> \<not> P x) \<Longrightarrow> dropWhile P xs = xs"
  by (cases xs) auto

lemma dropWhile_hd_id: "xs = [] \<or> \<not> P (hd xs) \<Longrightarrow> dropWhile P xs = xs"
  by (cases xs) auto

lemma trim_space_idem [simp]: "trim_space (trim_space s) = trim_space s"
proof -
  define t where "t = dropWhile is_space s"
  define u where "u = rev (dropWhile is_space (rev t))"
  have last_u: "u = [] \<or> \<not> is_space (last u)"
    using hd_dropWhile [of is_space "rev t"] by (auto simp: u_def last_rev)
  have "u = [] \<or> \<not> is_space (hd u)"
  proof (cases "u = []")
    case False
    have "prefix u t"
      using suffix_dropWhile [of is_space "rev t"] by (simp add: u_def suffix_to_prefix)
    then have "hd u = hd t" and "t \<noteq> []"
      using False by (auto simp: prefix_def)
    moreover have "\<not> is_space (hd t)"
      using \<open>t \<noteq> []\<close> hd_dropWhile [of is_space s] by (simp add: t_def)
    ultimately show ?thesis by simp
  qed simp
  then have "dropWhile is_space u = u" by (rule dropWhile_hd_id)
  moreover have "dropWhile is_space (rev u) = rev u"
    using last_u by (intro dropWhile_hd_id) (auto simp: hd_rev)
  ultimately show ?thesis
    by (simp add: trim_space_def flip: t_def u_def)
qed

lemma trim_space_Nil [simp]: "trim_space [] = []"
  by (simp add: trim_space_def)

text \<open>\<open>strings.TrimSuffix\<close>, \<open>strings.TrimPrefix\<close>, \<open>strings.CutPrefix\<close>, \<open>strings.Contains\<close> of a byte.\<close>

definition trim_suffix :: "string \<Rightarrow> string \<Rightarrow> string" where
  "trim_suffix s suf = (if suffix suf s then take (length s - length suf) s else s)"

definition cut_prefix :: "string \<Rightarrow> string \<Rightarrow> string option" where
  "cut_prefix s p = (if prefix p s then Some (drop (length p) s) else None)"

text \<open>\<open>strings.Cut\<close> at a one-byte separator.\<close>

fun cut_at :: "char \<Rightarrow> string \<Rightarrow> (string \<times> string) option" where
  "cut_at c [] = None"
| "cut_at c (x # xs) =
     (if x = c then Some ([], xs)
      else map_option (\<lambda>(a, b). (x # a, b)) (cut_at c xs))"

lemma cut_at_Some: "cut_at c s = Some (a, b) \<Longrightarrow> s = a @ c # b \<and> c \<notin> set a"
  by (induction s arbitrary: a) (auto split: if_splits)

lemma cut_at_append [simp]: "c \<notin> set a \<Longrightarrow> cut_at c (a @ c # b) = Some (a, b)"
  by (induction a) auto

lemma cut_at_None: "cut_at c s = None \<longleftrightarrow> c \<notin> set s"
  by (induction s) auto

section \<open>Keyed lists\<close>

lemma distinct_key_split:
  assumes "distinct (map f (xs @ x # ys))" "r \<in> set xs \<union> set ys"
  shows "f r \<noteq> f x"
proof -
  from assms(1) have "f x \<notin> f ` (set xs \<union> set ys)" by auto
  with assms(2) show ?thesis by (metis imageI)
qed

lemma list_all2_member: "list_all2 R xs ys \<Longrightarrow> x \<in> set xs \<Longrightarrow> \<exists>y \<in> set ys. R x y"
  by (induction rule: list_all2_induct) auto

section \<open>Decimal numbers\<close>

definition digit_char :: "int \<Rightarrow> char" where
  "digit_char d = char_of (48 + d)"

definition is_digit :: "char \<Rightarrow> bool" where
  "is_digit c \<longleftrightarrow> byte_in 48 57 c"

definition digit_val :: "char \<Rightarrow> int" where
  "digit_val c = of_char c - 48"

lemma is_digit_digit_char [simp]: "0 \<le> d \<Longrightarrow> d < 10 \<Longrightarrow> is_digit (digit_char d)"
  by (simp add: is_digit_def digit_char_def byte_in_def)

lemma digit_val_digit_char [simp]: "0 \<le> d \<Longrightarrow> d < 10 \<Longrightarrow> digit_val (digit_char d) = d"
  by (simp add: digit_val_def digit_char_def)

lemma digit_val_nonneg: "is_digit c \<Longrightarrow> 0 \<le> digit_val c"
  by (simp add: is_digit_def byte_in_def digit_val_def)

text \<open>\<open>strconv.FormatUint\<close> and \<open>strconv.FormatInt\<close> in base 10.\<close>

function show_nat :: "int \<Rightarrow> string" where
  "show_nat n = (if n < 10 then [digit_char (max 0 n)]
     else show_nat (n div 10) @ [digit_char (n mod 10)])"
  by pat_completeness auto
termination
  by (relation "measure nat") auto

declare show_nat.simps [simp del]

definition show_int :: "int \<Rightarrow> string" where
  "show_int n = (if n < 0 then CHR ''-'' # show_nat (- n) else show_nat n)"

text \<open>\<open>strconv.ParseInt(s, 10, 64)\<close>: an optional sign, then digits only, in range.\<close>

fun digits_val :: "int \<Rightarrow> string \<Rightarrow> int option" where
  "digits_val acc [] = Some acc"
| "digits_val acc (c # cs) =
     (if is_digit c then digits_val (acc * 10 + digit_val c) cs else None)"

definition split_sign :: "string \<Rightarrow> bool \<times> string" where
  "split_sign s = (case s of [] \<Rightarrow> (False, [])
     | c # cs \<Rightarrow> if c = CHR ''-'' then (True, cs) else if c = CHR ''+'' then (False, cs) else (False, s))"

definition parse_int64 :: "string \<Rightarrow> int option" where
  "parse_int64 s = (let (neg, ds) = split_sign s in
     if ds = [] then None
     else case digits_val 0 ds of
       None \<Rightarrow> None
     | Some n \<Rightarrow>
         if neg then (if n \<le> 2 ^ 63 then Some (- n) else None)
         else if n < 2 ^ 63 then Some n else None)"

lemma digits_val_append:
  "digits_val acc (xs @ ys) = (case digits_val acc xs of None \<Rightarrow> None | Some a \<Rightarrow> digits_val a ys)"
  by (induction xs arbitrary: acc) auto

lemma digits_val_nonneg: "digits_val acc s = Some n \<Longrightarrow> 0 \<le> acc \<Longrightarrow> 0 \<le> n"
  by (induction s arbitrary: acc) (auto simp: digit_val_nonneg split: if_splits)

lemma show_nat_nonempty [simp]: "show_nat n \<noteq> []"
  by (subst show_nat.simps) simp

lemma show_nat_digits: "c \<in> set (show_nat n) \<Longrightarrow> is_digit c"
proof (induction n rule: show_nat.induct)
  case (1 n)
  then show ?case by (subst (asm) (2) show_nat.simps) (auto split: if_splits)
qed

lemma digits_val_show_nat [simp]: "0 \<le> n \<Longrightarrow> digits_val 0 (show_nat n) = Some n"
proof (induction n rule: show_nat.induct)
  case (1 n)
  then show ?case by (subst show_nat.simps) (auto simp: digits_val_append)
qed

lemma show_nat_inject [simp]: "0 \<le> m \<Longrightarrow> 0 \<le> n \<Longrightarrow> show_nat m = show_nat n \<longleftrightarrow> m = n"
  by (metis digits_val_show_nat option.inject)

lemma not_is_digit [simp]:
  "\<not> is_digit CHR ''-''" "\<not> is_digit CHR ''+''" "\<not> is_digit CHR '':''" "\<not> is_digit CHR ''|''"
  "\<not> is_digit CHR ''n''" "\<not> is_digit CHR ''v''" "\<not> is_digit CHR ''T''" "is_digit CHR ''0''"
  by (simp_all add: is_digit_def byte_in_def)

lemma split_sign_show_nat [simp]: "split_sign (show_nat n) = (False, show_nat n)"
proof -
  obtain c cs where *: "show_nat n = c # cs" by (meson show_nat_nonempty neq_Nil_conv)
  then have "is_digit c" by (metis list.set_intros(1) show_nat_digits)
  then have "c \<noteq> CHR ''-''" "c \<noteq> CHR ''+''" by auto
  with * show ?thesis by (simp add: split_sign_def)
qed

theorem parse_int64_show_int: "int64_range n \<Longrightarrow> parse_int64 (show_int n) = Some n"
  by (auto simp: parse_int64_def show_int_def int64_range_def split_sign_def [of "CHR ''-'' # x" for x])

lemma parse_int64_range: "parse_int64 s = Some n \<Longrightarrow> int64_range n"
  by (auto simp: parse_int64_def int64_range_def split: prod.splits if_splits option.splits
      dest: digits_val_nonneg)

lemma show_int_inject [simp]: "show_int m = show_int n \<longleftrightarrow> m = n"
proof
  assume eq: "show_int m = show_int n"
  have no_minus: "CHR ''-'' # xs \<noteq> show_nat k" for xs k
    by (metis list.set_intros(1) not_is_digit(1) show_nat_digits)
  from eq show "m = n"
    using no_minus no_minus [symmetric] by (auto simp: show_int_def split: if_splits)
qed simp

lemma show_int_chars: "c \<in> set (show_int n) \<Longrightarrow> is_digit c \<or> c = CHR ''-''"
  by (auto simp: show_int_def dest: show_nat_digits split: if_splits)

end
