(* ===== verification/Calendar.thy ===== *)
theory Calendar
  imports Prelude
begin

text \<open>
  The part of Go's package \<open>time\<close> the sources use, over instants given as nanoseconds since
  1970-01-01T00:00:00Z: the proleptic Gregorian calendar, the layouts \<open>2006-01-02\<close> and
  \<open>RFC3339Nano\<close> for printing, and \<open>time.Parse\<close> for the layouts \<open>RFC3339\<close>, \<open>RFC3339Nano\<close> and
  \<open>2006-01-02\<close>, with the lenient forms \<open>time.Parse\<close> takes (one-digit hours, a comma before the
  fraction, more than nine fraction digits).

  The day count is split along 400-year eras that start on the first of March, so that the
  leap day is the last day of its year.
\<close>

section \<open>Instants\<close>

abbreviation (input) second_ns :: int where "second_ns \<equiv> 1000000000"
abbreviation (input) milli_ns :: int where "milli_ns \<equiv> 1000000"
abbreviation (input) day_ns :: int where "day_ns \<equiv> 86400000000000"
abbreviation (input) day_ms :: int where "day_ms \<equiv> 86400000"

text \<open>The zero \<open>time.Time\<close> is the first instant of year 1.\<close>

definition zero_time :: int where
  "zero_time = - 62135596800 * second_ns"

definition is_zero_time :: "int \<Rightarrow> bool" where
  "is_zero_time t \<longleftrightarrow> t = zero_time"

text \<open>\<open>t.UnixMilli()\<close>, \<open>time.UnixMilli(ms)\<close>, \<open>t.Sub(u)\<close> (saturating), \<open>d.Milliseconds()\<close>.\<close>

definition unix_milli :: "int \<Rightarrow> int" where
  "unix_milli t = t div milli_ns"

definition of_unix_milli :: "int \<Rightarrow> int" where
  "of_unix_milli ms = ms * milli_ns"

definition time_sub :: "int \<Rightarrow> int \<Rightarrow> int" where
  "time_sub t u = max (- (2 ^ 63)) (min (2 ^ 63 - 1) (t - u))"

definition duration_ms :: "int \<Rightarrow> int" where
  "duration_ms d = d sdiv milli_ns"

lemma unix_milli_of_unix_milli [simp]: "unix_milli (of_unix_milli ms) = ms"
  by (simp add: unix_milli_def of_unix_milli_def)

lemma unix_milli_mono: "t \<le> u \<Longrightarrow> unix_milli t \<le> unix_milli u"
  by (simp add: unix_milli_def zdiv_mono1)

section \<open>Dates\<close>

text \<open>
  A day of an era as century, four-year group, year of the group, and day of the year.
\<close>

definition year_split :: "int \<Rightarrow> int \<times> int \<times> int \<times> int \<times> int" where
  "year_split z = (let era = z div 146097; doe = z mod 146097;
     c = min 3 (doe div 36524); r = doe - 36524 * c; q = r div 1461; r' = r mod 1461;
     n = min 3 (r' div 365)
     in (era, c, q, n, r' - 365 * n))"

text \<open>Month and day of the month of a day of the year, counted from the first of March.\<close>

definition month_split :: "int \<Rightarrow> int \<times> int" where
  "month_split doy = (let mp = (5 * doy + 2) div 153
     in (if mp < 10 then mp + 3 else mp - 9, doy - (153 * mp + 2) div 5 + 1))"

definition civil_of_days :: "int \<Rightarrow> int \<times> int \<times> int" where
  "civil_of_days days = (let (era, c, q, n, doy) = year_split (days + 719468); (m, d) = month_split doy
     in (era * 400 + 100 * c + 4 * q + n + (if m \<le> 2 then 1 else 0), m, d))"

definition days_of_civil :: "int \<Rightarrow> int \<Rightarrow> int \<Rightarrow> int" where
  "days_of_civil y m d = (let y' = (if m \<le> 2 then y - 1 else y); era = y' div 400; yoe = y' mod 400;
     mp = (if 2 < m then m - 3 else m + 9); doy = (153 * mp + 2) div 5 + d - 1
     in era * 146097 + 365 * yoe + yoe div 4 - yoe div 100 + doy - 719468)"

definition leap_year :: "int \<Rightarrow> bool" where
  "leap_year y \<longleftrightarrow> y mod 4 = 0 \<and> (y mod 100 \<noteq> 0 \<or> y mod 400 = 0)"

definition days_in_month :: "int \<Rightarrow> int \<Rightarrow> int" where
  "days_in_month y m = (if m = 2 then if leap_year y then 29 else 28
     else if m \<in> {4, 6, 9, 11} then 30 else 31)"

definition weekday :: "int \<Rightarrow> int" where
  "weekday days = (days + 4) mod 7"

lemma year_split_bounds:
  assumes "year_split z = (era, c, q, n, doy)"
  shows "z = era * 146097 + 36524 * c + 1461 * q + 365 * n + doy"
    and "0 \<le> c" "c \<le> 3" "0 \<le> q" "q \<le> 24" "0 \<le> n" "n \<le> 3" "0 \<le> doy" "doy \<le> 365"
proof -
  define doe where "doe = z mod 146097"
  define r where "r = doe - 36524 * c"
  define r' where "r' = r mod 1461"
  have ec: "era = z div 146097" "c = min 3 (doe div 36524)"
    using assms by (simp_all only: year_split_def Let_def prod.inject doe_def)
  have eq: "q = r div 1461" and en: "n = min 3 (r' div 365)"
    using assms by (simp_all only: year_split_def Let_def prod.inject doe_def [symmetric] ec(2) [symmetric]
        r_def [symmetric] r'_def [symmetric])
  have "doy = r' - 365 * n"
    using assms by (simp only: year_split_def Let_def prod.inject doe_def [symmetric] ec(2) [symmetric]
        r_def [symmetric] r'_def [symmetric] en [symmetric])
  note eqs = ec eq en this
  have "0 \<le> doe" "doe < 146097" by (simp_all add: doe_def)
  then have c: "0 \<le> c" "c \<le> 3" "0 \<le> r" "r \<le> 36524" unfolding r_def eqs(2) by linarith+
  then have q: "0 \<le> q" "q \<le> 24" "0 \<le> r'" "r' < 1461" unfolding r'_def eqs(3) by linarith+
  then have n: "0 \<le> n" "n \<le> 3" "0 \<le> doy" "doy \<le> 365" unfolding eqs(4,5) by linarith+
  from c q n show "0 \<le> c" "c \<le> 3" "0 \<le> q" "q \<le> 24" "0 \<le> n" "n \<le> 3" "0 \<le> doy" "doy \<le> 365"
    by simp_all
  have "z = era * 146097 + doe" by (simp add: eqs(1) doe_def)
  moreover have "doe = 36524 * c + r" by (simp add: r_def)
  moreover have "r = 1461 * q + r'" by (simp add: eqs(3) r'_def)
  moreover have "r' = 365 * n + doy" by (simp add: eqs(5))
  ultimately show "z = era * 146097 + 36524 * c + 1461 * q + 365 * n + doy" by simp
qed

lemma month_split_bounds:
  assumes "month_split doy = (m, d)" "0 \<le> doy" "doy \<le> 365"
  shows "1 \<le> m" "m \<le> 12" "1 \<le> d" "d \<le> 31"
    and "doy = (153 * (if 2 < m then m - 3 else m + 9) + 2) div 5 + d - 1"
proof -
  define mp where "mp = (5 * doy + 2) div 153"
  have mp: "0 \<le> mp" "mp \<le> 11" using assms unfolding mp_def by linarith+
  have md: "m = (if mp < 10 then mp + 3 else mp - 9)" "d = doy - (153 * mp + 2) div 5 + 1"
    using assms by (auto simp: month_split_def Let_def mp_def)
  from mp md show "1 \<le> m" "m \<le> 12" by auto
  have "153 * mp \<le> 5 * doy + 2" "5 * doy + 2 < 153 * mp + 153" unfolding mp_def by linarith+
  then show "1 \<le> d" "d \<le> 31" unfolding md(2) by linarith+
  show "doy = (153 * (if 2 < m then m - 3 else m + 9) + 2) div 5 + d - 1"
    using mp md by auto
qed

theorem days_of_civil_of_days: "(case civil_of_days days of (y, m, d) \<Rightarrow> days_of_civil y m d) = days"
proof -
  obtain era c q n doy where ys: "year_split (days + 719468) = (era, c, q, n, doy)" by (cases "year_split (days + 719468)")
  obtain m d where ms: "month_split doy = (m, d)" by (cases "month_split doy")
  note b = year_split_bounds [OF ys] month_split_bounds [OF ms]
  define yoe where "yoe = 100 * c + 4 * q + n"
  have yoe: "0 \<le> yoe" "yoe < 400" "yoe div 4 = 25 * c + q" "yoe div 100 = c"
    unfolding yoe_def using b by linarith+
  then have era: "(era * 400 + yoe) div 400 = era" "(era * 400 + yoe) mod 400 = yoe" by simp_all
  have ym: "yoe mod 400 = yoe" "yoe div 400 = 0" using yoe by simp_all
  have y: "era * 400 + 100 * c + 4 * q + n = era * 400 + yoe" by (simp add: yoe_def)
  have "civil_of_days days = (era * 400 + yoe + (if m \<le> 2 then 1 else 0), m, d)"
    by (simp add: civil_of_days_def ys ms y)
  moreover have "days_of_civil (era * 400 + yoe + (if m \<le> 2 then 1 else 0)) m d =
    era * 146097 + 365 * yoe + yoe div 4 - yoe div 100 + ((153 * (if 2 < m then m - 3 else m + 9) + 2) div 5 + d - 1) - 719468"
    by (simp add: days_of_civil_def Let_def ym)
  moreover have "\<dots> = days"
    using b(1) b(14) b(8,9) yoe by (simp add: yoe_def)
  ultimately show ?thesis by simp
qed

lemma civil_of_days_bounds:
  assumes "civil_of_days days = (y, m, d)"
  shows "1 \<le> m \<and> m \<le> 12 \<and> 1 \<le> d \<and> d \<le> 31"
proof -
  obtain era c q n doy where ys: "year_split (days + 719468) = (era, c, q, n, doy)" by (cases "year_split (days + 719468)")
  with assms have "month_split doy = (m, d)" by (auto simp: civil_of_days_def split: prod.splits)
  with year_split_bounds [OF ys] show ?thesis using month_split_bounds [of doy m d] by simp
qed

lemma civil_of_days_inject: "civil_of_days d = civil_of_days e \<Longrightarrow> d = e"
  by (metis days_of_civil_of_days)

text \<open>The first day of the month of a day.\<close>

definition month_start :: "int \<Rightarrow> int" where
  "month_start days = (case civil_of_days days of (y, m, d) \<Rightarrow> days_of_civil y m 1)"

lemma days_of_civil_day: "days_of_civil y m d = days_of_civil y m 1 + (d - 1)"
  by (simp only: days_of_civil_def Let_def)

lemma month_start_eq: "civil_of_days days = (y, m, d) \<Longrightarrow> month_start days = days - (d - 1)"
  using days_of_civil_of_days [of days] days_of_civil_day [of y m d] by (simp add: month_start_def)

lemma month_start_bounds: "month_start days \<le> days" "days - 30 \<le> month_start days"
  using month_start_eq [of days] civil_of_days_bounds [of days]
  by (cases "civil_of_days days"; force)+

text \<open>Months follow one another: the first day of the month never goes back.\<close>

lemma div_succ:
  assumes "0 < (k::int)"
  shows "(a + 1) div k = a div k \<and> (a + 1) mod k = a mod k + 1
    \<or> (a + 1) div k = a div k + 1 \<and> (a + 1) mod k = 0"
proof -
  have a: "a + 1 = (a mod k + 1) + a div k * k" by (simp add: algebra_simps)
  have m: "0 \<le> a mod k" "a mod k < k" using assms by simp_all
  show ?thesis
  proof (cases "a mod k + 1 = k")
    case True
    then have "a + 1 = (a div k + 1) * k" using a by (simp add: algebra_simps)
    then show ?thesis using assms by simp
  next
    case False
    with m have b: "0 \<le> a mod k + 1" "a mod k + 1 < k" by linarith+
    have "(a + 1) div k = a div k" "(a + 1) mod k = a mod k + 1"
      unfolding a using b assms by (simp_all only: div_mult_self1 mod_mult_self1 div_pos_pos_trivial mod_pos_pos_trivial)
    then show ?thesis by simp
  qed
qed

lemma min_succ:
  assumes "0 < (k::int)"
  shows "min 3 ((a + 1) div k) = min 3 (a div k) \<or> a + 1 = k * min 3 ((a + 1) div k)"
  using div_succ [OF assms, of a]
proof (elim disjE conjE)
  assume d: "(a + 1) div k = a div k + 1" "(a + 1) mod k = 0"
  have "a + 1 = k * ((a + 1) div k)" using mult_div_mod_eq [of k "a + 1"] d(2) by simp
  then show ?thesis using d(1) by (cases "3 \<le> a div k") (simp_all add: min_def)
qed simp

lemma year_split_parts:
  "x mod 146097 = doe \<Longrightarrow> min 3 (doe div 36524) = c \<Longrightarrow> doe - 36524 * c = r \<Longrightarrow> r mod 1461 = r' \<Longrightarrow>
   year_split x = (x div 146097, c, r div 1461, min 3 (r' div 365), r' - 365 * min 3 (r' div 365))"
  by (simp only: year_split_def Let_def)

lemma year_split_succ:
  "year_split (z + 1) = (case year_split z of (era, c, q, n, doy) \<Rightarrow> (era, c, q, n, doy + 1))
   \<or> (case year_split (z + 1) of (era, c, q, n, doy) \<Rightarrow> doy = 0)"
proof -
  define doe where "doe = z mod 146097"
  define c where "c = min 3 (doe div 36524)"
  define r where "r = doe - 36524 * c"
  define r' where "r' = r mod 1461"
  define C where "C = min 3 ((doe + 1) div 36524)"
  have z: "year_split z = (z div 146097, c, r div 1461, min 3 (r' div 365), r' - 365 * min 3 (r' div 365))"
    by (rule year_split_parts) (simp_all only: doe_def c_def r_def r'_def)
  from div_succ [of 146097 z, OF zero_less_numeral] show ?thesis
  proof (elim disjE conjE)
    assume "(z + 1) mod 146097 = 0"
    from year_split_parts [OF this, of 0 0 0] show ?thesis by simp
  next
    assume e: "(z + 1) div 146097 = z div 146097" "(z + 1) mod 146097 = z mod 146097 + 1"
    note s1 = year_split_parts [OF e(2) [folded doe_def] C_def [symmetric] refl refl]
    from min_succ [of 36524 doe, OF zero_less_numeral] have "C = c \<or> doe + 1 = 36524 * C" by (simp only: C_def c_def)
    then show ?thesis
    proof
      assume "doe + 1 = 36524 * C"
      then have r0: "doe + 1 - 36524 * C = 0" by simp
      show ?thesis unfolding s1 r0 by simp
    next
      assume C: "C = c"
      have r1: "doe + 1 - 36524 * C = r + 1" unfolding C r_def by simp
      note s2 = s1 [unfolded r1]
      from div_succ [of 1461 r, OF zero_less_numeral] show ?thesis
      proof (elim disjE conjE)
        assume q: "(r + 1) mod 1461 = 0"
        show ?thesis unfolding s2 q by simp
      next
        assume q: "(r + 1) div 1461 = r div 1461" "(r + 1) mod 1461 = r mod 1461 + 1"
        note s3 = s2 [unfolded q C e(1), folded r'_def]
        from min_succ [of 365 r', OF zero_less_numeral] show ?thesis unfolding s3 z by auto
      qed
    qed
  qed
qed

lemma month_start_year: "year_split (d + 719468) = (era, c, q, n, doy) \<Longrightarrow>
   month_start d = d - doy + (153 * ((5 * doy + 2) div 153) + 2) div 5"
proof -
  assume ys: "year_split (d + 719468) = (era, c, q, n, doy)"
  obtain m k where ms: "month_split doy = (m, k)" by (cases "month_split doy")
  then have k: "k = doy - (153 * ((5 * doy + 2) div 153) + 2) div 5 + 1" by (auto simp: month_split_def Let_def)
  have "civil_of_days d = (era * 400 + 100 * c + 4 * q + n + (if m \<le> 2 then 1 else 0), m, k)"
    by (simp add: civil_of_days_def ys ms)
  from month_start_eq [OF this] k show ?thesis by simp
qed

lemma month_start_succ: "month_start d \<le> month_start (d + 1)"
proof -
  obtain era c q n doy where a: "year_split (d + 719468) = (era, c, q, n, doy)" by (cases "year_split (d + 719468)")
  obtain era' c' q' n' doy' where b: "year_split (d + 1 + 719468) = (era', c', q', n', doy')" by (cases "year_split (d + 1 + 719468)")
  have e: "d + 719468 + 1 = d + 1 + 719468" by simp
  from year_split_succ [of "d + 719468", unfolded e a b] show ?thesis
  proof
    assume "(era', c', q', n', doy') = (case (era, c, q, n, doy) of (era, c, q, n, doy) \<Rightarrow> (era, c, q, n, doy + 1))"
    then have "doy' = doy + 1" by simp
    moreover have "(153 * ((5 * doy + 2) div 153) + 2) div 5 \<le> (153 * ((5 * (doy + 1) + 2) div 153) + 2) div 5"
      by (intro zdiv_mono1 add_mono mult_left_mono) auto
    ultimately show ?thesis unfolding month_start_year [OF a] month_start_year [OF b] by simp
  next
    assume "case (era', c', q', n', doy') of (era, c, q, n, doy) \<Rightarrow> doy = 0"
    then have "month_start (d + 1) = d + 1" unfolding month_start_year [OF b] by simp
    with month_start_bounds(1) [of d] show ?thesis by simp
  qed
qed

lemma month_start_mono: "d \<le> e \<Longrightarrow> month_start d \<le> month_start e"
  by (induction rule: int_ge_induct) (auto intro: order_trans month_start_succ)

section \<open>Printing\<close>

definition pad :: "nat \<Rightarrow> int \<Rightarrow> string" where
  "pad k n = (let s = show_nat n in replicate (k - length s) (CHR ''0'') @ s)"

definition format_year :: "int \<Rightarrow> string" where
  "format_year y = (if y < 0 then CHR ''-'' # pad 4 (- y) else pad 4 y)"

text \<open>Layout \<open>2006-01-02\<close>.\<close>

definition format_date :: "int \<Rightarrow> string" where
  "format_date days = (case civil_of_days days of (y, m, d) \<Rightarrow>
     format_year y @ ''-'' @ pad 2 m @ ''-'' @ pad 2 d)"

definition format_clock :: "int \<Rightarrow> string" where
  "format_clock s = pad 2 (s div 3600) @ '':'' @ pad 2 (s mod 3600 div 60) @ '':'' @ pad 2 (s mod 60)"

text \<open>The fraction of layout \<open>RFC3339Nano\<close>: nine digits without their trailing zeros.\<close>

definition format_frac :: "int \<Rightarrow> string" where
  "format_frac n = (if n = 0 then [] else ''.'' @ rev (dropWhile (\<lambda>c. c = CHR ''0'') (rev (pad 9 n))))"

definition format_rfc3339_nano :: "int \<Rightarrow> string" where
  "format_rfc3339_nano t = (let days = t div day_ns; r = t mod day_ns in
     format_date days @ ''T'' @ format_clock (r div second_ns) @ format_frac (r mod second_ns) @ ''Z'')"

definition utc_day :: "int \<Rightarrow> string" where
  "utc_day t = format_date (t div day_ns)"

lemma digits_val_zeros: "digits_val 0 (replicate k (CHR ''0'') @ s) = digits_val 0 s"
  by (induction k) (simp_all add: digit_val_def)

lemma digits_val_pad [simp]: "0 \<le> n \<Longrightarrow> digits_val 0 (pad k n) = Some n"
  by (simp add: pad_def Let_def digits_val_zeros)

lemma pad_inject: "0 \<le> m \<Longrightarrow> 0 \<le> n \<Longrightarrow> pad k m = pad k n \<Longrightarrow> m = n"
  by (metis digits_val_pad option.inject)

lemma pad_digits: "c \<in> set (pad k n) \<Longrightarrow> is_digit c"
  by (auto simp: pad_def Let_def dest: show_nat_digits)

lemma length_show_nat: "n < 10 ^ k \<Longrightarrow> 0 < k \<Longrightarrow> length (show_nat n) \<le> k"
proof (induction n arbitrary: k rule: show_nat.induct)
  case (1 n)
  show ?case
  proof (cases "n < 10")
    case True
    with "1.prems" show ?thesis by (simp add: show_nat.simps [of n])
  next
    case False
    with "1.prems" obtain j where k: "k = Suc j" "0 < j" by (cases k; cases "k - 1") auto
    with False "1.prems" have "length (show_nat (n div 10)) \<le> j" by (intro "1.IH") auto
    with False k show ?thesis by (simp add: show_nat.simps [of n])
  qed
qed

lemma length_pad: "0 \<le> n \<Longrightarrow> n < 10 ^ k \<Longrightarrow> 0 < k \<Longrightarrow> length (pad k n) = k"
  using length_show_nat [of n k] by (simp add: pad_def Let_def)

lemma length_pad_2 [simp]: "0 \<le> n \<Longrightarrow> n < 100 \<Longrightarrow> length (pad 2 n) = 2"
  by (rule length_pad) simp_all

lemma format_year_inject: "format_year y = format_year z \<Longrightarrow> y = z"
proof -
  assume eq: "format_year y = format_year z"
  have minus: "CHR ''-'' \<notin> set (pad 4 n)" for n
    using pad_digits [of "CHR ''-''" 4 n] by auto
  have "(y < 0) = (z < 0)"
    using eq minus [of y] minus [of z] by (auto simp: format_year_def split: if_splits) (metis list.set_intros(1))+
  then show ?thesis
    using eq pad_inject [of "- y" "- z" 4] pad_inject [of y z 4] by (auto simp: format_year_def split: if_splits)
qed

lemma format_date_inject: "format_date d = format_date e \<Longrightarrow> d = e"
proof -
  assume eq: "format_date d = format_date e"
  obtain y m k where d: "civil_of_days d = (y, m, k)" by (cases "civil_of_days d")
  obtain y' m' k' where e: "civil_of_days e = (y', m', k')" by (cases "civil_of_days e")
  note b = civil_of_days_bounds [OF d] civil_of_days_bounds [OF e]
  have "format_year y @ ''-'' @ pad 2 m @ ''-'' @ pad 2 k = format_year y' @ ''-'' @ pad 2 m' @ ''-'' @ pad 2 k'"
    using eq by (simp add: format_date_def d e)
  moreover have "length (''-'' @ pad 2 m @ ''-'' @ pad 2 k) = length (''-'' @ pad 2 m' @ ''-'' @ pad 2 k')"
    using b by simp
  ultimately have "format_year y = format_year y'" "pad 2 m = pad 2 m'" "pad 2 k = pad 2 k'"
    using b by auto
  then have "civil_of_days d = civil_of_days e"
    using b d e format_year_inject pad_inject by auto
  then show "d = e" by (rule civil_of_days_inject)
qed

lemma dropWhile_zeros_inject:
  assumes "length xs = length ys"
    and "dropWhile (\<lambda>c. c = z) xs = dropWhile (\<lambda>c. c = z) ys"
  shows "xs = ys"
proof -
  have *: "xs = replicate (length xs - length (dropWhile (\<lambda>c. c = z) xs)) z @ dropWhile (\<lambda>c. c = z) xs" for xs
  proof (induction xs)
    case (Cons x xs)
    have "length (dropWhile (\<lambda>c. c = z) xs) \<le> length xs" by (rule length_dropWhile_le)
    with Cons show ?case by (auto simp: Suc_diff_le)
  qed simp
  from * [of xs] * [of ys] assms show ?thesis by metis
qed

lemma format_frac_inject:
  assumes "0 \<le> m" "m < second_ns" "0 \<le> n" "n < second_ns" "format_frac m = format_frac n"
  shows "m = n"
proof -
  have len: "length (pad 9 m) = length (pad 9 n)" using assms by (simp add: length_pad)
  show ?thesis
    using assms dropWhile_zeros_inject [of "rev (pad 9 m)" "rev (pad 9 n)" "CHR ''0''"] len pad_inject [of m n 9]
    by (auto simp: format_frac_def split: if_splits)
qed

lemma format_clock_inject:
  assumes "0 \<le> s" "s < 86400" "0 \<le> t" "t < 86400" "format_clock s = format_clock t"
  shows "s = t"
proof -
  have "pad 2 (s div 3600) = pad 2 (t div 3600)" "pad 2 (s mod 3600 div 60) = pad 2 (t mod 3600 div 60)"
    "pad 2 (s mod 60) = pad 2 (t mod 60)"
    using assms by (auto simp: format_clock_def append_eq_append_conv)
  then have "s div 3600 = t div 3600" "s mod 3600 div 60 = t mod 3600 div 60" "s mod 60 = t mod 60"
    using assms(1,3) by (simp_all only: pad_inject pos_imp_zdiv_nonneg_iff pos_mod_sign zero_less_numeral)
  moreover have "x = 3600 * (x div 3600) + (60 * (x mod 3600 div 60) + x mod 60)" for x :: int
    using mult_div_mod_eq [of 60 "x mod 3600"] by (simp add: mod_mod_cancel)
  ultimately show ?thesis by metis
qed

lemma length_format_clock: "0 \<le> s \<Longrightarrow> s < 86400 \<Longrightarrow> length (format_clock s) = 8"
  by (simp add: format_clock_def)

text \<open>Printing with \<open>RFC3339Nano\<close> loses nothing: distinct instants print differently.\<close>

theorem format_rfc3339_nano_inject: "format_rfc3339_nano t = format_rfc3339_nano u \<Longrightarrow> t = u"
proof -
  assume eq: "format_rfc3339_nano t = format_rfc3339_nano u"
  define r where "r = t mod day_ns"
  define r' where "r' = u mod day_ns"
  have r: "0 \<le> r" "r < day_ns" "0 \<le> r'" "r' < day_ns" by (simp_all add: r_def r'_def)
  have no_T: "CHR ''T'' \<notin> set (format_date d)" for d
    by (auto simp: format_date_def format_year_def dest!: pad_digits split: prod.splits if_splits)
  have "cut_at (CHR ''T'') (format_rfc3339_nano t) = cut_at (CHR ''T'') (format_rfc3339_nano u)"
    using eq by simp
  then have date: "format_date (t div day_ns) = format_date (u div day_ns)"
    and rest: "format_clock (r div second_ns) @ format_frac (r mod second_ns) @ ''Z'' =
      format_clock (r' div second_ns) @ format_frac (r' mod second_ns) @ ''Z''"
    using no_T by (simp_all add: format_rfc3339_nano_def Let_def r_def r'_def)
  have "length (format_clock (r div second_ns)) = length (format_clock (r' div second_ns))"
    using r by (simp add: length_format_clock div_int_pos_iff)
  with rest have "format_clock (r div second_ns) = format_clock (r' div second_ns)"
    "format_frac (r mod second_ns) = format_frac (r' mod second_ns)" by simp_all
  then have "r div second_ns = r' div second_ns" "r mod second_ns = r' mod second_ns"
    using r format_clock_inject [of "r div second_ns" "r' div second_ns"]
      format_frac_inject [of "r mod second_ns" "r' mod second_ns"] by simp_all
  then have "r = r'" by (metis div_mult_mod_eq)
  moreover have "t div day_ns = u div day_ns" using date by (rule format_date_inject)
  ultimately show "t = u" unfolding r_def r'_def by (metis div_mult_mod_eq)
qed

section \<open>Parsing\<close>

text \<open>Two digits; one or two digits; four digits; a literal character.\<close>

definition take2 :: "string \<Rightarrow> (int \<times> string) option" where
  "take2 s = (case s of a # b # r \<Rightarrow>
     if is_digit a \<and> is_digit b then Some ((digit_val a * 10 + digit_val b), r) else None
   | _ \<Rightarrow> None)"

definition take1_2 :: "string \<Rightarrow> (int \<times> string) option" where
  "take1_2 s = (case s of [] \<Rightarrow> None
   | a # r \<Rightarrow> if \<not> is_digit a then None
       else case r of b # r' \<Rightarrow>
           if is_digit b then Some ((digit_val a * 10 + digit_val b), r') else Some (digit_val a, r)
         | [] \<Rightarrow> Some (digit_val a, r))"

definition take4 :: "string \<Rightarrow> (int \<times> string) option" where
  "take4 s = (if 4 \<le> length s then
     map_option (\<lambda>n. (n, drop 4 s)) (digits_val 0 (take 4 s)) else None)"

definition expect :: "char \<Rightarrow> string \<Rightarrow> string option" where
  "expect c s = (case s of x # r \<Rightarrow> if x = c then Some r else None | [] \<Rightarrow> None)"

text \<open>Up to nine fraction digits count; the rest are dropped.\<close>

definition take_frac :: "string \<Rightarrow> int \<times> string" where
  "take_frac s = (case s of c # r \<Rightarrow>
     (let ds = takeWhile is_digit r in
      if (c = CHR ''.'' \<or> c = CHR '','') \<and> ds \<noteq> []
      then (case digits_val 0 (take 9 (ds @ replicate 9 (CHR ''0''))) of
              Some n \<Rightarrow> (n, dropWhile is_digit r) | None \<Rightarrow> (0, s))
      else (0, s))
   | [] \<Rightarrow> (0, s))"

definition take_zone :: "string \<Rightarrow> int option" where
  "take_zone s = (case s of [] \<Rightarrow> None
   | c # r \<Rightarrow> if c = CHR ''Z'' then (if r = [] then Some 0 else None)
       else if c = CHR ''+'' \<or> c = CHR ''-'' then
         Option.bind (take2 r) (\<lambda>(h, r1). Option.bind (expect (CHR '':'') r1) (\<lambda>r2.
         Option.bind (take2 r2) (\<lambda>(m, r3).
           if r3 = [] \<and> h \<le> 24 \<and> m \<le> 60
           then Some ((if c = CHR ''-'' then - 1 else 1) * (h * 3600 + m * 60)) else None)))
       else None)"

definition take_date :: "string \<Rightarrow> (int \<times> string) option" where
  "take_date s = Option.bind (take4 s) (\<lambda>(y, r1). Option.bind (expect (CHR ''-'') r1) (\<lambda>r2.
     Option.bind (take2 r2) (\<lambda>(m, r3). Option.bind (expect (CHR ''-'') r3) (\<lambda>r4.
     Option.bind (take2 r4) (\<lambda>(d, r5).
       if 1 \<le> m \<and> m \<le> 12 \<and> 1 \<le> d \<and> d \<le> days_in_month y m
       then Some (days_of_civil y m d, r5) else None)))))"

definition parse_date :: "string \<Rightarrow> int option" where
  "parse_date s = (case take_date s of Some (d, []) \<Rightarrow> Some (d * day_ns) | _ \<Rightarrow> None)"

definition parse_rfc3339 :: "string \<Rightarrow> int option" where
  "parse_rfc3339 s = Option.bind (take_date s) (\<lambda>(days, r1). Option.bind (expect (CHR ''T'') r1) (\<lambda>r2.
     Option.bind (take1_2 r2) (\<lambda>(h, r3). Option.bind (expect (CHR '':'') r3) (\<lambda>r4.
     Option.bind (take2 r4) (\<lambda>(mi, r5). Option.bind (expect (CHR '':'') r5) (\<lambda>r6.
     Option.bind (take2 r6) (\<lambda>(sec, r7). let (ns, r8) = take_frac r7 in
       if h < 24 \<and> mi < 60 \<and> sec < 60 then
         map_option (\<lambda>z. days * day_ns + (h * 3600 + mi * 60 + sec - z) * second_ns + ns) (take_zone r8)
       else None)))))))"

end
