(* ===== verification/Dates.thy ===== *)
theory Dates
  imports Calendar
begin

text \<open>
  Calendar arithmetic of the dashboard: \<open>time.Date\<close> and \<open>AddDate\<close> on whole days, the first day of
  a day, week or month (\<open>internal/web/filters.go\<close>), and the inverse of the date conversion: a valid
  date is the date of its day, so printed days read back.
\<close>

section \<open>Valid dates\<close>

definition valid_date :: "int \<Rightarrow> int \<Rightarrow> int \<Rightarrow> bool" where
  "valid_date y m d \<longleftrightarrow> 1 \<le> m \<and> m \<le> 12 \<and> 1 \<le> d \<and> d \<le> days_in_month y m"

lemma year_split_of:
  assumes "0 \<le> c" "c \<le> 3" "0 \<le> q" "q \<le> 24" "0 \<le> n" "n \<le> 3" "0 \<le> doy" "doy \<le> 365"
    and "doy = 365 \<longrightarrow> n = 3 \<and> (q \<noteq> 24 \<or> c = 3)"
  shows "year_split (era * 146097 + 36524 * c + 1461 * q + 365 * n + doy) = (era, c, q, n, doy)"
proof -
  define x where "x = era * 146097 + 36524 * c + 1461 * q + 365 * n + doy"
  define doe where "doe = 36524 * c + 1461 * q + 365 * n + doy"
  define r where "r = 1461 * q + 365 * n + doy"
  define r' where "r' = 365 * n + doy"
  have r': "0 \<le> r'" "r' < 1461" using assms unfolding r'_def by linarith+
  have r: "0 \<le> r" "r \<le> 36524" "r = 36524 \<longrightarrow> c = 3" using assms unfolding r_def by linarith+
  have doe: "0 \<le> doe" "doe < 146097" using assms unfolding doe_def by linarith+
  have x: "x = doe + era * 146097" by (simp add: x_def doe_def)
  then have 1: "x mod 146097 = doe" "x div 146097 = era" using doe by simp_all
  have dc: "doe = 36524 * c + r" by (simp add: doe_def r_def)
  have 2: "min 3 (doe div 36524) = c" using r assms(1,2) unfolding dc by (cases "r = 36524") simp_all
  have 3: "doe - 36524 * c = r" by (simp add: dc)
  have rq: "r = r' + q * 1461" by (simp add: r_def r'_def)
  then have 4: "r mod 1461 = r'" "r div 1461 = q" using r' by simp_all
  have 5: "min 3 (r' div 365) = n" using assms(5-9) unfolding r'_def by (cases "doy = 365") simp_all
  from year_split_parts [OF 1(1) 2 3 4(1)] show ?thesis
    unfolding 5 1(2) 4(2) by (simp add: r'_def x_def)
qed

lemma month_split_of:
  assumes "1 \<le> m" "m \<le> 12" "1 \<le> d" "d \<le> (if m = 2 then 29 else if m \<in> {4, 6, 9, 11} then 30 else 31)"
  shows "month_split ((153 * (if 2 < m then m - 3 else m + 9) + 2) div 5 + d - 1) = (m, d)"
proof -
  define mp where "mp = (if 2 < m then m - 3 else m + 9)"
  have m: "m \<in> {1, 2, 3, 4, 5, 6, 7, 8, 9, 10, 11, 12}" using assms(1,2) by simp presburger
  define a where "a = (153 * mp + 2) div 5"
  have a: "a \<le> 153 * mp div 5 + 1" "153 * mp + 2 < 5 * a + 5" "5 * a \<le> 153 * mp + 2" unfolding a_def by linarith+
  have "5 * (a + d - 1) + 2 < 153 * mp + 153"
    using m
  proof (elim insertE emptyE)
  qed (use assms(4) in \<open>simp add: a_def mp_def\<close>)+
  then have "(5 * (a + d - 1) + 2) div 153 = mp"
  proof -
    define w where "w = 5 * (a + d - 1) + 2"
    assume "5 * (a + d - 1) + 2 < 153 * mp + 153"
    then have lo: "w - 153 * mp < 153" unfolding w_def by simp
    have hi: "0 \<le> w - 153 * mp" using a(2) assms(3) unfolding w_def by simp
    from int_div_pos_eq [of w 153 mp, OF _ hi lo] show ?thesis by (simp add: w_def)
  qed
  moreover have "m = (if mp < 10 then mp + 3 else mp - 9)" using assms(1,2) by (simp add: mp_def)
  ultimately have "month_split (a + d - 1) = (m, d)"
    unfolding month_split_def Let_def by (simp only: a_def [symmetric]) simp
  then show ?thesis by (simp only: a_def mp_def)
qed

lemma mod_top: "0 < w \<Longrightarrow> w \<le> k \<Longrightarrow> w mod k = 0 \<longleftrightarrow> w = (k::int)"
  by (cases "w = k") simp_all

lemma leap_march:
  assumes "yoe = 100 * c + 4 * q + n" "0 \<le> c" "c \<le> 3" "0 \<le> q" "q \<le> 24" "0 \<le> n" "n \<le> (3::int)"
  shows "leap_year (era * 400 + yoe + 1) \<longleftrightarrow> n = 3 \<and> (q \<noteq> 24 \<or> c = 3)"
proof -
  have "(era * 400 + yoe + 1) mod 4 = (n + 1) mod 4"
    using mod_mult_self2 [of "n + 1" 4 "era * 100 + 25 * c + q"] by (simp add: assms(1) algebra_simps)
  moreover have "(era * 400 + yoe + 1) mod 100 = (4 * q + n + 1) mod 100"
    using mod_mult_self2 [of "4 * q + n + 1" 100 "era * 4 + c"] by (simp add: assms(1) algebra_simps)
  moreover have "(era * 400 + yoe + 1) mod 400 = (yoe + 1) mod 400"
    using mod_mult_self2 [of "yoe + 1" 400 era] by (simp add: algebra_simps)
  moreover have "(n + 1) mod 4 = 0 \<longleftrightarrow> n = 3" using mod_top [of "n + 1" 4] assms(6,7) by linarith
  moreover have "(4 * q + n + 1) mod 100 = 0 \<longleftrightarrow> q = 24 \<and> n = 3"
    using mod_top [of "4 * q + n + 1" 100] assms(4-7) by linarith
  moreover have "(yoe + 1) mod 400 = 0 \<longleftrightarrow> c = 3 \<and> q = 24 \<and> n = 3"
    using mod_top [of "yoe + 1" 400] assms by linarith
  ultimately show ?thesis by (simp only: leap_year_def) blast
qed

theorem civil_of_days_of_civil:
  assumes "valid_date y m d"
  shows "civil_of_days (days_of_civil y m d) = (y, m, d)"
proof -
  define y' where "y' = (if m \<le> 2 then y - 1 else y)"
  define era where "era = y' div 400"
  define yoe where "yoe = y' mod 400"
  define c where "c = yoe div 100"
  define q where "q = yoe mod 100 div 4"
  define n where "n = yoe mod 100 mod 4"
  define doy where "doy = (153 * (if 2 < m then m - 3 else m + 9) + 2) div 5 + d - 1"
  have v: "1 \<le> m" "m \<le> 12" "1 \<le> d" "d \<le> days_in_month y m" using assms by (simp_all add: valid_date_def)
  have yoe: "0 \<le> yoe" "yoe < 400" by (simp_all add: yoe_def)
  have s: "yoe = 100 * c + 4 * q + n" unfolding c_def q_def n_def by simp
  have b: "0 \<le> c" "c \<le> 3" "0 \<le> q" "q \<le> 24" "0 \<le> n" "n \<le> 3"
    using yoe unfolding c_def q_def n_def by linarith+
  have y: "y' = era * 400 + yoe" by (simp add: era_def yoe_def)
  have md: "1 \<le> d" "d \<le> (if m = 2 then 29 else if m \<in> {4, 6, 9, 11} then 30 else 31)"
    using v by (auto simp: days_in_month_def split: if_splits)
  have m: "m \<in> {1, 2, 3, 4, 5, 6, 7, 8, 9, 10, 11, 12}" using v(1,2) by simp presburger
  have doy: "0 \<le> doy" "doy \<le> 365" "doy = 365 \<longrightarrow> m = 2 \<and> d = 29"
    unfolding doy_def using m md by (elim insertE emptyE; simp)+
  have leap: "doy = 365 \<longrightarrow> n = 3 \<and> (q \<noteq> 24 \<or> c = 3)"
  proof
    assume "doy = 365"
    then have "m = 2" "d = 29" using doy(3) by simp_all
    then have "leap_year (y' + 1)" using v(4) by (auto simp: days_in_month_def y'_def split: if_splits)
    with leap_march [OF s b, of era] show "n = 3 \<and> (q \<noteq> 24 \<or> c = 3)" by (simp add: y)
  qed
  have "yoe div 4 = 25 * c + q" "yoe div 100 = c" unfolding s using b by linarith+
  then have "days_of_civil y m d + 719468 = era * 146097 + 36524 * c + 1461 * q + 365 * n + doy"
    unfolding days_of_civil_def Let_def y'_def [symmetric] era_def [symmetric] yoe_def [symmetric] doy_def
    using s by simp
  from year_split_of [OF b doy(1,2) leap, of era, folded this] month_split_of [OF v(1,2) md, folded doy_def]
  have "civil_of_days (days_of_civil y m d) = (era * 400 + 100 * c + 4 * q + n + (if m \<le> 2 then 1 else 0), m, d)"
    by (simp add: civil_of_days_def)
  then show ?thesis using y s by (simp add: y'_def split: if_splits)
qed

section \<open>Adding months and days\<close>

text \<open>\<open>time.Date(y, m, d, 0, 0, 0, 0, UTC)\<close> in days, with the month brought into its range.\<close>

definition date_days :: "int \<Rightarrow> int \<Rightarrow> int \<Rightarrow> int" where
  "date_days y m d = days_of_civil (y + (m - 1) div 12) ((m - 1) mod 12 + 1) d"

definition year_days :: "int \<Rightarrow> int" where
  "year_days y = y div 400 * 146097 + 365 * (y mod 400) + y mod 400 div 4 - y mod 400 div 100"

lemma days_of_civil_year: "days_of_civil y m d = year_days (if m \<le> 2 then y - 1 else y)
    + ((153 * (if 2 < m then m - 3 else m + 9) + 2) div 5 + d - 1) - 719468"
  by (simp add: days_of_civil_def year_days_def Let_def)

lemma div_succ_if:
  assumes "0 < (k::int)"
  shows "(a + 1) div k = a div k + (if (a + 1) mod k = 0 then 1 else 0)"
  using div_succ [OF assms, of a]
proof (elim disjE conjE)
  assume "(a + 1) div k = a div k" "(a + 1) mod k = a mod k + 1"
  moreover from this(2) have "(a + 1) mod k \<noteq> 0" using pos_mod_sign [OF assms, of a] by simp
  ultimately show ?thesis by (simp only: if_False)
qed (simp only: if_True refl)

lemma year_days_step: "year_days y = year_days (y - 1) + (if leap_year y then 366 else 365)"
proof -
  define e where "e = (y - 1) mod 400"
  define k where "k = (y - 1) div 400"
  have e: "0 \<le> e" "e < 400" by (simp_all add: e_def)
  have y: "y = k * 400 + e + 1" by (simp add: e_def k_def)
  show ?thesis
  proof (cases "e = 399")
    case True
    then have "y = 400 * (k + 1)" using y by simp
    then have "leap_year y" "year_days y = (k + 1) * 146097" by (simp_all add: leap_year_def year_days_def)
    moreover have "year_days (y - 1) = k * 146097 + 145731"
      using True by (simp add: year_days_def e_def [symmetric] k_def [symmetric])
    ultimately show ?thesis by simp
  next
    case False
    then have m: "(e + 1) mod 400 = e + 1" using e by simp
    have "y = e + 1 + k * 400" by (simp add: y)
    then have 1: "y mod 400 = e + 1" "y div 400 = k" using False e by simp_all
    have "y mod 4 = (e + 1) mod 4" "y mod 100 = (e + 1) mod 100"
      using mod_mult_self2 [of "e + 1" 4 "100 * k"] mod_mult_self2 [of "e + 1" 100 "4 * k"]
      by (simp_all add: y algebra_simps)
    then have l: "leap_year y \<longleftrightarrow> (e + 1) mod 4 = 0 \<and> (e + 1) mod 100 \<noteq> 0"
      using e False by (auto simp: leap_year_def 1)
    have d: "(e + 1) div 4 = e div 4 + (if (e + 1) mod 4 = 0 then 1 else 0)"
      "(e + 1) div 100 = e div 100 + (if (e + 1) mod 100 = 0 then 1 else 0)"
      by (rule div_succ_if; simp)+
    have h: "(e + 1) mod 100 = 0 \<Longrightarrow> (e + 1) mod 4 = 0"
      by (rule dvd_imp_mod_0, rule dvd_trans [of 4 100]) (simp, rule mod_0_imp_dvd)
    show ?thesis
      unfolding year_days_def [of y] year_days_def [of "y - 1"] 1 e_def [symmetric] k_def [symmetric] d l
      using h by (cases "(e + 1) mod 4 = 0"; cases "(e + 1) mod 100 = 0") simp_all
  qed
qed

lemma next_month_first:
  assumes "1 \<le> m" "m \<le> 12"
  shows "date_days y (m + 1) 1 = days_of_civil y m 1 + days_in_month y m"
proof -
  have "m \<in> {1, 2, 3, 4, 5, 6, 7, 8, 9, 10, 11, 12}" using assms by simp presburger
  then show ?thesis
    using year_days_step [of y]
    by (elim insertE emptyE) (simp_all add: date_days_def days_of_civil_year days_in_month_def)
qed

lemma date_days_valid [simp]: "1 \<le> m \<Longrightarrow> m \<le> 12 \<Longrightarrow> date_days y m d = days_of_civil y m d"
  by (simp add: date_days_def)

lemma civil_of_days_valid: "case civil_of_days n of (y, m, d) \<Rightarrow> valid_date y m d"
proof -
  have succ: "\<exists>y m d. valid_date y m d \<and> days_of_civil y m d = n + 1"
    if v: "valid_date y m d" "days_of_civil y m d = n" for y m d n
  proof (cases "d < days_in_month y m")
    case True
    with v(1) have "valid_date y m (d + 1)" by (simp add: valid_date_def)
    moreover have "days_of_civil y m (d + 1) = n + 1"
      using v(2) days_of_civil_day [of y m d] days_of_civil_day [of y m "d + 1"] by simp
    ultimately show ?thesis by blast
  next
    case False
    with v(1) have m: "1 \<le> m" "m \<le> 12" "d = days_in_month y m" by (simp_all add: valid_date_def)
    have "1 \<le> m mod 12 + 1" "m mod 12 + 1 \<le> 12" using m(1,2) by (cases "m = 12") simp_all
    then have "valid_date (y + m div 12) (m mod 12 + 1) 1" by (simp add: valid_date_def days_in_month_def)
    moreover have "days_of_civil (y + m div 12) (m mod 12 + 1) 1 = n + 1"
      using next_month_first [OF m(1,2), of y] v(2) days_of_civil_day [of y m d] m(3) by (simp add: date_days_def)
    ultimately show ?thesis by blast
  qed
  obtain y m d where "valid_date y m d" "days_of_civil y m d = n"
  proof -
    have up: "\<exists>y m d. valid_date y m d \<and> days_of_civil y m d = int k + b"
      if "\<exists>y m d. valid_date y m d \<and> days_of_civil y m d = b" for k :: nat and b
    proof (induction k)
      case 0
      then show ?case using that by simp
    next
      case (Suc k)
      then obtain y m d where "valid_date y m d" "days_of_civil y m d = int k + b" by blast
      from succ [OF this] show ?case by (simp add: algebra_simps)
    qed
    define e where "e = n div 146097"
    have "valid_date (400 * e) 3 1" by (simp add: valid_date_def days_in_month_def)
    moreover have "days_of_civil (400 * e) 3 1 = e * 146097 - 719468"
      by (simp add: days_of_civil_year year_days_def)
    moreover have "0 \<le> n - (e * 146097 - 719468)" unfolding e_def by simp
    ultimately have "\<exists>y m d. valid_date y m d \<and> days_of_civil y m d = int (nat (n - (e * 146097 - 719468))) + (e * 146097 - 719468)"
      by (intro up) blast
    with that show thesis using \<open>0 \<le> n - (e * 146097 - 719468)\<close> by auto
  qed
  then show ?thesis using civil_of_days_of_civil by auto
qed

section \<open>Starts of days, weeks and months\<close>

text \<open>\<open>t.AddDate(0, months, days)\<close>.\<close>

definition add_date :: "int \<Rightarrow> int \<Rightarrow> int \<Rightarrow> int" where
  "add_date t months days = (case civil_of_days (t div day_ns) of (y, m, d) \<Rightarrow>
     (date_days y (m + months) (d + days)) * day_ns + t mod day_ns)"

definition startOfDay :: "int \<Rightarrow> int" where
  "startOfDay t = (case civil_of_days (t div day_ns) of (y, m, d) \<Rightarrow> date_days y m d * day_ns)"

definition startOfWeek :: "int \<Rightarrow> int" where
  "startOfWeek t = (let day = startOfDay t in add_date day 0 ((- (weekday (day div day_ns) + 6)) smod 7))"

definition startOfMonth :: "int \<Rightarrow> int" where
  "startOfMonth t = (case civil_of_days (t div day_ns) of (y, m, d) \<Rightarrow> date_days y m 1 * day_ns)"

lemma startOfDay_eq: "startOfDay t = t div day_ns * day_ns"
  using days_of_civil_of_days [of "t div day_ns"] civil_of_days_bounds [of "t div day_ns"]
  by (simp add: startOfDay_def split: prod.splits)

lemma startOfMonth_eq: "startOfMonth t = month_start (t div day_ns) * day_ns"
  using civil_of_days_bounds [of "t div day_ns"] by (simp add: startOfMonth_def month_start_def split: prod.splits)

lemma add_days [simp]: "add_date t 0 k = t + k * day_ns"
proof -
  obtain y m d where c: "civil_of_days (t div day_ns) = (y, m, d)" by (cases "civil_of_days (t div day_ns)")
  have "days_of_civil y m (d + k) = t div day_ns + k"
    using days_of_civil_of_days [of "t div day_ns"] days_of_civil_day [of y m d] days_of_civil_day [of y m "d + k"]
    by (simp add: c)
  moreover have "date_days y m (d + k) = days_of_civil y m (d + k)"
    using civil_of_days_bounds [OF c] by simp
  ultimately have "add_date t 0 k = (t div day_ns + k) * day_ns + t mod day_ns" by (simp add: add_date_def c)
  then show ?thesis by (simp add: distrib_right)
qed

lemma startOfWeek_eq: "startOfWeek t = (t div day_ns - (weekday (t div day_ns) + 6) mod 7) * day_ns"
proof -
  have "(- x) smod 7 = - (x mod 7)" if "0 < x" for x :: int
    using that by (simp add: signed_modulo_int_def)
  from this [of "weekday (t div day_ns) + 6"]
  have "(- (weekday (t div day_ns) + 6)) smod 7 = - ((weekday (t div day_ns) + 6) mod 7)"
    using pos_mod_sign [of 7 "t div day_ns + 4"] by (simp only: weekday_def)
  then show ?thesis by (simp add: startOfWeek_def startOfDay_eq Let_def algebra_simps)
qed

text \<open>A month is the days from its first to the first of the next month.\<close>

lemma add_month: "civil_of_days (t div day_ns) = (y, m, d) \<Longrightarrow>
    add_date t 1 0 = t + days_in_month y m * day_ns"
proof -
  assume c: "civil_of_days (t div day_ns) = (y, m, d)"
  note b = civil_of_days_bounds [OF c]
  have "date_days y (m + 1) d = t div day_ns + days_in_month y m"
    using next_month_first [of m y] b days_of_civil_of_days [of "t div day_ns"] days_of_civil_day [of y m d]
      days_of_civil_day [of "y + m div 12" "m mod 12 + 1" d]
    by (simp add: c date_days_def)
  then have "add_date t 1 0 = (t div day_ns + days_in_month y m) * day_ns + t mod day_ns"
    by (simp add: add_date_def c)
  then show ?thesis by (simp add: distrib_right)
qed

lemma month_start_iff:
  assumes "month_start s = s" "civil_of_days s = (y, m, d)"
  shows "month_start n = s \<longleftrightarrow> s \<le> n \<and> n < s + days_in_month y m"
proof
  have v: "valid_date y m d" using civil_of_days_valid [of s] assms(2) by simp
  have "d = 1" using month_start_eq [OF assms(2)] assms(1) by simp
  then have s: "days_of_civil y m 1 = s" using days_of_civil_of_days [of s] assms(2) by simp
  show "s \<le> n \<and> n < s + days_in_month y m" if n: "month_start n = s"
  proof -
    obtain y' m' k where c: "civil_of_days n = (y', m', k)" by (cases "civil_of_days n")
    have v': "valid_date y' m' k" using civil_of_days_valid [of n] c by simp
    then have "valid_date y' m' 1" by (simp add: valid_date_def)
    from civil_of_days_of_civil [OF this] have "civil_of_days s = (y', m', 1)"
      using n c v' by (simp add: month_start_def)
    with assms(2) have "y' = y" "m' = m" by simp_all
    with month_start_eq [OF c] n v' show ?thesis by (simp add: valid_date_def)
  qed
  show "month_start n = s" if n: "s \<le> n \<and> n < s + days_in_month y m"
  proof -
    have "valid_date y m (n - s + 1)" using n v by (simp add: valid_date_def)
    moreover have "days_of_civil y m (n - s + 1) = n" using days_of_civil_day [of y m "n - s + 1"] s by simp
    ultimately have "civil_of_days n = (y, m, n - s + 1)" using civil_of_days_of_civil by fastforce
    from month_start_eq [OF this] show ?thesis by simp
  qed
qed

lemma month_start_idem [simp]: "month_start (month_start n) = month_start n"
proof -
  obtain y m k where c: "civil_of_days n = (y, m, k)" by (cases "civil_of_days n")
  have "valid_date y m 1" using civil_of_days_valid [of n] c by (simp add: valid_date_def days_in_month_def split: if_splits)
  from civil_of_days_of_civil [OF this] c show ?thesis by (simp add: month_start_def)
qed

lemma month_start_next:
  assumes "month_start s = s" "civil_of_days s = (y, m, d)"
  shows "month_start (s + days_in_month y m) = s + days_in_month y m"
proof -
  have v: "valid_date y m d" using civil_of_days_valid [of s] assms(2) by simp
  have "0 < days_in_month y m" by (simp add: days_in_month_def)
  let ?n = "s + days_in_month y m"
  have "month_start ?n \<noteq> s" using month_start_iff [OF assms, of ?n] by simp
  moreover have "month_start (?n - 1) = s"
    using month_start_iff [OF assms, of "?n - 1"] \<open>0 < days_in_month y m\<close> by simp
  moreover have "month_start (?n - 1) \<le> month_start ?n" by (rule month_start_mono) simp
  ultimately have "s < month_start ?n" by simp
  show ?thesis
  proof (rule ccontr)
    assume "month_start ?n \<noteq> ?n"
    with month_start_bounds(1) [of ?n] have "month_start ?n \<le> ?n - 1" by simp
    from month_start_mono [OF this] \<open>month_start (?n - 1) = s\<close> \<open>s < month_start ?n\<close> show False by simp
  qed
qed

section \<open>Printed days read back\<close>

lemma take4_pad: "0 \<le> y \<Longrightarrow> y < 10000 \<Longrightarrow> take4 (pad 4 y @ s) = Some (y, s)"
  using length_pad [of y 4] by (simp add: take4_def)

lemma length_2: "length xs = 2 \<Longrightarrow> \<exists>a b. xs = [a, b]"
  by (cases xs; cases "tl xs") auto

lemma take2_pad:
  assumes "0 \<le> n" "n < 100"
  shows "take2 (pad 2 n @ s) = Some (n, s)"
proof -
  obtain a b where p: "pad 2 n = [a, b]" using length_2 [of "pad 2 n"] assms by auto
  have "is_digit a" "is_digit b" using pad_digits [of _ 2 n] p by simp_all
  moreover have "digit_val a * 10 + digit_val b = n"
    using digits_val_pad [of n 2] assms(1) p calculation by simp
  ultimately show ?thesis by (simp add: take2_def p)
qed

lemma take_date_format:
  assumes "civil_of_days n = (y, m, d)" "0 \<le> y" "y < 10000"
  shows "take_date (format_date n @ s) = Some (n, s)"
proof -
  have v: "valid_date y m d" using civil_of_days_valid [of n] assms(1) by simp
  then have "m < 100" "d < 100" "0 \<le> m" "0 \<le> d" using civil_of_days_bounds [OF assms(1)] by simp_all
  moreover have "days_of_civil y m d = n" using days_of_civil_of_days [of n] assms(1) by simp
  ultimately show ?thesis
    using assms v by (simp add: take_date_def format_date_def format_year_def take4_pad take2_pad expect_def valid_date_def)
qed

theorem parse_format_date:
  assumes "civil_of_days n = (y, m, d)" "0 \<le> y" "y < 10000"
  shows "parse_date (format_date n) = Some (n * day_ns)"
  using take_date_format [OF assms, of "[]"] by (simp add: parse_date_def)

end
