(* ===== verification/Net.thy ===== *)
theory Net
  imports Prelude
begin

text \<open>
  What the sources use of Go's package \<open>net\<close>: \<open>ParseIP\<close> with \<open>IsLoopback\<close>, and
  \<open>SplitHostPort\<close>.  An address is its sixteen bytes, an IPv4 address in its mapped form, as
  \<open>net.ParseIP\<close> returns it.
\<close>

section \<open>IP addresses\<close>

text \<open>One decimal field of an IPv4 address: no empty field, no leading zero, at most 255.\<close>

definition v4_field :: "string \<Rightarrow> int option" where
  "v4_field f = (if f = [] \<or> (1 < length f \<and> hd f = CHR ''0'') then None
     else case digits_val 0 f of Some n \<Rightarrow> if n \<le> 255 then Some n else None | None \<Rightarrow> None)"

fun split_on :: "char \<Rightarrow> string \<Rightarrow> string list" where
  "split_on c [] = [[]]"
| "split_on c (x # xs) = (if x = c then [] # split_on c xs
     else case split_on c xs of [] \<Rightarrow> [[x]] | f # fs \<Rightarrow> (x # f) # fs)"

definition parse_v4 :: "string \<Rightarrow> int list option" where
  "parse_v4 s = (let fs = split_on (CHR ''.'') s in
     if length fs = 4 then those (map v4_field fs) else None)"

definition hex_char :: "char \<Rightarrow> bool" where
  "hex_char c \<longleftrightarrow> is_digit c \<or> byte_in 97 102 (ascii_lower c)"

definition hex_num :: "string \<Rightarrow> int" where
  "hex_num ds = fold (\<lambda>c a. a * 16 + (if is_digit c then digit_val c else of_char (ascii_lower c) - 87)) ds 0"

text \<open>
  The loop of \<open>netip.parseIPv6\<close>: the bytes so far, the position of the ellipsis, the rest of
  the string.  The result is the bytes and the ellipsis once the whole string is used.
\<close>

function v6_loop :: "int list \<Rightarrow> nat option \<Rightarrow> string \<Rightarrow> (int list \<times> nat option) option" where
  "v6_loop ip ell s =
     (if 16 \<le> length ip then None
      else let ds = takeWhile hex_char s; r = dropWhile hex_char s in
        if ds = [] \<or> 4 < length ds then None
        else case r of
          [] \<Rightarrow> Some (ip @ [hex_num ds div 256, hex_num ds mod 256], ell)
        | c # r1 \<Rightarrow>
            if c = CHR ''.'' then
              (if (ell = None \<and> length ip \<noteq> 12) \<or> 12 < length ip then None
               else map_option (\<lambda>b. (ip @ b, ell)) (parse_v4 s))
            else if c \<noteq> CHR '':'' then None
            else let ip' = ip @ [hex_num ds div 256, hex_num ds mod 256] in
              (case r1 of [] \<Rightarrow> None
               | d # r2 \<Rightarrow>
                   if d = CHR '':'' then
                     (if ell \<noteq> None then None
                      else if r2 = [] then Some (ip', Some (length ip'))
                      else v6_loop ip' (Some (length ip')) r2)
                   else v6_loop ip' ell r1))"
  by pat_completeness auto
termination
proof (relation "measure (\<lambda>(ip, ell, s). length s)", goal_cases)
  case 1 show ?case by simp
next
  case (2 ip ell s x xa x21 x22 xb x21a x22a)
  then have "length (dropWhile hex_char s) = Suc (Suc (length x22a))" by (metis length_Cons)
  with length_dropWhile_le [of hex_char s] show ?case by simp
next
  case (3 ip ell s x xa x21 x22 xb x21a x22a)
  then have "length (dropWhile hex_char s) = Suc (length x22)" by (metis length_Cons)
  with length_dropWhile_le [of hex_char s] show ?case by simp
qed

declare v6_loop.simps [simp del]

definition parse_v6 :: "string \<Rightarrow> int list option" where
  "parse_v6 s = (let (ell, r) = (if prefix ''::'' s then (Some 0, drop 2 s) else (None, s)) in
     if ell = Some 0 \<and> r = [] then Some (replicate 16 0)
     else case v6_loop [] ell r of
       None \<Rightarrow> None
     | Some (ip, None) \<Rightarrow> if length ip = 16 then Some ip else None
     | Some (ip, Some e) \<Rightarrow>
         if length ip < 16 then Some (take e ip @ replicate (16 - length ip) 0 @ drop e ip) else None)"

definition parse_ip :: "string \<Rightarrow> int list option" where
  "parse_ip s = (case dropWhile (\<lambda>c. c \<noteq> CHR ''.'' \<and> c \<noteq> CHR '':'' \<and> c \<noteq> CHR ''%'') s of
     [] \<Rightarrow> None
   | c # _ \<Rightarrow> if c = CHR ''.'' then map_option (\<lambda>b. replicate 10 0 @ [255, 255] @ b) (parse_v4 s)
       else if c = CHR '':'' \<and> CHR ''%'' \<notin> set s then parse_v6 s else None)"

definition is_loopback :: "int list \<Rightarrow> bool" where
  "is_loopback ip \<longleftrightarrow> (if take 12 ip = replicate 10 0 @ [255, 255] then ip ! 12 = 127
     else ip = replicate 15 0 @ [1])"

section \<open>Host and port\<close>

text \<open>The index of the last occurrence of a character.\<close>

definition last_index :: "char \<Rightarrow> string \<Rightarrow> nat option" where
  "last_index c s = (if c \<in> set s then Some (length s - Suc (length (takeWhile (\<lambda>x. x \<noteq> c) (rev s)))) else None)"

definition split_host_port :: "string \<Rightarrow> (string \<times> string) option" where
  "split_host_port hp = (case last_index (CHR '':'') hp of
     None \<Rightarrow> None
   | Some i \<Rightarrow>
       if hd hp = CHR ''['' then
         (let e = length (takeWhile (\<lambda>x. x \<noteq> CHR '']'') hp) in
          if CHR '']'' \<notin> set hp \<or> e + 1 \<noteq> i then None
          else if CHR ''['' \<in> set (drop 1 hp) \<or> CHR '']'' \<in> set (drop (e + 1) hp) then None
          else Some (drop 1 (take e hp), drop (i + 1) hp))
       else
         if CHR '':'' \<in> set (take i hp) then None
         else if CHR ''['' \<in> set hp \<or> CHR '']'' \<in> set hp then None
         else Some (take i hp, drop (i + 1) hp))"

text \<open>\<open>strings.Trim(s, "[]")\<close>.\<close>

definition trim_brackets :: "string \<Rightarrow> string" where
  "trim_brackets s = (let b = (\<lambda>c. c = CHR ''['' \<or> c = CHR '']'') in
     rev (dropWhile b (rev (dropWhile b s))))"

text \<open>A host name that always denotes this machine.\<close>

definition loopback_ip :: "string \<Rightarrow> bool" where
  "loopback_ip host = (case parse_ip host of Some ip \<Rightarrow> is_loopback ip | None \<Rightarrow> False)"

end
