(* ===== verification/Float64.thy ===== *)
theory Float64
  imports Prelude
begin

text \<open>
  The Go type \<open>float64\<close>: IEEE 754 binary64 values with round-to-nearest-even arithmetic.

  A finite value is its exact rational; \<open>fl\<close> rounds a rational to the nearest binary64 value
  (ties to even, gradual underflow, overflow to infinity), and every operation rounds its exact
  result once, as the hardware does.  The two zeros are identified: no source branch
  distinguishes them.  Go may fuse \<open>x*y + z\<close> on some architectures; the model rounds twice.
\<close>

datatype f64 = NaN | Inf bool | Fin rat

section \<open>Rounding\<close>

function bits :: "int \<Rightarrow> nat" where
  "bits n = (if n \<le> 0 then 0 else Suc (bits (n div 2)))"
  by pat_completeness auto
termination
  by (relation "measure nat") auto

declare bits.simps [simp del]

text \<open>Round half to even.\<close>

definition rne :: "rat \<Rightarrow> int" where
  "rne x = (let f = \<lfloor>x\<rfloor>; d = x - of_int f in
     if d < 1 / 2 then f else if 1 / 2 < d then f + 1 else if even f then f else f + 1)"

text \<open>The binary logarithm of a positive rational, rounded down.\<close>

definition lg :: "rat \<Rightarrow> int" where
  "lg x = (let (p, q) = quotient_of x; k = int (bits p) - int (bits q)
     in if x < 2 powi k then k - 1 else k)"

definition ulp_exp :: "rat \<Rightarrow> int" where
  "ulp_exp x = max (lg x - 52) (- 1074)"

text \<open>The magnitude of the rounding, before the overflow check.\<close>

definition fl_abs :: "rat \<Rightarrow> rat" where
  "fl_abs x = (if x = 0 then 0 else of_int (rne (x / 2 powi ulp_exp x)) * 2 powi ulp_exp x)"

definition overflow_bound :: rat where
  "overflow_bound = 2 ^ 1024"

definition fl :: "rat \<Rightarrow> f64" where
  "fl x = (let r = fl_abs \<bar>x\<bar> in
     if overflow_bound \<le> r then Inf (x < 0) else Fin (if x < 0 then - r else r))"

section \<open>Operations\<close>

fun f_neg :: "f64 \<Rightarrow> f64" where
  "f_neg NaN = NaN"
| "f_neg (Inf s) = Inf (\<not> s)"
| "f_neg (Fin a) = Fin (- a)"

fun f_add :: "f64 \<Rightarrow> f64 \<Rightarrow> f64" where
  "f_add (Fin a) (Fin b) = fl (a + b)"
| "f_add (Inf s) (Fin _) = Inf s"
| "f_add (Fin _) (Inf s) = Inf s"
| "f_add (Inf s) (Inf t) = (if s = t then Inf s else NaN)"
| "f_add _ _ = NaN"

fun f_mul :: "f64 \<Rightarrow> f64 \<Rightarrow> f64" where
  "f_mul (Fin a) (Fin b) = fl (a * b)"
| "f_mul (Inf s) (Fin b) = (if b = 0 then NaN else Inf (s \<noteq> (b < 0)))"
| "f_mul (Fin a) (Inf t) = (if a = 0 then NaN else Inf (t \<noteq> (a < 0)))"
| "f_mul (Inf s) (Inf t) = Inf (s \<noteq> t)"
| "f_mul _ _ = NaN"

text \<open>Division by a finite nonzero divisor, the only one the sources use.\<close>

fun f_div :: "f64 \<Rightarrow> rat \<Rightarrow> f64" where
  "f_div (Fin a) b = fl (a / b)"
| "f_div (Inf s) b = Inf (s \<noteq> (b < 0))"
| "f_div NaN _ = NaN"

fun f_lt :: "f64 \<Rightarrow> f64 \<Rightarrow> bool" where
  "f_lt (Fin a) (Fin b) = (a < b)"
| "f_lt (Inf s) (Fin _) = s"
| "f_lt (Fin _) (Inf t) = (\<not> t)"
| "f_lt (Inf s) (Inf t) = (s \<and> \<not> t)"
| "f_lt _ _ = False"

definition is_nan :: "f64 \<Rightarrow> bool" where
  "is_nan x \<longleftrightarrow> x = NaN"

definition is_inf :: "f64 \<Rightarrow> bool" where
  "is_inf x \<longleftrightarrow> (case x of Inf _ \<Rightarrow> True | _ \<Rightarrow> False)"

text \<open>\<open>float64(n)\<close> of an \<open>int64\<close>; \<open>int64(d)\<close> and \<open>math.Trunc\<close> of a finite value.\<close>

definition f_of_int :: "int \<Rightarrow> f64" where
  "f_of_int n = fl (of_int n)"

definition trunc_rat :: "rat \<Rightarrow> int" where
  "trunc_rat q = (if q < 0 then \<lceil>q\<rceil> else \<lfloor>q\<rfloor>)"

definition fin_val :: "f64 \<Rightarrow> rat" where
  "fin_val x = (case x of Fin q \<Rightarrow> q | _ \<Rightarrow> 0)"

text \<open>\<open>!math.IsNaN(x) \<and> !math.IsInf(x, 0) \<and> x >= 0 \<and> x <= hi\<close>.\<close>

definition in_range :: "rat \<Rightarrow> f64 \<Rightarrow> bool" where
  "in_range hi x \<longleftrightarrow> \<not> is_nan x \<and> \<not> is_inf x \<and> \<not> f_lt x (Fin 0) \<and> \<not> f_lt (Fin hi) x"

lemma in_range_Fin: "in_range hi x \<longleftrightarrow> (\<exists>q. x = Fin q \<and> 0 \<le> q \<and> q \<le> hi)"
  by (cases x) (auto simp: in_range_def is_nan_def is_inf_def)

section \<open>Facts about rounding\<close>

lemma rne_of_int [simp]: "rne (of_int n) = n"
  by (simp add: rne_def)

lemma rne_of_nat [simp]: "rne (of_nat n) = int n"
  using rne_of_int [of "int n"] by simp

lemma rne_mono:
  assumes "x \<le> y"
  shows "rne x \<le> rne y"
proof (cases "\<lfloor>x\<rfloor> = \<lfloor>y\<rfloor>")
  case True
  with assms show ?thesis by (auto simp: rne_def Let_def)
next
  case False
  with assms have "\<lfloor>x\<rfloor> + 1 \<le> \<lfloor>y\<rfloor>" using floor_mono [OF assms] by linarith
  moreover have "rne x \<le> \<lfloor>x\<rfloor> + 1" and "\<lfloor>y\<rfloor> \<le> rne y"
    by (auto simp: rne_def Let_def)
  ultimately show ?thesis by linarith
qed

lemma rne_nonneg: "0 \<le> x \<Longrightarrow> 0 \<le> rne x"
  using rne_mono [of 0 x] rne_of_int [of 0] by simp

lemma bits_bounds: "0 < n \<Longrightarrow> 2 ^ (bits n - 1) \<le> n \<and> n < 2 ^ bits n"
proof (induction n rule: bits.induct)
  case (1 n)
  show ?case
  proof (cases "n = 1")
    case True
    then show ?thesis by (simp add: bits.simps [of 1] bits.simps [of 0])
  next
    case False
    with 1 have IH: "2 ^ (bits (n div 2) - 1) \<le> n div 2" "n div 2 < 2 ^ bits (n div 2)"
      and pos: "0 < n div 2" by auto
    then have "bits (n div 2) \<noteq> 0" by (auto simp: bits.simps [of "n div 2"])
    then obtain k where k: "bits (n div 2) = Suc k" by (cases "bits (n div 2)") auto
    define P where "P = (2::int) ^ k"
    from IH k have "P \<le> n div 2" "n div 2 < 2 * P" by (simp_all add: P_def)
    then have "2 * P \<le> n" "n < 4 * P" by linarith+
    moreover have "bits n = Suc (Suc k)" using 1 k by (simp add: bits.simps [of n])
    ultimately show ?thesis by (simp add: P_def)
  qed
qed

lemma bits_pos: "0 < n \<Longrightarrow> 0 < bits n"
  by (simp add: bits.simps [of n])

lemma lg_bounds:
  assumes "0 < x"
  shows "2 powi lg x \<le> x \<and> x < 2 powi (lg x + 1)"
proof -
  obtain p q where pq: "quotient_of x = (p, q)" by force
  then have q: "0 < q" and x: "x = of_int p / of_int q"
    by (auto simp: quotient_of_denom_pos quotient_of_div)
  with assms have p: "0 < p" by (simp add: zero_less_divide_iff)
  define a where "a = bits p"
  define b where "b = bits q"
  have ab: "0 < a" "0 < b" using p q by (simp_all add: a_def b_def bits_pos)
  have cast: "of_int (2 ^ k) = (2 :: rat) ^ k" for k by simp
  have P': "(2::rat) ^ (a - 1) \<le> of_int p" "of_int p < (2::rat) ^ a"
    and Q': "(2::rat) ^ (b - 1) \<le> of_int q" "of_int q < (2::rat) ^ b"
    using bits_bounds [OF p] bits_bounds [OF q]
    by (simp_all only: a_def b_def cast [symmetric] of_int_le_iff of_int_less_iff)
  have pow: "(2::rat) powi (int m - int n) = 2 ^ m / 2 ^ n" for m n
    by (simp add: power_int_diff)
  have lo: "2 powi (int a - int b - 1) \<le> x"
  proof -
    have "(2::rat) powi (int a - int b - 1) = 2 ^ (a - 1) / 2 ^ b"
      using ab pow [of "a - 1" b] by (simp add: of_nat_diff algebra_simps)
    also have "\<dots> \<le> of_int p / of_int q"
      using P' Q' p q by (intro frac_le) auto
    finally show ?thesis by (simp add: x)
  qed
  have hi: "x < 2 powi (int a - int b + 1)"
  proof -
    have "of_int p / of_int q < (2::rat) ^ a / 2 ^ (b - 1)"
      using P' Q' p q by (intro frac_less) auto
    also have "\<dots> = 2 powi (int a - int b + 1)"
      using ab pow [of a "b - 1"] by (simp add: of_nat_diff algebra_simps)
    finally show ?thesis by (simp add: x)
  qed
  from lo hi show ?thesis
    by (auto simp: lg_def Let_def pq a_def [symmetric] b_def [symmetric])
qed

lemma lg_le_iff: "0 < x \<Longrightarrow> k \<le> lg x \<longleftrightarrow> 2 powi k \<le> x"
proof
  assume x: "0 < x"
  show "2 powi k \<le> x" if "k \<le> lg x"
    using power_int_increasing [OF that, of "2::rat"] lg_bounds [OF x] by linarith
  show "k \<le> lg x" if "2 powi k \<le> x"
  proof (rule ccontr)
    assume "\<not> k \<le> lg x"
    then have "(2::rat) powi (lg x + 1) \<le> 2 powi k" by (intro power_int_increasing) auto
    with that lg_bounds [OF x] show False by linarith
  qed
qed

lemma lg_mono: "0 < x \<Longrightarrow> x \<le> y \<Longrightarrow> lg x \<le> lg y"
  using lg_le_iff [of y "lg x"] lg_le_iff [of x "lg x"] by force

lemma fl_abs_nonneg: "0 \<le> x \<Longrightarrow> 0 \<le> fl_abs x"
  by (auto simp: fl_abs_def intro!: mult_nonneg_nonneg rne_nonneg)

lemma fl_abs_mono:
  assumes "0 \<le> x" "x \<le> y"
  shows "fl_abs x \<le> fl_abs y"
proof (cases "x = 0")
  case True
  with assms fl_abs_nonneg [of y] show ?thesis by (simp add: fl_abs_def)
next
  case False
  with assms have pos: "0 < x" "0 < y" by auto
  let ?e = "ulp_exp x" and ?f = "ulp_exp y"
  have le: "?e \<le> ?f" using lg_mono [OF pos(1) assms(2)] by (simp add: ulp_exp_def)
  show ?thesis
  proof (cases "?e = ?f")
    case True
    have "rne (x / 2 powi ?f) \<le> rne (y / 2 powi ?f)"
      using assms by (intro rne_mono divide_right_mono) auto
    with True pos show ?thesis by (simp add: fl_abs_def mult_right_mono)
  next
    case False
    with le have lt: "?e < ?f" by simp
    then have f: "?f = lg y - 52" by (auto simp: ulp_exp_def)
    have "lg x + 1 \<le> ?e + 53" by (simp add: ulp_exp_def)
    then have "(2::rat) powi (lg x + 1) \<le> 2 powi (?e + 53)"
      by (intro power_int_increasing) auto
    with lg_bounds [OF pos(1)] have "x \<le> 2 ^ 53 * 2 powi ?e" by (simp add: power_int_add)
    then have "x / 2 powi ?e \<le> of_int (2 ^ 53)" by (simp add: pos_divide_le_eq)
    from rne_mono [OF this] have "rne (x / 2 powi ?e) \<le> 2 ^ 53" by (simp only: rne_of_int)
    then have "of_int (rne (x / 2 powi ?e)) \<le> (of_int (2 ^ 53) :: rat)" by (simp only: of_int_le_iff)
    then have "fl_abs x \<le> 2 ^ 53 * 2 powi ?e"
      using pos by (simp add: fl_abs_def mult_right_mono)
    also have "\<dots> = 2 powi (?e + 53)" by (simp add: power_int_add)
    also have "\<dots> \<le> 2 powi (?f + 52)" using lt by (intro power_int_increasing) auto
    also have "\<dots> \<le> fl_abs y"
    proof -
      have "(2::rat) powi (?f + 52) \<le> y" using lg_bounds [OF pos(2)] f by simp
      then have "of_int (2 ^ 52) \<le> y / 2 powi ?f" by (simp add: power_int_add pos_le_divide_eq)
      from rne_mono [OF this] have "2 ^ 52 \<le> rne (y / 2 powi ?f)" by (simp only: rne_of_int)
      then have "(of_int (2 ^ 52) :: rat) \<le> of_int (rne (y / 2 powi ?f))" by (simp only: of_int_le_iff)
      then show ?thesis using pos by (simp add: fl_abs_def power_int_add mult_right_mono)
    qed
    finally show ?thesis .
  qed
qed

lemma fl_abs_int:
  assumes "n \<le> 2 ^ 53"
  shows "fl_abs (of_nat n) = of_nat n"
proof (cases "n = 0 \<or> n = 2 ^ 53")
  case True
  then show ?thesis
  proof
    assume n: "n = 2 ^ 53"
    have "lg (2 ^ 53) = 53"
      using lg_bounds [of "2 ^ 53"] lg_le_iff [of "2 ^ 53" 53] lg_le_iff [of "2 ^ 53" 54] by force
    then show ?thesis using n rne_of_int [of "2 ^ 52"] by (simp add: fl_abs_def ulp_exp_def)
  qed (simp add: fl_abs_def)
next
  case False
  with assms have n: "0 < n" "n < 2 ^ 53" by auto
  have "\<not> 53 \<le> lg (of_nat n)"
    using n lg_le_iff [of "of_nat n" 53]
    by (metis (mono_tags, lifting) linorder_not_le of_nat_0_less_iff of_nat_less_iff of_nat_numeral of_nat_power power_int_numeral)
  then have e: "ulp_exp (of_nat n) \<le> 0" by (simp add: ulp_exp_def)
  define k where "k = nat (- ulp_exp (of_nat n))"
  have k: "ulp_exp (of_nat n) = - int k" using e by (simp add: k_def)
  have "(of_nat n :: rat) / 2 powi ulp_exp (of_nat n) = of_int (int n * 2 ^ k)"
    by (simp add: k power_int_minus divide_inverse)
  then have "rne (of_nat n / 2 powi ulp_exp (of_nat n)) = int n * 2 ^ k" by (simp only: rne_of_int)
  then show ?thesis using n by (simp add: fl_abs_def k power_int_minus)
qed

lemma f_of_int_exact:
  assumes "\<bar>n\<bar> \<le> 2 ^ 53"
  shows "f_of_int n = Fin (of_int n)"
proof -
  have "fl_abs (of_nat (nat \<bar>n\<bar>)) = of_nat (nat \<bar>n\<bar>)"
    using assms by (intro fl_abs_int) (simp add: nat_le_iff)
  then have *: "fl_abs \<bar>of_int n\<bar> = \<bar>of_int n\<bar>" by simp
  have "\<bar>of_int n\<bar> \<le> (2 ^ 53 :: rat)"
    using assms by (metis of_int_abs of_int_le_iff of_int_numeral of_int_power)
  moreover have "(2::rat) ^ 53 < overflow_bound" unfolding overflow_bound_def by (rule power_strict_increasing) auto
  ultimately have "\<not> overflow_bound \<le> \<bar>of_int n :: rat\<bar>" by linarith
  then show ?thesis by (simp add: f_of_int_def fl_def Let_def *)
qed

text \<open>The order on values that are not NaN, and its laws for nonnegative arguments.\<close>

definition f_le :: "f64 \<Rightarrow> f64 \<Rightarrow> bool" where
  "f_le x y \<longleftrightarrow> \<not> is_nan x \<and> \<not> is_nan y \<and> \<not> f_lt y x"

definition f_nonneg :: "f64 \<Rightarrow> bool" where
  "f_nonneg x \<longleftrightarrow> f_le (Fin 0) x"

lemma f_nonneg_cases: "f_nonneg x \<longleftrightarrow> x = Inf False \<or> (\<exists>q \<ge> 0. x = Fin q)"
  by (cases x) (auto simp: f_nonneg_def f_le_def is_nan_def)

lemma fl_nonneg: "0 \<le> q \<Longrightarrow> f_nonneg (fl q)"
  by (auto simp: f_nonneg_cases fl_def Let_def fl_abs_nonneg)

lemma fl_mono: "0 \<le> p \<Longrightarrow> p \<le> q \<Longrightarrow> f_le (fl p) (fl q)"
  using fl_abs_mono [of p q] by (auto simp: f_le_def is_nan_def fl_def Let_def)

lemma f_le_refl: "f_nonneg x \<Longrightarrow> f_le x x"
  by (auto simp: f_nonneg_cases f_le_def is_nan_def)

lemma f_le_trans: "f_le x y \<Longrightarrow> f_le y z \<Longrightarrow> f_le x z"
  by (cases x; cases y; cases z) (auto simp: f_le_def is_nan_def)

lemma f_add_nonneg: "f_nonneg x \<Longrightarrow> f_nonneg y \<Longrightarrow> f_nonneg (f_add x y)"
  by (auto simp: f_nonneg_cases [of x] f_nonneg_cases [of y] fl_nonneg f_nonneg_cases [of "Inf False"])

lemma fl_not_NaN [simp]: "fl q \<noteq> NaN"
  by (simp add: fl_def Let_def)

lemma f_le_Inf: "x \<noteq> NaN \<Longrightarrow> f_le x (Inf False)"
  by (cases x) (auto simp: f_le_def is_nan_def)

lemma f_add_mono:
  assumes "f_nonneg x" "f_nonneg y" "f_le x x'" "f_le y y'"
  shows "f_le (f_add x y) (f_add x' y')"
proof (cases "x' = Inf False \<or> y' = Inf False")
  case True
  have "f_nonneg x'" "f_nonneg y'"
    using assms f_le_trans unfolding f_nonneg_def by blast+
  with True have "f_add x' y' = Inf False"
    by (auto simp: f_nonneg_cases)
  moreover have "f_add x y \<noteq> NaN"
    using f_add_nonneg [OF assms(1,2)] by (auto simp: f_nonneg_cases)
  ultimately show ?thesis by (simp add: f_le_Inf)
next
  case False
  have "f_nonneg x'" "f_nonneg y'"
    using assms f_le_trans unfolding f_nonneg_def by blast+
  with False obtain a' b' where fin: "x' = Fin a'" "y' = Fin b'"
    by (auto simp: f_nonneg_cases)
  with assms obtain a b where "x = Fin a" "y = Fin b" "0 \<le> a" "a \<le> a'" "0 \<le> b" "b \<le> b'"
    by (auto simp: f_nonneg_cases f_le_def is_nan_def)
  with fin show ?thesis by (simp add: fl_mono)
qed

lemma f_mul_nonneg:
  "f_nonneg x \<Longrightarrow> 0 \<le> q \<Longrightarrow> x \<noteq> Inf False \<Longrightarrow> f_nonneg (f_mul x (Fin q))"
  by (auto simp: f_nonneg_cases [of x] fl_nonneg)

section \<open>Parsing\<close>

text \<open>
  \<open>strconv.ParseFloat(s, 64)\<close>: decimal and hexadecimal literals, and the names of the infinities
  and NaN.  A literal that rounds to an infinity is a range error, so it gives \<open>None\<close> like a
  syntax error.  Digit separators (legal in hexadecimal literals only) are not accepted.
\<close>

definition is_hex_digit :: "char \<Rightarrow> bool" where
  "is_hex_digit c \<longleftrightarrow> is_digit c \<or> byte_in 97 102 (ascii_lower c)"

definition hex_val :: "char \<Rightarrow> int" where
  "hex_val c = (if is_digit c then digit_val c else of_char (ascii_lower c) - 87)"

definition digits_num :: "int \<Rightarrow> string \<Rightarrow> int" where
  "digits_num base ds = fold (\<lambda>c a. a * base + hex_val c) ds 0"

text \<open>Integer digits, fraction digits and what follows them.\<close>

definition scan_mantissa :: "(char \<Rightarrow> bool) \<Rightarrow> string \<Rightarrow> string \<times> string \<times> string" where
  "scan_mantissa p s = (let r = dropWhile p s in
     case r of c # cs \<Rightarrow> if c = CHR ''.'' then (takeWhile p s, takeWhile p cs, dropWhile p cs)
                      else (takeWhile p s, [], r)
     | [] \<Rightarrow> (takeWhile p s, [], []))"

definition scan_exponent :: "char \<Rightarrow> string \<Rightarrow> int option" where
  "scan_exponent mark s = (case s of [] \<Rightarrow> None
     | c # cs \<Rightarrow> if ascii_lower c \<noteq> mark then None
         else let (neg, ds) = split_sign cs in
           if ds = [] then None else map_option (\<lambda>e. if neg then - e else e) (digits_val 0 ds))"

definition parse_decimal :: "string \<Rightarrow> rat option" where
  "parse_decimal s = (let (ip, fp, r) = scan_mantissa is_digit s in
     if ip = [] \<and> fp = [] then None
     else map_option (\<lambda>e. of_int (digits_num 10 (ip @ fp)) * 10 powi (e - int (length fp)))
       (if r = [] then Some 0 else scan_exponent (CHR ''e'') r))"

definition parse_hex :: "string \<Rightarrow> rat option" where
  "parse_hex s = (let (ip, fp, r) = scan_mantissa is_hex_digit s in
     if ip = [] \<and> fp = [] then None
     else map_option (\<lambda>e. of_int (digits_num 16 (ip @ fp)) * 2 powi (e - 4 * int (length fp)))
       (scan_exponent (CHR ''p'') r))"

definition parse_float :: "string \<Rightarrow> f64 option" where
  "parse_float s = (let (neg, t) = split_sign s in
     if to_lower t = ''inf'' \<or> to_lower t = ''infinity'' then Some (Inf neg)
     else if to_lower s = ''nan'' then Some NaN
     else case (if prefix ''0x'' (to_lower t) then parse_hex (drop 2 t) else parse_decimal t) of
       None \<Rightarrow> None
     | Some q \<Rightarrow> (case fl q of Inf _ \<Rightarrow> None | v \<Rightarrow> Some (if neg then f_neg v else v)))"

end
