(* ===== verification/Json.thy ===== *)
theory Json
  imports Float64
begin

text \<open>
  JSON values and the decoding rules of Go's \<open>encoding/json\<close> into the types the sources decode
  into.  The text-to-tree step is a parameter of the definitions that start from text; a tree
  keeps number literals as written, object members in document order, and duplicates.

  The rules modelled: \<open>null\<close> leaves any target unchanged and is no error; a value of the wrong
  kind is an error; member names of a struct match without regard to case; later members win.
\<close>

datatype json = JNull | JBool bool | JNum string | JStr string | JArr "json list"
  | JObj "(string \<times> json) list"

text \<open>Decoding one value into a target that holds \<open>old\<close>; \<open>None\<close> is a type error.\<close>

fun decode_string :: "string \<Rightarrow> json \<Rightarrow> string option" where
  "decode_string old JNull = Some old"
| "decode_string old (JStr s) = Some s"
| "decode_string old _ = None"

fun decode_int64 :: "int \<Rightarrow> json \<Rightarrow> int option" where
  "decode_int64 old JNull = Some old"
| "decode_int64 old (JNum lit) = parse_int64 lit"
| "decode_int64 old _ = None"

fun decode_float :: "f64 option \<Rightarrow> json \<Rightarrow> f64 option option" where
  "decode_float old JNull = Some None"
| "decode_float old (JNum lit) = map_option Some (parse_float lit)"
| "decode_float old _ = None"

fun decode_strings :: "json \<Rightarrow> string list option" where
  "decode_strings JNull = Some []"
| "decode_strings (JArr vs) = those (map (decode_string []) vs)"
| "decode_strings _ = None"

text \<open>A \<open>map[string]json.RawMessage\<close>: later members replace earlier ones of the same name.\<close>

fun decode_raw_map :: "(string \<rightharpoonup> json) \<Rightarrow> json \<Rightarrow> (string \<rightharpoonup> json) option" where
  "decode_raw_map old JNull = Some Map.empty"
| "decode_raw_map old (JObj kvs) = Some (old ++ map_of (rev kvs))"
| "decode_raw_map old _ = None"

text \<open>The values of a struct's field, decoded one after the other.\<close>

definition field_values :: "string \<Rightarrow> (string \<times> json) list \<Rightarrow> json list" where
  "field_values name kvs = map snd (filter (\<lambda>(k, _). equal_fold k name) kvs)"

definition decode_field :: "('a \<Rightarrow> json \<Rightarrow> 'a option) \<Rightarrow> string \<Rightarrow> (string \<times> json) list \<Rightarrow> 'a \<Rightarrow> 'a option" where
  "decode_field dec name kvs init =
     fold (\<lambda>v acc. Option.bind acc (\<lambda>old. dec old v)) (field_values name kvs) (Some init)"

text \<open>A struct target: an object, or \<open>null\<close>, which leaves the struct unchanged.\<close>

fun struct_members :: "json \<Rightarrow> (string \<times> json) list option" where
  "struct_members JNull = Some []"
| "struct_members (JObj kvs) = Some kvs"
| "struct_members _ = None"

end
