(* ===== verification/Telemetry.thy ===== *)
theory Telemetry
  imports Json Calendar
begin

text \<open>
  The canonical usage record and the attribute readers of \<open>internal/normalize/normalize.go\<close>.

  An attribute map of the OTLP library (\<open>pcommon.Map\<close>) is an association list in its own order:
  \<open>Get\<close> returns the first entry of a key and \<open>Range\<close> visits the entries in order.  The model
  keeps the value kinds the code distinguishes; nested maps, slices, bytes and empty values are
  \<open>AOther\<close>, since the code only tests that they are none of the others.
\<close>

datatype attr_value = AStr string | AInt int | ADouble f64 | ABool bool | AOther

type_synonym attrs = "(string \<times> attr_value) list"

definition attr_get :: "attrs \<Rightarrow> string \<Rightarrow> attr_value option" where
  "attr_get m k = map_of m k"

section \<open>The record\<close>

definition SourceCopilot :: string where "SourceCopilot = ''copilot''"
definition SourceOpenCode :: string where "SourceOpenCode = ''opencode''"
definition SourceCodex :: string where "SourceCodex = ''codex''"
definition SourceMaki :: string where "SourceMaki = ''maki''"
definition SourceClaudeCode :: string where "SourceClaudeCode = ''claude-code''"

lemmas source_defs = SourceCopilot_def SourceOpenCode_def SourceCodex_def SourceMaki_def SourceClaudeCode_def

text \<open>
  A pointer field is an \<open>option\<close>; a \<open>time.Time\<close> and a \<open>time.Duration\<close> are nanoseconds.  Field
  names are the source's with the prefix \<open>g_\<close>.
\<close>

record generation =
  g_id :: string
  g_timestamp :: int
  g_source :: string
  g_service_name :: string
  g_provider :: string
  g_model :: string
  g_input :: "int option"
  g_output :: "int option"
  g_cache_read :: "int option"
  g_cache_creation :: "int option"
  g_reasoning :: "int option"
  g_cost :: "f64 option"
  g_cost_reported :: bool
  g_cost_source :: string
  g_pricing_model_id :: string
  g_pricing_fetched_at :: "int option"
  g_pricing_rates :: string
  g_pricing_revision :: int
  g_conversation_id :: string
  g_trace_id :: string
  g_span_id :: string
  g_duration :: int
  g_agent_name :: string
  g_git_repo :: string
  g_git_branch :: string
  g_reasoning_effort :: string
  g_token_id :: int

definition zero_generation :: generation where
  "zero_generation = \<lparr>g_id = [], g_timestamp = zero_time, g_source = [], g_service_name = [],
     g_provider = [], g_model = [], g_input = None, g_output = None, g_cache_read = None,
     g_cache_creation = None, g_reasoning = None, g_cost = None, g_cost_reported = False,
     g_cost_source = [], g_pricing_model_id = [], g_pricing_fetched_at = None,
     g_pricing_rates = [], g_pricing_revision = 0, g_conversation_id = [], g_trace_id = [],
     g_span_id = [], g_duration = 0, g_agent_name = [], g_git_repo = [], g_git_branch = [],
     g_reasoning_effort = [], g_token_id = 0\<rparr>"

definition opt_val :: "int option \<Rightarrow> int" where
  "opt_val p = (case p of None \<Rightarrow> 0 | Some v \<Rightarrow> v)"

lemma opt_val_simps [simp]: "opt_val None = 0" "opt_val (Some v) = v"
  by (simp_all add: opt_val_def)

definition UncachedInput :: "generation \<Rightarrow> int option" where
  "UncachedInput g = (case g_input g of
     None \<Rightarrow> None
   | Some input \<Rightarrow>
       if g_source g \<noteq> SourceCopilot \<and> g_source g \<noteq> SourceCodex then Some input
       else
         let cached = (case g_cache_read g of None \<Rightarrow> 0 | Some v \<Rightarrow> wrap64 (0 + v));
             cached = (case g_cache_creation g of None \<Rightarrow> cached | Some v \<Rightarrow> wrap64 (cached + v));
             u = wrap64 (input - cached)
         in if u < 0 then Some 0 else Some u)"

definition NonReasoningOutput :: "generation \<Rightarrow> int option" where
  "NonReasoningOutput g = (case g_output g of
     None \<Rightarrow> None
   | Some v \<Rightarrow>
       (case g_reasoning g of
          Some r \<Rightarrow>
            if g_source g = SourceCopilot \<or> g_source g = SourceCodex
            then (let u = wrap64 (v - r) in if u < 0 then Some 0 else Some u)
            else Some v
        | None \<Rightarrow> Some v))"

section \<open>Labels\<close>

text \<open>\<open>utf8.ValidString\<close>: the length of the first rune, 0 when it is not well formed.\<close>

definition cont :: "char \<Rightarrow> bool" where
  "cont c \<longleftrightarrow> byte_in 128 191 c"

definition rune_size :: "char \<Rightarrow> nat" where
  "rune_size a = (if byte_in 0 127 a then 1 else if byte_in 194 223 a then 2
     else if byte_in 224 239 a then 3 else if byte_in 240 244 a then 4 else 0)"

definition second_ok :: "char \<Rightarrow> char \<Rightarrow> bool" where
  "second_ok a b \<longleftrightarrow> byte_in
     (if a = char_of (224::int) then 160 else if a = char_of (240::int) then 144 else 128)
     (if a = char_of (237::int) then 159 else if a = char_of (244::int) then 143 else 191) b"

definition rune_len :: "string \<Rightarrow> nat" where
  "rune_len s = (case s of [] \<Rightarrow> 0
     | a # r \<Rightarrow> (let n = rune_size a in
         if length r < n - 1 then 0
         else if n \<le> 1 then n
         else if second_ok a (r ! 0) \<and> list_all cont (take (n - 2) (drop 1 r)) then n else 0))"

lemma rune_size_le: "rune_size a \<le> 4"
  by (simp add: rune_size_def)

lemma rune_len_le: "rune_len s \<le> length s \<and> rune_len s \<le> 4"
  using rune_size_le [of "hd s"] by (cases s) (auto simp: rune_len_def Let_def)

function valid_utf8 :: "string \<Rightarrow> bool" where
  "valid_utf8 s = (if s = [] then True else if rune_len s = 0 then False
     else valid_utf8 (drop (rune_len s) s))"
  by pat_completeness auto
termination
  by (relation "measure length") auto

declare valid_utf8.simps [simp del]

definition maxLabelLen :: nat where "maxLabelLen = 256"

text \<open>The loop of \<open>truncateLabel\<close>: drop the last byte until what is left is well formed.\<close>

fun trim_invalid :: "string \<Rightarrow> string" where
  "trim_invalid b = (if 0 < length b \<and> \<not> valid_utf8 b then trim_invalid (take (length b - 1) b) else b)"

declare trim_invalid.simps [simp del]

definition truncateLabel :: "string \<Rightarrow> string" where
  "truncateLabel s = (if length s \<le> maxLabelLen then s else trim_invalid (take maxLabelLen s))"

section \<open>Attribute readers\<close>

datatype norm_error =
    ErrNonStringAttrs "string list"
  | ErrMissingSpanIDs
  | ErrMissingLogIdentity
  | ErrInvalidLogTimestamp
  | ErrInvalidTokenAttr string
  | ErrInvalidMakiAttr string
  | ErrInvalidClaudeCodeAttr string
  | UnknownSource string

definition attrString :: "attrs \<Rightarrow> string \<Rightarrow> string option" where
  "attrString m key = (case attr_get m key of Some (AStr s) \<Rightarrow> Some s | _ \<Rightarrow> None)"

definition attrString0 :: "attrs \<Rightarrow> string \<Rightarrow> string" where
  "attrString0 m key = (case attrString m key of Some s \<Rightarrow> s | None \<Rightarrow> [])"

definition bad_string_key :: "attrs \<Rightarrow> string \<Rightarrow> bool" where
  "bad_string_key m k = (case attr_get m k of None \<Rightarrow> False | Some (AStr _) \<Rightarrow> False | Some _ \<Rightarrow> True)"

definition requireStrings :: "attrs \<Rightarrow> string list \<Rightarrow> norm_error option" where
  "requireStrings m keys = (let bad = filter (bad_string_key m) keys in
     if 0 < length bad then Some (ErrNonStringAttrs bad) else None)"

fun firstString :: "attrs \<Rightarrow> string list \<Rightarrow> string" where
  "firstString m [] = []"
| "firstString m (k # ks) =
     (case attrString m k of Some v \<Rightarrow> truncateLabel v | None \<Rightarrow> firstString m ks)"

definition serviceName :: "attrs \<Rightarrow> string" where
  "serviceName resource = truncateLabel (attrString0 resource ''service.name'')"

definition hasPrefixKey :: "attrs \<Rightarrow> string \<Rightarrow> bool" where
  "hasPrefixKey m p = list_ex (\<lambda>(k, _). length p \<le> length k \<and> take (length p) k = p) m"

definition maxTokensPerCall :: int where "maxTokensPerCall = 1000000000"
definition maxCostUSD :: rat where "maxCostUSD = 1000000"

definition attrInt :: "attrs \<Rightarrow> string \<Rightarrow> int option" where
  "attrInt m key = (case attr_get m key of
     None \<Rightarrow> None
   | Some v \<Rightarrow>
     (case v of
        AInt n \<Rightarrow> if n < 0 \<or> maxTokensPerCall < n then None else Some n
      | ADouble d \<Rightarrow>
          if is_nan d \<or> is_inf d \<or> f_lt d (Fin 0) \<or> f_lt (f_of_int maxTokensPerCall) d then None
          else Some (trunc_rat (fin_val d))
      | AStr s \<Rightarrow>
          (case parse_int64 s of
             None \<Rightarrow> None
           | Some n \<Rightarrow> if n < 0 \<or> maxTokensPerCall < n then None else Some n)
      | _ \<Rightarrow> None))"

definition attrDouble :: "attrs \<Rightarrow> string \<Rightarrow> f64 option" where
  "attrDouble m key = (case attr_get m key of
     None \<Rightarrow> None
   | Some v \<Rightarrow>
     (case v of
        ADouble d \<Rightarrow>
          if is_nan d \<or> is_inf d \<or> f_lt d (Fin 0) \<or> f_lt (Fin maxCostUSD) d then None else Some d
      | AInt n \<Rightarrow> if n < 0 \<or> f_lt (Fin maxCostUSD) (f_of_int n) then None else Some (f_of_int n)
      | AStr s \<Rightarrow>
          (case parse_float s of
             None \<Rightarrow> None
           | Some f \<Rightarrow>
               if is_nan f \<or> is_inf f \<or> f_lt f (Fin 0) \<or> f_lt (Fin maxCostUSD) f then None else Some f)
      | _ \<Rightarrow> None))"

section \<open>Source detection\<close>

definition DetectSource :: "attrs \<Rightarrow> attrs \<Rightarrow> string" where
  "DetectSource resource spanAttrs =
     (let by_service = (case attrString resource ''service.name'' of
          None \<Rightarrow> None
        | Some sn \<Rightarrow>
            if sn = ''copilot-chat'' \<or> sn = ''github-copilot'' then Some SourceCopilot
            else if sn = ''opencode'' then Some SourceOpenCode
            else if sn = ''codex_cli_rs'' then Some SourceCodex
            else if prefix ''codex'' (to_lower sn) then Some SourceCodex
            else None)
      in case by_service of
           Some s \<Rightarrow> s
         | None \<Rightarrow>
             if hasPrefixKey spanAttrs ''github.copilot.'' then SourceCopilot
             else if hasPrefixKey spanAttrs ''codex.'' then SourceCodex
             else [])"

definition DetectLogSource :: "attrs \<Rightarrow> string" where
  "DetectLogSource resource =
     (if firstString resource [''telemetry.sdk.name''] = ''maki-otel'' then SourceMaki
      else let service = to_lower (firstString resource [''service.name'']) in
        if service = ''maki'' then SourceMaki
        else if service = ''claude-code'' then SourceClaudeCode
        else if service = ''codex_cli_rs'' \<or> prefix ''codex'' service then SourceCodex
        else [])"

section \<open>Bounds and laws\<close>

lemma trunc_rat_bounds: "0 \<le> q \<Longrightarrow> q \<le> of_int n \<Longrightarrow> 0 \<le> trunc_rat q \<and> trunc_rat q \<le> n"
  by (simp add: trunc_rat_def) linarith

lemma attrInt_bounds: "attrInt m key = Some n \<Longrightarrow> 0 \<le> n \<and> n \<le> maxTokensPerCall"
proof -
  assume *: "attrInt m key = Some n"
  have max: "f_of_int maxTokensPerCall = Fin 1000000000"
    by (simp add: f_of_int_exact maxTokensPerCall_def)
  show ?thesis
  proof (cases "attr_get m key")
    case (Some v)
    show ?thesis
    proof (cases v)
      case (ADouble d)
      with * Some max obtain q where "d = Fin q" "0 \<le> q" "q \<le> 1000000000" "n = trunc_rat q"
        by (cases d) (auto simp: attrInt_def is_nan_def is_inf_def fin_val_def split: if_splits)
      with trunc_rat_bounds [of q maxTokensPerCall] show ?thesis by (simp add: maxTokensPerCall_def)
    qed (use * Some in \<open>auto simp: attrInt_def split: if_splits option.splits\<close>)
  qed (use * in \<open>simp add: attrInt_def\<close>)
qed

lemma attrDouble_bounds: "attrDouble m key = Some c \<Longrightarrow> in_range maxCostUSD c"
proof -
  assume *: "attrDouble m key = Some c"
  have "f_nonneg (f_of_int n)" if "0 \<le> n" for n
    using that by (simp add: f_of_int_def fl_nonneg)
  then have int: "0 \<le> n \<Longrightarrow> \<not> f_lt (Fin maxCostUSD) (f_of_int n) \<Longrightarrow> in_range maxCostUSD (f_of_int n)" for n
    by (fastforce simp: in_range_Fin f_nonneg_cases)
  have range: "in_range maxCostUSD d"
    if "\<not> (is_nan d \<or> is_inf d \<or> f_lt d (Fin 0) \<or> f_lt (Fin maxCostUSD) d)" for d
    using that by (simp add: in_range_def)
  from * show ?thesis
    by (auto simp: attrDouble_def intro: int range split: option.splits attr_value.splits if_splits)
qed

text \<open>A record whose counts are within the bounds the readers enforce.\<close>

definition token_ok :: "int option \<Rightarrow> bool" where
  "token_ok p \<longleftrightarrow> (case p of None \<Rightarrow> True | Some n \<Rightarrow> 0 \<le> n \<and> n \<le> maxTokensPerCall)"

definition tokens_ok :: "generation \<Rightarrow> bool" where
  "tokens_ok g \<longleftrightarrow> token_ok (g_input g) \<and> token_ok (g_output g) \<and> token_ok (g_cache_read g) \<and>
     token_ok (g_cache_creation g) \<and> token_ok (g_reasoning g)"

lemma token_ok_attrInt [simp]: "token_ok (attrInt m key)"
  using attrInt_bounds by (auto simp: token_ok_def split: option.splits)

lemma token_okD: "token_ok (Some n) \<Longrightarrow> 0 \<le> n \<and> n \<le> 1000000000"
  by (simp add: token_ok_def maxTokensPerCall_def)

text \<open>Within the bounds no subtraction wraps, so the two derived counts are the plain ones.\<close>

lemma UncachedInput_exact:
  assumes "tokens_ok g"
  shows "UncachedInput g = (case g_input g of None \<Rightarrow> None
    | Some i \<Rightarrow> Some (if g_source g = SourceCopilot \<or> g_source g = SourceCodex
        then max 0 (i - opt_val (g_cache_read g) - opt_val (g_cache_creation g)) else i))"
proof -
  have wrap: "wrap64 n = n" if "- 2000000000 \<le> n" "n \<le> 2000000000" for n
    using that by (intro wrap64_id) (simp add: int64_range_def)
  show ?thesis
    using assms
    by (cases "g_input g"; cases "g_cache_read g"; cases "g_cache_creation g")
       (auto simp: UncachedInput_def tokens_ok_def Let_def wrap dest!: token_okD)
qed

lemma NonReasoningOutput_exact:
  assumes "tokens_ok g"
  shows "NonReasoningOutput g = (case g_output g of None \<Rightarrow> None
    | Some i \<Rightarrow> Some (if g_source g = SourceCopilot \<or> g_source g = SourceCodex
        then max 0 (i - opt_val (g_reasoning g)) else i))"
proof -
  have wrap: "wrap64 n = n" if "- 2000000000 \<le> n" "n \<le> 2000000000" for n
    using that by (intro wrap64_id) (simp add: int64_range_def)
  show ?thesis
    using assms
    by (cases "g_output g"; cases "g_reasoning g")
       (auto simp: NonReasoningOutput_def tokens_ok_def Let_def wrap dest!: token_okD)
qed

section \<open>Labels stay short and well formed\<close>

lemma rune_len_take:
  assumes "rune_len s \<noteq> 0" "rune_len s \<le> n"
  shows "rune_len (take n s) = rune_len s"
proof -
  from assms obtain a r where s: "s = a # r" by (cases s) (auto simp: rune_len_def)
  let ?k = "rune_size a"
  have k: "rune_len s = ?k" "?k \<noteq> 0" "?k - 1 \<le> length r"
    and ok: "?k \<le> 1 \<or> second_ok a (r ! 0) \<and> list_all cont (take (?k - 2) (drop 1 r))"
    using assms(1) by (auto simp: s rune_len_def Let_def split: if_splits)
  from assms(2) k have n: "take n s = a # take (n - 1) r" "?k \<le> n" by (cases n; simp add: s)+
  have "take (?k - 2) (drop 1 (take (n - 1) r)) = take (?k - 2) (drop 1 r)"
    using n(2) by (simp add: drop_take min_def)
  moreover have "\<not> length (take (n - 1) r) < ?k - 1" using k n by simp
  moreover have "1 < ?k \<Longrightarrow> take (n - 1) r ! 0 = r ! 0" using n by simp
  ultimately have "rune_len (a # take (n - 1) r) = ?k"
    using ok by (simp add: rune_len_def Let_def) linarith
  with k n show ?thesis by simp
qed

lemma valid_utf8_boundary:
  "valid_utf8 s \<Longrightarrow> n \<le> length s \<Longrightarrow> \<exists>k. k \<le> n \<and> n \<le> k + 3 \<and> valid_utf8 (take k s)"
proof (induction s arbitrary: n rule: valid_utf8.induct)
  case (1 s)
  show ?case
  proof (cases "s = [] \<or> n < rune_len s")
    case True
    with "1.prems" rune_len_le [of s] show ?thesis
      by (intro exI [of _ 0]) (auto simp: valid_utf8.simps [of "[]"])
  next
    case False
    then have s: "s \<noteq> []" "rune_len s \<le> n" by auto
    with "1.prems" have "rune_len s \<noteq> 0" "valid_utf8 (drop (rune_len s) s)"
      by (auto simp: valid_utf8.simps [of s] split: if_splits)
    moreover have "n - rune_len s \<le> length (drop (rune_len s) s)" using "1.prems" by simp
    ultimately obtain k where k: "k \<le> n - rune_len s" "n - rune_len s \<le> k + 3"
      "valid_utf8 (take k (drop (rune_len s) s))"
      using "1.IH" s by blast
    let ?k = "k + rune_len s"
    have "rune_len (take ?k s) = rune_len s"
      using \<open>rune_len s \<noteq> 0\<close> by (intro rune_len_take) auto
    then have "valid_utf8 (take ?k s)"
      using k(3) \<open>rune_len s \<noteq> 0\<close> by (simp add: valid_utf8.simps [of "take ?k s"] drop_take)
    then show ?thesis using k s by (intro exI [of _ ?k]) auto
  qed
qed

lemma trim_invalid_prefix: "prefix (trim_invalid b) b"
proof (induction b rule: trim_invalid.induct)
  case (1 b)
  then show ?case
    by (subst trim_invalid.simps) (auto intro: prefix_order.trans take_is_prefix)
qed

lemma trim_invalid_valid: "valid_utf8 (trim_invalid b)"
proof (induction b rule: trim_invalid.induct)
  case (1 b)
  then show ?case
    by (subst trim_invalid.simps) (auto simp: valid_utf8.simps [of "[]"])
qed

lemma trim_invalid_longest:
  "k \<le> length b \<Longrightarrow> valid_utf8 (take k b) \<Longrightarrow> k \<le> length (trim_invalid b)"
proof (induction b arbitrary: k rule: trim_invalid.induct)
  case (1 b)
  show ?case
  proof (cases "0 < length b \<and> \<not> valid_utf8 b")
    case True
    with "1.prems" have "k \<noteq> length b" by auto
    with "1.prems" have "k \<le> length (take (length b - 1) b)" by simp
    moreover have "valid_utf8 (take k (take (length b - 1) b))"
      using "1.prems" \<open>k \<le> length (take (length b - 1) b)\<close> by (simp add: min_absorb1)
    ultimately show ?thesis using "1.IH" [OF True] True by (simp add: trim_invalid.simps [of b])
  next
    case False
    then have "trim_invalid b = b" by (subst trim_invalid.simps) auto
    with "1.prems" show ?thesis by simp
  qed
qed

lemma length_truncateLabel: "length (truncateLabel s) \<le> maxLabelLen"
  using prefix_length_le [OF trim_invalid_prefix [of "take maxLabelLen s"]]
  by (simp add: truncateLabel_def)

lemma truncateLabel_prefix: "prefix (truncateLabel s) s"
  using trim_invalid_prefix [of "take maxLabelLen s"] take_is_prefix [of maxLabelLen s]
  by (auto simp: truncateLabel_def intro: prefix_order.trans)

lemma truncateLabel_valid: "valid_utf8 s \<Longrightarrow> valid_utf8 (truncateLabel s)"
  by (simp add: truncateLabel_def trim_invalid_valid)

lemma truncateLabel_tight:
  assumes "valid_utf8 s" "maxLabelLen < length s"
  shows "maxLabelLen \<le> length (truncateLabel s) + 3"
proof -
  obtain k where "k \<le> maxLabelLen" "maxLabelLen \<le> k + 3" "valid_utf8 (take k s)"
    using valid_utf8_boundary [of s maxLabelLen] assms by auto
  moreover from this have "k \<le> length (trim_invalid (take maxLabelLen s))"
    using assms by (intro trim_invalid_longest) (auto simp: min_def)
  ultimately show ?thesis using assms by (simp add: truncateLabel_def)
qed

lemma truncateLabel_idem [simp]: "truncateLabel (truncateLabel s) = truncateLabel s"
  by (subst truncateLabel_def) (simp add: length_truncateLabel)

lemma firstString_length: "length (firstString m ks) \<le> maxLabelLen"
  by (induction ks) (auto simp: length_truncateLabel split: option.splits)

end
