(* ===== verification/Rows.thy ===== *)
theory Rows
  imports Telemetry
begin

text \<open>
  One row of the table \<open>generations\<close> and the two statements of \<open>internal/storage/usage.go\<close> that
  write it: \<open>insertSQL\<close> with its arguments and the column assignments of \<open>mergeSQL\<close>.  A NULL column
  is \<open>None\<close>.  Every right-hand side of an SQL UPDATE reads the old row, so \<open>merge_row\<close> is one
  record of expressions over the old row \<open>r\<close>.
\<close>

record gen_row =
  r_id :: string
  r_ts :: int
  r_source :: string
  r_service_name :: "string option"
  r_provider :: "string option"
  r_model :: "string option"
  r_input :: "int option"
  r_output :: "int option"
  r_cache_read :: "int option"
  r_cache_creation :: "int option"
  r_reasoning :: "int option"
  r_cost :: "f64 option"
  r_conversation_id :: "string option"
  r_trace_id :: "string option"
  r_span_id :: "string option"
  r_duration_ms :: "int option"
  r_agent_name :: "string option"
  r_git_repo :: "string option"
  r_git_branch :: "string option"
  r_created_at :: int
  r_reported :: bool
  r_cost_source :: string
  r_pricing_model_id :: "string option"
  r_pricing_fetched_at :: "int option"
  r_snapshot :: "int option"
  r_pending :: bool
  r_revision :: int
  r_effort :: "string option"
  r_token :: "int option"

section \<open>Arguments\<close>

definition nullableString :: "string \<Rightarrow> string option" where
  "nullableString s = (if s = [] then None else Some s)"

definition nullableID :: "int \<Rightarrow> int option" where
  "nullableID i = (if i = 0 then None else Some i)"

definition nullableInt :: "int option \<Rightarrow> int option" where
  "nullableInt p = p"

text \<open>SQLite stores a NaN as NULL.\<close>

definition nullableFloat :: "f64 option \<Rightarrow> f64 option" where
  "nullableFloat p = (case p of None \<Rightarrow> None | Some x \<Rightarrow> if is_nan x then None else Some x)"

definition nullableDuration :: "int \<Rightarrow> int option" where
  "nullableDuration d = (if d = 0 then None else Some (duration_ms d))"

definition harnessCostSource :: "f64 option \<Rightarrow> string" where
  "harnessCostSource cost = (if cost \<noteq> None then ''harness'' else ''unknown'')"

text \<open>The row \<open>insertSQL\<close> stores for \<open>insertArgs gen\<close>; columns it does not name take their default.\<close>

definition insertArgs :: "int \<Rightarrow> generation \<Rightarrow> gen_row" where
  "insertArgs now gen = \<lparr>
     r_id = g_id gen,
     r_ts = unix_milli (g_timestamp gen),
     r_source = g_source gen,
     r_service_name = nullableString (g_service_name gen),
     r_provider = nullableString (g_provider gen),
     r_model = nullableString (g_model gen),
     r_input = nullableInt (g_input gen),
     r_output = nullableInt (g_output gen),
     r_cache_read = nullableInt (g_cache_read gen),
     r_cache_creation = nullableInt (g_cache_creation gen),
     r_reasoning = nullableInt (g_reasoning gen),
     r_cost = nullableFloat (g_cost gen),
     r_conversation_id = nullableString (g_conversation_id gen),
     r_trace_id = nullableString (g_trace_id gen),
     r_span_id = nullableString (g_span_id gen),
     r_duration_ms = nullableDuration (g_duration gen),
     r_agent_name = nullableString (g_agent_name gen),
     r_git_repo = nullableString (g_git_repo gen),
     r_git_branch = nullableString (g_git_branch gen),
     r_created_at = unix_milli now,
     r_reported = (g_cost gen \<noteq> None),
     r_cost_source = harnessCostSource (g_cost gen),
     r_pricing_model_id = None,
     r_pricing_fetched_at = None,
     r_snapshot = None,
     r_pending = (g_cost gen = None),
     r_revision = 0,
     r_effort = nullableString (g_reasoning_effort gen),
     r_token = nullableID (g_token_id gen)\<rparr>"

section \<open>The merge\<close>

definition coalesce :: "'a option \<Rightarrow> 'a option \<Rightarrow> 'a option" where
  "coalesce a b = (case a of None \<Rightarrow> b | Some x \<Rightarrow> Some x)"

text \<open>A column is filled: \<open>col IS NULL AND ? IS NOT NULL\<close>.\<close>

definition fills :: "'a option \<Rightarrow> 'a option \<Rightarrow> bool" where
  "fills old new \<longleftrightarrow> old = None \<and> new \<noteq> None"

definition merge_row :: "generation \<Rightarrow> gen_row \<Rightarrow> gen_row" where
  "merge_row gen r = (let ts = unix_milli (g_timestamp gen); cost = nullableFloat (g_cost gen) in
     r\<lparr>r_ts := min (r_ts r) ts,
       r_provider := coalesce (r_provider r) (nullableString (g_provider gen)),
       r_model := coalesce (r_model r) (nullableString (g_model gen)),
       r_input := coalesce (r_input r) (nullableInt (g_input gen)),
       r_output := coalesce (r_output r) (nullableInt (g_output gen)),
       r_cache_read := coalesce (r_cache_read r) (nullableInt (g_cache_read gen)),
       r_cache_creation := coalesce (r_cache_creation r) (nullableInt (g_cache_creation gen)),
       r_reasoning := coalesce (r_reasoning r) (nullableInt (g_reasoning gen)),
       r_cost := (if r_reported r then r_cost r else coalesce cost (r_cost r)),
       r_cost_source := (if r_reported r \<or> cost \<noteq> None then ''harness'' else r_cost_source r),
       r_pricing_model_id := (if cost \<noteq> None then None else r_pricing_model_id r),
       r_pricing_fetched_at := (if cost \<noteq> None then None else r_pricing_fetched_at r),
       r_snapshot := (if cost \<noteq> None then None else r_snapshot r),
       r_reported := (if cost \<noteq> None then True else r_reported r),
       r_pending :=
         (if r_reported r \<or> cost \<noteq> None then False
          else if fills (r_model r) (nullableString (g_model gen))
            \<or> fills (r_input r) (nullableInt (g_input gen))
            \<or> fills (r_output r) (nullableInt (g_output gen))
            \<or> fills (r_cache_read r) (nullableInt (g_cache_read gen))
            \<or> fills (r_cache_creation r) (nullableInt (g_cache_creation gen))
            \<or> fills (r_reasoning r) (nullableInt (g_reasoning gen))
            \<or> r_cost_source r = ''openrouter'' \<and> ts < r_ts r
          then True
          else r_pending r),
       r_revision := r_revision r + 1,
       r_conversation_id := coalesce (r_conversation_id r) (nullableString (g_conversation_id gen)),
       r_duration_ms := coalesce (r_duration_ms r) (nullableDuration (g_duration gen)),
       r_agent_name := coalesce (r_agent_name r) (nullableString (g_agent_name gen)),
       r_git_repo := coalesce (r_git_repo r) (nullableString (g_git_repo gen)),
       r_git_branch := coalesce (r_git_branch r) (nullableString (g_git_branch gen)),
       r_effort := coalesce (r_effort r) (nullableString (g_reasoning_effort gen)),
       r_token := coalesce (r_token r) (nullableID (g_token_id gen))\<rparr>)"

section \<open>Laws\<close>

lemma coalesce_simps [simp]: "coalesce None b = b" "coalesce (Some x) b = Some x" "coalesce a None = a"
  "coalesce (coalesce a b) b = coalesce a b" "coalesce a a = a"
  by (auto simp: coalesce_def split: option.splits)

lemma coalesce_assoc: "coalesce (coalesce a b) c = coalesce a (coalesce b c)"
  by (cases a) simp_all

lemma merge_row_id [simp]: "r_id (merge_row g r) = r_id r"
  by (simp add: merge_row_def Let_def)

lemma insertArgs_id [simp]: "r_id (insertArgs now g) = g_id g"
  by (simp add: insertArgs_def)

text \<open>
  \<open>covers old new\<close>: the column holds a value whenever the new record has one.  A row has absorbed
  a record when a merge of that record has nothing left to do.
\<close>

definition covers :: "'a option \<Rightarrow> 'a option \<Rightarrow> bool" where
  "covers old new \<longleftrightarrow> (new \<noteq> None \<longrightarrow> old \<noteq> None)"

definition absorbed :: "generation \<Rightarrow> gen_row \<Rightarrow> bool" where
  "absorbed g r \<longleftrightarrow> r_ts r \<le> unix_milli (g_timestamp g)
     \<and> covers (r_provider r) (nullableString (g_provider g))
     \<and> covers (r_model r) (nullableString (g_model g))
     \<and> covers (r_input r) (nullableInt (g_input g))
     \<and> covers (r_output r) (nullableInt (g_output g))
     \<and> covers (r_cache_read r) (nullableInt (g_cache_read g))
     \<and> covers (r_cache_creation r) (nullableInt (g_cache_creation g))
     \<and> covers (r_reasoning r) (nullableInt (g_reasoning g))
     \<and> covers (r_conversation_id r) (nullableString (g_conversation_id g))
     \<and> covers (r_duration_ms r) (nullableDuration (g_duration g))
     \<and> covers (r_agent_name r) (nullableString (g_agent_name g))
     \<and> covers (r_git_repo r) (nullableString (g_git_repo g))
     \<and> covers (r_git_branch r) (nullableString (g_git_branch g))
     \<and> covers (r_effort r) (nullableString (g_reasoning_effort g))
     \<and> covers (r_token r) (nullableID (g_token_id g))
     \<and> (nullableFloat (g_cost g) \<noteq> None \<longrightarrow> r_reported r)"

text \<open>
  The invariant of a stored row: a reported cost is final and carries no estimate, and an absent
  token is NULL.
\<close>

definition row_ok :: "gen_row \<Rightarrow> bool" where
  "row_ok r \<longleftrightarrow> (r_reported r \<longrightarrow> r_cost_source r = ''harness'' \<and> \<not> r_pending r
     \<and> r_pricing_model_id r = None \<and> r_pricing_fetched_at r = None \<and> r_snapshot r = None)
     \<and> r_cost_source r \<in> {''unknown'', ''harness'', ''openrouter'', ''manual'', ''free''}
     \<and> r_token r \<noteq> Some 0"

lemma row_ok_insertArgs [table_intros]: "row_ok (insertArgs now g)"
  by (simp add: row_ok_def insertArgs_def harnessCostSource_def nullableID_def)

lemma row_ok_merge_row [table_intros]: "row_ok r \<Longrightarrow> row_ok (merge_row g r)"
  by (auto simp: row_ok_def merge_row_def Let_def coalesce_def nullableID_def split: option.splits)

lemma covers_coalesce [simp]: "covers (coalesce a b) b" "covers a b \<Longrightarrow> covers (coalesce a c) b"
  by (auto simp: covers_def coalesce_def split: option.splits)

lemma coalesce_covers: "covers a b \<Longrightarrow> coalesce a b = a"
  by (auto simp: covers_def coalesce_def split: option.splits)

lemma not_fills_covers: "covers a b \<Longrightarrow> \<not> fills a b"
  by (auto simp: covers_def fills_def)

lemma covers_self [simp]: "covers a a"
  by (simp add: covers_def)

lemma absorbed_insertArgs: "absorbed g (insertArgs now g)"
  by (auto simp: absorbed_def insertArgs_def nullableFloat_def split: option.splits)

lemma absorbed_merge_row: "absorbed g (merge_row g r)"
  by (simp add: absorbed_def merge_row_def Let_def)

lemma absorbed_merge_other: "absorbed g r \<Longrightarrow> absorbed g (merge_row g' r)"
  by (auto simp: absorbed_def merge_row_def Let_def)

lemma merge_absorbed:
  assumes "absorbed g r" "row_ok r"
  shows "merge_row g r = r\<lparr>r_revision := r_revision r + 1\<rparr>"
proof -
  from assms(1) have "\<not> (r_cost_source r = ''openrouter'' \<and> unix_milli (g_timestamp g) < r_ts r)"
    by (auto simp: absorbed_def)
  moreover have "\<not> r_reported r \<Longrightarrow> nullableFloat (g_cost g) = None"
    using assms(1) by (auto simp: absorbed_def)
  ultimately show ?thesis
    using assms
    by (intro gen_row.equality)
       (simp_all add: merge_row_def Let_def absorbed_def row_ok_def coalesce_covers not_fills_covers
          min_absorb1 split: if_splits)
qed

end
