(* ===== verification/Dedup.thy ===== *)
theory Dedup
  imports Telemetry
begin

text \<open>
  Record identities (\<open>internal/normalize/id.go\<close>).  The SHA-256 digest in hexadecimal is the
  parameter \<open>H\<close>; what makes an identity right is the text that is hashed, so the definitions
  name it and the lemmas say when two records have the same one.
\<close>

definition dedup_key :: "string \<Rightarrow> string \<Rightarrow> string \<Rightarrow> string" where
  "dedup_key source traceID spanID = source @ ''|'' @ traceID @ ''|'' @ spanID"

definition DedupID :: "(string \<Rightarrow> string) \<Rightarrow> string \<Rightarrow> string \<Rightarrow> string \<Rightarrow> norm_error + string" where
  "DedupID H source traceID spanID =
     (if traceID = [] \<or> spanID = [] then Inl ErrMissingSpanIDs
      else Inr (H (dedup_key source traceID spanID)))"

definition length_prefixed :: "string \<Rightarrow> string" where
  "length_prefixed part = show_nat (int (length part)) @ '':'' @ part"

fun token_mark :: "int option \<Rightarrow> string" where
  "token_mark None = ''|'' @ ''n''"
| "token_mark (Some t) = ''|'' @ ''v'' @ show_int t"

definition log_key :: "string \<Rightarrow> string \<Rightarrow> int \<Rightarrow> string \<Rightarrow> int option list \<Rightarrow> string" where
  "log_key source conversationID timestamp model tokens =
     concat (map length_prefixed [source, conversationID, format_rfc3339_nano timestamp, model])
     @ concat (map token_mark tokens)"

definition DedupLogID :: "(string \<Rightarrow> string) \<Rightarrow> string \<Rightarrow> string \<Rightarrow> int \<Rightarrow> string \<Rightarrow> int option list
    \<Rightarrow> norm_error + string" where
  "DedupLogID H source conversationID timestamp model tokens =
     (if source = [] \<or> conversationID = [] \<or> is_zero_time timestamp \<or> model = []
      then Inl ErrMissingLogIdentity
      else Inr (H (log_key source conversationID timestamp model tokens)))"

section \<open>The hashed text is unambiguous\<close>

lemma length_prefixed_append:
  "length_prefixed p @ r = length_prefixed p' @ r' \<longleftrightarrow> p = p' \<and> r = r'"
proof
  assume eq: "length_prefixed p @ r = length_prefixed p' @ r'"
  have no_colon: "CHR '':'' \<notin> set (show_nat n)" for n
    using show_nat_digits not_is_digit(3) by blast
  have "cut_at (CHR '':'') (length_prefixed p @ r) = cut_at (CHR '':'') (length_prefixed p' @ r')"
    using eq by simp
  then have "show_nat (int (length p)) = show_nat (int (length p'))" and "p @ r = p' @ r'"
    using no_colon by (simp_all add: length_prefixed_def)
  then show "p = p' \<and> r = r'" by simp
qed simp

lemma token_marks_start: "concat (map token_mark ts) = [] \<or> hd (concat (map token_mark ts)) = CHR ''|''"
  by (cases ts; cases "hd ts") auto

lemma show_int_until_bar:
  assumes "xs = [] \<or> hd xs = CHR ''|''"
  shows "takeWhile (\<lambda>c. c \<noteq> CHR ''|'') (show_int v @ xs) = show_int v"
proof -
  have "c \<noteq> CHR ''|''" if "c \<in> set (show_int v)" for c
    using show_int_chars [OF that] not_is_digit(4) by auto
  with assms show ?thesis by (cases xs) (auto simp: takeWhile_append2 takeWhile_eq_all_conv)
qed

lemma token_mark_append:
  assumes "xs = [] \<or> hd xs = CHR ''|''" "ys = [] \<or> hd ys = CHR ''|''"
  shows "token_mark t @ xs = token_mark u @ ys \<longleftrightarrow> t = u \<and> xs = ys"
proof
  assume eq: "token_mark t @ xs = token_mark u @ ys"
  show "t = u \<and> xs = ys"
  proof (cases t; cases u)
    fix v w assume "t = Some v" "u = Some w"
    with eq have *: "show_int v @ xs = show_int w @ ys" by simp
    then have "show_int v = show_int w"
      using show_int_until_bar [OF assms(1)] show_int_until_bar [OF assms(2)] by metis
    with * \<open>t = Some v\<close> \<open>u = Some w\<close> show ?thesis by simp
  qed (use eq in auto)
qed simp

lemma token_marks_inject: "concat (map token_mark ts) = concat (map token_mark us) \<longleftrightarrow> ts = us"
proof (induction ts arbitrary: us)
  case Nil
  then show ?case by (cases us; cases "hd us") auto
next
  case (Cons t ts)
  then show ?case
  proof (cases us)
    case Nil
    then show ?thesis by (cases t) auto
  next
    case (Cons u us')
    with Cons.IH [of us'] show ?thesis
      using token_mark_append [OF token_marks_start token_marks_start, of t ts u us'] by simp
  qed
qed

lemma log_key_inject:
  "log_key s c t m ks = log_key s' c' t' m' ks' \<longleftrightarrow>
     s = s' \<and> c = c' \<and> t = t' \<and> m = m' \<and> ks = ks'"
  using format_rfc3339_nano_inject [of t t']
  by (auto simp: log_key_def length_prefixed_append token_marks_inject)

text \<open>
  A span identity determines its parts when the source and the span identifier hold no
  separator, as the source names and the hexadecimal identifiers do.
\<close>

lemma append_bar_inject:
  "CHR ''|'' \<notin> set a \<Longrightarrow> CHR ''|'' \<notin> set b \<Longrightarrow> a @ CHR ''|'' # x = b @ CHR ''|'' # y \<longleftrightarrow> a = b \<and> x = y"
proof
  assume n: "CHR ''|'' \<notin> set a" "CHR ''|'' \<notin> set b" and eq: "a @ CHR ''|'' # x = b @ CHR ''|'' # y"
  then have "cut_at (CHR ''|'') (a @ CHR ''|'' # x) = cut_at (CHR ''|'') (b @ CHR ''|'' # y)" by simp
  with n show "a = b \<and> x = y" by simp
qed simp

lemma append_bar_inject_right:
  assumes "CHR ''|'' \<notin> set x" "CHR ''|'' \<notin> set y"
  shows "a @ CHR ''|'' # x = b @ CHR ''|'' # y \<longleftrightarrow> a = b \<and> x = y"
proof
  assume eq: "a @ CHR ''|'' # x = b @ CHR ''|'' # y"
  then have "rev (a @ CHR ''|'' # x) = rev (b @ CHR ''|'' # y)" by (rule arg_cong)
  then have "rev x @ CHR ''|'' # rev a = rev y @ CHR ''|'' # rev b" by simp
  with assms show "a = b \<and> x = y" using append_bar_inject [of "rev x" "rev y" "rev a" "rev b"] by simp
qed simp

lemma dedup_key_inject:
  assumes "CHR ''|'' \<notin> set s" "CHR ''|'' \<notin> set s'" "CHR ''|'' \<notin> set x" "CHR ''|'' \<notin> set x'"
  shows "dedup_key s t x = dedup_key s' t' x' \<longleftrightarrow> s = s' \<and> t = t' \<and> x = x'"
  using assms by (auto simp: dedup_key_def append_bar_inject append_bar_inject_right)

text \<open>Span identities and log identities never meet: only the latter start with a digit.\<close>

lemma log_key_digit: "is_digit (hd (log_key s c t m ks))"
proof -
  obtain x xs where "show_nat (int (length s)) = x # xs" by (meson neq_Nil_conv show_nat_nonempty)
  then show ?thesis
    using show_nat_digits [of x "int (length s)"] by (simp add: log_key_def length_prefixed_def)
qed

end
