(* ===== verification/Normalize.thy ===== *)
theory Normalize
  imports Dedup Net
begin

text \<open>
  The normalizers of \<open>internal/normalize\<close>: one function per telemetry producer, from an OTLP
  span or log record to a usage record, and the two dispatchers.

  The Go results \<open>(Generation, ok, error)\<close> are a sum: \<open>Inl e\<close> an error (whatever \<open>ok\<close> says, no
  caller reads it then), \<open>Inr None\<close> a healthy record that is no generation, \<open>Inr (Some g)\<close> a
  generation.  An error keeps its sentinel and the attribute it names; the text that wraps it
  is dropped.  \<open>H\<close> is SHA-256 in hexadecimal and \<open>J\<close> the text-to-tree step of JSON decoding.
\<close>

record otel_span =
  sp_name :: string
  sp_trace_id :: string
  sp_span_id :: string
  sp_start :: u64
  sp_end :: u64
  sp_attrs :: attrs

record log_record =
  lr_timestamp :: u64
  lr_observed :: u64
  lr_attrs :: attrs

type_synonym norm_result = "norm_error + generation option"

definition ebind :: "'e + 'a \<Rightarrow> ('a \<Rightarrow> 'e + 'b) \<Rightarrow> 'e + 'b" where
  "ebind r f = (case r of Inl e \<Rightarrow> Inl e | Inr a \<Rightarrow> f a)"

lemma ebind_simps [simp]: "ebind (Inl e) f = Inl e" "ebind (Inr a) f = f a"
  by (simp_all add: ebind_def)

lemma ebind_Inr: "ebind r f = Inr b \<longleftrightarrow> (\<exists>a. r = Inr a \<and> f a = Inr b)"
  by (cases r) auto

lemma ebind_Inl: "ebind r f = Inl e \<longleftrightarrow> r = Inl e \<or> (\<exists>a. r = Inr a \<and> f a = Inl e)"
  by (cases r) auto

text \<open>\<open>pcommon.Timestamp.AsTime\<close>: \<open>time.Unix(0, int64(ts))\<close>.\<close>

definition as_time :: "u64 \<Rightarrow> int" where
  "as_time ts = int_of_u64 ts"

section \<open>Copilot\<close>

definition AgentXtabProvider :: string where "AgentXtabProvider = ''XtabProvider''"
definition AgentTitle :: string where "AgentTitle = ''title''"
definition AgentProgressMessages :: string where "AgentProgressMessages = ''progressMessages''"
definition maxCopilotOptionsLen :: nat where "maxCopilotOptionsLen = 16384"

definition IsSessionlessAgent :: "string \<Rightarrow> bool" where
  "IsSessionlessAgent agent \<longleftrightarrow>
     agent = AgentXtabProvider \<or> agent = AgentTitle \<or> agent = AgentProgressMessages"

definition isCopilotInferenceHost :: "string \<Rightarrow> bool" where
  "isCopilotInferenceHost host \<longleftrightarrow> host = ''copilot-proxy.githubusercontent.com''
     \<or> suffix ''.githubcopilot.com'' host
     \<or> prefix ''copilot-proxy.'' host \<and> suffix ''.ghe.com'' host"

definition copilotProvider :: "attrs \<Rightarrow> string" where
  "copilotProvider attrs =
     (let provider = firstString attrs [''gen_ai.provider.name''];
          host = to_lower (trim_suffix (firstString attrs [''server.address'']) ''.'')
      in if provider \<noteq> [] \<and> \<not> equal_fold provider ''github'' then provider
         else if host = ''localhost'' \<or> suffix ''.localhost'' host then ''local''
         else if loopback_ip (trim_brackets host) then ''local''
         else if host = ''api.anthropic.com'' then ''anthropic''
         else if host = ''generativelanguage.googleapis.com'' then ''gemini''
         else if host = ''openrouter.ai'' then ''openrouter''
         else if host = ''api.openai.com'' then ''openai''
         else if host = ''api.x.ai'' then ''xai''
         else if host = ''models.ai.azure.com'' then ''azure''
         else if host = [] then provider
         else if suffix ''.openai.azure.com'' host \<or> suffix ''.services.ai.azure.com'' host
           \<or> suffix ''.inference.ai.azure.com'' host \<or> suffix ''.inference.ml.azure.com'' host
         then ''azure''
         else if isCopilotInferenceHost host then ''github''
         else ''custom'')"

text \<open>The nested structs \<open>reasoning\<close> and \<open>output_config\<close> with their one field.\<close>

fun decode_effort :: "string \<Rightarrow> json \<Rightarrow> string option" where
  "decode_effort old j = (case struct_members j of
     None \<Rightarrow> None | Some kvs \<Rightarrow> decode_field decode_string ''effort'' kvs old)"

definition copilotReasoningEffort :: "(string \<Rightarrow> json option) \<Rightarrow> attrs \<Rightarrow> string" where
  "copilotReasoningEffort J attrs = (case attrString attrs ''copilot_chat.request.options'' of
     None \<Rightarrow> []
   | Some options \<Rightarrow>
       if options = [] \<or> maxCopilotOptionsLen < length options then []
       else (case Option.bind (J options) struct_members of
         None \<Rightarrow> []
       | Some kvs \<Rightarrow>
           (case (decode_field decode_string ''reasoning_effort'' kvs [],
                  decode_field decode_effort ''reasoning'' kvs [],
                  decode_field decode_effort ''output_config'' kvs []) of
              (Some effort, Some reasoning, Some output) \<Rightarrow>
                if reasoning \<noteq> [] then truncateLabel reasoning
                else if output \<noteq> [] then truncateLabel output
                else truncateLabel effort
            | _ \<Rightarrow> [])))"

definition FromCopilotSpan :: "(string \<Rightarrow> string) \<Rightarrow> (string \<Rightarrow> json option) \<Rightarrow> attrs \<Rightarrow> otel_span
    \<Rightarrow> norm_result" where
  "FromCopilotSpan H J resource sp =
     (let attrs = sp_attrs sp in
      if attrString0 attrs ''gen_ai.operation.name'' \<noteq> ''chat'' then Inr None
      else case requireStrings attrs
          [''gen_ai.provider.name'', ''gen_ai.request.model'', ''gen_ai.response.model''] of
        Some e \<Rightarrow> Inl e
      | None \<Rightarrow> ebind (DedupID H SourceCopilot (sp_trace_id sp) (sp_span_id sp)) (\<lambda>id.
          let start = as_time (sp_start sp);
              gen = zero_generation \<lparr>
                g_id := id,
                g_timestamp := start,
                g_source := SourceCopilot,
                g_service_name := serviceName resource,
                g_provider := copilotProvider attrs,
                g_model := firstString attrs [''gen_ai.response.model'', ''gen_ai.request.model''],
                g_conversation_id := firstString attrs [''gen_ai.conversation.id''],
                g_trace_id := sp_trace_id sp,
                g_span_id := sp_span_id sp,
                g_duration := time_sub (as_time (sp_end sp)) start,
                g_agent_name := firstString attrs [''gen_ai.agent.name''],
                g_git_repo := firstString attrs [''github.copilot.git.repository''],
                g_git_branch := firstString attrs [''github.copilot.git.branch''],
                g_input := attrInt attrs ''gen_ai.usage.input_tokens'',
                g_output := attrInt attrs ''gen_ai.usage.output_tokens'',
                g_cache_read := attrInt attrs ''gen_ai.usage.cache_read.input_tokens'',
                g_cache_creation := attrInt attrs ''gen_ai.usage.cache_creation.input_tokens'',
                g_reasoning := attrInt attrs ''gen_ai.usage.reasoning.output_tokens'',
                g_reasoning_effort := copilotReasoningEffort J attrs \<rparr>;
              gen = (if g_reasoning gen = None
                then gen\<lparr>g_reasoning := attrInt attrs ''gen_ai.usage.reasoning_tokens''\<rparr> else gen);
              gen = gen\<lparr>g_cost := None\<rparr>;
              gen = (if IsSessionlessAgent (g_agent_name gen)
                then gen\<lparr>g_conversation_id := []\<rparr> else gen)
          in Inr (Some gen)))"

section \<open>OpenCode\<close>

definition set_harness_cost :: "generation \<Rightarrow> generation" where
  "set_harness_cost g = (if g_cost g \<noteq> None
     then g\<lparr>g_cost_reported := True, g_cost_source := ''harness''\<rparr> else g)"

definition FromOpenCodeSpan :: "(string \<Rightarrow> string) \<Rightarrow> attrs \<Rightarrow> otel_span \<Rightarrow> norm_result" where
  "FromOpenCodeSpan H resource sp =
     (let attrs = sp_attrs sp in
      if attrString0 attrs ''openinference.span.kind'' \<noteq> ''LLM'' \<and> sp_name sp \<noteq> ''opencode.llm''
      then Inr None
      else case requireStrings attrs [''gen_ai.provider.name'', ''llm.system'', ''llm.model_name''] of
        Some e \<Rightarrow> Inl e
      | None \<Rightarrow> ebind (DedupID H SourceOpenCode (sp_trace_id sp) (sp_span_id sp)) (\<lambda>id.
          let start = as_time (sp_start sp);
              gen = zero_generation \<lparr>
                g_id := id,
                g_timestamp := start,
                g_source := SourceOpenCode,
                g_service_name := serviceName resource,
                g_provider := firstString attrs [''gen_ai.provider.name'', ''llm.system''],
                g_model := firstString attrs [''llm.model_name''],
                g_conversation_id := firstString attrs [''session.id''],
                g_agent_name := firstString attrs [''agent.name''],
                g_trace_id := sp_trace_id sp,
                g_span_id := sp_span_id sp,
                g_duration := time_sub (as_time (sp_end sp)) start,
                g_input := attrInt attrs ''llm.token_count.prompt'',
                g_output := attrInt attrs ''llm.token_count.completion'',
                g_cache_read := attrInt attrs ''llm.token_count.prompt_details.cache_read'',
                g_cache_creation := attrInt attrs ''llm.token_count.prompt_details.cache_write'',
                g_reasoning := attrInt attrs ''llm.token_count.completion_details.reasoning'',
                g_cost := attrDouble attrs ''llm.cost.total'' \<rparr>;
              gen = (if g_cost gen = None then gen\<lparr>g_cost := attrDouble attrs ''cost_usd''\<rparr> else gen)
          in Inr (Some (set_harness_cost gen))))"

section \<open>Codex\<close>

definition checkedTokenAttr :: "attrs \<Rightarrow> string \<Rightarrow> norm_error + int option" where
  "checkedTokenAttr attrs key = (if attr_get attrs key = None then Inr None
     else case attrInt attrs key of
       Some v \<Rightarrow> Inr (Some v)
     | None \<Rightarrow> Inl (ErrInvalidTokenAttr key))"

fun checkedFirstTokenAttr :: "attrs \<Rightarrow> string list \<Rightarrow> norm_error + int option" where
  "checkedFirstTokenAttr attrs [] = Inr None"
| "checkedFirstTokenAttr attrs (key # keys) =
     (if attr_get attrs key \<noteq> None then checkedTokenAttr attrs key
      else checkedFirstTokenAttr attrs keys)"

definition codexLogTimestamp :: "log_record \<Rightarrow> norm_error + int" where
  "codexLogTimestamp lr = (case attr_get (lr_attrs lr) ''event.timestamp'' of
     Some v \<Rightarrow>
       (case v of
          AStr s \<Rightarrow> (case parse_rfc3339 s of Some t \<Rightarrow> Inr t | None \<Rightarrow> Inl ErrInvalidLogTimestamp)
        | _ \<Rightarrow> Inl (ErrNonStringAttrs [''event.timestamp'']))
   | None \<Rightarrow>
       if lr_timestamp lr \<noteq> 0 then Inr (as_time (lr_timestamp lr))
       else if lr_observed lr \<noteq> 0 then Inr (as_time (lr_observed lr))
       else Inl ErrInvalidLogTimestamp)"

definition FromCodexLog :: "(string \<Rightarrow> string) \<Rightarrow> attrs \<Rightarrow> log_record \<Rightarrow> norm_result" where
  "FromCodexLog H resource lr =
     (let attrs = lr_attrs lr in
      if attrString0 attrs ''event.name'' \<noteq> ''codex.sse_event''
        \<or> attrString0 attrs ''event.kind'' \<noteq> ''response.completed'' then Inr None
      else case requireStrings attrs
          [''model'', ''conversation.id'', ''event.timestamp'', ''model_reasoning_effort''] of
        Some e \<Rightarrow> Inl e
      | None \<Rightarrow>
        let model = firstString attrs [''model''];
            conversationID = firstString attrs [''conversation.id'']
        in if model = [] \<or> conversationID = [] then Inl ErrMissingLogIdentity
        else ebind (codexLogTimestamp lr) (\<lambda>timestamp.
          ebind (checkedTokenAttr attrs ''input_token_count'') (\<lambda>input.
          ebind (checkedTokenAttr attrs ''output_token_count'') (\<lambda>output.
          ebind (checkedFirstTokenAttr attrs [''cached_token_count'', ''cached_input_token_count'']) (\<lambda>cacheRead.
          ebind (checkedFirstTokenAttr attrs [''cache_write_token_count'', ''cache_write_input_token_count'']) (\<lambda>cacheCreate.
          ebind (checkedFirstTokenAttr attrs [''reasoning_token_count'', ''reasoning_output_token_count'']) (\<lambda>reasoning.
          ebind (DedupLogID H SourceCodex conversationID timestamp model
                  [input, output, cacheRead, cacheCreate, reasoning]) (\<lambda>id.
          Inr (Some (zero_generation \<lparr>
            g_id := id,
            g_timestamp := timestamp,
            g_source := SourceCodex,
            g_service_name := serviceName resource,
            g_provider := ''openai'',
            g_model := model,
            g_conversation_id := conversationID,
            g_input := input,
            g_output := output,
            g_cache_read := cacheRead,
            g_cache_creation := cacheCreate,
            g_reasoning := reasoning,
            g_reasoning_effort := firstString attrs [''model_reasoning_effort''] \<rparr>))))))))))"

section \<open>Maki\<close>

definition maxInt64 :: int where "maxInt64 = 2 ^ 63 - 1"

definition checkedMakiIntAttr :: "attrs \<Rightarrow> string \<Rightarrow> int \<Rightarrow> norm_error + int option" where
  "checkedMakiIntAttr attrs key limit = (case attr_get attrs key of
     None \<Rightarrow> Inr None
   | Some v \<Rightarrow>
     ebind
       (case v of
          AInt n \<Rightarrow> Inr n
        | AStr s \<Rightarrow>
            (case parse_int64 s of Some n \<Rightarrow> Inr n | None \<Rightarrow> Inl (ErrInvalidMakiAttr key))
        | ADouble d \<Rightarrow>
            if is_nan d \<or> is_inf d \<or> f_lt d (Fin 0) \<or> \<not> f_lt d (Fin (2 ^ 53))
              \<or> of_int (trunc_rat (fin_val d)) \<noteq> fin_val d
            then Inl (ErrInvalidMakiAttr key) else Inr (trunc_rat (fin_val d))
        | _ \<Rightarrow> Inl (ErrInvalidMakiAttr key))
       (\<lambda>n. if n < 0 \<or> limit < n then Inl (ErrInvalidMakiAttr key) else Inr (Some n)))"

text \<open>The record's time, else the time it was observed; both Maki and Claude Code read it so.\<close>

definition log_timestamp :: "log_record \<Rightarrow> u64" where
  "log_timestamp lr = (if lr_timestamp lr = 0 then lr_observed lr else lr_timestamp lr)"

text \<open>A reported cost of zero means the producer has no price; it stays unknown.\<close>

definition positive_cost :: "norm_error \<Rightarrow> attrs \<Rightarrow> norm_error + f64 option" where
  "positive_cost err attrs = (if attr_get attrs ''cost_usd'' = None then Inr None
     else case attrDouble attrs ''cost_usd'' of
       None \<Rightarrow> Inl err
     | Some v \<Rightarrow> Inr (if f_lt (Fin 0) v then Some v else None))"

definition ms_duration :: "int option \<Rightarrow> int" where
  "ms_duration ms = (case ms of None \<Rightarrow> 0 | Some n \<Rightarrow> wrap64 (n * milli_ns))"

definition seq_span :: "u64 \<Rightarrow> int \<Rightarrow> string" where
  "seq_span timestamp sequence = show_nat (uint timestamp) @ '':'' @ show_int sequence"

definition FromMakiLog :: "(string \<Rightarrow> string) \<Rightarrow> attrs \<Rightarrow> log_record \<Rightarrow> norm_result" where
  "FromMakiLog H resource lr =
     (let attrs = lr_attrs lr in
      if attrString0 attrs ''event.name'' \<noteq> ''maki.api_request'' then Inr None
      else case requireStrings attrs [''model'', ''provider'', ''session.id''] of
        Some e \<Rightarrow> Inl e
      | None \<Rightarrow>
        let model = firstString attrs [''model'']; session = firstString attrs [''session.id'']
        in if model = [] \<or> session = [] then Inl ErrMissingLogIdentity
        else ebind (checkedMakiIntAttr attrs ''event.sequence'' maxInt64) (\<lambda>seq. case seq of
          None \<Rightarrow> Inl ErrMissingLogIdentity
        | Some sequence \<Rightarrow>
          let timestamp = log_timestamp lr in
          if timestamp = 0 then Inl ErrInvalidLogTimestamp
          else ebind (checkedTokenAttr attrs ''input_tokens'') (\<lambda>input.
          ebind (checkedTokenAttr attrs ''output_tokens'') (\<lambda>output.
          ebind (checkedTokenAttr attrs ''cache_read_tokens'') (\<lambda>cacheRead.
          ebind (checkedTokenAttr attrs ''cache_creation_tokens'') (\<lambda>cacheCreate.
          ebind (positive_cost (ErrInvalidMakiAttr ''cost_usd'') attrs) (\<lambda>cost.
          ebind (checkedMakiIntAttr attrs ''duration_ms'' (maxInt64 div milli_ns)) (\<lambda>ms.
          ebind (DedupID H SourceMaki session (seq_span timestamp sequence)) (\<lambda>id.
          Inr (Some (set_harness_cost (zero_generation \<lparr>
            g_id := id,
            g_timestamp := as_time timestamp,
            g_source := SourceMaki,
            g_service_name := serviceName resource,
            g_provider := firstString attrs [''provider''],
            g_model := model,
            g_conversation_id := session,
            g_input := input,
            g_output := output,
            g_cache_read := cacheRead,
            g_cache_creation := cacheCreate,
            g_cost := cost,
            g_duration := ms_duration ms \<rparr>))))))))))))"

section \<open>Claude Code\<close>

definition claudeCodeID :: "(string \<Rightarrow> string) \<Rightarrow> attrs \<Rightarrow> string \<Rightarrow> u64 \<Rightarrow> norm_error + string" where
  "claudeCodeID H attrs session timestamp =
     (let requestID = firstString attrs [''request_id''] in
      if requestID \<noteq> [] then DedupID H SourceClaudeCode ''request'' requestID
      else if session = [] then Inl ErrMissingLogIdentity
      else ebind (checkedTokenAttr attrs ''event.sequence'') (\<lambda>seq. case seq of
          None \<Rightarrow> Inl ErrMissingLogIdentity
        | Some sequence \<Rightarrow> DedupID H SourceClaudeCode session (seq_span timestamp sequence)))"

definition FromClaudeCodeLog :: "(string \<Rightarrow> string) \<Rightarrow> attrs \<Rightarrow> log_record \<Rightarrow> norm_result" where
  "FromClaudeCodeLog H resource lr =
     (let attrs = lr_attrs lr; name = attrString0 attrs ''event.name'' in
      if name \<noteq> ''api_request'' \<and> name \<noteq> ''claude_code.api_request'' then Inr None
      else case requireStrings attrs [''model'', ''session.id'', ''request_id'', ''effort''] of
        Some e \<Rightarrow> Inl e
      | None \<Rightarrow>
        let model = firstString attrs [''model'']
        in if model = [] then Inl ErrMissingLogIdentity
        else let session = firstString attrs [''session.id'']; timestamp = log_timestamp lr in
          if timestamp = 0 then Inl ErrInvalidLogTimestamp
          else ebind (checkedTokenAttr attrs ''input_tokens'') (\<lambda>input.
          ebind (checkedTokenAttr attrs ''output_tokens'') (\<lambda>output.
          ebind (checkedTokenAttr attrs ''cache_read_tokens'') (\<lambda>cacheRead.
          ebind (checkedTokenAttr attrs ''cache_creation_tokens'') (\<lambda>cacheCreate.
          ebind (positive_cost (ErrInvalidClaudeCodeAttr ''cost_usd'') attrs) (\<lambda>cost.
          ebind (checkedTokenAttr attrs ''duration_ms'') (\<lambda>ms.
          ebind (claudeCodeID H attrs session timestamp) (\<lambda>id.
          Inr (Some (set_harness_cost (zero_generation \<lparr>
            g_id := id,
            g_timestamp := as_time timestamp,
            g_source := SourceClaudeCode,
            g_service_name := serviceName resource,
            g_provider := ''anthropic'',
            g_model := model,
            g_conversation_id := session,
            g_input := input,
            g_output := output,
            g_cache_read := cacheRead,
            g_cache_creation := cacheCreate,
            g_cost := cost,
            g_duration := ms_duration ms,
            g_reasoning_effort := firstString attrs [''effort''] \<rparr>)))))))))))"

section \<open>Dispatch\<close>

definition FromSpan :: "(string \<Rightarrow> string) \<Rightarrow> (string \<Rightarrow> json option) \<Rightarrow> string \<Rightarrow> attrs \<Rightarrow> otel_span
    \<Rightarrow> norm_result" where
  "FromSpan H J source resource sp =
     (if source = SourceCopilot then FromCopilotSpan H J resource sp
      else if source = SourceOpenCode then FromOpenCodeSpan H resource sp
      else if source = SourceCodex then Inr None
      else Inl (UnknownSource source))"

definition FromLog :: "(string \<Rightarrow> string) \<Rightarrow> string \<Rightarrow> attrs \<Rightarrow> log_record \<Rightarrow> norm_result" where
  "FromLog H source resource lr =
     (if source = SourceCodex then FromCodexLog H resource lr
      else if source = SourceMaki then FromMakiLog H resource lr
      else if source = SourceClaudeCode then FromClaudeCodeLog H resource lr
      else Inl (UnknownSource source))"

section \<open>Model creator\<close>

text \<open>\<open>creator.go\<close>: the vendor label of a model name, for display.\<close>

definition isTencentHunyuan :: "string \<Rightarrow> bool" where
  "isTencentHunyuan m \<longleftrightarrow> prefix ''tencent/'' m \<or> prefix ''hunyuan'' m
     \<or> 3 \<le> length m \<and> m ! 0 = CHR ''h'' \<and> m ! 1 = CHR ''y'' \<and> is_digit (m ! 2)"

definition ModelCreator :: "string \<Rightarrow> string" where
  "ModelCreator model = (let m = to_lower model in
     if prefix ''claude'' m then ''anthropic''
     else if prefix ''gpt-'' m \<or> prefix ''o1'' m \<or> prefix ''o3'' m \<or> prefix ''o4'' m \<or> prefix ''codex-'' m
     then ''openai''
     else if prefix ''gemini'' m then ''google''
     else if prefix ''grok'' m then ''xai''
     else if prefix ''muse'' m then ''meta''
     else if prefix ''glm-'' m \<or> prefix ''z-ai/'' m then ''zhipu''
     else if prefix ''nemotron-'' m then ''nvidia''
     else if prefix ''mai-'' m \<or> prefix ''copilot-'' m then ''microsoft''
     else if isTencentHunyuan m then ''tencent''
     else if prefix ''ling-'' m then ''inclusionai''
     else if prefix ''deepseek'' m then ''deepseek''
     else if prefix ''kimi'' m then ''moonshot''
     else if prefix ''mimo'' m then ''xiaomi''
     else if prefix ''qwen'' m then ''alibaba''
     else ''unknown'')"

section \<open>What a normalizer accepts\<close>

text \<open>
  The invariant of a fresh record: counts and cost within the readers' bounds, labels short, a
  cost always marked as reported by the harness, and nothing of the later stages filled in.
\<close>

definition cost_ok :: "generation \<Rightarrow> bool" where
  "cost_ok g \<longleftrightarrow> (case g_cost g of
     None \<Rightarrow> \<not> g_cost_reported g \<and> g_cost_source g = []
   | Some c \<Rightarrow> in_range maxCostUSD c \<and> g_cost_reported g \<and> g_cost_source g = ''harness'')"

definition labels_ok :: "generation \<Rightarrow> bool" where
  "labels_ok g \<longleftrightarrow> (\<forall>s \<in> {g_service_name g, g_provider g, g_model g, g_conversation_id g,
     g_agent_name g, g_git_repo g, g_git_branch g, g_reasoning_effort g}. length s \<le> maxLabelLen)"

definition unpriced :: "generation \<Rightarrow> bool" where
  "unpriced g \<longleftrightarrow> g_pricing_model_id g = [] \<and> g_pricing_fetched_at g = None
     \<and> g_pricing_rates g = [] \<and> g_pricing_revision g = 0 \<and> g_token_id g = 0"

definition gen_ok :: "generation \<Rightarrow> bool" where
  "gen_ok g \<longleftrightarrow> tokens_ok g \<and> cost_ok g \<and> labels_ok g \<and> unpriced g"

named_theorems accept

lemma token_ok_checkedTokenAttr [accept]: "checkedTokenAttr attrs key = Inr v \<Longrightarrow> token_ok v"
  using token_ok_attrInt [of attrs key]
  by (auto simp: checkedTokenAttr_def token_ok_def split: if_splits option.splits)

lemma token_ok_checkedFirstTokenAttr [accept]:
  "checkedFirstTokenAttr attrs keys = Inr v \<Longrightarrow> token_ok v"
  by (induction keys) (auto simp: token_ok_def [of None] dest: token_ok_checkedTokenAttr split: if_splits)

lemma positive_cost_Some: "positive_cost e attrs = Inr (Some c) \<Longrightarrow> in_range maxCostUSD c \<and> f_lt (Fin 0) c"
  using attrDouble_bounds [of attrs "''cost_usd''"]
  by (auto simp: positive_cost_def split: if_splits option.splits)

lemma length_serviceName: "length (serviceName r) \<le> maxLabelLen"
  by (simp add: serviceName_def length_truncateLabel)

lemma length_copilotReasoningEffort: "length (copilotReasoningEffort J attrs) \<le> maxLabelLen"
  by (auto simp: copilotReasoningEffort_def length_truncateLabel split: option.splits)

lemma length_copilotProvider: "length (copilotProvider attrs) \<le> maxLabelLen"
  using firstString_length [of attrs "[''gen_ai.provider.name'']"]
  unfolding copilotProvider_def Let_def by (simp add: maxLabelLen_def)

lemmas label_lengths = firstString_length length_serviceName length_copilotReasoningEffort
  length_copilotProvider

lemma small_label: "n \<le> 256 \<Longrightarrow> n \<le> maxLabelLen"
  by (simp add: maxLabelLen_def)

lemma set_harness_cost_fields [simp]:
  "g_id (set_harness_cost g) = g_id g"
  "g_timestamp (set_harness_cost g) = g_timestamp g"
  "g_source (set_harness_cost g) = g_source g"
  "g_conversation_id (set_harness_cost g) = g_conversation_id g"
  "g_model (set_harness_cost g) = g_model g"
  "g_cost (set_harness_cost g) = g_cost g"
  "tokens_ok (set_harness_cost g) = tokens_ok g"
  "labels_ok (set_harness_cost g) = labels_ok g"
  "unpriced (set_harness_cost g) = unpriced g"
  by (simp_all add: set_harness_cost_def tokens_ok_def labels_ok_def unpriced_def)

lemma cost_ok_set_harness_cost:
  "\<not> g_cost_reported g \<Longrightarrow> g_cost_source g = [] \<Longrightarrow> (\<And>c. g_cost g = Some c \<Longrightarrow> in_range maxCostUSD c)
   \<Longrightarrow> cost_ok (set_harness_cost g)"
  by (auto simp: set_harness_cost_def cost_ok_def split: option.splits)

lemma gen_ok_set_harness_cost:
  assumes "tokens_ok g" "labels_ok g" "unpriced g" "\<not> g_cost_reported g" "g_cost_source g = []"
    and "\<And>c. g_cost g = Some c \<Longrightarrow> in_range maxCostUSD c"
  shows "gen_ok (set_harness_cost g)"
  using assms by (simp add: gen_ok_def cost_ok_set_harness_cost)

text \<open>
  \<open>yields P r\<close>: if the result \<open>r\<close> is a record, it satisfies \<open>P\<close>.  The rules follow the control
  flow of a normalizer, so its proof is the obligation at the record it builds.
\<close>

definition yields :: "(generation \<Rightarrow> bool) \<Rightarrow> norm_result \<Rightarrow> bool" where
  "yields P r \<longleftrightarrow> (case r of Inr (Some g) \<Rightarrow> P g | _ \<Rightarrow> True)"

lemma yields_basic [simp]: "yields P (Inl e)" "yields P (Inr None)" "yields P (Inr (Some g)) = P g"
  by (simp_all add: yields_def)

lemma yieldsD: "yields P r \<Longrightarrow> r = Inr (Some g) \<Longrightarrow> P g"
  by (simp add: yields_def)

lemma yields_if: "(b \<Longrightarrow> yields P x) \<Longrightarrow> (\<not> b \<Longrightarrow> yields P y) \<Longrightarrow> yields P (if b then x else y)"
  by simp

lemma yields_ebind: "(\<And>a. r = Inr a \<Longrightarrow> yields P (f a)) \<Longrightarrow> yields P (ebind r f)"
  by (cases r) simp_all

lemma yields_option: "(x = None \<Longrightarrow> yields P a) \<Longrightarrow> (\<And>v. x = Some v \<Longrightarrow> yields P (f v))
    \<Longrightarrow> yields P (case x of None \<Rightarrow> a | Some v \<Rightarrow> f v)"
  by (cases x) simp_all

lemma yields_let: "(\<And>x. x = a \<Longrightarrow> yields P (f x)) \<Longrightarrow> yields P (Let a f)"
  by (simp add: Let_def)

lemma yields_Inl: "yields P (Inl e)" and yields_None: "yields P (Inr None)"
  and yields_Some: "P g \<Longrightarrow> yields P (Inr (Some g))"
  by simp_all

lemmas yields_intros = yields_Inl yields_None yields_Some yields_if yields_ebind yields_option yields_let

lemmas built_simps = zero_generation_def gen_ok_def tokens_ok_def cost_ok_def labels_ok_def
  unpriced_def label_lengths small_label

lemma token_ok_None [simp]: "token_ok None"
  by (simp add: token_ok_def)

declare firstString.simps [simp del] checkedFirstTokenAttr.simps [simp del]

lemma DedupID_Inr: "DedupID H s t x = Inr i \<longleftrightarrow> t \<noteq> [] \<and> x \<noteq> [] \<and> i = H (dedup_key s t x)"
  by (auto simp: DedupID_def)

lemma DedupLogID_Inr: "DedupLogID H s c t m ks = Inr i \<longleftrightarrow>
    s \<noteq> [] \<and> c \<noteq> [] \<and> \<not> is_zero_time t \<and> m \<noteq> [] \<and> i = H (log_key s c t m ks)"
  by (auto simp: DedupLogID_def)

lemma FromCopilotSpan_ok:
  "yields (\<lambda>g. gen_ok g \<and> g_source g = SourceCopilot \<and> g_cost g = None
    \<and> g_id g = H (dedup_key SourceCopilot (sp_trace_id sp) (sp_span_id sp)))
   (FromCopilotSpan H J resource sp)"
  unfolding FromCopilotSpan_def
  by (intro yields_intros) (simp_all add: built_simps DedupID_Inr)

lemma FromOpenCodeSpan_ok:
  "yields (\<lambda>g. gen_ok g \<and> g_source g = SourceOpenCode
    \<and> g_id g = H (dedup_key SourceOpenCode (sp_trace_id sp) (sp_span_id sp)))
   (FromOpenCodeSpan H resource sp)"
  unfolding FromOpenCodeSpan_def
  by (intro yields_intros conjI gen_ok_set_harness_cost)
     (auto simp: built_simps DedupID_Inr dest: attrDouble_bounds split: if_splits)

lemma FromCodexLog_ok:
  "yields (\<lambda>g. gen_ok g \<and> g_source g = SourceCodex \<and> g_cost g = None
    \<and> g_conversation_id g \<noteq> [] \<and> g_model g \<noteq> []
    \<and> g_id g = H (log_key SourceCodex (g_conversation_id g) (g_timestamp g) (g_model g)
        [g_input g, g_output g, g_cache_read g, g_cache_creation g, g_reasoning g]))
   (FromCodexLog H resource lr)"
  unfolding FromCodexLog_def
  by (intro yields_intros) (simp_all add: built_simps DedupLogID_Inr accept)

lemma checkedMakiIntAttr_bounds: "checkedMakiIntAttr attrs key limit = Inr (Some n) \<Longrightarrow> 0 \<le> n \<and> n \<le> limit"
  by (auto simp: checkedMakiIntAttr_def ebind_Inr split: option.splits if_splits)

lemma FromMakiLog_ok:
  "yields (\<lambda>g. gen_ok g \<and> g_source g = SourceMaki \<and> g_conversation_id g \<noteq> [] \<and> g_model g \<noteq> []
    \<and> (\<exists>n. 0 \<le> n \<and> n \<le> maxInt64
        \<and> g_id g = H (dedup_key SourceMaki (g_conversation_id g) (seq_span (log_timestamp lr) n))))
   (FromMakiLog H resource lr)"
  unfolding FromMakiLog_def
  by (intro yields_intros conjI gen_ok_set_harness_cost)
     (auto simp: built_simps DedupID_Inr accept dest: positive_cost_Some checkedMakiIntAttr_bounds)

lemma FromClaudeCodeLog_ok:
  "yields (\<lambda>g. gen_ok g \<and> g_source g = SourceClaudeCode \<and> g_model g \<noteq> []
    \<and> claudeCodeID H (lr_attrs lr) (g_conversation_id g) (log_timestamp lr) = Inr (g_id g))
   (FromClaudeCodeLog H resource lr)"
  unfolding FromClaudeCodeLog_def
  by (intro yields_intros conjI gen_ok_set_harness_cost)
     (auto simp: built_simps accept dest: positive_cost_Some)

section \<open>Records that are ignored\<close>

text \<open>A record of the wrong kind is ignored, one of the right kind is accepted or rejected.\<close>

lemma decides_ebind: "(\<And>a. r = Inr a \<Longrightarrow> f a \<noteq> Inr None) \<Longrightarrow> ebind r f \<noteq> Inr None"
  by (cases r) simp_all

lemma decides_option: "a \<noteq> Inr None \<Longrightarrow> (\<And>v. f v \<noteq> Inr None)
    \<Longrightarrow> (case x of None \<Rightarrow> a | Some v \<Rightarrow> f v) \<noteq> Inr None"
  by (cases x) simp_all

lemma decides_if: "x \<noteq> Inr None \<Longrightarrow> y \<noteq> Inr None \<Longrightarrow> (if b then x else y) \<noteq> Inr None"
  by simp

lemma decides_let: "(\<And>x. f x \<noteq> Inr None) \<Longrightarrow> Let a f \<noteq> Inr None"
  by (simp add: Let_def)

lemma decides_basic: "(Inl e :: norm_result) \<noteq> Inr None" "(Inr (Some g) :: norm_result) \<noteq> Inr None"
  by simp_all

lemma decides_guard: "x \<noteq> Inr None \<Longrightarrow> (if b then Inr None else x) = Inr None \<longleftrightarrow> b"
  by simp

lemmas decides_intros = decides_guard decides_ebind decides_option decides_if decides_let decides_basic

definition is_codex_event :: "attrs \<Rightarrow> bool" where
  "is_codex_event m \<longleftrightarrow> attrString0 m ''event.name'' = ''codex.sse_event''
     \<and> attrString0 m ''event.kind'' = ''response.completed''"

lemma FromCopilotSpan_ignored: "FromCopilotSpan H J resource sp = Inr None \<longleftrightarrow>
    attrString0 (sp_attrs sp) ''gen_ai.operation.name'' \<noteq> ''chat''"
  unfolding FromCopilotSpan_def Let_def [of "sp_attrs sp"] by (intro decides_intros)

lemma FromOpenCodeSpan_ignored: "FromOpenCodeSpan H resource sp = Inr None \<longleftrightarrow>
    attrString0 (sp_attrs sp) ''openinference.span.kind'' \<noteq> ''LLM'' \<and> sp_name sp \<noteq> ''opencode.llm''"
  unfolding FromOpenCodeSpan_def Let_def [of "sp_attrs sp"] by (intro decides_intros)

lemma FromCodexLog_ignored: "FromCodexLog H resource lr = Inr None \<longleftrightarrow> \<not> is_codex_event (lr_attrs lr)"
  unfolding FromCodexLog_def Let_def [of "lr_attrs lr"] is_codex_event_def de_Morgan_conj
  by (intro decides_intros)

lemma FromMakiLog_ignored: "FromMakiLog H resource lr = Inr None \<longleftrightarrow>
    attrString0 (lr_attrs lr) ''event.name'' \<noteq> ''maki.api_request''"
  unfolding FromMakiLog_def Let_def [of "lr_attrs lr"] by (intro decides_intros)

lemma FromClaudeCodeLog_ignored: "FromClaudeCodeLog H resource lr = Inr None \<longleftrightarrow>
    attrString0 (lr_attrs lr) ''event.name'' \<notin> {''api_request'', ''claude_code.api_request''}"
proof -
  have set: "name \<notin> {a, b} \<longleftrightarrow> name \<noteq> a \<and> name \<noteq> b" for name a b :: string by simp
  show ?thesis
    unfolding FromClaudeCodeLog_def Let_def [of "lr_attrs lr"]
      Let_def [of "attrString0 (lr_attrs lr) ''event.name''"] set
    by (intro decides_intros)
qed

section \<open>Properties\<close>

text \<open>
  C24: Whatever a client exports, an accepted span or log record has token counts between 0 and
  10^9, a cost (if any) that is finite, between 0 and 10^6 USD and marked as reported by the
  harness, labels of at most 256 bytes, no pricing yet, and the source it was dispatched to.
\<close>

theorem normalized_records_are_well_formed:
  "yields (\<lambda>g. gen_ok g \<and> g_source g = source) (FromSpan H J source resource sp)
   \<and> yields (\<lambda>g. gen_ok g \<and> g_source g = source) (FromLog H source resource lr)"
proof -
  have mono: "yields P r \<Longrightarrow> (\<And>g. P g \<Longrightarrow> Q g) \<Longrightarrow> yields Q r" for P Q r
    by (auto simp: yields_def split: sum.splits option.splits)
  show ?thesis
    unfolding FromSpan_def FromLog_def
    by (intro conjI yields_if yields_basic mono [OF FromCopilotSpan_ok] mono [OF FromOpenCodeSpan_ok]
          mono [OF FromCodexLog_ok] mono [OF FromMakiLog_ok] mono [OF FromClaudeCodeLog_ok]) auto
qed

text \<open>Exactly the records that describe a model call become generations or are reported as
  errors; every other record of a known producer is ignored, with no error: a Copilot span other
  than a chat call, an OpenCode span that is neither of kind LLM nor named opencode.llm, any span
  of Codex (its usage arrives as logs), and the log records of other events.
\<close>

theorem ignored_records:
  "(FromSpan H J SourceCopilot res sp = Inr None \<longleftrightarrow>
     attrString0 (sp_attrs sp) ''gen_ai.operation.name'' \<noteq> ''chat'')
   \<and> (FromSpan H J SourceOpenCode res sp = Inr None \<longleftrightarrow>
     attrString0 (sp_attrs sp) ''openinference.span.kind'' \<noteq> ''LLM'' \<and> sp_name sp \<noteq> ''opencode.llm'')
   \<and> (FromSpan H J SourceCodex res sp = Inr None)
   \<and> (FromLog H SourceCodex res lr = Inr None \<longleftrightarrow> \<not> is_codex_event (lr_attrs lr))
   \<and> (FromLog H SourceMaki res lr = Inr None \<longleftrightarrow>
     attrString0 (lr_attrs lr) ''event.name'' \<noteq> ''maki.api_request'')
   \<and> (FromLog H SourceClaudeCode res lr = Inr None \<longleftrightarrow>
     attrString0 (lr_attrs lr) ''event.name'' \<notin> {''api_request'', ''claude_code.api_request''})"
  by (simp_all add: FromSpan_def FromLog_def source_defs FromCopilotSpan_ignored
      FromOpenCodeSpan_ignored FromCodexLog_ignored FromMakiLog_ignored FromClaudeCodeLog_ignored
      del: insert_iff)

definition codex_key :: "generation \<Rightarrow> string" where
  "codex_key g = log_key (g_source g) (g_conversation_id g) (g_timestamp g) (g_model g)
     [g_input g, g_output g, g_cache_read g, g_cache_creation g, g_reasoning g]"

text \<open>Two Codex records get the same identity exactly when conversation, time to the
  nanosecond, model and all five token counts agree (a missing count differs from zero): a retry
  keeps its identity and distinct calls never merge.  The hash is only assumed not to collide on
  the two texts hashed.
\<close>

theorem codex_identity:
  assumes "FromLog H SourceCodex res lr = Inr (Some g)"
    and "FromLog H SourceCodex res' lr' = Inr (Some g')"
    and "H (codex_key g) = H (codex_key g') \<Longrightarrow> codex_key g = codex_key g'"
  shows "g_id g = g_id g' \<longleftrightarrow> g_conversation_id g = g_conversation_id g' \<and> g_timestamp g = g_timestamp g'
    \<and> g_model g = g_model g' \<and> g_input g = g_input g' \<and> g_output g = g_output g'
    \<and> g_cache_read g = g_cache_read g' \<and> g_cache_creation g = g_cache_creation g'
    \<and> g_reasoning g = g_reasoning g'"
proof -
  have id: "g_id x = H (codex_key x) \<and> g_source x = SourceCodex"
    if "FromLog H SourceCodex r l = Inr (Some x)" for r l x
    using yieldsD [OF FromCodexLog_ok, of H r l x] that
    by (simp add: FromLog_def codex_key_def source_defs)
  have "g_id g = g_id g' \<longleftrightarrow> codex_key g = codex_key g'"
    using id [OF assms(1)] id [OF assms(2)] assms(3) by auto
  then show ?thesis
    using id [OF assms(1)] id [OF assms(2)] by (simp add: codex_key_def log_key_inject)
qed

definition codex_sample :: "int \<Rightarrow> log_record" where
  "codex_sample out = \<lparr>lr_timestamp = 1700000000000000000, lr_observed = 0,
     lr_attrs = [(''event.name'', AStr ''codex.sse_event''), (''event.kind'', AStr ''response.completed''),
       (''model'', AStr ''gpt''), (''conversation.id'', AStr ''c''), (''output_token_count'', AInt out)]\<rparr>"

theorem codex_identity_witness:
  "\<exists>g g'. FromLog (\<lambda>x. x) SourceCodex [] (codex_sample 7) = Inr (Some g)
     \<and> FromLog (\<lambda>x. x) SourceCodex [] (codex_sample 8) = Inr (Some g') \<and> g_id g \<noteq> g_id g'"
proof -
  have "case FromLog (\<lambda>x. x) SourceCodex [] (codex_sample 7) of Inr (Some g) \<Rightarrow> g_output g = Some 7 | _ \<Rightarrow> False"
    by code_simp
  then obtain g where g: "FromLog (\<lambda>x. x) SourceCodex [] (codex_sample 7) = Inr (Some g)" "g_output g = Some 7"
    by (auto split: sum.splits option.splits)
  have "case FromLog (\<lambda>x. x) SourceCodex [] (codex_sample 8) of Inr (Some g) \<Rightarrow> g_output g = Some 8 | _ \<Rightarrow> False"
    by code_simp
  then obtain g' where g': "FromLog (\<lambda>x. x) SourceCodex [] (codex_sample 8) = Inr (Some g')" "g_output g' = Some 8"
    by (auto split: sum.splits option.splits)
  show ?thesis using codex_identity [OF g(1) g'(1)] g g' by auto
qed

text \<open>Two Copilot or OpenCode spans get the same identity exactly when source, trace and span
  identifier agree, whatever attributes the retry adds.
\<close>

theorem span_identity:
  assumes "FromSpan H J source res sp = Inr (Some g)" "FromSpan H J source' res' sp' = Inr (Some g')"
    and "CHR ''|'' \<notin> set (sp_span_id sp)" "CHR ''|'' \<notin> set (sp_span_id sp')"
    and "let k = dedup_key source (sp_trace_id sp) (sp_span_id sp);
             k' = dedup_key source' (sp_trace_id sp') (sp_span_id sp') in H k = H k' \<longrightarrow> k = k'"
  shows "g_id g = g_id g' \<longleftrightarrow>
    source = source' \<and> sp_trace_id sp = sp_trace_id sp' \<and> sp_span_id sp = sp_span_id sp'"
proof -
  have id: "g_id x = H (dedup_key s (sp_trace_id p) (sp_span_id p)) \<and> CHR ''|'' \<notin> set s"
    if "FromSpan H J s r p = Inr (Some x)" for s r p x
    using that yieldsD [OF FromCopilotSpan_ok, of H J r p x] yieldsD [OF FromOpenCodeSpan_ok, of H r p x]
    by (auto simp: FromSpan_def source_defs split: if_splits)
  have "g_id g = g_id g' \<longleftrightarrow> dedup_key source (sp_trace_id sp) (sp_span_id sp)
      = dedup_key source' (sp_trace_id sp') (sp_span_id sp')"
    using id [OF assms(1)] id [OF assms(2)] assms(5) by (auto simp: Let_def)
  then show ?thesis
    using id [OF assms(1)] id [OF assms(2)] assms(3,4) by (simp add: dedup_key_inject)
qed

definition span_sample :: "string \<Rightarrow> otel_span" where
  "span_sample i = \<lparr>sp_name = ''chat m'', sp_trace_id = ''a1'', sp_span_id = i,
     sp_start = 1700000000000000000, sp_end = 1700000001000000000,
     sp_attrs = [(''gen_ai.operation.name'', AStr ''chat'')]\<rparr>"

theorem span_identity_witness:
  "\<exists>g g'. FromSpan (\<lambda>x. x) (\<lambda>_. None) SourceCopilot [] (span_sample ''b1'') = Inr (Some g)
     \<and> FromSpan (\<lambda>x. x) (\<lambda>_. None) SourceCopilot [] (span_sample ''b2'') = Inr (Some g') \<and> g_id g \<noteq> g_id g'"
proof -
  have "case FromSpan (\<lambda>x. x) (\<lambda>_. None) SourceCopilot [] (span_sample ''b1'') of Inr (Some g) \<Rightarrow> True | _ \<Rightarrow> False"
    by code_simp
  then obtain g where g: "FromSpan (\<lambda>x. x) (\<lambda>_. None) SourceCopilot [] (span_sample ''b1'') = Inr (Some g)"
    by (auto split: sum.splits option.splits)
  have "case FromSpan (\<lambda>x. x) (\<lambda>_. None) SourceCopilot [] (span_sample ''b2'') of Inr (Some g) \<Rightarrow> True | _ \<Rightarrow> False"
    by code_simp
  then obtain g' where g': "FromSpan (\<lambda>x. x) (\<lambda>_. None) SourceCopilot [] (span_sample ''b2'') = Inr (Some g')"
    by (auto split: sum.splits option.splits)
  show ?thesis using span_identity [OF g g'] g g' by (auto simp: span_sample_def)
qed

text \<open>Claude Code identities are not unambiguous: a record of a session named ''request'' that
  has no request identifier shares its identity with the call whose request identifier is the
  text of that record's time and sequence number.
\<close>

theorem claude_identity_clash:
  "claudeCodeID H [(''request_id'', AStr ''5:7'')] session t
   = claudeCodeID H [(''event.sequence'', AInt 7)] ''request'' 5"
proof -
  have "seq_span 5 7 = ''5:7''" by code_simp
  then show ?thesis
    by (simp add: claudeCodeID_def firstString.simps attrString_def attr_get_def truncateLabel_def
        maxLabelLen_def DedupID_def checkedTokenAttr_def attrInt_def maxTokensPerCall_def)
qed

end
