(* ===== verification/Rollup.thy ===== *)
theory Rollup
  imports Rows Normalize
begin

text \<open>
  The per-day rollup tables of \<open>internal/storage/rollup.go\<close>: the facts of a row, the statements
  the triggers are made of, the triggers, the backfill, and the proof that the tables always
  equal what a grouping of \<open>generations\<close> would give.

  SQLite divides integers towards zero, written \<open>sdiv\<close>.  Counts stay far below 64 bits (a row holds
  at most 10^9 tokens per column), so they are plain integers; the REAL column \<open>cost_sum\<close> is summed
  exactly, as a rational, where SQLite rounds each addition.
\<close>

section \<open>Facts\<close>

datatype facts = Facts (f_requests: int) (f_input: int) (f_output: int) (f_cache_read: int)
  (f_cache_creation: int) (f_reasoning: int) (f_reported: int) (f_estimated: int) (f_free: int)
  (f_known: int) (f_cost: rat)

instantiation facts :: ab_group_add
begin

definition zero_facts :: facts where
  "0 = Facts 0 0 0 0 0 0 0 0 0 0 0"

definition plus_facts :: "facts \<Rightarrow> facts \<Rightarrow> facts" where
  "a + b = Facts (f_requests a + f_requests b) (f_input a + f_input b) (f_output a + f_output b)
     (f_cache_read a + f_cache_read b) (f_cache_creation a + f_cache_creation b)
     (f_reasoning a + f_reasoning b) (f_reported a + f_reported b) (f_estimated a + f_estimated b)
     (f_free a + f_free b) (f_known a + f_known b) (f_cost a + f_cost b)"

definition uminus_facts :: "facts \<Rightarrow> facts" where
  "- a = Facts (- f_requests a) (- f_input a) (- f_output a) (- f_cache_read a)
     (- f_cache_creation a) (- f_reasoning a) (- f_reported a) (- f_estimated a) (- f_free a)
     (- f_known a) (- f_cost a)"

definition minus_facts :: "facts \<Rightarrow> facts \<Rightarrow> facts" where
  "a - b = a + - (b :: facts)"

instance
  by standard
     (simp_all add: zero_facts_def plus_facts_def uminus_facts_def minus_facts_def facts.expand algebra_simps)

end

lemma facts_sel_plus [simp]:
  "f_requests (a + b) = f_requests a + f_requests b" "f_input (a + b) = f_input a + f_input b"
  "f_output (a + b) = f_output a + f_output b" "f_cache_read (a + b) = f_cache_read a + f_cache_read b"
  "f_cache_creation (a + b) = f_cache_creation a + f_cache_creation b"
  "f_reasoning (a + b) = f_reasoning a + f_reasoning b" "f_reported (a + b) = f_reported a + f_reported b"
  "f_estimated (a + b) = f_estimated a + f_estimated b" "f_free (a + b) = f_free a + f_free b"
  "f_known (a + b) = f_known a + f_known b" "f_cost (a + b) = f_cost a + f_cost b"
  by (simp_all add: plus_facts_def)

lemma facts_sel_zero [simp]:
  "f_requests 0 = 0" "f_input 0 = 0" "f_output 0 = 0" "f_cache_read 0 = 0" "f_cache_creation 0 = 0"
  "f_reasoning 0 = 0" "f_reported 0 = 0" "f_estimated 0 = 0" "f_free 0 = 0" "f_known 0 = 0" "f_cost 0 = 0"
  by (simp_all add: zero_facts_def)

definition dayBucket :: "int \<Rightarrow> int" where
  "dayBucket ts = ts sdiv 86400000 * 86400000"

definition hourBucket :: "int \<Rightarrow> int" where
  "hourBucket ts = ts sdiv 3600000 * 3600000"

lemma sdiv_nonneg: "0 \<le> n \<Longrightarrow> 0 < k \<Longrightarrow> n sdiv k = n div (k :: int)"
  by (cases "n = 0") (simp_all add: signed_divide_int_def)

lemma dayBucket_nonneg: "0 \<le> ts \<Longrightarrow> dayBucket ts = ts div 86400000 * 86400000"
  by (simp add: dayBucket_def sdiv_nonneg)

lemma hourBucket_nonneg: "0 \<le> ts \<Longrightarrow> hourBucket ts = ts div 3600000 * 3600000"
  by (simp add: hourBucket_def sdiv_nonneg)

text \<open>\<open>uncachedInputSQL\<close> and \<open>outputTokensSQL\<close>; \<open>coal\<close> is \<open>COALESCE(col, 0)\<close>.\<close>

definition inclusive_source :: "string \<Rightarrow> bool" where
  "inclusive_source s \<longleftrightarrow> s = SourceCopilot \<or> s = SourceCodex"

abbreviation coal :: "int option \<Rightarrow> int" where
  "coal \<equiv> opt_val"

definition uncachedInputSQL :: "gen_row \<Rightarrow> int" where
  "uncachedInputSQL r = (if inclusive_source (r_source r)
     then max (coal (r_input r) - coal (r_cache_read r) - coal (r_cache_creation r)) 0
     else coal (r_input r))"

definition outputTokensSQL :: "gen_row \<Rightarrow> int" where
  "outputTokensSQL r = (if inclusive_source (r_source r)
     then max (coal (r_output r) - coal (r_reasoning r)) 0
     else coal (r_output r))"

definition factMeasures :: "gen_row \<Rightarrow> facts" where
  "factMeasures r = Facts 1 (uncachedInputSQL r) (outputTokensSQL r) (coal (r_cache_read r))
     (coal (r_cache_creation r)) (coal (r_reasoning r))
     (of_bool (r_cost_source r = ''harness'' \<and> r_cost r \<noteq> None))
     (of_bool (r_cost_source r \<in> {''openrouter'', ''manual''} \<and> r_cost r \<noteq> None))
     (of_bool (r_cost_source r = ''free'' \<and> r_cost r \<noteq> None))
     (of_bool (r_cost r \<noteq> None))
     (case r_cost r of None \<Rightarrow> 0 | Some c \<Rightarrow> fin_val c)"

section \<open>Keys\<close>

type_synonym dims = "string \<times> string \<times> string \<times> int"

definition coal_string :: "string option \<Rightarrow> string" where
  "coal_string s = (case s of None \<Rightarrow> [] | Some x \<Rightarrow> x)"

definition factDims :: "gen_row \<Rightarrow> dims" where
  "factDims r = (r_source r, coal_string (r_provider r), coal_string (r_model r), coal (r_token r))"

definition factHelper :: "gen_row \<Rightarrow> bool" where
  "factHelper r \<longleftrightarrow> r_source r = SourceCopilot
     \<and> coal_string (r_agent_name r) \<in> {AgentXtabProvider, AgentTitle, AgentProgressMessages}"

definition convKeyOtherPrefix :: string where "convKeyOtherPrefix = ''other:''"
definition convKeyAutocompletePrefix :: string where "convKeyAutocompletePrefix = ''autocomplete:''"
definition convKeyTitleProgressPrefix :: string where "convKeyTitleProgressPrefix = ''titleprogress:''"

definition convKeyPrefixes :: "string list" where
  "convKeyPrefixes = [convKeyOtherPrefix, convKeyAutocompletePrefix, convKeyTitleProgressPrefix]"

definition conversationKey :: "gen_row \<Rightarrow> string" where
  "conversationKey r =
     (if r_source r = SourceCopilot \<and> r_agent_name r = Some AgentXtabProvider
      then convKeyAutocompletePrefix @ show_int (dayBucket (r_ts r))
      else if r_source r = SourceCopilot \<and> r_agent_name r \<in> {Some AgentTitle, Some AgentProgressMessages}
      then convKeyTitleProgressPrefix @ show_int (dayBucket (r_ts r))
      else case r_conversation_id r of
        None \<Rightarrow> convKeyOtherPrefix @ show_int (dayBucket (r_ts r))
      | Some c \<Rightarrow> c)"

text \<open>
  \<open>rollupSpec\<close>: the key columns beside the day and the filterable ones among them, whether the table keeps first and last timestamp,
  and the scope of the span recompute (a guard on the group and the condition it implies for
  the group's rows).
\<close>

record 'k rollupSpec =
  keys :: "gen_row \<Rightarrow> 'k"
  key_dims :: "'k \<Rightarrow> dims"
  has_span :: bool
  guard :: "gen_row \<Rightarrow> 'k \<Rightarrow> bool"
  cond :: "gen_row \<Rightarrow> gen_row \<Rightarrow> bool"

definition usageRollup :: "(dims \<times> bool) rollupSpec" where
  "usageRollup = \<lparr>keys = (\<lambda>r. (factDims r, factHelper r)), key_dims = fst, has_span = False,
     guard = (\<lambda>_ _. True), cond = (\<lambda>_ _. True)\<rparr>"

definition conversationRollup :: "(string \<times> dims) rollupSpec" where
  "conversationRollup = \<lparr>keys = (\<lambda>r. (conversationKey r, factDims r)), key_dims = snd, has_span = True,
     guard = (\<lambda>row (conversation, _). Some conversation = r_conversation_id row
       \<and> (\<forall>p \<in> set convKeyPrefixes. \<not> prefix p conversation)),
     cond = (\<lambda>row r. r_conversation_id r \<noteq> None \<and> r_conversation_id r = r_conversation_id row)\<rparr>"

section \<open>Tables\<close>

text \<open>A rollup row: day and keys, the measures, and the span when the table has one.\<close>

type_synonym 'k group_key = "int \<times> 'k"
type_synonym rollup_vals = "facts \<times> (int \<times> int) option"
type_synonym 'k rollup_table = "('k group_key \<times> rollup_vals) list"

definition group_key :: "'k rollupSpec \<Rightarrow> gen_row \<Rightarrow> 'k group_key" where
  "group_key spec r = (dayBucket (r_ts r), keys spec r)"

fun upsert :: "'k \<Rightarrow> 'v \<Rightarrow> ('v \<Rightarrow> 'v) \<Rightarrow> ('k \<times> 'v) list \<Rightarrow> ('k \<times> 'v) list" where
  "upsert k ins upd [] = [(k, ins)]"
| "upsert k ins upd ((k', v) # t) = (if k' = k then (k', upd v) # t else (k', v) # upsert k ins upd t)"

text \<open>\<open>addSQL\<close>: the sign is a flag, and only an addition widens the span.\<close>

definition signed :: "bool \<Rightarrow> facts \<Rightarrow> facts" where
  "signed adding f = (if adding then f else - f)"

definition widen :: "int \<Rightarrow> int \<times> int \<Rightarrow> int \<times> int" where
  "widen ts s = (min (fst s) ts, max (snd s) ts)"

definition addSQL :: "'k rollupSpec \<Rightarrow> bool \<Rightarrow> gen_row \<Rightarrow> 'k rollup_table \<Rightarrow> 'k rollup_table" where
  "addSQL spec adding row t = (let f = signed adding (factMeasures row); ts = r_ts row in
     upsert (group_key spec row) (f, if has_span spec then Some (ts, ts) else None)
       (\<lambda>(g, s). (g + f, if adding then map_option (widen ts) s else s)) t)"

definition pruneSQL :: "'k rollupSpec \<Rightarrow> gen_row \<Rightarrow> 'k rollup_table \<Rightarrow> 'k rollup_table" where
  "pruneSQL spec row t = filter (\<lambda>(k, f, _). \<not> (f_requests f = 0 \<and> k = group_key spec row)) t"

text \<open>
  \<open>spanStmtSQL\<close>: an UPDATE of the row's group.  \<open>nearest\<close> is the scalar subquery of one bound, NULL
  when it selects nothing; a NULL bound violates the table's NOT NULL constraint and fails the
  statement.
\<close>

definition nearest :: "'k rollupSpec \<Rightarrow> (gen_row \<Rightarrow> bool) \<Rightarrow> gen_row list \<Rightarrow> gen_row
    \<Rightarrow> (int \<Rightarrow> bool) \<Rightarrow> (int set \<Rightarrow> int) \<Rightarrow> int \<Rightarrow> int option" where
  "nearest spec c rows row cmp pick bound =
     (if r_ts row = bound then
        (let day = dayBucket (r_ts row);
             ts = map r_ts (filter (\<lambda>r. c r \<and> cmp (r_ts r) \<and> day \<le> r_ts r \<and> r_ts r < day + 86400000
               \<and> keys spec r = keys spec row) rows)
         in if ts = [] then None else Some (pick (set ts)))
      else Some bound)"

definition span_vals :: "'k rollupSpec \<Rightarrow> ('k \<Rightarrow> bool) \<Rightarrow> (gen_row \<Rightarrow> bool) \<Rightarrow> gen_row list \<Rightarrow> gen_row
    \<Rightarrow> rollup_vals \<Rightarrow> rollup_vals option" where
  "span_vals spec g c rows row v = (case v of
       (f, None) \<Rightarrow> Some v
     | (f, Some (first_ts, last_ts)) \<Rightarrow>
         if r_ts row \<in> {first_ts, last_ts} \<and> g (keys spec row)
         then (case (nearest spec c rows row (\<lambda>ts. r_ts row \<le> ts) Min first_ts,
                     nearest spec c rows row (\<lambda>ts. ts \<le> r_ts row) Max last_ts) of
                 (Some a, Some b) \<Rightarrow> Some (f, Some (a, b)) | _ \<Rightarrow> None)
         else Some v)"

definition spanStmtSQL :: "'k rollupSpec \<Rightarrow> ('k \<Rightarrow> bool) \<Rightarrow> (gen_row \<Rightarrow> bool) \<Rightarrow> gen_row list \<Rightarrow> gen_row
    \<Rightarrow> 'k rollup_table \<Rightarrow> 'k rollup_table option" where
  "spanStmtSQL spec g c rows row t = those (map (\<lambda>(k, v).
     if k = group_key spec row then map_option (Pair k) (span_vals spec g c rows row v)
     else Some (k, v)) t)"

definition spanSQL :: "'k rollupSpec \<Rightarrow> gen_row list \<Rightarrow> gen_row \<Rightarrow> 'k rollup_table \<Rightarrow> 'k rollup_table option" where
  "spanSQL spec rows row t = (if has_span spec
     then Option.bind (spanStmtSQL spec (guard spec row) (cond spec row) rows row t)
            (spanStmtSQL spec (\<lambda>k. \<not> guard spec row k) (\<lambda>_. True) rows row)
     else Some t)"

text \<open>The part of each trigger that maintains one table; \<open>rows\<close> is \<open>generations\<close> after the change.\<close>

definition onInsert :: "'k rollupSpec \<Rightarrow> gen_row \<Rightarrow> 'k rollup_table \<Rightarrow> 'k rollup_table" where
  "onInsert spec new t = addSQL spec True new t"

definition onDelete :: "'k rollupSpec \<Rightarrow> gen_row list \<Rightarrow> gen_row \<Rightarrow> 'k rollup_table \<Rightarrow> 'k rollup_table option" where
  "onDelete spec rows old t = spanSQL spec rows old (pruneSQL spec old (addSQL spec False old t))"

definition onUpdate :: "'k rollupSpec \<Rightarrow> gen_row list \<Rightarrow> gen_row \<Rightarrow> gen_row \<Rightarrow> 'k rollup_table
    \<Rightarrow> 'k rollup_table option" where
  "onUpdate spec rows old new t =
     spanSQL spec rows old (pruneSQL spec old (addSQL spec True new (addSQL spec False old t)))"

text \<open>\<open>groupSQL\<close> over all rows, which the backfill inserts into the emptied table.\<close>

definition group_vals :: "'k rollupSpec \<Rightarrow> gen_row list \<Rightarrow> rollup_vals" where
  "group_vals spec rs = (sum_list (map factMeasures rs),
     if has_span spec then Some (Min (set (map r_ts rs)), Max (set (map r_ts rs))) else None)"

definition members :: "'k rollupSpec \<Rightarrow> 'k group_key \<Rightarrow> gen_row list \<Rightarrow> gen_row list" where
  "members spec k rows = filter (\<lambda>r. group_key spec r = k) rows"

definition backfill :: "'k rollupSpec \<Rightarrow> gen_row list \<Rightarrow> 'k rollup_table" where
  "backfill spec rows = map (\<lambda>k. (k, group_vals spec (members spec k rows)))
     (remdups (map (group_key spec) rows))"

section \<open>Tables as maps\<close>

lemma map_of_upsert: "map_of (upsert k ins upd t) =
    (map_of t)(k \<mapsto> case map_of t k of None \<Rightarrow> ins | Some v \<Rightarrow> upd v)"
  by (induction t rule: upsert.induct [of "\<lambda>k' _ _ t. k' = k \<longrightarrow> _ t" k ins upd, simplified])
     (auto split: option.splits)

lemma keys_upsert: "set (map fst (upsert k ins upd t)) = insert k (set (map fst t))"
  by (induction k ins upd t rule: upsert.induct) auto

lemma distinct_upsert: "distinct (map fst t) \<Longrightarrow> distinct (map fst (upsert k ins upd t))"
proof (induction k ins upd t rule: upsert.induct)
  case (2 k ins upd k' v t)
  then show ?case using keys_upsert [of k ins upd t] by auto
qed simp

lemma distinct_map_filter: "distinct (map f xs) \<Longrightarrow> distinct (map f (filter P xs))"
  by (induction xs) auto

lemma map_of_filter_key:
  assumes "distinct (map fst t)"
  shows "map_of (filter (\<lambda>(k', v). \<not> (P v \<and> k' = k)) t) =
    (\<lambda>x. if x = k \<and> (\<exists>v. map_of t k = Some v \<and> P v) then None else map_of t x)"
proof -
  have "map_of (filter (\<lambda>(k', v). \<not> (P v \<and> k' = k)) t) x =
    (if x = k \<and> (\<exists>v. map_of t k = Some v \<and> P v) then None else map_of t x)" for x
    using assms
  proof (induction t)
    case (Cons p t)
    obtain k' v where p: "p = (k', v)" by (cases p)
    have none: "map_of t k' = None" using Cons.prems p by (simp add: map_of_eq_None_iff)
    have sub: "map_of (filter (\<lambda>(a, b). \<not> (P b \<and> a = k)) t) k' = None"
      using Cons.prems p by (auto simp: map_of_eq_None_iff)
    show ?case using Cons p none sub by (cases "x = k'"; cases "k = k'") auto
  qed simp
  then show ?thesis by blast
qed

text \<open>A statement that changes the row of one key, and may fail there.\<close>

lemma those_map_key:
  assumes "distinct (map fst t)" "map_of t k = Some v" "h v = Some v'"
  shows "\<exists>t'. those (map (\<lambda>(k', v). if k' = k then map_option (Pair k') (h v) else Some (k', v)) t) = Some t'
    \<and> map fst t' = map fst t \<and> map_of t' = (map_of t)(k \<mapsto> v')"
  using assms
proof (induction t)
  case (Cons p t)
  obtain k1 v1 where p: "p = (k1, v1)" by (cases p)
  let ?g = "\<lambda>(k', v). if k' = k then map_option (Pair k') (h v) else Some (k', v)"
  show ?case
  proof (cases "k1 = k")
    case True
    have "those (map ?g u) = Some u" if "k \<notin> set (map fst u)" for u
      using that by (induction u) auto
    then show ?thesis using Cons.prems True p by auto
  next
    case False
    with Cons.prems p have "distinct (map fst t)" "map_of t k = Some v" by simp_all
    from Cons.IH [OF this Cons.prems(3)] obtain t' where "those (map ?g t) = Some t'"
      "map fst t' = map fst t" "map_of t' = (map_of t)(k \<mapsto> v')"
      by blast
    then show ?thesis using False p by (auto simp: fun_upd_twist)
  qed
qed simp

lemma those_map_none: "k \<notin> set (map fst t) \<Longrightarrow>
    those (map (\<lambda>(k', v). if k' = k then map_option (Pair k') (h v) else Some (k', v)) t) = Some t"
  by (induction t) auto

section \<open>The invariant\<close>

definition rollup_ok :: "'k rollupSpec \<Rightarrow> gen_row list \<Rightarrow> 'k rollup_table \<Rightarrow> bool" where
  "rollup_ok spec rows t \<longleftrightarrow> distinct (map fst t) \<and> (\<forall>k. map_of t k =
     (let rs = members spec k rows in if rs = [] then None else Some (group_vals spec rs)))"

text \<open>
  Between the statements of a trigger a table is described by a map: the facts of a group and,
  for a table with spans, the set of timestamps its span covers.
\<close>

definition vals :: "'k rollupSpec \<Rightarrow> facts \<Rightarrow> int set \<Rightarrow> rollup_vals" where
  "vals spec f S = (f, if has_span spec then Some (Min S, Max S) else None)"

definition stamps :: "'k rollupSpec \<Rightarrow> 'k group_key \<Rightarrow> gen_row list \<Rightarrow> int set" where
  "stamps spec k rows = set (map r_ts (members spec k rows))"

definition gsum :: "'k rollupSpec \<Rightarrow> 'k group_key \<Rightarrow> gen_row list \<Rightarrow> facts" where
  "gsum spec k rows = sum_list (map factMeasures (members spec k rows))"

lemma finite_stamps [simp]: "finite (stamps spec k rows)"
  by (simp add: stamps_def)

lemma stamps_empty: "stamps spec k rows = {} \<longleftrightarrow> members spec k rows = []"
  by (simp add: stamps_def)

lemma rollup_ok_alt: "rollup_ok spec rows t \<longleftrightarrow> distinct (map fst t) \<and> (\<forall>k. map_of t k =
    (if stamps spec k rows = {} then None else Some (vals spec (gsum spec k rows) (stamps spec k rows))))"
  by (simp add: rollup_ok_def Let_def group_vals_def vals_def gsum_def stamps_empty)
     (simp add: stamps_def)

lemma members_insert: "members spec k (xs @ r # ys) =
    members spec k xs @ (if group_key spec r = k then [r] else []) @ members spec k ys"
  by (simp add: members_def)

lemma stamps_insert: "stamps spec k (xs @ r # ys) =
    (if group_key spec r = k then insert (r_ts r) (stamps spec k (xs @ ys)) else stamps spec k (xs @ ys))"
  by (auto simp: stamps_def members_insert members_def)

lemma gsum_insert: "gsum spec k (xs @ r # ys) =
    gsum spec k (xs @ ys) + (if group_key spec r = k then factMeasures r else 0)"
  by (simp add: gsum_def members_insert members_def algebra_simps)

lemma f_requests_sum_list: "f_requests (sum_list (map factMeasures rs)) = int (length rs)"
  by (induction rs) (simp_all add: factMeasures_def)

lemma f_requests_gsum: "f_requests (gsum spec k rows) = 0 \<longleftrightarrow> stamps spec k rows = {}"
  by (simp add: gsum_def f_requests_sum_list stamps_empty)

lemma gsum_empty: "stamps spec k rows = {} \<Longrightarrow> gsum spec k rows = 0"
  by (simp add: gsum_def stamps_empty)

lemma widen_span: "finite S \<Longrightarrow> S \<noteq> {} \<Longrightarrow> widen ts (Min S, Max S) = (Min (insert ts S), Max (insert ts S))"
  by (simp add: widen_def min.commute max.commute)

text \<open>One addition, as a change of the map.\<close>

lemma map_of_addSQL: "map_of (addSQL spec adding row t) =
    (map_of t)(group_key spec row \<mapsto>
       (let f = signed adding (factMeasures row) in
        case map_of t (group_key spec row) of
          None \<Rightarrow> vals spec f {r_ts row}
        | Some (g, s) \<Rightarrow> (g + f, if adding then map_option (widen (r_ts row)) s else s)))"
  by (auto simp: addSQL_def Let_def map_of_upsert vals_def split: option.splits)

lemma distinct_addSQL: "distinct (map fst t) \<Longrightarrow> distinct (map fst (addSQL spec adding row t))"
  by (simp add: addSQL_def Let_def distinct_upsert)

lemma onInsert_ok [table_intros]:
  assumes "rollup_ok spec rows t"
  shows "rollup_ok spec (rows @ [new]) (onInsert spec new t)"
proof -
  let ?k = "group_key spec new"
  from assms have t: "map_of t k = (if stamps spec k rows = {} then None
      else Some (vals spec (gsum spec k rows) (stamps spec k rows)))" for k
    unfolding rollup_ok_alt by blast
  have "map_of (onInsert spec new t) k = (if stamps spec k (rows @ [new]) = {} then None
      else Some (vals spec (gsum spec k (rows @ [new])) (stamps spec k (rows @ [new]))))" for k
    using stamps_insert [of spec k rows new "[]"] gsum_insert [of spec k rows new "[]"]
      gsum_empty [of spec ?k rows]
    by (simp add: onInsert_def map_of_addSQL signed_def t vals_def widen_span)
  moreover have "distinct (map fst (onInsert spec new t))"
    using assms by (simp add: rollup_ok_def onInsert_def distinct_addSQL)
  ultimately show ?thesis
    unfolding rollup_ok_alt by blast
qed

text \<open>
  The span recompute.  \<open>S\<close> is what the group's rows cover after the change, the removed row still
  counted in the table's span: the statement brings the span back to \<open>S\<close>.
\<close>

definition day_stamps :: "'k rollupSpec \<Rightarrow> (gen_row \<Rightarrow> bool) \<Rightarrow> gen_row list \<Rightarrow> gen_row \<Rightarrow> int set" where
  "day_stamps spec c rows row = {r_ts r | r. r \<in> set rows \<and> c r \<and> keys spec r = keys spec row
     \<and> dayBucket (r_ts row) \<le> r_ts r \<and> r_ts r < dayBucket (r_ts row) + 86400000}"

lemma finite_day_stamps [simp]: "finite (day_stamps spec c rows row)"
  by (rule finite_subset [of _ "r_ts ` set rows"]) (auto simp: day_stamps_def)

lemma nearest_eq: "nearest spec c rows row cmp pick bound =
    (if r_ts row = bound then (let T = {t \<in> day_stamps spec c rows row. cmp t} in
       if T = {} then None else Some (pick T)) else Some bound)"
proof -
  let ?ts = "map r_ts (filter (\<lambda>r. c r \<and> cmp (r_ts r) \<and> dayBucket (r_ts row) \<le> r_ts r
      \<and> r_ts r < dayBucket (r_ts row) + 86400000 \<and> keys spec r = keys spec row) rows)"
  have set: "set ?ts = {t \<in> day_stamps spec c rows row. cmp t}"
    by (auto simp: day_stamps_def)
  have empty: "?ts = [] \<longleftrightarrow> {t \<in> day_stamps spec c rows row. cmp t} = {}"
    by (simp only: set [symmetric] set_empty)
  show ?thesis
    by (simp only: nearest_def Let_def set empty)
qed

lemma span_bound:
  assumes "finite S" "S \<noteq> {}" and S: "S = day_stamps spec c rows row"
  shows "nearest spec c rows row (\<lambda>ts. r_ts row \<le> ts) Min (Min (insert (r_ts row) S)) = Some (Min S)"
    and "nearest spec c rows row (\<lambda>ts. ts \<le> r_ts row) Max (Max (insert (r_ts row) S)) = Some (Max S)"
proof -
  let ?x = "r_ts row"
  have ins: "Min (insert ?x S) = min ?x (Min S)" "Max (insert ?x S) = max ?x (Max S)"
    using assms(1,2) by simp_all
  show "nearest spec c rows row (\<lambda>ts. ?x \<le> ts) Min (Min (insert ?x S)) = Some (Min S)"
  proof (cases "?x \<le> Min S")
    case True
    then have "{t \<in> S. ?x \<le> t} = S" using assms(1,2) by auto
    with True assms(2) show ?thesis unfolding nearest_eq ins S [symmetric] by (simp add: Let_def)
  next
    case False
    then show ?thesis unfolding nearest_eq ins by (simp add: min_def)
  qed
  show "nearest spec c rows row (\<lambda>ts. ts \<le> ?x) Max (Max (insert ?x S)) = Some (Max S)"
  proof (cases "Max S \<le> ?x")
    case True
    then have "{t \<in> S. t \<le> ?x} = S" using assms(1,2) by auto
    with True assms(2) show ?thesis unfolding nearest_eq ins S [symmetric] by (simp add: Let_def)
  next
    case False
    then show ?thesis unfolding nearest_eq ins by (simp add: max_def)
  qed
qed

lemma span_vals_covers:
  assumes "finite S" "S \<noteq> {}" "S = day_stamps spec c rows row" "g (keys spec row)"
  shows "span_vals spec g c rows row (vals spec f (insert (r_ts row) S)) = Some (vals spec f S)"
proof (cases "r_ts row \<in> {Min (insert (r_ts row) S), Max (insert (r_ts row) S)}")
  case True
  then show ?thesis using span_bound [OF assms(1-3)] assms(4) by (simp add: span_vals_def vals_def)
next
  case False
  then show ?thesis using assms(1,2) by (auto simp: span_vals_def vals_def min_def max_def)
qed

lemma spanStmt_skip:
  assumes "\<not> g (keys spec row)"
  shows "spanStmtSQL spec g c rows row t = Some t"
proof -
  have "span_vals spec g c rows row v = Some v" for v
    using assms by (auto simp: span_vals_def split: prod.split option.split)
  then have "spanStmtSQL spec g c rows row t = those (map Some t)"
    unfolding spanStmtSQL_def by (intro arg_cong [where f = those] map_cong) auto
  also have "\<dots> = Some t" by (induction t) auto
  finally show ?thesis .
qed

lemma spanStmt_absent: "map_of t (group_key spec row) = None \<Longrightarrow> spanStmtSQL spec g c rows row t = Some t"
  unfolding spanStmtSQL_def by (rule those_map_none) (simp add: map_of_eq_None_iff)

lemma spanStmt_covers:
  assumes "distinct (map fst t)" "map_of t (group_key spec row) = Some (vals spec f (insert (r_ts row) S))"
    and "finite S" "S \<noteq> {}" "S = day_stamps spec c rows row" "g (keys spec row)"
  shows "\<exists>t'. spanStmtSQL spec g c rows row t = Some t' \<and> map fst t' = map fst t
    \<and> map_of t' = (map_of t)(group_key spec row \<mapsto> vals spec f S)"
  unfolding spanStmtSQL_def
  by (rule those_map_key [OF assms(1,2)]) (rule span_vals_covers [where g = g, OF assms(3-6)])

text \<open>
  Between the removal and the span recompute: the table is right for \<open>rows\<close>, but the group of
  the removed row still exists and still counts that row in its span.
\<close>

definition covered :: "'k rollupSpec \<Rightarrow> gen_row \<Rightarrow> 'k group_key \<Rightarrow> gen_row list \<Rightarrow> int set" where
  "covered spec old k rows = (if k = group_key spec old then insert (r_ts old) (stamps spec k rows)
     else stamps spec k rows)"

definition removed_ok :: "'k rollupSpec \<Rightarrow> gen_row \<Rightarrow> gen_row list \<Rightarrow> 'k rollup_table \<Rightarrow> bool" where
  "removed_ok spec old rows t \<longleftrightarrow> distinct (map fst t) \<and> (\<forall>k. map_of t k =
    (if covered spec old k rows = {} then None
     else Some (vals spec (gsum spec k rows) (covered spec old k rows))))"

lemma removed_remove:
  assumes "rollup_ok spec (xs @ old # ys) t"
  shows "removed_ok spec old (xs @ ys) (addSQL spec False old t)"
proof -
  from assms have t: "map_of t k = (if stamps spec k (xs @ old # ys) = {} then None
      else Some (vals spec (gsum spec k (xs @ old # ys)) (stamps spec k (xs @ old # ys))))" for k
    unfolding rollup_ok_alt by blast
  have "map_of (addSQL spec False old t) k = (if covered spec old k (xs @ ys) = {} then None
      else Some (vals spec (gsum spec k (xs @ ys)) (covered spec old k (xs @ ys))))" for k
    by (simp add: map_of_addSQL t stamps_insert gsum_insert covered_def vals_def signed_def)
  moreover have "distinct (map fst (addSQL spec False old t))"
    using assms by (simp add: rollup_ok_def distinct_addSQL)
  ultimately show ?thesis unfolding removed_ok_def by blast
qed

lemma removed_add:
  assumes "removed_ok spec old (xs @ ys) t"
  shows "removed_ok spec old (xs @ new # ys) (addSQL spec True new t)"
proof -
  let ?k = "group_key spec new"
  from assms have t: "map_of t k = (if covered spec old k (xs @ ys) = {} then None
      else Some (vals spec (gsum spec k (xs @ ys)) (covered spec old k (xs @ ys))))" for k
    unfolding removed_ok_def by blast
  have ins: "covered spec old k (xs @ new # ys) = (if ?k = k then insert (r_ts new) (covered spec old k (xs @ ys))
      else covered spec old k (xs @ ys))" for k
    by (auto simp: covered_def stamps_insert)
  have fin: "finite (covered spec old k rows)" for k rows by (simp add: covered_def)
  have empty: "covered spec old k rows = {} \<Longrightarrow> gsum spec k rows = 0" for k rows
    by (simp add: covered_def gsum_empty split: if_splits)
  have "map_of (addSQL spec True new t) k = (if covered spec old k (xs @ new # ys) = {} then None
      else Some (vals spec (gsum spec k (xs @ new # ys)) (covered spec old k (xs @ new # ys))))" for k
    using empty [of ?k "xs @ ys"] widen_span [OF fin]
    by (simp add: map_of_addSQL t ins gsum_insert vals_def signed_def)
  moreover have "distinct (map fst (addSQL spec True new t))"
    using assms by (simp add: removed_ok_def distinct_addSQL)
  ultimately show ?thesis unfolding removed_ok_def by blast
qed

lemma map_of_pruneSQL:
  assumes "removed_ok spec old rows t"
  shows "map_of (pruneSQL spec old t) k = (if stamps spec k rows = {} then None
      else Some (vals spec (gsum spec k rows) (covered spec old k rows)))"
proof -
  from assms have t: "map_of t k = (if covered spec old k rows = {} then None
      else Some (vals spec (gsum spec k rows) (covered spec old k rows)))" for k
    unfolding removed_ok_def by blast
  have "pruneSQL spec old t = filter (\<lambda>(k', v). \<not> (f_requests (fst v) = 0 \<and> k' = group_key spec old)) t"
    unfolding pruneSQL_def by (rule filter_cong [OF refl]) auto
  with assms have prune: "map_of (pruneSQL spec old t) = (\<lambda>x. if x = group_key spec old
      \<and> (\<exists>v. map_of t (group_key spec old) = Some v \<and> f_requests (fst v) = 0) then None else map_of t x)"
    using map_of_filter_key [of t "\<lambda>v. f_requests (fst v) = 0" "group_key spec old"]
    by (simp add: removed_ok_def)
  show ?thesis
    unfolding prune using f_requests_gsum [of spec "group_key spec old" rows]
    by (simp add: t covered_def vals_def)
qed

section \<open>The scope of the span recompute\<close>

text \<open>
  What the span recompute needs of a specification: a group that passes the guard holds only
  rows that satisfy the condition.  The triggers keep the table right for every specification
  with this law.
\<close>

locale rollup_scope =
  fixes spec :: "'k rollupSpec"
  assumes scope: "guard spec row (keys spec row) \<Longrightarrow> keys spec r = keys spec row \<Longrightarrow> cond spec row r"
begin

lemma day_stamps_members:
  assumes "\<forall>r \<in> set rows. 0 \<le> r_ts r" "0 \<le> r_ts row"
  shows "day_stamps spec (\<lambda>_. True) rows row = stamps spec (group_key spec row) rows"
proof -
  have "dayBucket (r_ts row) \<le> t \<and> t < dayBucket (r_ts row) + 86400000 \<longleftrightarrow> dayBucket t = dayBucket (r_ts row)"
    if "0 \<le> t" for t
    using that assms(2) by (simp add: dayBucket_nonneg) linarith
  with assms(1) show ?thesis
    by (auto simp: day_stamps_def stamps_def members_def group_key_def)
qed

lemma day_stamps_cond: "guard spec row (keys spec row) \<Longrightarrow>
    day_stamps spec (cond spec row) rows row = day_stamps spec (\<lambda>_. True) rows row"
  using scope [of row] by (auto simp: day_stamps_def)

lemma spanSQL_covers:
  assumes "distinct (map fst t)" "\<forall>r \<in> set rows. 0 \<le> r_ts r" "0 \<le> r_ts row"
    and S: "S = stamps spec (group_key spec row) rows" "S \<noteq> {}"
    and t: "map_of t (group_key spec row) = Some (vals spec f (insert (r_ts row) S))"
  shows "\<exists>t'. spanSQL spec rows row t = Some t' \<and> map fst t' = map fst t
    \<and> map_of t' = (map_of t)(group_key spec row \<mapsto> vals spec f S)"
proof (cases "has_span spec")
  case False
  then have "(map_of t)(group_key spec row \<mapsto> vals spec f S) = map_of t"
    using t by (auto simp: vals_def)
  with False show ?thesis by (simp add: spanSQL_def)
next
  case True
  have day: "S = day_stamps spec (\<lambda>_. True) rows row"
    using day_stamps_members [OF assms(2,3)] S by simp
  have fin: "finite S" using S by simp
  show ?thesis
  proof (cases "guard spec row (keys spec row)")
    case g: True
    have "S = day_stamps spec (cond spec row) rows row" using day day_stamps_cond [OF g] by simp
    from spanStmt_covers [OF assms(1) t fin S(2) this, where g = "guard spec row", OF g] g True
    show ?thesis by (auto simp: spanSQL_def spanStmt_skip)
  next
    case g: False
    from spanStmt_covers [OF assms(1) t fin S(2) day, of "\<lambda>k. \<not> guard spec row k"] g True
    show ?thesis by (simp add: spanSQL_def spanStmt_skip)
  qed
qed

lemma spanSQL_absent: "map_of t (group_key spec row) = None \<Longrightarrow> spanSQL spec rows row t = Some t"
  by (simp add: spanSQL_def spanStmt_absent)

lemma removed_finish:
  assumes "removed_ok spec old rows t" "\<forall>r \<in> set rows. 0 \<le> r_ts r" "0 \<le> r_ts old"
  shows "\<exists>t'. spanSQL spec rows old (pruneSQL spec old t) = Some t' \<and> rollup_ok spec rows t'"
proof -
  let ?k = "group_key spec old" and ?p = "pruneSQL spec old t"
  let ?S = "stamps spec ?k rows"
  note p = map_of_pruneSQL [OF assms(1)]
  have dp: "distinct (map fst ?p)"
    using assms(1) by (simp add: removed_ok_def pruneSQL_def distinct_map_filter)
  show ?thesis
  proof (cases "?S = {}")
    case True
    then have "map_of ?p k = (if stamps spec k rows = {} then None
        else Some (vals spec (gsum spec k rows) (stamps spec k rows)))" for k
      by (auto simp: p covered_def)
    with dp have "rollup_ok spec rows ?p" unfolding rollup_ok_alt by blast
    with True show ?thesis by (simp add: spanSQL_absent p)
  next
    case False
    then have "map_of ?p ?k = Some (vals spec (gsum spec ?k rows) (insert (r_ts old) ?S))"
      by (simp add: p covered_def)
    from spanSQL_covers [OF dp assms(2,3) refl False this] obtain t'
      where t': "spanSQL spec rows old ?p = Some t'" "map fst t' = map fst ?p"
        "map_of t' = (map_of ?p)(?k \<mapsto> vals spec (gsum spec ?k rows) ?S)"
      by blast
    then have "map_of t' k = (if stamps spec k rows = {} then None
        else Some (vals spec (gsum spec k rows) (stamps spec k rows)))" for k
      using False by (simp add: p covered_def)
    moreover have "distinct (map fst t')" using t'(2) dp by simp
    ultimately have "rollup_ok spec rows t'" unfolding rollup_ok_alt by blast
    with t' show ?thesis by blast
  qed
qed

lemma onDelete_ok:
  assumes "rollup_ok spec (xs @ old # ys) t" "\<forall>r \<in> set (xs @ old # ys). 0 \<le> r_ts r"
  shows "\<exists>t'. onDelete spec (xs @ ys) old t = Some t' \<and> rollup_ok spec (xs @ ys) t'"
  unfolding onDelete_def
  by (rule removed_finish [OF removed_remove [OF assms(1)]]) (use assms(2) in auto)

lemma onUpdate_ok:
  assumes "rollup_ok spec (xs @ old # ys) t" "\<forall>r \<in> set (xs @ old # ys). 0 \<le> r_ts r" "0 \<le> r_ts new"
  shows "\<exists>t'. onUpdate spec (xs @ new # ys) old new t = Some t' \<and> rollup_ok spec (xs @ new # ys) t'"
  unfolding onUpdate_def
  by (rule removed_finish [OF removed_add [OF removed_remove [OF assms(1)]]]) (use assms(2,3) in auto)

end

lemma backfill_ok: "rollup_ok spec rows (backfill spec rows)"
proof -
  have map: "map_of (map (\<lambda>k. (k, F k)) ks) k = (if k \<in> set ks then Some (F k) else None)" for F ks k
    by (induction ks) auto
  have empty: "members spec k rows = [] \<longleftrightarrow> k \<notin> group_key spec ` set rows" for k
    by (auto simp: members_def filter_empty_conv)
  have "map_of (backfill spec rows) k =
      (let rs = members spec k rows in if rs = [] then None else Some (group_vals spec rs))" for k
    unfolding backfill_def map by (simp add: empty Let_def)
  moreover have "distinct (map fst (backfill spec rows))"
    by (simp add: backfill_def o_def)
  ultimately show ?thesis unfolding rollup_ok_def by blast
qed

text \<open>Two right tables for the same rows hold the same groups and values.\<close>

lemma rollup_ok_unique: "rollup_ok spec rows t \<Longrightarrow> rollup_ok spec rows t' \<Longrightarrow> map_of t = map_of t'"
  by (simp add: rollup_ok_def Let_def fun_eq_iff)

interpretation usage: rollup_scope usageRollup
  by unfold_locales (simp add: usageRollup_def)

lemma conversationKey_id:
  assumes "conversationKey r = c" "\<forall>p \<in> set convKeyPrefixes. \<not> prefix p c"
  shows "r_conversation_id r = Some c"
  using assms by (auto simp: conversationKey_def convKeyPrefixes_def split: if_splits option.splits)

interpretation conversation: rollup_scope conversationRollup
proof
  fix row r
  assume "guard conversationRollup row (keys conversationRollup row)"
    and "keys conversationRollup r = keys conversationRollup row"
  then show "cond conversationRollup row r"
    using conversationKey_id [of r "conversationKey row"]
    by (auto simp: conversationRollup_def eq_commute [of "Some (conversationKey row)"])
qed

end
