(* ===== verification/Store.thy ===== *)
theory Store
  imports Rollup
begin

text \<open>
  The database as \<open>internal/storage\<close> uses it for usage rows: the table \<open>generations\<close> with the rollup
  triggers on it, \<open>InsertGenerations\<close> (\<open>usage.go\<close>), \<open>ApplyPricing\<close> (\<open>pricing.go\<close>), \<open>syncRollup\<close>
  (\<open>rollup.go\<close>) and \<open>scanGeneration\<close> (\<open>queries.go\<close>).

  A transaction works on a copy of the store and returns it only when it commits.  What the
  database does on its own account (locking, disk errors, cancelled contexts) is the parameter
  \<open>fault\<close>: the steps at which it fails.  A step also fails when a constraint is violated.
\<close>

record store =
  s_rows :: "gen_row list"
  s_usage :: "(dims \<times> bool) rollup_table"
  s_conv :: "(string \<times> dims) rollup_table"
  s_snapshots :: "(int \<times> string) list"

datatype db_step = BeginTx | PrepareInsert | PrepareMerge | ExecInsert nat | ExecMerge nat | CommitTx
  | ExecStmt nat

section \<open>Statements\<close>

text \<open>The condition of the update trigger: some column of \<open>factInputColumns\<close> differs.\<close>

definition factInputsChanged :: "gen_row \<Rightarrow> gen_row \<Rightarrow> bool" where
  "factInputsChanged old new \<longleftrightarrow> r_ts old \<noteq> r_ts new \<or> r_source old \<noteq> r_source new
     \<or> r_provider old \<noteq> r_provider new \<or> r_model old \<noteq> r_model new \<or> r_token old \<noteq> r_token new
     \<or> r_agent_name old \<noteq> r_agent_name new \<or> r_conversation_id old \<noteq> r_conversation_id new
     \<or> r_input old \<noteq> r_input new \<or> r_output old \<noteq> r_output new
     \<or> r_cache_read old \<noteq> r_cache_read new \<or> r_cache_creation old \<noteq> r_cache_creation new
     \<or> r_reasoning old \<noteq> r_reasoning new \<or> r_cost old \<noteq> r_cost new
     \<or> r_cost_source old \<noteq> r_cost_source new"

text \<open>\<open>INSERT ... ON CONFLICT(id) DO NOTHING RETURNING id\<close>: \<open>None\<close> when the identity exists.\<close>

definition exec_insert :: "gen_row \<Rightarrow> store \<Rightarrow> store option" where
  "exec_insert row st = (if list_ex (\<lambda>r. r_id r = r_id row) (s_rows st) then None
     else Some (st\<lparr>s_rows := s_rows st @ [row],
       s_usage := onInsert usageRollup row (s_usage st),
       s_conv := onInsert conversationRollup row (s_conv st)\<rparr>))"

text \<open>
  \<open>UPDATE generations SET f WHERE id = ? AND p\<close>: the store with the number of rows affected, or
  \<open>None\<close> when a trigger fails.
\<close>

definition exec_update :: "string \<Rightarrow> (gen_row \<Rightarrow> bool) \<Rightarrow> (gen_row \<Rightarrow> gen_row) \<Rightarrow> store \<Rightarrow> (store \<times> nat) option" where
  "exec_update i p f st = (case List.extract (\<lambda>r. r_id r = i \<and> p r) (s_rows st) of
     None \<Rightarrow> Some (st, 0)
   | Some (xs, old, ys) \<Rightarrow>
       let new = f old; rows = xs @ new # ys in
       if \<not> factInputsChanged old new then Some (st\<lparr>s_rows := rows\<rparr>, 1)
       else (case (onUpdate usageRollup rows old new (s_usage st),
                   onUpdate conversationRollup rows old new (s_conv st)) of
               (Some u, Some c) \<Rightarrow> Some (st\<lparr>s_rows := rows, s_usage := u, s_conv := c\<rparr>, 1)
             | _ \<Rightarrow> None))"

section \<open>InsertGenerations\<close>

definition insertGeneration :: "(db_step \<Rightarrow> bool) \<Rightarrow> nat \<Rightarrow> int \<Rightarrow> generation \<Rightarrow> store
    \<Rightarrow> db_step + bool \<times> store" where
  "insertGeneration fault i now gen st =
     (if fault (ExecInsert i) then Inl (ExecInsert i)
      else case exec_insert (insertArgs now gen) st of
        Some st' \<Rightarrow> Inr (True, st')
      | None \<Rightarrow>
          if fault (ExecMerge i) then Inl (ExecMerge i)
          else case exec_update (g_id gen) (\<lambda>_. True) (merge_row gen) st of
            None \<Rightarrow> Inl (ExecMerge i)
          | Some (st', _) \<Rightarrow> Inr (False, st'))"

type_synonym stored_map = "string \<Rightarrow> int"

fun insert_all :: "(db_step \<Rightarrow> bool) \<Rightarrow> (nat \<Rightarrow> int) \<Rightarrow> nat \<Rightarrow> generation list \<Rightarrow> store \<Rightarrow> stored_map
    \<Rightarrow> db_step + stored_map \<times> store" where
  "insert_all fault now i [] st stored = Inr (stored, st)"
| "insert_all fault now i (gen # gens) st stored =
     ebind (insertGeneration fault i (now i) gen st) (\<lambda>(inserted, st').
       insert_all fault now (i + 1) gens st'
         (if inserted then stored(g_source gen := stored (g_source gen) + 1) else stored))"

definition InsertGenerations :: "(db_step \<Rightarrow> bool) \<Rightarrow> (nat \<Rightarrow> int) \<Rightarrow> generation list \<Rightarrow> store
    \<Rightarrow> (db_step + stored_map) \<times> store" where
  "InsertGenerations fault now gens st =
     (if gens = [] then (Inr (\<lambda>_. 0), st)
      else if fault BeginTx then (Inl BeginTx, st)
      else if fault PrepareInsert then (Inl PrepareInsert, st)
      else if fault PrepareMerge then (Inl PrepareMerge, st)
      else case insert_all fault now 0 gens st (\<lambda>_. 0) of
        Inl e \<Rightarrow> (Inl e, st)
      | Inr (stored, st') \<Rightarrow> if fault CommitTx then (Inl CommitTx, st) else (Inr stored, st'))"

definition InsertGeneration :: "(db_step \<Rightarrow> bool) \<Rightarrow> (nat \<Rightarrow> int) \<Rightarrow> generation \<Rightarrow> store
    \<Rightarrow> (db_step + bool) \<times> store" where
  "InsertGeneration fault now gen st = (case InsertGenerations fault now [gen] st of
     (Inl e, st') \<Rightarrow> (Inl e, st') | (Inr stored, st') \<Rightarrow> (Inr (0 < stored (g_source gen)), st'))"

section \<open>ApplyPricing\<close>

text \<open>
  The snapshot table assigns the next free integer key to a new rate set.
\<close>

definition next_id :: "(int \<times> 'a) list \<Rightarrow> int" where
  "next_id t = (if t = [] then 1 else Max (set (map fst t)) + 1)"

definition intern_snapshot :: "string \<Rightarrow> (int \<times> string) list \<Rightarrow> int \<times> (int \<times> string) list" where
  "intern_snapshot rates t = (case List.find (\<lambda>(_, r). r = rates) t of
     Some (i, _) \<Rightarrow> (i, t)
   | None \<Rightarrow> (next_id t, t @ [(next_id t, rates)]))"

definition cost_sources :: "string list" where
  "cost_sources = [''unknown'', ''harness'', ''openrouter'', ''manual'', ''free'']"

definition price_row :: "generation \<Rightarrow> int option \<Rightarrow> gen_row \<Rightarrow> gen_row" where
  "price_row g snapshot r = r\<lparr>r_cost := nullableFloat (g_cost g),
     r_cost_source := g_cost_source g,
     r_pricing_model_id := nullableString (g_pricing_model_id g),
     r_pricing_fetched_at := map_option unix_milli (g_pricing_fetched_at g),
     r_snapshot := snapshot, r_pending := False\<rparr>"

definition ApplyPricing :: "(db_step \<Rightarrow> bool) \<Rightarrow> generation \<Rightarrow> store \<Rightarrow> (db_step + bool) \<times> store" where
  "ApplyPricing fault g st =
     (if fault BeginTx then (Inl BeginTx, st)
      else if g_pricing_rates g \<noteq> [] \<and> (fault (ExecStmt 0) \<or> fault (ExecStmt 1))
      then (Inl (if fault (ExecStmt 0) then ExecStmt 0 else ExecStmt 1), st)
      else let (snapshot, snaps) = (if g_pricing_rates g \<noteq> []
              then map_prod Some id (intern_snapshot (g_pricing_rates g) (s_snapshots st))
              else (None, s_snapshots st));
            p = (\<lambda>r. r_revision r = g_pricing_revision g \<and> \<not> r_reported r) in
        if fault (ExecStmt 2) then (Inl (ExecStmt 2), st)
        else if list_ex (\<lambda>r. r_id r = g_id g \<and> p r) (s_rows st) \<and> g_cost_source g \<notin> set cost_sources
        then (Inl (ExecStmt 2), st)
        else case exec_update (g_id g) p (price_row g snapshot) (st\<lparr>s_snapshots := snaps\<rparr>) of
          None \<Rightarrow> (Inl (ExecStmt 2), st)
        | Some (st', n) \<Rightarrow>
            if n = 0 then (Inr False, st)
            else if fault CommitTx then (Inl CommitTx, st)
            else (Inr (g_cost g \<noteq> None), st'))"

section \<open>syncRollup\<close>

text \<open>
  \<open>stored\<close> is the hash recorded with the rollups, \<open>hash\<close> that of this release's definition, and
  \<open>installed\<close> how many of its three triggers exist.  The result says whether a rebuild ran.
\<close>

definition syncRollup :: "(db_step \<Rightarrow> bool) \<Rightarrow> string option \<Rightarrow> string \<Rightarrow> nat \<Rightarrow> store
    \<Rightarrow> (db_step + bool) \<times> store" where
  "syncRollup fault stored hash installed st =
     (if fault (ExecStmt 0) then (Inl (ExecStmt 0), st)
      else if stored = Some hash \<and> fault (ExecStmt 1) then (Inl (ExecStmt 1), st)
      else if stored = Some hash \<and> installed = 3 then (Inr False, st)
      else if fault BeginTx then (Inl BeginTx, st)
      else if fault (ExecStmt 2) then (Inl (ExecStmt 2), st)
      else if fault CommitTx then (Inl CommitTx, st)
      else (Inr True, st\<lparr>s_usage := backfill usageRollup (s_rows st),
        s_conv := backfill conversationRollup (s_rows st)\<rparr>))"

section \<open>scanGeneration\<close>

definition scan_string :: "string option \<Rightarrow> string" where
  "scan_string s = (case s of None \<Rightarrow> [] | Some x \<Rightarrow> x)"

definition rates_of :: "(int \<times> string) list \<Rightarrow> int option \<Rightarrow> string" where
  "rates_of snaps s = (case s of None \<Rightarrow> [] | Some i \<Rightarrow> (case map_of snaps i of None \<Rightarrow> [] | Some r \<Rightarrow> r))"

definition scanGeneration :: "(int \<times> string) list \<Rightarrow> gen_row \<Rightarrow> generation" where
  "scanGeneration snaps r = \<lparr>
     g_id = r_id r,
     g_timestamp = of_unix_milli (r_ts r),
     g_source = r_source r,
     g_service_name = scan_string (r_service_name r),
     g_provider = scan_string (r_provider r),
     g_model = scan_string (r_model r),
     g_input = r_input r,
     g_output = r_output r,
     g_cache_read = r_cache_read r,
     g_cache_creation = r_cache_creation r,
     g_reasoning = r_reasoning r,
     g_cost = r_cost r,
     g_cost_reported = r_reported r,
     g_cost_source = r_cost_source r,
     g_pricing_model_id = scan_string (r_pricing_model_id r),
     g_pricing_fetched_at = map_option of_unix_milli (r_pricing_fetched_at r),
     g_pricing_rates = rates_of snaps (r_snapshot r),
     g_pricing_revision = r_revision r,
     g_conversation_id = scan_string (r_conversation_id r),
     g_trace_id = scan_string (r_trace_id r),
     g_span_id = scan_string (r_span_id r),
     g_duration = (case r_duration_ms r of None \<Rightarrow> 0 | Some ms \<Rightarrow> wrap64 (ms * milli_ns)),
     g_agent_name = scan_string (r_agent_name r),
     g_git_repo = scan_string (r_git_repo r),
     g_git_branch = scan_string (r_git_branch r),
     g_reasoning_effort = scan_string (r_effort r),
     g_token_id = opt_val (r_token r)\<rparr>"

section \<open>The invariant of the store\<close>

definition ids :: "store \<Rightarrow> string list" where
  "ids st = map r_id (s_rows st)"

definition store_ok :: "store \<Rightarrow> bool" where
  "store_ok st \<longleftrightarrow> distinct (ids st) \<and> (\<forall>r \<in> set (s_rows st). row_ok r)
     \<and> rollup_ok usageRollup (s_rows st) (s_usage st)
     \<and> rollup_ok conversationRollup (s_rows st) (s_conv st)"

text \<open>All rows are dated 1970 or later.\<close>

definition dated :: "store \<Rightarrow> bool" where
  "dated st \<longleftrightarrow> (\<forall>r \<in> set (s_rows st). 0 \<le> r_ts r)"

definition gen_dated :: "generation \<Rightarrow> bool" where
  "gen_dated g \<longleftrightarrow> 0 \<le> unix_milli (g_timestamp g)"

definition empty_store :: store where
  "empty_store = \<lparr>s_rows = [], s_usage = [], s_conv = [], s_snapshots = []\<rparr>"

lemma store_ok_empty: "store_ok empty_store"
  by (simp add: store_ok_def empty_store_def rollup_ok_def ids_def members_def)

lemma group_facts_cong:
  assumes "\<not> factInputsChanged old new"
  shows "group_key usageRollup new = group_key usageRollup old"
    and "group_key conversationRollup new = group_key conversationRollup old"
    and "factMeasures new = factMeasures old" "r_ts new = r_ts old"
proof -
  from assms show ts: "r_ts new = r_ts old" by (simp add: factInputsChanged_def)
  from assms have cols: "r_source new = r_source old" "r_provider new = r_provider old"
    "r_model new = r_model old" "r_token new = r_token old" "r_agent_name new = r_agent_name old"
    "r_conversation_id new = r_conversation_id old" "r_input new = r_input old"
    "r_output new = r_output old" "r_cache_read new = r_cache_read old"
    "r_cache_creation new = r_cache_creation old" "r_reasoning new = r_reasoning old"
    "r_cost new = r_cost old" "r_cost_source new = r_cost_source old"
    unfolding factInputsChanged_def by argo+
  show "group_key usageRollup new = group_key usageRollup old"
    and "group_key conversationRollup new = group_key conversationRollup old"
    and "factMeasures new = factMeasures old"
    unfolding group_key_def usageRollup_def conversationRollup_def factDims_def factHelper_def
      conversationKey_def factMeasures_def uncachedInputSQL_def outputTokensSQL_def
    by (simp_all only: cols ts rollupSpec.simps)
qed

lemma rollup_ok_cong:
  assumes "rollup_ok spec (xs @ old # ys) t" "group_key spec new = group_key spec old"
    "factMeasures new = factMeasures old" "r_ts new = r_ts old"
  shows "rollup_ok spec (xs @ new # ys) t"
  using assms(1) unfolding rollup_ok_alt by (simp add: stamps_insert gsum_insert assms(2-4))

lemma exec_insert_None: "exec_insert row st = None \<longleftrightarrow> r_id row \<in> set (ids st)"
  by (simp add: exec_insert_def ids_def list_ex_iff image_iff) metis

lemma exec_insert_Some: "exec_insert row st = Some st' \<Longrightarrow>
    r_id row \<notin> set (ids st) \<and> s_rows st' = s_rows st @ [row] \<and> s_snapshots st' = s_snapshots st
    \<and> s_usage st' = onInsert usageRollup row (s_usage st)
    \<and> s_conv st' = onInsert conversationRollup row (s_conv st)"
  by (auto simp: exec_insert_def ids_def list_ex_iff split: if_splits)

lemma exec_insert_ok [table_intros]:
  "exec_insert row st = Some st' \<Longrightarrow> store_ok st \<Longrightarrow> row_ok row \<Longrightarrow> store_ok st'"
  by (drule exec_insert_Some) (auto simp: store_ok_def ids_def intro: onInsert_ok)

lemma exec_update_Some:
  assumes "exec_update i p f st = Some (st', n)"
  shows "(n = 0 \<and> st' = st \<and> \<not> (\<exists>r \<in> set (s_rows st). r_id r = i \<and> p r)) \<or>
    (\<exists>xs old ys. n = 1 \<and> s_rows st = xs @ old # ys \<and> r_id old = i \<and> p old
      \<and> s_rows st' = xs @ f old # ys \<and> s_snapshots st' = s_snapshots st
      \<and> (if factInputsChanged old (f old)
         then onUpdate usageRollup (s_rows st') old (f old) (s_usage st) = Some (s_usage st')
           \<and> onUpdate conversationRollup (s_rows st') old (f old) (s_conv st) = Some (s_conv st')
         else s_usage st' = s_usage st \<and> s_conv st' = s_conv st))"
proof (cases "List.extract (\<lambda>r. r_id r = i \<and> p r) (s_rows st)")
  case None
  then have "st' = st \<and> n = 0" using assms by (simp add: exec_update_def)
  then show ?thesis using None by (auto simp: extract_None_iff)
next
  case (Some t)
  obtain xs old ys where t: "t = (xs, old, ys)" by (cases t)
  from extract_SomeE [OF Some [unfolded t]]
  have "s_rows st = xs @ old # ys \<and> r_id old = i \<and> p old" by blast
  then show ?thesis
    using assms Some t
    by (intro disjI2 exI [of _ xs] exI [of _ old] exI [of _ ys])
       (auto simp: exec_update_def Let_def split: if_splits option.splits)
qed

lemma exec_update_ok [table_intros]:
  assumes "exec_update i p f st = Some (st', n)" "store_ok st" "dated st"
    and "\<And>r. r_id (f r) = r_id r" "\<And>r. row_ok r \<Longrightarrow> p r \<Longrightarrow> row_ok (f r)"
    and "\<And>r. 0 \<le> r_ts r \<Longrightarrow> 0 \<le> r_ts (f r)"
  shows "store_ok st' \<and> dated st'"
proof (cases "n = 0")
  case True
  then show ?thesis using exec_update_Some [OF assms(1)] assms(2,3) by auto
next
  case False
  then obtain xs old ys where u: "s_rows st = xs @ old # ys" "p old" "s_rows st' = xs @ f old # ys"
    "if factInputsChanged old (f old)
         then onUpdate usageRollup (s_rows st') old (f old) (s_usage st) = Some (s_usage st')
           \<and> onUpdate conversationRollup (s_rows st') old (f old) (s_conv st) = Some (s_conv st')
         else s_usage st' = s_usage st \<and> s_conv st' = s_conv st"
    using exec_update_Some [OF assms(1)] by auto
  have ok: "rollup_ok usageRollup (xs @ old # ys) (s_usage st)"
    "rollup_ok conversationRollup (xs @ old # ys) (s_conv st)"
    using assms(2) u(1) by (simp_all add: store_ok_def)
  have nonneg: "\<forall>r \<in> set (xs @ old # ys). 0 \<le> r_ts r" "0 \<le> r_ts (f old)"
    using assms(3,6) u(1) by (auto simp: dated_def)
  have "rollup_ok usageRollup (s_rows st') (s_usage st') \<and> rollup_ok conversationRollup (s_rows st') (s_conv st')"
  proof (cases "factInputsChanged old (f old)")
    case True
    then show ?thesis
      using u(3,4) usage.onUpdate_ok [OF ok(1) nonneg] conversation.onUpdate_ok [OF ok(2) nonneg] by auto
  next
    case False
    then show ?thesis
      using u(3,4) rollup_ok_cong [OF ok(1)] rollup_ok_cong [OF ok(2)] group_facts_cong [OF False] by simp
  qed
  then show ?thesis
    using assms(2-6) u(1-3) by (auto simp: store_ok_def dated_def ids_def)
qed

lemma exec_update_total:
  assumes "store_ok st" "dated st" "\<And>r. 0 \<le> r_ts r \<Longrightarrow> 0 \<le> r_ts (f r)"
  shows "exec_update i p f st \<noteq> None"
proof (cases "List.extract (\<lambda>r. r_id r = i \<and> p r) (s_rows st)")
  case (Some t)
  obtain xs old ys where t: "t = (xs, old, ys)" by (cases t)
  from extract_SomeE [OF Some [unfolded t]] have u: "s_rows st = xs @ old # ys" by blast
  have ok: "rollup_ok usageRollup (xs @ old # ys) (s_usage st)"
    "rollup_ok conversationRollup (xs @ old # ys) (s_conv st)"
    using assms(1) u by (simp_all add: store_ok_def)
  have nonneg: "\<forall>r \<in> set (xs @ old # ys). 0 \<le> r_ts r" "0 \<le> r_ts (f old)"
    using assms(2,3) u by (auto simp: dated_def)
  show ?thesis
    using usage.onUpdate_ok [OF ok(1) nonneg] conversation.onUpdate_ok [OF ok(2) nonneg] Some t
    by (auto simp: exec_update_def Let_def)
qed (simp add: exec_update_def)

section \<open>One record\<close>

lemma insertGeneration_Inr:
  assumes "insertGeneration fault i now gen st = Inr (ins, st')"
  shows "(ins \<and> exec_insert (insertArgs now gen) st = Some st') \<or>
    (\<not> ins \<and> g_id gen \<in> set (ids st) \<and> (\<exists>n. exec_update (g_id gen) (\<lambda>_. True) (merge_row gen) st = Some (st', n)))"
  using assms exec_insert_None [of "insertArgs now gen" st]
  by (auto simp: insertGeneration_def split: if_splits option.splits)

lemma insertGeneration_rows:
  assumes "insertGeneration fault i now gen st = Inr (ins, st')"
  shows "s_snapshots st' = s_snapshots st \<and>
    (if ins then g_id gen \<notin> set (ids st) \<and> s_rows st' = s_rows st @ [insertArgs now gen]
     else \<exists>xs old ys. s_rows st = xs @ old # ys \<and> r_id old = g_id gen
       \<and> s_rows st' = xs @ merge_row gen old # ys)"
  using insertGeneration_Inr [OF assms]
proof (elim disjE conjE exE)
  fix n assume "\<not> ins" "g_id gen \<in> set (ids st)"
    and u: "exec_update (g_id gen) (\<lambda>_. True) (merge_row gen) st = Some (st', n)"
  then show ?thesis using exec_update_Some [OF u] by (auto simp: ids_def)
qed (auto dest: exec_insert_Some)

lemma merge_row_dated: "0 \<le> r_ts r \<Longrightarrow> gen_dated g \<Longrightarrow> 0 \<le> r_ts (merge_row g r)"
  by (simp add: merge_row_def Let_def gen_dated_def)

lemma insertGeneration_ok [table_intros]:
  assumes "insertGeneration fault i now gen st = Inr (ins, st')" "store_ok st" "dated st" "gen_dated gen"
  shows "store_ok st' \<and> dated st'"
  using insertGeneration_Inr [OF assms(1)]
proof (elim disjE conjE exE)
  assume ins: "exec_insert (insertArgs now gen) st = Some st'"
  have "0 \<le> r_ts (insertArgs now gen)" using assms(4) by (simp add: insertArgs_def gen_dated_def)
  then show ?thesis
    using exec_insert_ok [OF ins assms(2) row_ok_insertArgs] exec_insert_Some [OF ins] assms(3)
    by (simp add: dated_def)
next
  fix n assume "exec_update (g_id gen) (\<lambda>_. True) (merge_row gen) st = Some (st', n)"
  from exec_update_ok [OF this assms(2,3)] show ?thesis
    using assms(4) by (simp add: row_ok_merge_row merge_row_dated)
qed

lemma insertGeneration_total:
  assumes "store_ok st" "dated st" "gen_dated gen" "\<not> fault (ExecInsert i)" "\<not> fault (ExecMerge i)"
  shows "\<exists>r. insertGeneration fault i now gen st = Inr r"
proof -
  have "exec_update (g_id gen) (\<lambda>_. True) (merge_row gen) st \<noteq> None"
    using assms(1-3) by (intro exec_update_total) (auto simp: merge_row_dated)
  with assms(4,5) show ?thesis
    by (auto simp: insertGeneration_def split: option.split)
qed

section \<open>A batch\<close>

lemma insert_all_Cons:
  assumes "insert_all fault now i (g # gens) st stored = Inr (stored', st')"
  obtains ins st1 where "insertGeneration fault i (now i) g st = Inr (ins, st1)"
    and "insert_all fault now (i + 1) gens st1
      (if ins then stored(g_source g := stored (g_source g) + 1) else stored) = Inr (stored', st')"
  using assms by (auto simp: ebind_Inr split: prod.splits)

lemma insert_all_ok [table_intros]:
  "insert_all fault now i gens st stored = Inr (stored', st') \<Longrightarrow> store_ok st \<Longrightarrow> dated st
   \<Longrightarrow> \<forall>g \<in> set gens. gen_dated g \<Longrightarrow> store_ok st' \<and> dated st'"
proof (induction gens arbitrary: i st stored)
  case (Cons g gens)
  from Cons.prems(1) show ?case
    by (rule insert_all_Cons) (use Cons.IH Cons.prems insertGeneration_ok in fastforce)
qed simp

lemma insert_all_total:
  assumes "\<And>k. \<not> fault (ExecInsert k)" "\<And>k. \<not> fault (ExecMerge k)"
  shows "store_ok st \<Longrightarrow> dated st \<Longrightarrow> \<forall>g \<in> set gens. gen_dated g
    \<Longrightarrow> \<exists>r. insert_all fault now i gens st stored = Inr r"
proof (induction gens arbitrary: i st stored)
  case (Cons g gens)
  obtain ins st1 where one: "insertGeneration fault i (now i) g st = Inr (ins, st1)"
    using insertGeneration_total [of st g fault i "now i"] assms Cons.prems by auto
  with insertGeneration_ok [OF one] Cons.prems Cons.IH show ?case by simp
qed simp

text \<open>What a batch may do to a row that was there before.\<close>

definition keeps :: "'a option \<Rightarrow> 'a option \<Rightarrow> bool" where
  "keeps old new \<longleftrightarrow> (old \<noteq> None \<longrightarrow> new = old)"

definition extends :: "gen_row \<Rightarrow> gen_row \<Rightarrow> bool" where
  "extends r r' \<longleftrightarrow> r_id r' = r_id r \<and> r_source r' = r_source r \<and> r_created_at r' = r_created_at r
     \<and> r_ts r' \<le> r_ts r
     \<and> keeps (r_provider r) (r_provider r') \<and> keeps (r_model r) (r_model r')
     \<and> keeps (r_input r) (r_input r') \<and> keeps (r_output r) (r_output r')
     \<and> keeps (r_cache_read r) (r_cache_read r') \<and> keeps (r_cache_creation r) (r_cache_creation r')
     \<and> keeps (r_reasoning r) (r_reasoning r') \<and> keeps (r_conversation_id r) (r_conversation_id r')
     \<and> keeps (r_duration_ms r) (r_duration_ms r') \<and> keeps (r_agent_name r) (r_agent_name r')
     \<and> keeps (r_git_repo r) (r_git_repo r') \<and> keeps (r_git_branch r) (r_git_branch r')
     \<and> keeps (r_effort r) (r_effort r') \<and> keeps (r_token r) (r_token r')
     \<and> (r_cost r \<noteq> None \<longrightarrow> r_cost r' \<noteq> None)
     \<and> (r_reported r \<longrightarrow> r_reported r' \<and> r_cost r' = r_cost r)"

lemma extends_refl [simp]: "extends r r"
  by (simp add: extends_def keeps_def)

lemma keeps_trans: "keeps a b \<Longrightarrow> keeps b c \<Longrightarrow> keeps a c"
  by (auto simp: keeps_def)

lemma extends_trans: "extends a b \<Longrightarrow> extends b c \<Longrightarrow> extends a c"
  unfolding extends_def by (elim conjE, intro conjI) (auto elim: keeps_trans)

lemma keeps_coalesce [simp]: "keeps a (coalesce a b)"
  by (auto simp: keeps_def coalesce_def split: option.splits)

lemma extends_merge_row: "extends r (merge_row g r)"
  by (simp add: extends_def merge_row_def Let_def) (simp add: coalesce_def split: option.splits)

definition grown :: "store \<Rightarrow> store \<Rightarrow> bool" where
  "grown st st' \<longleftrightarrow> (\<exists>old new. s_rows st' = old @ new \<and> list_all2 extends (s_rows st) old)"

lemma grown_refl [simp]: "grown st st"
  unfolding grown_def by (rule exI [of _ "s_rows st"]) (auto intro: list_all2_refl)

lemma grown_trans:
  assumes "grown a b" "grown b c"
  shows "grown a c"
proof -
  from assms obtain o1 n1 o2 n2 where *: "s_rows b = o1 @ n1" "list_all2 extends (s_rows a) o1"
    "s_rows c = o2 @ n2" "list_all2 extends (o1 @ n1) o2"
    by (auto simp: grown_def)
  then obtain u v where uv: "o2 = u @ v" "list_all2 extends o1 u" by (auto simp: list_all2_append1)
  have "list_all2 extends (s_rows a) u"
    by (rule list_all2_trans [OF _ *(2) uv(2)]) (rule extends_trans)
  with * uv show ?thesis
    unfolding grown_def by (intro exI [of _ u] exI [of _ "v @ n2"]) simp
qed

lemma insertGeneration_grown:
  assumes "insertGeneration fault i now gen st = Inr (ins, st')"
  shows "grown st st'"
proof (cases ins)
  case True
  with insertGeneration_rows [OF assms] have "s_rows st' = s_rows st @ [insertArgs now gen]" by simp
  then show ?thesis
    unfolding grown_def
    by (intro exI [of _ "s_rows st"] exI [of _ "[insertArgs now gen]"]) (simp add: list_all2_refl)
next
  case False
  with insertGeneration_rows [OF assms] obtain xs old ys where
    "s_rows st = xs @ old # ys" "s_rows st' = xs @ merge_row gen old # ys" by auto
  then show ?thesis
    unfolding grown_def
    by (intro exI [of _ "s_rows st'"] exI [of _ "[]"])
       (auto intro!: list_all2_appendI simp: extends_merge_row list_all2_refl)
qed

lemma insert_all_grown: "insert_all fault now i gens st stored = Inr (stored', st') \<Longrightarrow> grown st st'"
proof (induction gens arbitrary: i st stored)
  case (Cons g gens)
  from Cons.prems show ?case
    by (rule insert_all_Cons) (blast intro: grown_trans insertGeneration_grown Cons.IH)
qed simp

text \<open>The count per source is the number of rows added.\<close>

definition rows_of :: "string \<Rightarrow> store \<Rightarrow> int" where
  "rows_of s st = int (length (filter (\<lambda>r. r_source r = s) (s_rows st)))"

lemma insertGeneration_count:
  assumes "insertGeneration fault i now gen st = Inr (ins, st')"
  shows "rows_of s st' = rows_of s st + (if ins \<and> g_source gen = s then 1 else 0)"
proof (cases ins)
  case True
  with insertGeneration_rows [OF assms] show ?thesis by (simp add: rows_of_def insertArgs_def)
next
  case False
  with insertGeneration_rows [OF assms] obtain xs old ys where
    "s_rows st = xs @ old # ys" "s_rows st' = xs @ merge_row gen old # ys" by auto
  with False show ?thesis by (simp add: rows_of_def merge_row_def Let_def)
qed

lemma insert_all_count: "insert_all fault now i gens st stored = Inr (stored', st') \<Longrightarrow>
    stored' s - stored s = rows_of s st' - rows_of s st"
proof (induction gens arbitrary: i st stored)
  case (Cons g gens)
  from Cons.prems show ?case
  proof (rule insert_all_Cons)
    fix ins st1 assume one: "insertGeneration fault i (now i) g st = Inr (ins, st1)"
      and "insert_all fault now (i + 1) gens st1
        (if ins then stored(g_source g := stored (g_source g) + 1) else stored) = Inr (stored', st')"
    from Cons.IH [OF this(2)] insertGeneration_count [OF one, of s] show ?thesis
      by (auto split: if_splits)
  qed
qed simp

section \<open>Replays\<close>

definition has_absorbed :: "store \<Rightarrow> generation \<Rightarrow> bool" where
  "has_absorbed st g \<longleftrightarrow> (\<exists>r \<in> set (s_rows st). r_id r = g_id g \<and> absorbed g r)"

definition rows_ok :: "store \<Rightarrow> bool" where
  "rows_ok st \<longleftrightarrow> distinct (ids st) \<and> (\<forall>r \<in> set (s_rows st). row_ok r)"

lemma insertGeneration_absorbs:
  assumes "insertGeneration fault i now g st = Inr (ins, st')" "rows_ok st"
  shows "rows_ok st' \<and> has_absorbed st' g \<and> (has_absorbed st h \<longrightarrow> has_absorbed st' h)"
proof (cases ins)
  case True
  with insertGeneration_rows [OF assms(1)] have
    "g_id g \<notin> set (ids st)" "s_rows st' = s_rows st @ [insertArgs now g]" by auto
  then show ?thesis
    using assms(2) by (auto simp: rows_ok_def ids_def has_absorbed_def absorbed_insertArgs row_ok_insertArgs)
next
  case False
  with insertGeneration_rows [OF assms(1)] obtain xs old ys where rows:
    "s_rows st = xs @ old # ys" "r_id old = g_id g" "s_rows st' = xs @ merge_row g old # ys" by auto
  have "absorbed h (merge_row g old)" if "absorbed h old" using that by (rule absorbed_merge_other)
  with rows assms(2) show ?thesis
    by (auto simp: rows_ok_def ids_def has_absorbed_def absorbed_merge_row row_ok_merge_row)
qed

lemma insert_all_absorbs:
  "insert_all fault now i gens st stored = Inr (stored', st') \<Longrightarrow> rows_ok st
   \<Longrightarrow> rows_ok st' \<and> (\<forall>g \<in> set gens. has_absorbed st' g) \<and> (has_absorbed st h \<longrightarrow> has_absorbed st' h)"
proof (induction gens arbitrary: i st stored h)
  case (Cons g gens)
  from Cons.prems(1) show ?case
  proof (rule insert_all_Cons)
    fix ins st1 assume one: "insertGeneration fault i (now i) g st = Inr (ins, st1)"
      and rest: "insert_all fault now (i + 1) gens st1
        (if ins then stored(g_source g := stored (g_source g) + 1) else stored) = Inr (stored', st')"
    have st1: "rows_ok st1" "has_absorbed st1 g" "has_absorbed st h \<longrightarrow> has_absorbed st1 h"
      using insertGeneration_absorbs [OF one Cons.prems(2)] by auto
    from Cons.IH [OF rest st1(1), of h] Cons.IH [OF rest st1(1), of g] st1 show ?thesis by auto
  qed
qed simp

definition unrevised :: "gen_row \<Rightarrow> gen_row" where
  "unrevised r = r\<lparr>r_revision := 0\<rparr>"

definition same_but_revisions :: "store \<Rightarrow> store \<Rightarrow> bool" where
  "same_but_revisions st st' \<longleftrightarrow> map unrevised (s_rows st') = map unrevised (s_rows st)
     \<and> s_usage st' = s_usage st \<and> s_conv st' = s_conv st \<and> s_snapshots st' = s_snapshots st"

lemma same_but_revisions_refl [simp]: "same_but_revisions st st"
  by (simp add: same_but_revisions_def)

lemma same_but_revisions_trans: "same_but_revisions a b \<Longrightarrow> same_but_revisions b c \<Longrightarrow> same_but_revisions a c"
  by (simp add: same_but_revisions_def)

lemma unique_id:
  assumes "distinct (map r_id (xs @ old # ys))" "r \<in> set (xs @ old # ys)" "r_id r = r_id old"
  shows "r = old"
proof (rule ccontr)
  assume "r \<noteq> old"
  with assms(2) have "r \<in> set xs \<union> set ys" by auto
  then have "r_id r \<in> r_id ` set xs \<union> r_id ` set ys" by auto
  with assms(1,3) show False by auto
qed

lemma absorbed_unrevised: "absorbed g (r\<lparr>r_revision := n\<rparr>) = absorbed g r"
  "row_ok (r\<lparr>r_revision := n\<rparr>) = row_ok r"
  by (simp_all add: absorbed_def row_ok_def)

lemma replay_one:
  assumes "insertGeneration fault i now g st = Inr (ins, st')" "rows_ok st" "has_absorbed st g"
  shows "\<not> ins \<and> same_but_revisions st st'"
proof -
  from assms(3) have in_ids: "g_id g \<in> set (ids st)" by (force simp: has_absorbed_def ids_def)
  then have "exec_insert (insertArgs now g) st = None" by (simp add: exec_insert_None)
  with insertGeneration_Inr [OF assms(1)] obtain n where "\<not> ins"
    and u: "exec_update (g_id g) (\<lambda>_. True) (merge_row g) st = Some (st', n)" by auto
  have "\<exists>r \<in> set (s_rows st). r_id r = g_id g" using in_ids by (force simp: ids_def)
  with exec_update_Some [OF u] obtain xs old ys where rows: "s_rows st = xs @ old # ys" "r_id old = g_id g"
    "s_rows st' = xs @ merge_row g old # ys" "s_snapshots st' = s_snapshots st"
    and trig: "\<not> factInputsChanged old (merge_row g old) \<Longrightarrow> s_usage st' = s_usage st \<and> s_conv st' = s_conv st"
    by auto
  from assms(3) obtain r where r: "r \<in> set (s_rows st)" "r_id r = g_id g" "absorbed g r"
    by (auto simp: has_absorbed_def)
  have "r = old"
    using assms(2) r rows unfolding rows_ok_def ids_def by (intro unique_id [of xs old ys r]) auto
  with r assms(2) have "merge_row g old = old\<lparr>r_revision := r_revision old + 1\<rparr>"
    by (intro merge_absorbed) (auto simp: rows_ok_def)
  with rows trig \<open>\<not> ins\<close> show ?thesis
    by (simp add: same_but_revisions_def unrevised_def factInputsChanged_def)
qed

lemma replay_all:
  "insert_all fault now i gens st stored = Inr (stored', st') \<Longrightarrow> rows_ok st
   \<Longrightarrow> \<forall>g \<in> set gens. has_absorbed st g \<Longrightarrow> stored' = stored \<and> same_but_revisions st st'"
proof (induction gens arbitrary: i st stored)
  case (Cons g gens)
  from Cons.prems(1) show ?case
  proof (rule insert_all_Cons)
    fix ins st1 assume one: "insertGeneration fault i (now i) g st = Inr (ins, st1)"
      and rest: "insert_all fault now (i + 1) gens st1
        (if ins then stored(g_source g := stored (g_source g) + 1) else stored) = Inr (stored', st')"
    have same: "\<not> ins \<and> same_but_revisions st st1"
      using replay_one [OF one Cons.prems(2)] Cons.prems(3) by simp
    have "rows_ok st1" "\<forall>h \<in> set gens. has_absorbed st1 h"
      using insertGeneration_absorbs [OF one Cons.prems(2)] Cons.prems(3) by auto
    with Cons.IH [OF rest] same show ?thesis by (auto intro: same_but_revisions_trans)
  qed
qed simp

lemma InsertGenerations_Inr:
  assumes "InsertGenerations fault now gens st = (Inr stored, st')"
  obtains "gens = []" "stored = (\<lambda>_. 0)" "st' = st"
  | "insert_all fault now 0 gens st (\<lambda>_. 0) = Inr (stored, st')"
  using assms by (auto simp: InsertGenerations_def split: if_splits sum.splits)

lemma InsertGenerations_Inl: "InsertGenerations fault now gens st = (Inl e, st') \<Longrightarrow> st' = st"
  by (auto simp: InsertGenerations_def split: if_splits sum.splits)

section \<open>Revisions\<close>

text \<open>Every delivery of a record bumps the revision of its row.\<close>

lemma insertGeneration_revision:
  assumes "insertGeneration fault i now g st = Inr (ins, st')" "r \<in> set (s_rows st)" "rows_ok st"
  shows "\<exists>r' \<in> set (s_rows st'). r_id r' = r_id r
    \<and> r_revision r' = r_revision r + (if g_id g = r_id r then 1 else 0)"
proof (cases ins)
  case True
  with insertGeneration_rows [OF assms(1)] have "g_id g \<notin> set (ids st)"
    "s_rows st' = s_rows st @ [insertArgs now g]" by auto
  with assms(2) have "r \<in> set (s_rows st')" "g_id g \<noteq> r_id r" by (auto simp: ids_def)
  then show ?thesis by (intro bexI [of _ r]) auto
next
  case False
  with insertGeneration_rows [OF assms(1)] obtain xs old ys where rows:
    "s_rows st = xs @ old # ys" "r_id old = g_id g" "s_rows st' = xs @ merge_row g old # ys" by auto
  show ?thesis
  proof (cases "g_id g = r_id r")
    case True
    then have "r = old"
      using assms(2,3) rows unfolding rows_ok_def ids_def by (intro unique_id [of xs old ys]) auto
    with rows show ?thesis by (simp add: merge_row_def Let_def)
  next
    case False
    with rows assms(2) have "r \<in> set (s_rows st')" by auto
    with False show ?thesis by (intro bexI [of _ r]) auto
  qed
qed

lemma insert_all_revision:
  "insert_all fault now i gens st stored = Inr (stored', st') \<Longrightarrow> rows_ok st \<Longrightarrow> r \<in> set (s_rows st)
   \<Longrightarrow> \<exists>r' \<in> set (s_rows st'). r_id r' = r_id r
     \<and> r_revision r' = r_revision r + int (length (filter (\<lambda>g. g_id g = r_id r) gens))"
proof (induction gens arbitrary: i st stored r)
  case (Cons g gens)
  from Cons.prems(1) show ?case
  proof (rule insert_all_Cons)
    fix ins st1 assume one: "insertGeneration fault i (now i) g st = Inr (ins, st1)"
      and rest: "insert_all fault now (i + 1) gens st1
        (if ins then stored(g_source g := stored (g_source g) + 1) else stored) = Inr (stored', st')"
    have ok: "rows_ok st1" using insertGeneration_absorbs [OF one Cons.prems(2)] by simp
    from insertGeneration_revision [OF one Cons.prems(3,2)] obtain r1 where r1: "r1 \<in> set (s_rows st1)"
      "r_id r1 = r_id r" "r_revision r1 = r_revision r + (if g_id g = r_id r then 1 else 0)" by blast
    from Cons.IH [OF rest ok r1(1)] r1(2,3) show ?thesis by (auto split: if_splits)
  qed
qed auto

section \<open>Pricing writes\<close>

definition snaps_ok :: "(int \<times> string) list \<Rightarrow> bool" where
  "snaps_ok t \<longleftrightarrow> distinct (map fst t)"

lemma intern_snapshot_ok:
  assumes "snaps_ok t" "intern_snapshot rates t = (i, t')"
  shows "snaps_ok t' \<and> map_of t' i = Some rates \<and> (\<forall>j r. map_of t j = Some r \<longrightarrow> map_of t' j = Some r)"
proof (cases "List.find (\<lambda>(_, r). r = rates) t")
  case (Some p)
  then obtain k where "p = (k, rates)" "(k, rates) \<in> set t"
    by (cases p) (auto simp: find_Some_iff dest: nth_mem)
  with Some assms show ?thesis by (auto simp: intern_snapshot_def snaps_ok_def)
next
  case None
  have fresh: "next_id t \<notin> set (map fst t)"
  proof
    assume "next_id t \<in> set (map fst t)"
    then have "t \<noteq> []" and "next_id t \<le> Max (set (map fst t))" by (auto intro: Max_ge)
    then show False by (simp add: next_id_def)
  qed
  have "map_of t (next_id t) = None" using fresh by (simp add: map_of_eq_None_iff)
  then show ?thesis
    using None assms fresh by (auto simp: intern_snapshot_def snaps_ok_def map_add_def split: option.splits)
qed

definition snapshot_for :: "generation \<Rightarrow> (int \<times> string) list \<Rightarrow> int option \<times> (int \<times> string) list" where
  "snapshot_for g t = (if g_pricing_rates g \<noteq> []
     then map_prod Some id (intern_snapshot (g_pricing_rates g) t) else (None, t))"

definition priceable :: "generation \<Rightarrow> gen_row \<Rightarrow> bool" where
  "priceable g r \<longleftrightarrow> r_revision r = g_pricing_revision g \<and> \<not> r_reported r"

lemma ApplyPricing_cases:
  assumes "ApplyPricing fault g st = (res, st')"
  shows "st' = st \<and> res \<noteq> Inr True \<or>
    (\<exists>n. exec_update (g_id g) (priceable g) (price_row g (fst (snapshot_for g (s_snapshots st))))
        (st\<lparr>s_snapshots := snd (snapshot_for g (s_snapshots st))\<rparr>) = Some (st', n)
      \<and> n \<noteq> 0 \<and> res = Inr (g_cost g \<noteq> None) \<and> g_cost_source g \<in> set cost_sources)"
proof -
  have p: "(\<lambda>r. r_revision r = g_pricing_revision g \<and> \<not> r_reported r) = priceable g"
    by (simp add: priceable_def fun_eq_iff)
  obtain snapshot snaps where s: "snapshot_for g (s_snapshots st) = (snapshot, snaps)" by fastforce
  have ex: "n \<noteq> 0 \<Longrightarrow> list_ex (\<lambda>r. r_id r = g_id g \<and> priceable g r) (s_rows st)"
    if "exec_update (g_id g) (priceable g) f (st\<lparr>s_snapshots := snaps\<rparr>) = Some (x, n)" for x n f
    using exec_update_Some [OF that] by (auto simp: list_ex_iff)
  show ?thesis
    using assms ex unfolding ApplyPricing_def p snapshot_for_def [symmetric] s Let_def
    by (auto split: if_splits option.splits prod.splits)
qed

lemma store_ok_snapshots [simp]: "store_ok (st\<lparr>s_snapshots := t\<rparr>) = store_ok st"
  "dated (st\<lparr>s_snapshots := t\<rparr>) = dated st"
  by (simp_all add: store_ok_def dated_def ids_def)

lemma ApplyPricing_ok [table_intros]:
  assumes "ApplyPricing fault g st = (res, st')" "store_ok st" "dated st"
  shows "store_ok st' \<and> dated st'"
  using ApplyPricing_cases [OF assms(1)]
proof (elim disjE conjE exE)
  fix n assume src: "g_cost_source g \<in> set cost_sources"
    and u: "exec_update (g_id g) (priceable g) (price_row g (fst (snapshot_for g (s_snapshots st))))
        (st\<lparr>s_snapshots := snd (snapshot_for g (s_snapshots st))\<rparr>) = Some (st', n)"
  show ?thesis
    using src assms(2,3)
    by (intro exec_update_ok [OF u]) (auto simp: price_row_def row_ok_def priceable_def cost_sources_def)
qed (use assms in auto)

lemma syncRollup_ok [table_intros]:
  assumes "syncRollup fault stored hash n st = (res, st')" "store_ok st" "dated st"
  shows "store_ok st' \<and> dated st'"
  using assms by (auto simp: syncRollup_def store_ok_def dated_def ids_def backfill_ok split: if_splits)

text \<open>
  The writes of the program to these tables, with any failures.  A batch is of records dated 1970
  or later.
\<close>

inductive writes :: "store \<Rightarrow> store \<Rightarrow> bool" where
  batch: "\<forall>g \<in> set gens. gen_dated g \<Longrightarrow> writes st (snd (InsertGenerations fault now gens st))"
| price: "writes st (snd (ApplyPricing fault g st))"
| sync: "writes st (snd (syncRollup fault stored hash n st))"

inductive_cases writesE: "writes st st'"

lemma InsertGenerations_ok [table_intros]:
  assumes "InsertGenerations fault now gens st = (res, st')" "store_ok st" "dated st"
    "\<forall>g \<in> set gens. gen_dated g"
  shows "store_ok st' \<and> dated st'"
proof (cases res)
  case (Inl e)
  with assms(1) have "st' = st" by (auto intro: InsertGenerations_Inl)
  with assms(2,3) show ?thesis by simp
next
  case (Inr stored)
  with assms(1) have "InsertGenerations fault now gens st = (Inr stored, st')" by simp
  then show ?thesis
    by (rule InsertGenerations_Inr) (use assms insert_all_ok in auto)
qed

lemma writes_ok: "writes st st' \<Longrightarrow> store_ok st \<and> dated st \<Longrightarrow> store_ok st' \<and> dated st'"
  by (erule writesE)
     (metis InsertGenerations_ok prod.collapse, metis ApplyPricing_ok prod.collapse,
      metis syncRollup_ok prod.collapse)

lemma reachable_ok: "writes\<^sup>*\<^sup>* empty_store st \<Longrightarrow> store_ok st \<and> dated st"
proof (induction rule: rtranclp_induct)
  case base
  then show ?case by (simp add: store_ok_empty) (simp add: dated_def empty_store_def)
next
  case (step y z)
  then show ?case by (simp add: writes_ok)
qed

section \<open>Properties\<close>

definition sample_gen :: generation where
  "sample_gen = zero_generation\<lparr>g_id := ''a'', g_timestamp := 1700000000000000000,
     g_source := ''opencode'', g_model := ''m'', g_input := Some 5\<rparr>"

definition no_fault :: "db_step \<Rightarrow> bool" where
  "no_fault s \<longleftrightarrow> False"

definition sample_store :: store where
  "sample_store = snd (InsertGenerations no_fault (\<lambda>_. 0) [sample_gen] empty_store)"

lemma gen_dated_sample: "gen_dated sample_gen"
  by (simp add: gen_dated_def sample_gen_def unix_milli_def)

lemma sample_reachable: "writes\<^sup>*\<^sup>* empty_store sample_store"
  unfolding sample_store_def by (intro r_into_rtranclp writes.batch) (simp add: gen_dated_sample)

lemma sample_store_rows: "s_rows sample_store = [insertArgs 0 sample_gen]"
  by (simp add: sample_store_def InsertGenerations_def no_fault_def insertGeneration_def
      exec_insert_def empty_store_def sample_gen_def)

text \<open>
  C1: After any sequence of batches, price updates and startup synchronisations, whatever steps
  the database fails, the triggers have kept both rollup tables equal to what a grouping of all
  stored rows gives (counts, tokens, costs, first and last timestamp of every group, and no empty
  group), and no identity is stored twice.
\<close>

theorem rollups_exact:
  assumes "writes\<^sup>*\<^sup>* empty_store st"
  shows "map_of (s_usage st) = map_of (backfill usageRollup (s_rows st))
    \<and> map_of (s_conv st) = map_of (backfill conversationRollup (s_rows st))
    \<and> distinct (map r_id (s_rows st))"
proof -
  from reachable_ok [OF assms] have "rollup_ok usageRollup (s_rows st) (s_usage st)"
    "rollup_ok conversationRollup (s_rows st) (s_conv st)" "distinct (ids st)"
    by (simp_all add: store_ok_def)
  then show ?thesis
    by (simp add: ids_def rollup_ok_unique [OF _ backfill_ok])
qed

theorem rollups_exact_witness:
  "map_of (s_usage sample_store) = map_of (backfill usageRollup (s_rows sample_store))
   \<and> s_rows sample_store \<noteq> []"
  using rollups_exact [OF sample_reachable] by (simp add: sample_store_rows)

text \<open>
  C8: Replaying a batch that was stored is harmless: if the retry succeeds it reports no new row
  for any source, and rows, rollups and snapshots are as before but for the revision counters.
\<close>

theorem replay_is_idempotent:
  assumes "rows_ok st" "InsertGenerations fault now gens st = (Inr stored, st1)"
    and "InsertGenerations fault' now' gens st1 = (Inr stored', st2)"
  shows "stored' = (\<lambda>_. 0) \<and> same_but_revisions st1 st2"
proof (cases "gens = []")
  case True
  with assms show ?thesis by (auto simp: InsertGenerations_def)
next
  case False
  from assms(2) False have "insert_all fault now 0 gens st (\<lambda>_. 0) = Inr (stored, st1)"
    by (auto elim: InsertGenerations_Inr)
  from insert_all_absorbs [OF this assms(1)] have "rows_ok st1" "\<forall>g \<in> set gens. has_absorbed st1 g" by auto
  moreover from assms(3) False have "insert_all fault' now' 0 gens st1 (\<lambda>_. 0) = Inr (stored', st2)"
    by (auto elim: InsertGenerations_Inr)
  ultimately show ?thesis using replay_all by blast
qed

theorem replay_is_idempotent_witness:
  "same_but_revisions sample_store (snd (InsertGenerations no_fault (\<lambda>_. 9) [sample_gen] sample_store))"
proof -
  have "rows_ok empty_store" by (simp add: rows_ok_def ids_def empty_store_def)
  moreover obtain s where "InsertGenerations no_fault (\<lambda>_. 0) [sample_gen] empty_store = (Inr s, sample_store)"
    by (simp add: sample_store_def InsertGenerations_def no_fault_def insertGeneration_def
        exec_insert_def empty_store_def)
  moreover have "store_ok sample_store \<and> dated sample_store" using reachable_ok [OF sample_reachable] .
  then obtain r where "insert_all no_fault (\<lambda>_. 9) 0 [sample_gen] sample_store (\<lambda>_. 0) = Inr r"
    using insert_all_total [of no_fault sample_store "[sample_gen]" "\<lambda>_. 9" 0 "\<lambda>_. 0"]
      gen_dated_sample by (simp only: no_fault_def list.set ball_simps) blast
  then obtain s' st2 where "InsertGenerations no_fault (\<lambda>_. 9) [sample_gen] sample_store = (Inr s', st2)"
    by (cases r) (auto simp: InsertGenerations_def no_fault_def)
  ultimately show ?thesis using replay_is_idempotent [of empty_store no_fault "\<lambda>_. 0" "[sample_gen]"] by simp
qed


text \<open>The count a batch reports per source is exactly the number of rows of that source it added,
  and afterwards every record of the batch has its row, which holds all the record knew.
\<close>

theorem batch_accounting:
  assumes "InsertGenerations fault now gens st = (Inr stored, st')" "rows_ok st"
  shows "stored s = rows_of s st' - rows_of s st \<and> (\<forall>g \<in> set gens. has_absorbed st' g)"
  using assms(1)
proof (rule InsertGenerations_Inr)
  assume all: "insert_all fault now 0 gens st (\<lambda>_. 0) = Inr (stored, st')"
  show ?thesis using insert_all_count [OF all, of s] insert_all_absorbs [OF all assms(2)] by auto
qed simp

theorem batch_accounting_witness:
  "rows_of ''opencode'' sample_store - rows_of ''opencode'' empty_store = 1"
proof -
  have i: "InsertGenerations no_fault (\<lambda>_. 0) [sample_gen] empty_store
      = (Inr ((\<lambda>_. 0)(''opencode'' := 1)), sample_store)"
    by (simp add: sample_store_def InsertGenerations_def no_fault_def insertGeneration_def
        exec_insert_def empty_store_def sample_gen_def fun_eq_iff)
  show ?thesis
    using batch_accounting [OF i, of "''opencode''"]
    by (simp add: rows_ok_def ids_def empty_store_def)
qed

text \<open>As long as all records are dated 1970 or later and the database itself does not fail, no
  trigger ever blocks a write: every batch is stored.
\<close>

theorem batch_is_stored:
  assumes "writes\<^sup>*\<^sup>* empty_store st" "\<forall>g \<in> set gens. gen_dated g" "\<forall>s. \<not> fault s"
  shows "\<exists>stored st'. InsertGenerations fault now gens st = (Inr stored, st')"
proof -
  from reachable_ok [OF assms(1)] insert_all_total [of fault st gens now 0 "\<lambda>_. 0"] assms(2,3)
  obtain r where "insert_all fault now 0 gens st (\<lambda>_. 0) = Inr r" by blast
  with assms(3) show ?thesis by (cases r) (auto simp: InsertGenerations_def)
qed

theorem batch_is_stored_witness:
  "\<exists>stored st'. InsertGenerations no_fault (\<lambda>_. 0) [sample_gen, sample_gen] sample_store = (Inr stored, st')"
  using batch_is_stored [OF sample_reachable, of "[sample_gen, sample_gen]" no_fault]
  by (simp add: gen_dated_sample no_fault_def)

text \<open>Enrichment that raced a re-delivered record changes nothing: if it priced row \<open>r\<close> as read from
  \<open>st\<close> and a batch with that record has been stored since, \<open>ApplyPricing\<close> leaves the store alone and
  never reports success.
\<close>

theorem stale_pricing_is_discarded:
  assumes "rows_ok st" "r \<in> set (s_rows st)"
    and "InsertGenerations fault now gens st = (Inr stored, st1)" "\<exists>h \<in> set gens. g_id h = r_id r"
    and "g_id p = r_id r" "g_pricing_revision p = r_revision r"
  shows "snd (ApplyPricing fault' p st1) = st1 \<and> fst (ApplyPricing fault' p st1) \<noteq> Inr True"
proof -
  from assms(4) have gens: "gens \<noteq> []" "0 < length (filter (\<lambda>g. g_id g = r_id r) gens)"
    by (auto simp: filter_empty_conv)
  from assms(3) gens(1) have all: "insert_all fault now 0 gens st (\<lambda>_. 0) = Inr (stored, st1)"
    by (auto elim: InsertGenerations_Inr)
  from insert_all_absorbs [OF all assms(1)] have ok: "rows_ok st1" by auto
  from insert_all_revision [OF all assms(1,2)] gens(2) obtain r1 where r1: "r1 \<in> set (s_rows st1)"
    "r_id r1 = r_id r" "r_revision r < r_revision r1" by auto
  have not: "\<not> priceable p x" if x: "x \<in> set (s_rows st1)" "r_id x = g_id p" for x
  proof -
    from split_list [OF r1(1)] obtain xs ys where "s_rows st1 = xs @ r1 # ys" by auto
    with ok x r1(2) assms(5) have "x = r1"
      unfolding rows_ok_def ids_def by (intro unique_id [of xs r1 ys]) auto
    with r1(3) assms(6) show ?thesis by (simp add: priceable_def)
  qed
  obtain res st2 where a: "ApplyPricing fault' p st1 = (res, st2)" by fastforce
  from ApplyPricing_cases [OF a] show ?thesis
  proof (elim disjE exE conjE)
    fix n assume u: "exec_update (g_id p) (priceable p) (price_row p (fst (snapshot_for p (s_snapshots st1))))
        (st1\<lparr>s_snapshots := snd (snapshot_for p (s_snapshots st1))\<rparr>) = Some (st2, n)" and "n \<noteq> 0"
    from exec_update_Some [OF u] \<open>n \<noteq> 0\<close> not have False by fastforce
    then show ?thesis ..
  qed (simp add: a)
qed

lemma sample_inserted: "\<exists>s. InsertGenerations no_fault (\<lambda>_. 0) [sample_gen] empty_store = (Inr s, sample_store)"
  by (simp add: sample_store_def InsertGenerations_def no_fault_def insertGeneration_def
      exec_insert_def empty_store_def)

theorem stale_pricing_is_discarded_witness:
  "\<exists>st1. InsertGenerations no_fault (\<lambda>_. 0) [sample_gen] sample_store = (Inr (\<lambda>_. 0), st1)
    \<and> snd (ApplyPricing no_fault (sample_gen\<lparr>g_cost := Some (Fin 1)\<rparr>) st1) = st1"
proof -
  let ?r = "insertArgs 0 sample_gen"
  have ok: "rows_ok sample_store"
    using reachable_ok [OF sample_reachable] by (simp add: store_ok_def rows_ok_def)
  obtain r where "insert_all no_fault (\<lambda>_. 0) 0 [sample_gen] sample_store (\<lambda>_. 0) = Inr r"
    using insert_all_total [of no_fault sample_store "[sample_gen]" "\<lambda>_. 0" 0 "\<lambda>_. 0"]
      gen_dated_sample reachable_ok [OF sample_reachable]
    by (simp only: no_fault_def list.set ball_simps) blast
  moreover from this obtain st1 where "r = ((\<lambda>_. 0), st1)"
    using replay_all [of no_fault "\<lambda>_. 0" 0 "[sample_gen]" sample_store "\<lambda>_. 0" "fst r" "snd r"] ok
    by (cases r) (auto simp: has_absorbed_def sample_store_rows absorbed_insertArgs)
  ultimately have i: "InsertGenerations no_fault (\<lambda>_. 0) [sample_gen] sample_store = (Inr (\<lambda>_. 0), st1)"
    by (simp add: InsertGenerations_def no_fault_def)
  with stale_pricing_is_discarded [OF ok _ i, of ?r "sample_gen\<lparr>g_cost := Some (Fin 1)\<rparr>" no_fault]
  show ?thesis by (simp add: sample_store_rows) (simp add: insertArgs_def sample_gen_def zero_generation_def)
qed

text \<open>A row dated before 1970 poisons later writes.  Its day bucket is rounded towards zero, so the
  span recompute looks for the group's rows in the wrong day, finds none and violates a NOT NULL
  constraint: with no fault of the database at all, a retry that fills in a token count, and every
  other record in the same batch with it, is refused, and so is an estimate for the row.
\<close>

definition old_gen :: generation where
  "old_gen = sample_gen\<lparr>g_timestamp := - 1000000\<rparr>"

definition old_store :: store where
  "old_store = snd (InsertGenerations no_fault (\<lambda>_. 0) [old_gen] empty_store)"

definition fails_at :: "(db_step + 'a) \<times> store \<Rightarrow> db_step \<Rightarrow> bool" where
  "fails_at r step \<longleftrightarrow> (case fst r of Inl e \<Rightarrow> e = step | Inr _ \<Rightarrow> False)"

theorem pre_1970_blocks_writes:
  "fails_at (InsertGenerations no_fault (\<lambda>_. 0) [old_gen\<lparr>g_output := Some 7\<rparr>] old_store) (ExecMerge 0)
   \<and> fails_at (InsertGenerations no_fault (\<lambda>_. 0)
       [sample_gen\<lparr>g_id := ''b''\<rparr>, old_gen\<lparr>g_output := Some 7\<rparr>] old_store) (ExecMerge 1)
   \<and> fails_at (ApplyPricing no_fault (old_gen\<lparr>g_cost := Some (Fin 1), g_cost_source := ''manual''\<rparr>) old_store)
       (ExecStmt 2)"
  by (intro conjI; code_simp)

section \<open>Reading back\<close>

text \<open>What is stored is what was normalized: a record read back from its fresh row is the record,
  but for the precision of the columns (milliseconds for time and duration) and the cost source
  \<open>unknown\<close> that marks a missing cost.
\<close>

theorem insert_scan_roundtrip:
  assumes "gen_ok g" "int64_range (g_duration g)"
  shows "scanGeneration snaps (insertArgs now g) =
    g\<lparr>g_timestamp := g_timestamp g - g_timestamp g mod 1000000,
      g_duration := g_duration g - g_duration g smod 1000000,
      g_cost_source := harnessCostSource (g_cost g)\<rparr>"
proof -
  have str: "scan_string (nullableString s) = s" for s
    by (simp add: scan_string_def nullableString_def)
  have cost: "nullableFloat (g_cost g) = g_cost g"
    using assms(1) by (auto simp: gen_ok_def cost_ok_def nullableFloat_def in_range_Fin is_nan_def
        split: option.splits)
  have rep: "g_cost_reported g = (g_cost g \<noteq> None)"
    using assms(1) by (auto simp: gen_ok_def cost_ok_def split: option.splits)
  have "duration_ms d * 1000000 = d - d smod 1000000" for d
    by (simp add: duration_ms_def minus_smod_eq_sdiv_mult)
  moreover have "int64_range (d sdiv 1000000 * 1000000)" if "int64_range d" for d
  proof (cases "0 \<le> d")
    case True
    then show ?thesis using that by (simp add: int64_range_def sdiv_nonneg) linarith
  next
    case False
    then have "d sdiv 1000000 = - (- d div 1000000)" by (simp add: signed_divide_int_def sgn_if)
    then show ?thesis using that False by (simp add: int64_range_def) linarith
  qed
  ultimately have dur: "(case nullableDuration (g_duration g) of None \<Rightarrow> 0
      | Some ms \<Rightarrow> wrap64 (ms * milli_ns)) = g_duration g - g_duration g smod 1000000"
    using assms(2) by (auto simp: nullableDuration_def duration_ms_def)
  have ts: "of_unix_milli (unix_milli t) = t - t mod 1000000" for t
    by (simp add: of_unix_milli_def unix_milli_def minus_mod_eq_div_mult)
  show ?thesis
    using assms(1)
    by (intro generation.equality)
       (simp_all add: scanGeneration_def insertArgs_def str cost rep ts dur nullableInt_def nullableID_def
          gen_ok_def unpriced_def rates_of_def, simp_all add: scan_string_def)
qed

lemma gen_ok_sample: "gen_ok sample_gen"
  by (simp add: gen_ok_def sample_gen_def zero_generation_def tokens_ok_def token_ok_def cost_ok_def
      labels_ok_def unpriced_def maxLabelLen_def maxTokensPerCall_def)

theorem insert_scan_roundtrip_witness:
  "scanGeneration [] (insertArgs 5 sample_gen) = sample_gen\<lparr>g_cost_source := ''unknown''\<rparr>"
proof -
  have "int64_range (g_duration sample_gen)"
    by (simp add: sample_gen_def zero_generation_def int64_range_def)
  from insert_scan_roundtrip [OF gen_ok_sample this, of "[]" 5] show ?thesis
    by (simp add: sample_gen_def zero_generation_def harnessCostSource_def signed_modulo_int_def)
qed

text \<open>The snapshot table: keys are unique and every reference of a row resolves.\<close>

definition snapshots_ok :: "store \<Rightarrow> bool" where
  "snapshots_ok st \<longleftrightarrow> snaps_ok (s_snapshots st)
     \<and> (\<forall>r \<in> set (s_rows st). \<forall>i. r_snapshot r = Some i \<longrightarrow> map_of (s_snapshots st) i \<noteq> None)"

lemma insert_all_snapshots:
  "insert_all fault now i gens st stored = Inr (stored', st') \<Longrightarrow> snapshots_ok st \<Longrightarrow> snapshots_ok st'"
proof (induction gens arbitrary: i st stored)
  case (Cons g gens)
  from Cons.prems(1) show ?case
  proof (rule insert_all_Cons)
    fix ins st1 assume one: "insertGeneration fault i (now i) g st = Inr (ins, st1)"
      and rest: "insert_all fault now (i + 1) gens st1
        (if ins then stored(g_source g := stored (g_source g) + 1) else stored) = Inr (stored', st')"
    have "snapshots_ok st1"
    proof (cases ins)
      case True
      with insertGeneration_rows [OF one] Cons.prems(2) show ?thesis
        by (auto simp: snapshots_ok_def insertArgs_def)
    next
      case False
      with insertGeneration_rows [OF one] obtain xs old ys where
        "s_rows st = xs @ old # ys" "s_rows st1 = xs @ merge_row g old # ys" "s_snapshots st1 = s_snapshots st"
        by auto
      then show ?thesis
        using Cons.prems(2) by (auto simp: snapshots_ok_def merge_row_def Let_def split: if_splits)
    qed
    with Cons.IH [OF rest] show ?thesis .
  qed
qed simp

lemma ApplyPricing_True:
  assumes "ApplyPricing fault g st = (Inr True, st')"
  obtains xs old ys where "s_rows st = xs @ old # ys" "r_id old = g_id g" "priceable g old"
    "s_rows st' = xs @ price_row g (fst (snapshot_for g (s_snapshots st))) old # ys"
    "s_snapshots st' = snd (snapshot_for g (s_snapshots st))"
  using ApplyPricing_cases [OF assms]
proof (elim disjE exE conjE)
  fix n assume u: "exec_update (g_id g) (priceable g) (price_row g (fst (snapshot_for g (s_snapshots st))))
        (st\<lparr>s_snapshots := snd (snapshot_for g (s_snapshots st))\<rparr>) = Some (st', n)" and "n \<noteq> 0"
  from exec_update_Some [OF u] \<open>n \<noteq> 0\<close> show ?thesis by (auto intro: that)
qed simp

lemma snapshot_for_ok:
  assumes "snaps_ok t" "snapshot_for g t = (s, t')"
  shows "snaps_ok t' \<and> rates_of t' s = g_pricing_rates g \<and> (\<forall>i. s = Some i \<longrightarrow> map_of t' i \<noteq> None)
    \<and> (\<forall>j r. map_of t j = Some r \<longrightarrow> map_of t' j = Some r)"
proof (cases "g_pricing_rates g = []")
  case False
  obtain i u where "intern_snapshot (g_pricing_rates g) t = (i, u)" by fastforce
  with intern_snapshot_ok [OF assms(1) this] assms(2) False show ?thesis
    by (auto simp: snapshot_for_def rates_of_def)
qed (use assms in \<open>auto simp: snapshot_for_def rates_of_def\<close>)

text \<open>A price that was applied is the price that is read back: after a successful \<open>ApplyPricing\<close> the
  row reads with the new cost, source, model and the very rate set it was priced with, and every
  other row reads as before, rate set included.
\<close>

theorem pricing_roundtrip:
  assumes "snapshots_ok st" "ApplyPricing fault g st = (Inr True, st')"
  shows "\<exists>xs old ys new. s_rows st = xs @ old # ys \<and> s_rows st' = xs @ new # ys \<and> r_id new = g_id g
    \<and> \<not> r_pending new
    \<and> scanGeneration (s_snapshots st') new = (scanGeneration (s_snapshots st) old)\<lparr>
        g_cost := nullableFloat (g_cost g), g_cost_source := g_cost_source g,
        g_pricing_model_id := g_pricing_model_id g, g_pricing_rates := g_pricing_rates g,
        g_pricing_fetched_at := map_option (\<lambda>t. of_unix_milli (unix_milli t)) (g_pricing_fetched_at g)\<rparr>
    \<and> (\<forall>r \<in> set (xs @ ys). scanGeneration (s_snapshots st') r = scanGeneration (s_snapshots st) r)"
  using assms(2)
proof (rule ApplyPricing_True)
  fix xs old ys
  assume rows: "s_rows st = xs @ old # ys" "r_id old = g_id g" "priceable g old"
    "s_rows st' = xs @ price_row g (fst (snapshot_for g (s_snapshots st))) old # ys"
    "s_snapshots st' = snd (snapshot_for g (s_snapshots st))"
  obtain s t where st: "snapshot_for g (s_snapshots st) = (s, t)" by fastforce
  from assms(1) have "snaps_ok (s_snapshots st)" by (simp add: snapshots_ok_def)
  note snap = snapshot_for_ok [OF this st]
  have str: "scan_string (nullableString x) = x" for x
    by (simp add: scan_string_def nullableString_def)
  let ?new = "price_row g s old"
  have new: "scanGeneration t ?new = (scanGeneration (s_snapshots st) old)\<lparr>
        g_cost := nullableFloat (g_cost g), g_cost_source := g_cost_source g,
        g_pricing_model_id := g_pricing_model_id g, g_pricing_rates := g_pricing_rates g,
        g_pricing_fetched_at := map_option (\<lambda>t. of_unix_milli (unix_milli t)) (g_pricing_fetched_at g)\<rparr>"
    using snap by (simp add: scanGeneration_def price_row_def str option.map_comp o_def)
  have other: "scanGeneration t r = scanGeneration (s_snapshots st) r" if "r \<in> set (xs @ ys)" for r
  proof -
    have "rates_of t (r_snapshot r) = rates_of (s_snapshots st) (r_snapshot r)"
      using assms(1) that rows(1) snap by (cases "r_snapshot r") (fastforce simp: snapshots_ok_def rates_of_def)+
    then show ?thesis by (simp add: scanGeneration_def)
  qed
  show ?thesis
    using rows st new other
    by (intro exI [of _ xs] exI [of _ old] exI [of _ ys] exI [of _ ?new]) (auto simp: price_row_def)
qed

definition priced_sample :: generation where
  "priced_sample = sample_gen\<lparr>g_cost := Some (Fin 1), g_cost_source := ''manual'', g_pricing_rates := ''{}''\<rparr>"

theorem pricing_roundtrip_witness:
  "\<exists>new. s_rows (snd (ApplyPricing no_fault priced_sample sample_store)) = [new]
    \<and> g_pricing_rates (scanGeneration (s_snapshots (snd (ApplyPricing no_fault priced_sample sample_store))) new) = ''{}''"
proof -
  have ok: "snapshots_ok sample_store"
    by (simp add: snapshots_ok_def sample_store_rows insertArgs_def)
       (simp add: snaps_ok_def sample_store_def InsertGenerations_def no_fault_def insertGeneration_def
        exec_insert_def empty_store_def)
  have "case fst (ApplyPricing no_fault priced_sample sample_store) of Inr b \<Rightarrow> b | Inl _ \<Rightarrow> False"
    by code_simp
  then obtain st' where "ApplyPricing no_fault priced_sample sample_store = (Inr True, st')"
    by (cases "ApplyPricing no_fault priced_sample sample_store") (auto split: sum.splits)
  from pricing_roundtrip [OF ok this] this show ?thesis
    by (auto simp: sample_store_rows priced_sample_def Cons_eq_append_conv)
qed

end
