(* ===== verification/Queries.thy ===== *)
theory Queries
  imports Store "HOL-Library.Multiset" "HOL-Library.List_Lexorder" "HOL-Library.Char_ord" "HOL-Library.Product_Lexorder"
begin

text \<open>
  The aggregate queries of \<open>internal/storage\<close>: the filter and its SQL conditions (\<open>usage.go\<close>),
  \<open>factsSQL\<close> (\<open>rollup.go\<close>), and the queries over facts (\<open>queries.go\<close>).  Times are nanoseconds, \<open>now\<close> is
  the clock, and \<open>groups\<close> is the group label of every row of \<open>api_tokens\<close>.

  The theorems show that reading whole days from the rollups and only the rest from the rows gives
  every aggregate the value a scan of the rows would.
\<close>

section \<open>Filters\<close>

record filter_spec =
  fl_from :: int
  fl_to :: int
  fl_source :: string
  fl_provider :: string
  fl_model :: string
  fl_conversation :: string
  fl_group :: string
  fl_ungrouped :: bool
  fl_token :: string
  fl_unbounded :: bool

definition TokenNone :: string where "TokenNone = ''none''"
definition ConversationNone :: string where "ConversationNone = ''none''"
definition ConversationAutocomplete :: string where "ConversationAutocomplete = ''autocomplete''"
definition ConversationTitleProgress :: string where "ConversationTitleProgress = ''titleprogress''"

datatype query_error = InvalidToken | ToBeforeFrom | InvalidBucket | InvalidLimit | InvalidOffset
  | InvalidOrder | InvalidMetric

definition normalize_filter :: "int \<Rightarrow> filter_spec \<Rightarrow> query_error + filter_spec" where
  "normalize_filter now f =
     (let out = f\<lparr>fl_source := trim_space (fl_source f), fl_provider := trim_space (fl_provider f),
        fl_model := trim_space (fl_model f), fl_conversation := trim_space (fl_conversation f),
        fl_group := trim_space (fl_group f), fl_token := trim_space (fl_token f)\<rparr> in
      if fl_token out \<noteq> [] \<and> fl_token out \<noteq> TokenNone
        \<and> (case parse_int64 (fl_token out) of None \<Rightarrow> True | Some i \<Rightarrow> i \<le> 0)
      then Inl InvalidToken
      else let out = (if is_zero_time (fl_to out)
          then out\<lparr>fl_to := now, fl_unbounded := is_zero_time (fl_from out)\<rparr> else out) in
        if \<not> is_zero_time (fl_from out) \<and> fl_to out < fl_from out then Inl ToBeforeFrom
        else Inr out)"

text \<open>
  The conditions select a row when they are true; NULL is as good as false.  \<open>token_id = ?\<close> compares
  with the number the text stands for (the column's affinity).
\<close>

definition sessionless :: "string list \<Rightarrow> gen_row \<Rightarrow> bool" where
  "sessionless agents r \<longleftrightarrow> r_source r = SourceCopilot
     \<and> (case r_agent_name r of None \<Rightarrow> False | Some a \<Rightarrow> a \<in> set agents)"

definition conversationSQL :: "filter_spec \<Rightarrow> gen_row \<Rightarrow> bool" where
  "conversationSQL f r = (let c = fl_conversation f in
     if c = ConversationNone then r_conversation_id r = None
       \<or> sessionless [AgentXtabProvider, AgentTitle, AgentProgressMessages] r
     else if c = ConversationAutocomplete then sessionless [AgentXtabProvider] r
     else if c = ConversationTitleProgress then sessionless [AgentTitle, AgentProgressMessages] r
     else if c \<noteq> [] then r_conversation_id r = Some c \<and> (r_source r \<noteq> SourceCopilot
       \<or> coal_string (r_agent_name r) \<notin> {AgentXtabProvider, AgentTitle, AgentProgressMessages})
     else True)"

definition group_cond :: "(int \<Rightarrow> string option) \<Rightarrow> filter_spec \<Rightarrow> int \<Rightarrow> bool" where
  "group_cond groups f tok \<longleftrightarrow> (fl_group f \<noteq> [] \<longrightarrow> groups tok = Some (fl_group f))
     \<and> (fl_ungrouped f \<longrightarrow> groups tok = Some [])"

definition col_cond :: "string \<Rightarrow> string \<Rightarrow> bool" where
  "col_cond want v \<longleftrightarrow> want \<noteq> [] \<longrightarrow> v = want"

definition dimSQL_rows :: "(int \<Rightarrow> string option) \<Rightarrow> filter_spec \<Rightarrow> gen_row \<Rightarrow> bool" where
  "dimSQL_rows groups f r \<longleftrightarrow> col_cond (fl_source f) (r_source r)
     \<and> (fl_provider f \<noteq> [] \<longrightarrow> r_provider r = Some (fl_provider f))
     \<and> (fl_model f \<noteq> [] \<longrightarrow> r_model r = Some (fl_model f))
     \<and> (if fl_token f = TokenNone then r_token r = None
        else fl_token f \<noteq> [] \<longrightarrow> r_token r \<noteq> None \<and> r_token r = parse_int64 (fl_token f))
     \<and> (fl_group f \<noteq> [] \<or> fl_ungrouped f \<longrightarrow> (case r_token r of None \<Rightarrow> False | Some t \<Rightarrow> group_cond groups f t))"

definition dimSQL_rollup :: "(int \<Rightarrow> string option) \<Rightarrow> filter_spec \<Rightarrow> dims \<Rightarrow> bool" where
  "dimSQL_rollup groups f d = (case d of (source, provider, model, tok) \<Rightarrow>
     col_cond (fl_source f) source \<and> col_cond (fl_provider f) provider \<and> col_cond (fl_model f) model
     \<and> (if fl_token f = TokenNone then tok = 0 else fl_token f \<noteq> [] \<longrightarrow> Some tok = parse_int64 (fl_token f))
     \<and> (fl_group f \<noteq> [] \<or> fl_ungrouped f \<longrightarrow> group_cond groups f tok))"

definition whereSQL :: "(int \<Rightarrow> string option) \<Rightarrow> filter_spec \<Rightarrow> gen_row \<Rightarrow> bool" where
  "whereSQL groups f r \<longleftrightarrow> (is_zero_time (fl_from f) \<or> unix_milli (fl_from f) \<le> r_ts r)
     \<and> r_ts r < unix_milli (fl_to f) \<and> conversationSQL f r \<and> dimSQL_rows groups f r"

section \<open>Facts\<close>

text \<open>A fact: bucket and keys, then the values.\<close>

definition rawFactsSQL :: "'k rollupSpec \<Rightarrow> (int \<Rightarrow> int) \<Rightarrow> (gen_row \<Rightarrow> bool) \<Rightarrow> gen_row list \<Rightarrow> 'k rollup_table" where
  "rawFactsSQL spec bucket p rows = map (\<lambda>r. ((bucket (r_ts r), keys spec r),
     (factMeasures r, if has_span spec then Some (r_ts r, r_ts r) else None))) (filter p rows)"

definition factsSQL :: "'k rollupSpec \<Rightarrow> (int \<Rightarrow> string option) \<Rightarrow> filter_spec \<Rightarrow> bool \<Rightarrow> gen_row list
    \<Rightarrow> 'k rollup_table \<Rightarrow> 'k rollup_table" where
  "factsSQL spec groups f hourly rows table =
     (if hourly \<or> fl_conversation f \<noteq> []
      then rawFactsSQL spec (if hourly then hourBucket else dayBucket) (whereSQL groups f) rows
      else
        let raw = (\<lambda>from upto. rawFactsSQL spec dayBucket
              (\<lambda>r. from \<le> r_ts r \<and> r_ts r < upto \<and> dimSQL_rows groups f r) rows);
            rollup = (\<lambda>c. filter (\<lambda>((day, k), _). c day \<and> dimSQL_rollup groups f (key_dims spec k)) table);
            upto = unix_milli (fl_to f);
            hi = upto - upto smod 86400000;
            rest = (if hi < upto then raw hi upto else [])
        in if is_zero_time (fl_from f) then rollup (\<lambda>day. day < hi) @ rest
           else let from = unix_milli (fl_from f);
                    lo = from + (86400000 - from smod 86400000) smod 86400000
             in if hi \<le> lo then raw from upto
                else (if from < lo then raw from lo else [])
                  @ rollup (\<lambda>day. lo \<le> day \<and> day < hi) @ rest)"

section \<open>Fact lists with the same aggregates\<close>

definition min_opt :: "int list \<Rightarrow> int option" where
  "min_opt xs = (if xs = [] then None else Some (Min (set xs)))"

definition max_opt :: "int list \<Rightarrow> int option" where
  "max_opt xs = (if xs = [] then None else Some (Max (set xs)))"

text \<open>
  What the queries read off a list of facts: the sum over the facts whose keys satisfy \<open>Q\<close>, their
  first and last timestamp, and which keys occur.
\<close>

definition fact_sum :: "('g \<Rightarrow> bool) \<Rightarrow> ('g \<times> rollup_vals) list \<Rightarrow> facts" where
  "fact_sum Q t = sum_list (map (\<lambda>x. fst (snd x)) (filter (\<lambda>x. Q (fst x)) t))"

definition fact_spans :: "('g \<Rightarrow> bool) \<Rightarrow> ('g \<times> rollup_vals) list \<Rightarrow> (int \<times> int) list" where
  "fact_spans Q t = concat (map (\<lambda>x. if Q (fst x)
     then (case snd (snd x) of None \<Rightarrow> [] | Some s \<Rightarrow> [s]) else []) t)"

definition fact_first :: "('g \<Rightarrow> bool) \<Rightarrow> ('g \<times> rollup_vals) list \<Rightarrow> int option" where
  "fact_first Q t = min_opt (map fst (fact_spans Q t))"

definition fact_last :: "('g \<Rightarrow> bool) \<Rightarrow> ('g \<times> rollup_vals) list \<Rightarrow> int option" where
  "fact_last Q t = max_opt (map snd (fact_spans Q t))"

definition same_facts :: "('g \<times> rollup_vals) list \<Rightarrow> ('g \<times> rollup_vals) list \<Rightarrow> bool" where
  "same_facts a b \<longleftrightarrow> fst ` set a = fst ` set b \<and> (\<forall>Q. fact_sum Q a = fact_sum Q b
     \<and> fact_first Q a = fact_first Q b \<and> fact_last Q a = fact_last Q b)"

lemma fact_sum_simps [simp]: "fact_sum Q [] = 0"
  "fact_sum Q (x # t) = (if Q (fst x) then fst (snd x) else 0) + fact_sum Q t"
  "fact_sum Q (a @ b) = fact_sum Q a + fact_sum Q b"
  by (simp_all add: fact_sum_def)

lemma fact_spans_simps [simp]: "fact_spans Q [] = []"
  "fact_spans Q (x # t) = (if Q (fst x) then (case snd (snd x) of None \<Rightarrow> [] | Some s \<Rightarrow> [s]) else []) @ fact_spans Q t"
  "fact_spans Q (a @ b) = fact_spans Q a @ fact_spans Q b"
  by (simp_all add: fact_spans_def)

definition opt_min :: "int option \<Rightarrow> int option \<Rightarrow> int option" where
  "opt_min a b = (case a of None \<Rightarrow> b | Some x \<Rightarrow> (case b of None \<Rightarrow> a | Some y \<Rightarrow> Some (min x y)))"

definition opt_max :: "int option \<Rightarrow> int option \<Rightarrow> int option" where
  "opt_max a b = (case a of None \<Rightarrow> b | Some x \<Rightarrow> (case b of None \<Rightarrow> a | Some y \<Rightarrow> Some (max x y)))"

lemma min_opt_append: "min_opt (xs @ ys) = opt_min (min_opt xs) (min_opt ys)"
  by (simp add: min_opt_def opt_min_def Min_Un)

lemma max_opt_append: "max_opt (xs @ ys) = opt_max (max_opt xs) (max_opt ys)"
  by (simp add: max_opt_def opt_max_def Max_Un)

lemma fact_first_append: "fact_first Q (a @ b) = opt_min (fact_first Q a) (fact_first Q b)"
  by (simp add: fact_first_def min_opt_append)

lemma fact_last_append: "fact_last Q (a @ b) = opt_max (fact_last Q a) (fact_last Q b)"
  by (simp add: fact_last_def max_opt_append)

lemma ebind_cong_Inr: "(\<And>a. r = Inr a \<Longrightarrow> f a = g a) \<Longrightarrow> ebind r f = ebind r g"
  by (cases r) simp_all

lemma same_facts_refl [simp]: "same_facts a a"
  by (simp add: same_facts_def)

lemma same_facts_sym: "same_facts a b \<Longrightarrow> same_facts b a"
  by (simp add: same_facts_def)

lemma same_facts_trans [trans]: "same_facts a b \<Longrightarrow> same_facts b c \<Longrightarrow> same_facts a c"
  by (simp add: same_facts_def)

lemma same_facts_append: "same_facts a b \<Longrightarrow> same_facts c d \<Longrightarrow> same_facts (a @ c) (b @ d)"
  unfolding same_facts_def by (simp only: fact_first_append fact_last_append fact_sum_simps set_append image_Un) blast

lemma set_fact_spans: "set (fact_spans Q t) = {s. \<exists>x \<in> set t. snd (snd x) = Some s \<and> Q (fst x)}"
  unfolding fact_spans_def by (force split: option.splits if_splits)

lemma same_facts_mset:
  assumes "mset a = mset b"
  shows "same_facts a b"
proof -
  have set: "set a = set b" using assms by (rule mset_eq_setD)
  have "fact_sum Q a = fact_sum Q b" for Q
    unfolding fact_sum_def sum_mset_sum_list [symmetric]
    using assms by (simp add: mset_filter)
  moreover have "set (fact_spans Q a) = set (fact_spans Q b)" for Q
    using set by (simp add: set_fact_spans)
  moreover from this have "(fact_spans Q a = []) = (fact_spans Q b = [])" for Q
    by (metis set_empty)
  ultimately show ?thesis
    using set by (simp add: same_facts_def fact_first_def fact_last_def min_opt_def max_opt_def)
qed

lemma fact_filter:
  "fact_sum Q (filter (\<lambda>x. R (fst x)) t) = fact_sum (\<lambda>k. Q k \<and> R k) t"
  "fact_spans Q (filter (\<lambda>x. R (fst x)) t) = fact_spans (\<lambda>k. Q k \<and> R k) t"
  by (induction t) auto

lemma same_facts_filter:
  assumes "same_facts a b"
  shows "same_facts (filter (\<lambda>x. R (fst x)) a) (filter (\<lambda>x. R (fst x)) b)"
proof -
  have keys: "fst ` set (filter (\<lambda>x. R (fst x)) t) = {k \<in> fst ` set t. R k}" for t :: "('a \<times> rollup_vals) list"
    by auto
  show ?thesis
    using assms unfolding same_facts_def fact_first_def fact_last_def fact_filter keys by simp
qed

section \<open>A rollup table has the aggregates of its rows\<close>

definition row_fact :: "'k rollupSpec \<Rightarrow> gen_row \<Rightarrow> 'k group_key \<times> rollup_vals" where
  "row_fact spec r = (group_key spec r,
     (factMeasures r, if has_span spec then Some (r_ts r, r_ts r) else None))"

definition spanned :: "'k rollupSpec \<Rightarrow> 'k rollup_table \<Rightarrow> bool" where
  "spanned spec t \<longleftrightarrow> (\<forall>x \<in> set t. snd (snd x) = None \<longleftrightarrow> \<not> has_span spec)"

lemma opt_min_left: "opt_min (Some x) a = Some (case a of None \<Rightarrow> x | Some y \<Rightarrow> min x y)"
  by (simp add: opt_min_def split: option.split)

lemma same_facts_onInsert:
  assumes "spanned spec t"
  shows "same_facts (onInsert spec r t) (t @ [row_fact spec r]) \<and> spanned spec (onInsert spec r t)"
proof -
  let ?v = "(factMeasures r, if has_span spec then Some (r_ts r, r_ts r) else None)"
  let ?u = "\<lambda>(g, s). (g + factMeasures r, map_option (widen (r_ts r)) s)"
  have ins: "onInsert spec r t = upsert (group_key spec r) ?v ?u t"
    by (simp add: onInsert_def addSQL_def signed_def Let_def)
  have "same_facts (upsert (group_key spec r) ?v ?u t) (t @ [row_fact spec r])
      \<and> spanned spec (upsert (group_key spec r) ?v ?u t)"
    using assms
  proof (induction t)
    case Nil
    then show ?case by (simp add: row_fact_def spanned_def)
  next
    case (Cons x t)
    obtain k f s where x: "x = (k, f, s)" by (cases x)
    show ?case
    proof (cases "k = group_key spec r")
      case False
      from Cons have IH: "same_facts (upsert (group_key spec r) ?v ?u t) (t @ [row_fact spec r])"
        "spanned spec (upsert (group_key spec r) ?v ?u t)" by (simp_all add: spanned_def)
      from same_facts_append [OF same_facts_refl [of "[x]"] IH(1)] IH(2) False x Cons.prems
      show ?thesis by (simp add: spanned_def)
    next
      case True
      have "same_facts [(k, ?u (f, s))] [x, row_fact spec r]"
        using Cons.prems x True
        by (cases s) (auto simp: same_facts_def row_fact_def spanned_def fact_first_def fact_last_def
            min_opt_def max_opt_def widen_def)
      from same_facts_append [OF this same_facts_refl [of t]]
      have "same_facts ((k, ?u (f, s)) # t) (x # row_fact spec r # t)" by simp
      also have "same_facts (x # row_fact spec r # t) ((x # t) @ [row_fact spec r])"
        by (rule same_facts_mset) simp
      finally show ?thesis
        using True x Cons.prems by (auto simp: spanned_def)
    qed
  qed
  with ins show ?thesis by simp
qed

lemma rollup_ok_mset:
  assumes "rollup_ok spec rows t" "rollup_ok spec rows t'"
  shows "mset t = mset t'"
proof -
  have d: "distinct (map fst t)" "distinct (map fst t')"
    using assms by (simp_all add: rollup_ok_def)
  have "map_of t = map_of t'" by (rule rollup_ok_unique [OF assms])
  then have "set t = set t'" using d by (simp add: map_of_inject_set)
  then show ?thesis
    using d by (simp add: set_eq_iff_mset_eq_distinct distinct_map)
qed

lemma rollup_same_facts:
  assumes "rollup_ok spec rows t"
  shows "same_facts t (map (row_fact spec) rows)"
proof -
  have "\<exists>u. rollup_ok spec rows u \<and> spanned spec u \<and> same_facts u (map (row_fact spec) rows)"
  proof (induction rows rule: rev_induct)
    case Nil
    have "rollup_ok spec [] []" by (simp add: rollup_ok_def members_def)
    then show ?case by (intro exI [of _ "[]"]) (simp add: spanned_def)
  next
    case (snoc r rows)
    then obtain u where u: "rollup_ok spec rows u" "spanned spec u" "same_facts u (map (row_fact spec) rows)"
      by blast
    have "same_facts (onInsert spec r u) (u @ [row_fact spec r])" using same_facts_onInsert [OF u(2)] by blast
    also have "same_facts (u @ [row_fact spec r]) (map (row_fact spec) (rows @ [r]))"
      using same_facts_append [OF u(3) same_facts_refl [of "[row_fact spec r]"]] by simp
    finally show ?case
      using onInsert_ok [OF u(1), of r] same_facts_onInsert [OF u(2)] by blast
  qed
  then obtain u where u: "rollup_ok spec rows u" "same_facts u (map (row_fact spec) rows)" by blast
  have "same_facts t u" by (rule same_facts_mset) (rule rollup_ok_mset [OF assms u(1)])
  then show ?thesis using u(2) by (rule same_facts_trans)
qed

section \<open>factsSQL reads what the rows hold\<close>

text \<open>A filter as \<open>normalize_filter\<close> leaves it, and token groups keyed by the positive row identifiers.\<close>

definition valid_token :: "filter_spec \<Rightarrow> bool" where
  "valid_token f \<longleftrightarrow> fl_token f = [] \<or> fl_token f = TokenNone
     \<or> (\<exists>i. parse_int64 (fl_token f) = Some i \<and> 0 < i)"

lemma normalize_filter_valid: "normalize_filter now f = Inr f' \<Longrightarrow> valid_token f'"
  by (auto simp: normalize_filter_def valid_token_def Let_def not_le split: if_splits option.splits)

lemma dimSQL_agree:
  assumes "row_ok r" "valid_token f" "groups 0 = None"
  shows "dimSQL_rollup groups f (factDims r) = dimSQL_rows groups f r"
proof -
  have tok: "Some (opt_val t) = p \<longleftrightarrow> t \<noteq> None \<and> t = p" if "p = Some i" "0 < i" "t \<noteq> Some 0" for t p and i :: int
    using that by (cases t) auto
  have str: "col_cond w (coal_string s) \<longleftrightarrow> (w \<noteq> [] \<longrightarrow> s = Some w)" for w s
    by (cases s) (auto simp: col_cond_def coal_string_def)
  have grp: "(g \<noteq> [] \<or> u \<longrightarrow> group_cond groups f (opt_val t))
      = (g \<noteq> [] \<or> u \<longrightarrow> (case t of None \<Rightarrow> False | Some t \<Rightarrow> group_cond groups f t))"
    if "g = fl_group f" "u = fl_ungrouped f" for g t u
    using assms(3) that by (cases t) (auto simp: group_cond_def)
  have t0: "r_token r \<noteq> Some 0" using assms(1) by (simp add: row_ok_def)
  have zero: "opt_val (r_token r) = 0 \<longleftrightarrow> r_token r = None" using t0 by (cases "r_token r") auto
  have token: "(if fl_token f = TokenNone then opt_val (r_token r) = 0
        else fl_token f \<noteq> [] \<longrightarrow> Some (opt_val (r_token r)) = parse_int64 (fl_token f))
      = (if fl_token f = TokenNone then r_token r = None
        else fl_token f \<noteq> [] \<longrightarrow> r_token r \<noteq> None \<and> r_token r = parse_int64 (fl_token f))"
    using assms(2) zero tok [OF _ _ t0] unfolding valid_token_def by fastforce
  show ?thesis
    unfolding dimSQL_rollup_def dimSQL_rows_def factDims_def prod.case str token grp [OF refl refl] ..
qed

lemma mset_filter_split:
  assumes "\<And>x. x \<in> set xs \<Longrightarrow> P x \<longleftrightarrow> A x \<or> B x" "\<And>x. x \<in> set xs \<Longrightarrow> \<not> (A x \<and> B x)"
  shows "mset (filter P xs) = mset (filter A xs) + mset (filter B xs)"
  using assms by (induction xs) auto

lemma rawFactsSQL_split:
  assumes "\<And>r. r \<in> set rows \<Longrightarrow> p r \<longleftrightarrow> a r \<or> b r" "\<And>r. r \<in> set rows \<Longrightarrow> \<not> (a r \<and> b r)"
  shows "same_facts (rawFactsSQL spec bucket p rows) (rawFactsSQL spec bucket a rows @ rawFactsSQL spec bucket b rows)"
  by (rule same_facts_mset)
     (simp only: rawFactsSQL_def mset_map mset_append mset_filter_split [OF assms] image_mset_union)

lemma rawFactsSQL_cong: "(\<And>r. r \<in> set rows \<Longrightarrow> p r = q r) \<Longrightarrow>
    rawFactsSQL spec bucket p rows = rawFactsSQL spec bucket q rows"
  unfolding rawFactsSQL_def by (rule arg_cong [where f = "map _"], rule filter_cong [OF refl])

lemma rawFactsSQL_none: "(\<And>r. r \<in> set rows \<Longrightarrow> \<not> p r) \<Longrightarrow> rawFactsSQL spec bucket p rows = []"
  by (simp add: rawFactsSQL_def)

lemma day_multiple_less: "(86400000::int) dvd hi \<Longrightarrow> 0 \<le> ts \<Longrightarrow> dayBucket ts < hi \<longleftrightarrow> ts < hi"
  and day_multiple_le: "(86400000::int) dvd lo \<Longrightarrow> 0 \<le> ts \<Longrightarrow> lo \<le> dayBucket ts \<longleftrightarrow> lo \<le> ts"
  by (auto simp: dayBucket_nonneg elim!: dvdE)

lemma floor_day: "(86400000::int) dvd t - t smod 86400000"
  by (simp add: minus_smod_eq_sdiv_mult)

lemma smod_nonneg: "0 \<le> (a::int) \<Longrightarrow> 0 < b \<Longrightarrow> a smod b = a mod b"
  by (metis minus_sdiv_mult_eq_smod minus_div_mult_eq_mod sdiv_nonneg)

lemma smod_neg: "(a::int) \<le> 0 \<Longrightarrow> 0 < b \<Longrightarrow> a smod b = - ((- a) mod b)"
  by (cases "a = 0") (simp_all add: signed_modulo_int_def)

lemma floor_day_le: "0 \<le> t \<Longrightarrow> t - t smod 86400000 \<le> (t::int)"
  by (simp add: smod_nonneg)

lemma floor_day_neg: "t \<le> 0 \<Longrightarrow> t - t smod 86400000 \<le> (0::int)"
  using zmod_le_nonneg_dividend [of "- t" 86400000] by (simp add: smod_neg)

lemma ceil_day:
  defines "c t \<equiv> t + (86400000 - t smod 86400000) smod (86400000::int)"
  shows "86400000 dvd c t" "t \<le> c t"
proof -
  have m: "t smod 86400000 = (if 0 \<le> t then t mod 86400000 else - ((- t) mod 86400000))"
    by (simp add: smod_nonneg smod_neg)
  have "t mod 86400000 < 86400000" "0 \<le> (- t) mod 86400000" by simp_all
  then have "0 \<le> 86400000 - t smod 86400000" unfolding m by (auto simp del: pos_mod_bound pos_mod_sign)
  then have c: "c t = t + (86400000 - t smod 86400000) mod 86400000"
    by (simp add: c_def smod_nonneg)
  have "86400000 dvd t - t smod 86400000" by (rule floor_day)
  then have "86400000 dvd t + (86400000 - t smod 86400000)"
    using dvd_add [of 86400000 "t - t smod 86400000" 86400000] by (simp add: algebra_simps)
  then show "86400000 dvd c t" unfolding c by (metis dvd_eq_mod_eq_0 mod_add_right_eq)
  show "t \<le> c t" unfolding c by simp
qed

text \<open>
  A specification whose keys carry the filterable dimensions, with the scope law of its span
  recompute: what \<open>factsSQL\<close> relies on.
\<close>

locale rollup_query = rollup_scope spec for spec :: "'k rollupSpec" +
  assumes dims: "key_dims spec (keys spec r) = factDims r"
begin

lemma rollup_part:
  assumes "rollup_ok spec rows t" "\<forall>r \<in> set rows. row_ok r" "valid_token f" "groups 0 = None"
  shows "same_facts (filter (\<lambda>((day, k), _). c day \<and> dimSQL_rollup groups f (key_dims spec k)) t)
    (rawFactsSQL spec dayBucket (\<lambda>r. c (dayBucket (r_ts r)) \<and> dimSQL_rows groups f r) rows)"
proof -
  let ?R = "\<lambda>(day, k). c day \<and> dimSQL_rollup groups f (key_dims spec k)"
  have "filter (\<lambda>((day, k), _). c day \<and> dimSQL_rollup groups f (key_dims spec k)) t = filter (\<lambda>x. ?R (fst x)) t"
    by (rule filter_cong [OF refl]) (auto split: prod.splits)
  also have "same_facts \<dots> (filter (\<lambda>x. ?R (fst x)) (map (row_fact spec) rows))"
    by (rule same_facts_filter) (rule rollup_same_facts [OF assms(1)])
  also have "filter (\<lambda>x. ?R (fst x)) (map (row_fact spec) rows)
      = map (row_fact spec) (filter (\<lambda>r. c (dayBucket (r_ts r)) \<and> dimSQL_rows groups f r) rows)"
    unfolding filter_map
    by (rule arg_cong [where f = "map (row_fact spec)"], rule filter_cong [OF refl])
       (use assms(2-4) in \<open>simp add: row_fact_def group_key_def dims dimSQL_agree\<close>)
  also have "\<dots> = rawFactsSQL spec dayBucket (\<lambda>r. c (dayBucket (r_ts r)) \<and> dimSQL_rows groups f r) rows"
    by (simp add: rawFactsSQL_def row_fact_def group_key_def)
  finally show ?thesis .
qed

lemma factsSQL_exact:
  assumes ok: "rollup_ok spec rows t" "\<forall>r \<in> set rows. row_ok r" "valid_token f" "groups 0 = None"
    and pos: "\<forall>r \<in> set rows. 0 \<le> r_ts r"
  shows "same_facts (factsSQL spec groups f hourly rows t)
    (rawFactsSQL spec (if hourly then hourBucket else dayBucket) (whereSQL groups f) rows)"
proof (cases "hourly \<or> fl_conversation f \<noteq> []")
  case True
  then show ?thesis by (simp add: factsSQL_def)
next
  case False
  let ?D = "dimSQL_rows groups f" and ?F = "\<lambda>p. rawFactsSQL spec dayBucket p rows"
  let ?to = "unix_milli (fl_to f)" and ?from = "unix_milli (fl_from f)"
  define hi where "hi = ?to - ?to smod 86400000"
  define lo where "lo = ?from + (86400000 - ?from smod 86400000) smod 86400000"
  have hi: "86400000 dvd hi" unfolding hi_def by (rule floor_day)
  have lo: "86400000 dvd lo" "?from \<le> lo" unfolding lo_def by (rule ceil_day)+
  have hi_to: "0 \<le> x \<Longrightarrow> x < hi \<Longrightarrow> x < ?to" for x
    using floor_day_le [of ?to] floor_day_neg [of ?to] unfolding hi_def by linarith
  have where_conv: "whereSQL groups f r \<longleftrightarrow> (is_zero_time (fl_from f) \<or> ?from \<le> r_ts r) \<and> r_ts r < ?to \<and> ?D r" for r
    using False by (simp add: whereSQL_def conversationSQL_def ConversationNone_def
        ConversationAutocomplete_def ConversationTitleProgress_def)
  have rest: "(if hi < ?to then ?F (\<lambda>r. hi \<le> r_ts r \<and> r_ts r < ?to \<and> ?D r) else [])
      = ?F (\<lambda>r. hi \<le> r_ts r \<and> r_ts r < ?to \<and> ?D r)"
    by (auto intro!: rawFactsSQL_none [symmetric])
  have first: "(if ?from < lo then ?F (\<lambda>r. ?from \<le> r_ts r \<and> r_ts r < lo \<and> ?D r) else [])
      = ?F (\<lambda>r. ?from \<le> r_ts r \<and> r_ts r < lo \<and> ?D r)"
    by (auto intro!: rawFactsSQL_none [symmetric])
  let ?roll = "\<lambda>c. filter (\<lambda>((day, k), _). c day \<and> dimSQL_rollup groups f (key_dims spec k)) t"
  have "factsSQL spec groups f hourly rows t = (if is_zero_time (fl_from f)
      then ?roll (\<lambda>day. day < hi) @ (if hi < ?to then ?F (\<lambda>r. hi \<le> r_ts r \<and> r_ts r < ?to \<and> ?D r) else [])
      else if hi \<le> lo then ?F (\<lambda>r. ?from \<le> r_ts r \<and> r_ts r < ?to \<and> ?D r)
      else (if ?from < lo then ?F (\<lambda>r. ?from \<le> r_ts r \<and> r_ts r < lo \<and> ?D r) else [])
        @ ?roll (\<lambda>day. lo \<le> day \<and> day < hi)
        @ (if hi < ?to then ?F (\<lambda>r. hi \<le> r_ts r \<and> r_ts r < ?to \<and> ?D r) else []))"
    unfolding factsSQL_def Let_def hi_def lo_def by (simp only: False if_False)
  note facts = this [unfolded rest first]
  note rp = rollup_part [where groups = groups, OF ok]
  show ?thesis
  proof (cases "is_zero_time (fl_from f)")
    case zero: True
    have "?F (\<lambda>r. dayBucket (r_ts r) < hi \<and> ?D r) = ?F (\<lambda>r. r_ts r < hi \<and> ?D r)"
      by (rule rawFactsSQL_cong) (use pos in \<open>simp add: day_multiple_less [OF hi]\<close>)
    with rp [of "\<lambda>day. day < hi"]
    have "same_facts (filter (\<lambda>((day, k), _). day < hi \<and> dimSQL_rollup groups f (key_dims spec k)) t)
        (?F (\<lambda>r. r_ts r < hi \<and> ?D r))" by simp
    from same_facts_append [OF this same_facts_refl]
    have "same_facts (factsSQL spec groups f hourly rows t)
      (?F (\<lambda>r. r_ts r < hi \<and> ?D r) @ ?F (\<lambda>r. hi \<le> r_ts r \<and> r_ts r < ?to \<and> ?D r))"
      using zero by (simp only: facts if_True)
    also have "same_facts \<dots> (?F (whereSQL groups f))"
      by (rule same_facts_sym, rule rawFactsSQL_split) (use pos hi_to zero in \<open>auto simp: where_conv\<close>)
    finally show ?thesis using False by simp
  next
    case nonzero: False
    show ?thesis
    proof (cases "hi \<le> lo")
      case True
      then have "factsSQL spec groups f hourly rows t = ?F (\<lambda>r. ?from \<le> r_ts r \<and> r_ts r < ?to \<and> ?D r)"
        using nonzero by (simp only: facts if_True if_False)
      also have "\<dots> = ?F (whereSQL groups f)"
        by (rule rawFactsSQL_cong) (use nonzero in \<open>simp add: where_conv\<close>)
      finally show ?thesis using False by simp
    next
      case lohi: False
      have "?F (\<lambda>r. (lo \<le> dayBucket (r_ts r) \<and> dayBucket (r_ts r) < hi) \<and> ?D r)
          = ?F (\<lambda>r. lo \<le> r_ts r \<and> r_ts r < hi \<and> ?D r)"
        by (rule rawFactsSQL_cong) (use pos in \<open>simp add: day_multiple_less [OF hi] day_multiple_le [OF lo(1)]\<close>)
      with rp [of "\<lambda>day. lo \<le> day \<and> day < hi"]
      have mid: "same_facts (filter (\<lambda>((day, k), _). (lo \<le> day \<and> day < hi) \<and> dimSQL_rollup groups f (key_dims spec k)) t)
          (?F (\<lambda>r. lo \<le> r_ts r \<and> r_ts r < hi \<and> ?D r))" by simp
      let ?A = "?F (\<lambda>r. ?from \<le> r_ts r \<and> r_ts r < lo \<and> ?D r)"
      let ?B = "?F (\<lambda>r. lo \<le> r_ts r \<and> r_ts r < hi \<and> ?D r)"
      let ?C = "?F (\<lambda>r. hi \<le> r_ts r \<and> r_ts r < ?to \<and> ?D r)"
      have "factsSQL spec groups f hourly rows t = ?A @ ?roll (\<lambda>day. lo \<le> day \<and> day < hi) @ ?C"
        using nonzero lohi by (simp only: facts if_False)
      then have 1: "same_facts (factsSQL spec groups f hourly rows t) (?A @ ?B @ ?C)"
        using mid by (simp only:) (intro same_facts_append same_facts_refl)
      have "same_facts (?F (\<lambda>r. lo \<le> r_ts r \<and> r_ts r < ?to \<and> ?D r)) (?B @ ?C)"
        by (rule rawFactsSQL_split) (use pos hi_to lohi in force)+
      with same_facts_append [OF same_facts_refl same_facts_sym [OF this], of ?A]
      have 2: "same_facts (?A @ ?B @ ?C) (?A @ ?F (\<lambda>r. lo \<le> r_ts r \<and> r_ts r < ?to \<and> ?D r))"
        by simp
      have 3: "same_facts (?F (whereSQL groups f)) (?A @ ?F (\<lambda>r. lo \<le> r_ts r \<and> r_ts r < ?to \<and> ?D r))"
        by (rule rawFactsSQL_split) (use pos hi_to lohi lo(2) nonzero in \<open>force simp: where_conv\<close>)+
      from same_facts_trans [OF same_facts_trans [OF 1 2] same_facts_sym [OF 3]]
      show ?thesis using False by simp
    qed
  qed
qed

end

interpretation usage_query: rollup_query usageRollup
  by unfold_locales (simp add: usageRollup_def)

interpretation conversation_query: rollup_query conversationRollup
  by unfold_locales (simp add: conversationRollup_def)

section \<open>Aggregates over facts\<close>

definition factCostSQL :: "facts \<Rightarrow> rat option" where
  "factCostSQL f = (if 0 < f_known f then Some (f_cost f) else None)"

definition factUnknownSQL :: "facts \<Rightarrow> int" where
  "factUnknownSQL f = f_requests f - f_known f"

definition factTotalTokensSQL :: "facts \<Rightarrow> int" where
  "factTotalTokensSQL f = f_input f + f_output f + f_cache_read f + f_cache_creation f + f_reasoning f"

text \<open>\<open>SELECT key, SUM(...) ... GROUP BY key\<close>, in key order.\<close>

definition group_keys :: "('g \<Rightarrow> 'h :: linorder) \<Rightarrow> ('g \<times> rollup_vals) list \<Rightarrow> 'h list" where
  "group_keys key t = sort (remdups (map (\<lambda>x. key (fst x)) t))"

definition group_sums :: "('g \<Rightarrow> 'h :: linorder) \<Rightarrow> ('g \<times> rollup_vals) list \<Rightarrow> ('h \<times> facts) list" where
  "group_sums key t = map (\<lambda>h. (h, fact_sum (\<lambda>g. key g = h) t)) (group_keys key t)"

lemma sort_remdups_cong: "set xs = set ys \<Longrightarrow> sort (remdups xs) = sort (remdups ys)"
  by (metis sorted_list_of_set_sort_remdups)

lemma same_facts_groups:
  assumes "same_facts a b"
  shows "group_keys key a = group_keys key b" "group_sums key a = group_sums key b"
proof -
  have "set (map (\<lambda>x. key (fst x)) t) = key ` fst ` set t" for t :: "('a \<times> rollup_vals) list" by auto
  then show keys: "group_keys key a = group_keys key b"
    using assms unfolding group_keys_def same_facts_def by (intro sort_remdups_cong) simp
  show "group_sums key a = group_sums key b"
    using assms unfolding group_sums_def keys same_facts_def by simp
qed

section \<open>Cache hit rate and totals\<close>

definition CacheHitRate :: "int \<Rightarrow> int \<Rightarrow> int \<Rightarrow> f64 option" where
  "CacheHitRate input cacheRead cacheCreation =
     (let denom = wrap64 (input + cacheRead + cacheCreation) in
      if denom \<le> 0 then None
      else let rate = (case f_of_int denom of Fin d \<Rightarrow> f_div (f_of_int cacheRead) d | x \<Rightarrow> x) in
        Some (if f_lt rate (Fin 0) then Fin 0 else if f_lt (Fin 1) rate then Fin 1 else rate))"

section \<open>Summary and timeseries\<close>

record SummaryResult =
  sm_sums :: facts
  sm_cost_total :: "rat option"
  sm_cost_unknown :: int

definition summary_of :: "('g \<times> rollup_vals) list \<Rightarrow> SummaryResult" where
  "summary_of t = (let s = fact_sum (\<lambda>_. True) t in
     \<lparr>sm_sums = s, sm_cost_total = factCostSQL s, sm_cost_unknown = factUnknownSQL s\<rparr>)"

definition Summary :: "int \<Rightarrow> (int \<Rightarrow> string option) \<Rightarrow> filter_spec \<Rightarrow> store \<Rightarrow> query_error + SummaryResult" where
  "Summary now groups f st = ebind (normalize_filter now f) (\<lambda>f.
     Inr (summary_of (factsSQL usageRollup groups f False (s_rows st) (s_usage st))))"

definition Earliest :: "int \<Rightarrow> (int \<Rightarrow> string option) \<Rightarrow> filter_spec \<Rightarrow> store \<Rightarrow> query_error + int option" where
  "Earliest now groups f st = ebind (normalize_filter now (f\<lparr>fl_from := zero_time\<rparr>)) (\<lambda>f.
     Inr (map_option of_unix_milli (min_opt (map r_ts (filter (whereSQL groups f) (s_rows st))))))"

definition BucketHour :: string where "BucketHour = ''hour''"
definition BucketDay :: string where "BucketDay = ''day''"
definition BucketWeek :: string where "BucketWeek = ''week''"
definition BucketMonth :: string where "BucketMonth = ''month''"

definition bucket_valid :: "string \<Rightarrow> bool" where
  "bucket_valid b \<longleftrightarrow> b \<in> {BucketHour, BucketDay, BucketWeek, BucketMonth}"

definition directSQL :: "string \<Rightarrow> bool" where
  "directSQL b \<longleftrightarrow> b = BucketHour \<or> b = BucketDay"

definition SpanSeconds :: "string \<Rightarrow> int" where
  "SpanSeconds b = (if b = BucketHour then 3600 else if b = BucketDay then 86400
     else if b = BucketWeek then 7 * 86400 else 30 * 86400)"

definition bucketStart :: "int \<Rightarrow> string \<Rightarrow> int" where
  "bucketStart dayUnixMs bucket = (let days = dayUnixMs div day_ms in
     if bucket = BucketWeek then dayUnixMs - ((weekday days + 6) mod 7) * day_ms
     else if bucket = BucketMonth then month_start days * day_ms
     else dayUnixMs)"

record TimeseriesPoint =
  tp_bucket :: int
  tp_sums :: facts
  tp_cost :: "rat option"

text \<open>A scanned row: a NULL cost leaves the accumulator's zero.\<close>

definition day_row :: "facts \<Rightarrow> facts" where
  "day_row f = (case f of Facts a b c d e g h i j k _ \<Rightarrow>
     Facts a b c d e g h i j k (case factCostSQL f of None \<Rightarrow> 0 | Some c \<Rightarrow> c))"

definition point :: "int \<Rightarrow> facts \<Rightarrow> TimeseriesPoint" where
  "point b f = \<lparr>tp_bucket = b, tp_sums = f, tp_cost = (if 0 < f_known f then Some (f_cost f) else None)\<rparr>"

text \<open>The loop of \<open>mergeDays\<close>: \<open>cur\<close> is the open bucket, closed when the next day starts another.\<close>

fun merge_loop :: "string \<Rightarrow> (int \<times> facts) option \<Rightarrow> (int \<times> facts) list \<Rightarrow> TimeseriesPoint list" where
  "merge_loop bucket cur [] = (case cur of None \<Rightarrow> [] | Some (s, acc) \<Rightarrow> [point s acc])"
| "merge_loop bucket cur ((day, f) # days) =
     (let start = bucketStart day bucket in
      case cur of
        None \<Rightarrow> merge_loop bucket (Some (start, f)) days
      | Some (s, acc) \<Rightarrow>
          if s = start then merge_loop bucket (Some (s, acc + f)) days
          else point s acc # merge_loop bucket (Some (start, f)) days)"

definition mergeDays :: "string \<Rightarrow> (int \<times> facts) list \<Rightarrow> TimeseriesPoint list" where
  "mergeDays bucket days = merge_loop bucket None days"

definition timeseries_of :: "string \<Rightarrow> ((int \<times> 'k) \<times> rollup_vals) list \<Rightarrow> TimeseriesPoint list" where
  "timeseries_of bucket t = (let days = map (\<lambda>(b, f). (b, day_row f)) (group_sums fst t) in
     if directSQL bucket then map (\<lambda>(b, f). point b f) days else mergeDays bucket days)"

definition Timeseries :: "int \<Rightarrow> (int \<Rightarrow> string option) \<Rightarrow> filter_spec \<Rightarrow> string \<Rightarrow> store
    \<Rightarrow> query_error + TimeseriesPoint list" where
  "Timeseries now groups f bucket st = (if \<not> bucket_valid bucket then Inl InvalidBucket
     else ebind (normalize_filter now f) (\<lambda>f.
       Inr (timeseries_of bucket
         (factsSQL usageRollup groups f (bucket = BucketHour) (s_rows st) (s_usage st)))))"

section \<open>Breakdowns\<close>

definition maxDistinctValues :: nat where "maxDistinctValues = 1000"
definition maxBreakdownGroups :: nat where "maxBreakdownGroups = 1000"

definition modelGroupKey :: "string \<Rightarrow> string" where
  "modelGroupKey m = (case cut_at (CHR ''/'') m of
     Some (a, b) \<Rightarrow> if a \<noteq> [] then b else m | None \<Rightarrow> m)"

datatype column = ColSource | ColProvider | ColModel | ColGroup | ColToken

definition column_key :: "(int \<Rightarrow> string option) \<Rightarrow> column \<Rightarrow> int \<times> dims \<times> bool \<Rightarrow> string" where
  "column_key groups c g = (case g of (_, (source, provider, model, tok), _) \<Rightarrow>
     (case c of
        ColSource \<Rightarrow> source
      | ColProvider \<Rightarrow> provider
      | ColModel \<Rightarrow> modelGroupKey model
      | ColGroup \<Rightarrow> (case groups tok of None \<Rightarrow> [] | Some x \<Rightarrow> x)
      | ColToken \<Rightarrow> if tok = 0 then [] else show_int tok))"

record Breakdown =
  bd_key :: string
  bd_sums :: facts
  bd_cost_unknown :: int
  bd_cost_total :: "rat option"

text \<open>Groups with the same total keep the order of their keys, where SQL leaves it open.\<close>

definition breakdown_of :: "(int \<Rightarrow> string option) \<Rightarrow> column \<Rightarrow> (dims \<times> bool) rollup_table \<Rightarrow> Breakdown list" where
  "breakdown_of groups c t =
     (let rows = map (\<lambda>(k, s). \<lparr>bd_key = k, bd_sums = s, bd_cost_unknown = factUnknownSQL s,
            bd_cost_total = factCostSQL s\<rparr>) (group_sums (column_key groups c) t);
          rows = (if c \<in> {ColModel, ColGroup, ColToken}
            then sort_key (\<lambda>b. - factTotalTokensSQL (bd_sums b)) rows else rows)
      in take maxBreakdownGroups rows)"

definition breakdown :: "int \<Rightarrow> (int \<Rightarrow> string option) \<Rightarrow> filter_spec \<Rightarrow> column \<Rightarrow> store
    \<Rightarrow> query_error + Breakdown list" where
  "breakdown now groups f c st = ebind (normalize_filter now f) (\<lambda>f.
     Inr (breakdown_of groups c (factsSQL usageRollup groups f False (s_rows st) (s_usage st))))"

section \<open>The leaderboard\<close>

record ModelRank =
  mr_model :: string
  mr_total_tokens :: int
  mr_active_days :: nat
  mr_cost_total :: "rat option"
  mr_known :: int
  mr_estimated :: int

datatype metric = RankTokens | RankDays | RankCost

definition opt_rat :: "rat option \<Rightarrow> rat" where
  "opt_rat c = (case c of None \<Rightarrow> 0 | Some x \<Rightarrow> x)"

definition rank_key :: "metric \<Rightarrow> ModelRank \<Rightarrow> rat \<times> int \<times> string" where
  "rank_key metric m = (case metric of
     RankTokens \<Rightarrow> (0, - mr_total_tokens m, mr_model m)
   | RankDays \<Rightarrow> (- of_nat (mr_active_days m), - mr_total_tokens m, mr_model m)
   | RankCost \<Rightarrow> (- opt_rat (mr_cost_total m), - mr_total_tokens m, mr_model m))"

definition top_models_of :: "metric \<Rightarrow> (dims \<times> bool) rollup_table \<Rightarrow> ModelRank list" where
  "top_models_of metric t =
     (let model = (\<lambda>(_, (_, _, m, _), _). m); helper = (\<lambda>(_, _, h). h);
          t = filter (\<lambda>x. model (fst x) \<noteq> [] \<and> (metric = RankDays \<longrightarrow> \<not> helper (fst x))) t;
          key = (\<lambda>g. modelGroupKey (model g));
          ranked = map (\<lambda>(k, s). \<lparr>mr_model = k, mr_total_tokens = factTotalTokensSQL s,
            mr_active_days = length (group_keys fst (filter (\<lambda>x. key (fst x) = k) t)),
            mr_cost_total = factCostSQL s, mr_known = f_known s, mr_estimated = f_estimated s\<rparr>)
            (group_sums key t);
          ranked = (if metric = RankCost then filter (\<lambda>m. 0 < mr_known m) ranked else ranked)
      in take 3 (sort_key (rank_key metric) ranked))"

definition TopModels :: "int \<Rightarrow> (int \<Rightarrow> string option) \<Rightarrow> filter_spec \<Rightarrow> metric \<Rightarrow> store
    \<Rightarrow> query_error + ModelRank list" where
  "TopModels now groups f metric st = ebind (normalize_filter now f) (\<lambda>f.
     Inr (top_models_of metric (factsSQL usageRollup groups f False (s_rows st) (s_usage st))))"

section \<open>Value lists and rows\<close>

text \<open>
  The recursive query of \<open>distinct\<close>: each step looks up the least value above the previous one; the
  LIMIT bounds the number of steps.
\<close>

definition min_above :: "string option \<Rightarrow> string list \<Rightarrow> string option" where
  "min_above prev vs = (let above = filter (\<lambda>v. case prev of None \<Rightarrow> True | Some p \<Rightarrow> p < v) vs in
     if above = [] then None else Some (Min (set above)))"

fun distinct_scan :: "nat \<Rightarrow> string option \<Rightarrow> string list \<Rightarrow> string list" where
  "distinct_scan 0 prev vs = []"
| "distinct_scan (Suc n) prev vs = (case min_above prev vs of
     None \<Rightarrow> [] | Some v \<Rightarrow> v # distinct_scan n (Some v) vs)"

definition column_values :: "column \<Rightarrow> gen_row list \<Rightarrow> string list" where
  "column_values c rows = List.map_filter (case c of ColSource \<Rightarrow> (\<lambda>r. Some (r_source r))
     | ColProvider \<Rightarrow> r_provider | _ \<Rightarrow> r_model) rows"

definition distinct_values :: "int \<Rightarrow> (int \<Rightarrow> string option) \<Rightarrow> filter_spec \<Rightarrow> column \<Rightarrow> store
    \<Rightarrow> query_error + string list" where
  "distinct_values now groups f c st = ebind (normalize_filter now f) (\<lambda>f.
     Inr (sort (distinct_scan maxDistinctValues None
       (column_values c (filter (whereSQL groups f) (s_rows st))))))"

definition OrderDesc :: string where "OrderDesc = ''desc''"
definition OrderAsc :: string where "OrderAsc = ''asc''"

definition ParseOrder :: "string \<Rightarrow> query_error + string" where
  "ParseOrder s = (if s = [] \<or> s = OrderDesc then Inr OrderDesc else if s = OrderAsc then Inr OrderAsc
     else Inl InvalidOrder)"

text \<open>Rows with the same timestamp keep the table's order, where SQL leaves it open.\<close>

definition order_rows :: "string \<Rightarrow> ('a \<Rightarrow> int) \<Rightarrow> 'a list \<Rightarrow> 'a list" where
  "order_rows dir ts xs = sort_key (\<lambda>x. if dir = OrderAsc then ts x else - ts x) xs"

definition page :: "int \<Rightarrow> int \<Rightarrow> 'a list \<Rightarrow> 'a list" where
  "page limit off xs = take (nat limit) (drop (nat off) xs)"

definition RecentGenerations :: "int \<Rightarrow> (int \<Rightarrow> string option) \<Rightarrow> filter_spec \<Rightarrow> string \<Rightarrow> int \<Rightarrow> int
    \<Rightarrow> store \<Rightarrow> query_error + generation list" where
  "RecentGenerations now groups f order limit off st =
     (if limit \<le> 0 then Inl InvalidLimit
      else if off < 0 then Inl InvalidOffset
      else ebind (ParseOrder order) (\<lambda>dir. ebind (normalize_filter now f) (\<lambda>f.
        Inr (map (scanGeneration (s_snapshots st))
          (page limit off (order_rows dir r_ts (filter (whereSQL groups f) (s_rows st))))))))"

definition GenerationByID :: "string \<Rightarrow> store \<Rightarrow> generation option" where
  "GenerationByID i st = map_option (scanGeneration (s_snapshots st)) (List.find (\<lambda>r. r_id r = i) (s_rows st))"

section \<open>Laws\<close>

lemma sort_remdups_Min:
  assumes "xs \<noteq> []"
  shows "sort (remdups xs) = Min (set xs) # sort (remdups (filter (\<lambda>v. Min (set xs) < v) xs))"
proof -
  let ?m = "Min (set xs)"
  have eq: "set xs = insert ?m (set (filter (\<lambda>v. ?m < v) xs))"
    using assms by (auto simp: less_le)
  have "sorted_list_of_set (set xs) = ?m # sorted_list_of_set (set (filter (\<lambda>v. ?m < v) xs))"
  proof (rule sorted_distinct_set_unique)
    show "sorted (?m # sorted_list_of_set (set (filter (\<lambda>v. ?m < v) xs)))" by auto
    show "distinct (?m # sorted_list_of_set (set (filter (\<lambda>v. ?m < v) xs)))" by auto
    show "set (sorted_list_of_set (set xs)) = set (?m # sorted_list_of_set (set (filter (\<lambda>v. ?m < v) xs)))"
      using eq by simp
  qed simp_all
  then show ?thesis by (simp only: sorted_list_of_set_sort_remdups)
qed

lemma distinct_scan_eq: "distinct_scan n prev vs = take n (sort (remdups (filter
    (\<lambda>v. case prev of None \<Rightarrow> True | Some p \<Rightarrow> p < v) vs)))"
proof (induction n arbitrary: prev)
  case (Suc n)
  let ?above = "filter (\<lambda>v. case prev of None \<Rightarrow> True | Some p \<Rightarrow> p < v) vs"
  show ?case
  proof (cases "?above = []")
    case True
    then show ?thesis by (simp add: min_above_def)
  next
    case False
    let ?m = "Min (set ?above)"
    have "?m \<in> set ?above" using False by (intro Min_in) (simp_all only: set_empty finite_set not_False_eq_True)
    then have "filter (\<lambda>v. ?m < v) ?above = filter (\<lambda>v. ?m < v) vs"
      by (auto intro!: filter_cong split: option.splits)
    with Suc [of "Some ?m"] False show ?thesis
      by (simp add: min_above_def sort_remdups_Min [OF False])
  qed
qed simp

lemma f_of_int_cases: "\<exists>q. f_of_int n = Fin q \<or> f_of_int n = Inf True \<or> f_of_int n = Inf False"
  by (cases "f_of_int n") (auto simp: f_of_int_def)

lemma weekStart_eq: "day_ms dvd d \<Longrightarrow>
    bucketStart d BucketWeek = (7 * ((d div day_ms + 3) div 7) - 3) * day_ms"
proof -
  assume "day_ms dvd d"
  then obtain D where d: "d = day_ms * D" by (elim dvdE)
  have "((D + 4) mod 7 + 6) mod 7 = (D + 4 + 6) mod 7" by (rule mod_add_left_eq)
  also have "\<dots> = (D + 3 + 7) mod 7" by (simp add: algebra_simps)
  finally have "((D + 4) mod 7 + 6) mod 7 = (D + 3) mod 7" by (simp only: mod_add_self2)
  moreover have "D - (D + 3) mod 7 = 7 * ((D + 3) div 7) - 3"
    using mult_div_mod_eq [of 7 "D + 3"] by linarith
  ultimately show ?thesis
    by (simp add: bucketStart_def BucketWeek_def weekday_def d)
qed

lemma bucketStart_mono:
  assumes "day_ms dvd d" "day_ms dvd e" "d \<le> e"
  shows "bucketStart d b \<le> bucketStart e b"
proof -
  have div: "d div day_ms \<le> e div day_ms" using assms(3) by (rule zdiv_mono1) simp
  consider "b = BucketWeek" | "b = BucketMonth" | "b \<noteq> BucketWeek" "b \<noteq> BucketMonth" by blast
  then show ?thesis
  proof cases
    case 1
    have "(d div day_ms + 3) div 7 \<le> (e div day_ms + 3) div 7" using div by (intro zdiv_mono1) simp_all
    then show ?thesis unfolding 1 weekStart_eq [OF assms(1)] weekStart_eq [OF assms(2)] by simp
  next
    case 2
    then show ?thesis
      using month_start_mono [OF div] by (simp add: bucketStart_def BucketMonth_def BucketWeek_def)
  next
    case 3
    then show ?thesis using assms(3) by (simp add: bucketStart_def)
  qed
qed

lemma sorted_remdups_adj_eq:
  fixes xs :: "'a :: linorder list"
  assumes "sorted xs"
  shows "sort (remdups xs) = remdups_adj xs"
proof -
  have "distinct (remdups_adj xs)"
    using assms by (induction xs rule: remdups_adj.induct) (auto simp: antisym)
  then have "sorted_list_of_set (set xs) = remdups_adj xs"
    using assms by (intro sorted_distinct_set_unique) (auto simp: sorted_remdups_adj)
  then show ?thesis by (simp only: sorted_list_of_set_sort_remdups)
qed

lemma merge_loop_eq:
  fixes b :: string
  defines "start d \<equiv> bucketStart (fst d) b"
  assumes "sorted (s # map start days)"
  shows "merge_loop b (Some (s, acc)) days = map (\<lambda>k. point k ((if k = s then acc else 0)
    + sum_list (map snd (filter (\<lambda>d. start d = k) days)))) (remdups_adj (s # map start days))"
  using assms(2)
proof (induction days arbitrary: s acc)
  case (Cons x days)
  obtain d f where x: "x = (d, f)" by (cases x)
  show ?case
  proof (cases "s = start x")
    case True
    have "sorted (s # map start days)" using Cons.prems by simp
    from Cons.IH [OF this, of "acc + f"] True show ?thesis
      by (simp add: x start_def Let_def) (auto simp: algebra_simps)
  next
    case False
    with Cons.prems have lt: "s < start x" "\<forall>y \<in> set days. start x \<le> start y" by auto
    have "sorted (start x # map start days)" using Cons.prems by simp
    note IH = Cons.IH [OF this, of f]
    have none: "filter (\<lambda>d. start d = s) days = []" using lt by (auto simp: filter_empty_conv)
    have "k \<noteq> s" if "k \<in> set (remdups_adj (start x # map start days))" for k
      using that lt by auto
    then have "map (\<lambda>k. point k ((if k = start x then f else 0) + sum_list (map snd (filter (\<lambda>d. start d = k) days))))
        (remdups_adj (start x # map start days))
      = map (\<lambda>k. point k ((if k = s then acc else 0) + sum_list (map snd (filter (\<lambda>d. start d = k) (x # days)))))
        (remdups_adj (start x # map start days))"
      by (intro map_cong) (auto simp: x)
    with IH False none show ?thesis
      by (simp add: x start_def [of "(d, f)"] Let_def)
  qed
qed (simp add: start_def)

section \<open>Properties\<close>

text \<open>
  C4: Reading whole days from the rollups changes no answer.  For every store the program can
  reach, every filter and every clock, Summary, Timeseries, every breakdown and the leaderboard
  return what the same query returns over the matching rows themselves.
\<close>

theorem queries_read_the_rows:
  assumes "writes\<^sup>*\<^sup>* empty_store st" "groups 0 = None"
  shows "Summary now groups f st = ebind (normalize_filter now f) (\<lambda>f.
      Inr (summary_of (rawFactsSQL usageRollup dayBucket (whereSQL groups f) (s_rows st))))
    \<and> Timeseries now groups f bucket st = (if \<not> bucket_valid bucket then Inl InvalidBucket
      else ebind (normalize_filter now f) (\<lambda>f. Inr (timeseries_of bucket
        (rawFactsSQL usageRollup (if bucket = BucketHour then hourBucket else dayBucket)
          (whereSQL groups f) (s_rows st)))))
    \<and> breakdown now groups f c st = ebind (normalize_filter now f) (\<lambda>f.
      Inr (breakdown_of groups c (rawFactsSQL usageRollup dayBucket (whereSQL groups f) (s_rows st))))
    \<and> TopModels now groups f metric st = ebind (normalize_filter now f) (\<lambda>f.
      Inr (top_models_of metric (rawFactsSQL usageRollup dayBucket (whereSQL groups f) (s_rows st))))"
proof -
  from reachable_ok [OF assms(1)] have ok: "rollup_ok usageRollup (s_rows st) (s_usage st)"
    "\<forall>r \<in> set (s_rows st). row_ok r" "\<forall>r \<in> set (s_rows st). 0 \<le> r_ts r"
    by (simp_all add: store_ok_def dated_def)
  have same: "same_facts (factsSQL usageRollup groups f hourly (s_rows st) (s_usage st))
      (rawFactsSQL usageRollup (if hourly then hourBucket else dayBucket) (whereSQL groups f) (s_rows st))"
    if "normalize_filter now g = Inr f" for g f hourly
    by (rule usage_query.factsSQL_exact [where groups = groups, OF ok(1,2) normalize_filter_valid [OF that] assms(2) ok(3)])
  have sum: "summary_of a = summary_of b" if "same_facts a b" for a b :: "(dims \<times> bool) rollup_table"
    using that by (simp add: summary_of_def same_facts_def)
  have ts: "timeseries_of bucket a = timeseries_of bucket b" if "same_facts a b" for a b :: "(dims \<times> bool) rollup_table"
    using same_facts_groups [OF that, of fst] by (simp add: timeseries_of_def)
  have bd: "breakdown_of groups c a = breakdown_of groups c b" if "same_facts a b" for a b
    using same_facts_groups [OF that, of "column_key groups c"] by (simp add: breakdown_of_def)
  have top: "top_models_of metric a = top_models_of metric b" if "same_facts a b" for a b
  proof -
    let ?model = "\<lambda>(_ :: int, (_ :: string, _ :: string, m :: string, _ :: int), _ :: bool). m"
    let ?f = "filter (\<lambda>x. ?model (fst x) \<noteq> [] \<and> (metric = RankDays \<longrightarrow> \<not> (\<lambda>(_, _, h). h) (fst x)))"
    have f: "same_facts (?f a) (?f b)" by (rule same_facts_filter [OF that])
    have g: "group_keys fst (filter (\<lambda>x. modelGroupKey (?model (fst x)) = k) (?f a))
        = group_keys fst (filter (\<lambda>x. modelGroupKey (?model (fst x)) = k) (?f b))" for k
      by (rule same_facts_groups [OF same_facts_filter [OF f]])
    show ?thesis
      unfolding top_models_of_def Let_def g
        same_facts_groups(2) [OF f, of "\<lambda>g. modelGroupKey (?model g)"] ..
  qed
  show ?thesis
    unfolding Summary_def Timeseries_def breakdown_def TopModels_def
    using same [where hourly = False] same [where hourly = "bucket = BucketHour"]
    by (intro conjI if_cong [OF refl refl] ebind_cong_Inr arg_cong [where f = Inr] sum ts bd top) auto
qed

text \<open>Week and month charts lose and repeat nothing: merging the ordered day rows gives one point
  per week or month that has a day, in order, and its sums are the sums of exactly its days.
\<close>

theorem merge_days_exact:
  assumes "sorted (map fst days)" "\<forall>d \<in> set days. day_ms dvd fst d"
  shows "mergeDays b days = map (\<lambda>k. point k (sum_list (map snd (filter (\<lambda>d. bucketStart (fst d) b = k) days))))
    (sort (remdups (map (\<lambda>d. bucketStart (fst d) b) days)))"
proof -
  have sorted: "sorted (map (\<lambda>d. bucketStart (fst d) b) days)"
    using assms by (auto simp: sorted_iff_nth_mono intro!: bucketStart_mono)
  show ?thesis
  proof (cases days)
    case (Cons x xs)
    obtain d f where x: "x = (d, f)" by (cases x)
    have "mergeDays b days = merge_loop b (Some (bucketStart d b, f)) xs"
      by (simp add: mergeDays_def Cons x Let_def)
    also have "\<dots> = map (\<lambda>k. point k (sum_list (map snd (filter (\<lambda>d. bucketStart (fst d) b = k) days))))
        (remdups_adj (map (\<lambda>d. bucketStart (fst d) b) days))"
      using merge_loop_eq [of "bucketStart d b" b xs f] sorted by (auto simp: Cons x intro!: map_cong)
    finally show ?thesis using sorted_remdups_adj_eq [OF sorted] by simp
  qed (simp add: mergeDays_def)
qed

theorem merge_days_exact_witness:
  "mergeDays BucketWeek [(0, Facts 1 2 0 0 0 0 0 0 0 0 0), (86400000, Facts 1 3 0 0 0 0 0 0 0 0 0)]
   = [point (- 259200000) (Facts 2 5 0 0 0 0 0 0 0 0 0)]"
proof -
  have "bucketStart 0 BucketWeek = - 259200000" "bucketStart 86400000 BucketWeek = - 259200000" by code_simp+
  then show ?thesis
    by (subst merge_days_exact) (auto simp: plus_facts_def zero_facts_def)
qed

text \<open>The value lists of the filter dropdowns, read by stepping an index from value to value, are
  the sorted distinct values of the matching rows, the first 1000 of them.
\<close>

theorem distinct_values_exact:
  "distinct_values now groups f c st = ebind (normalize_filter now f) (\<lambda>f.
     Inr (take 1000 (sort (remdups (column_values c (filter (whereSQL groups f) (s_rows st)))))))"
proof -
  have "sort (take n (sort xs)) = take n (sort xs)" for n and xs :: "string list"
    by (simp add: sorted_sort_id sorted_wrt_take)
  then show ?thesis
    unfolding distinct_values_def distinct_scan_eq maxDistinctValues_def by simp
qed

text \<open>A cache hit rate is missing exactly when no prompt tokens were counted, and otherwise a
  number between 0 and 1, whatever the sums are.
\<close>

theorem cache_hit_rate_bounds:
  "case CacheHitRate i r c of None \<Rightarrow> wrap64 (i + r + c) \<le> 0 | Some x \<Rightarrow> 0 < wrap64 (i + r + c) \<and> in_range 1 x"
proof -
  have no_nan: "f_div (f_of_int n) d \<noteq> NaN" for n d
    by (cases "f_of_int n") (auto simp: f_of_int_def)
  have "in_range 1 (if f_lt x (Fin 0) then Fin 0 else if f_lt (Fin 1) x then Fin 1 else x)" if "x \<noteq> NaN" for x
    using that by (cases x) (auto simp: in_range_def is_nan_def is_inf_def split: if_splits)
  moreover have "(case f_of_int d of Fin q \<Rightarrow> f_div (f_of_int r) q | x \<Rightarrow> x) \<noteq> NaN" for d
    using no_nan by (cases "f_of_int d") (auto simp: f_of_int_def)
  ultimately show ?thesis
    by (simp add: CacheHitRate_def Let_def not_le)
qed

theorem queries_read_the_rows_witness:
  "case Summary 1800000000000000000 (\<lambda>_. None)
      \<lparr>fl_from = zero_time, fl_to = zero_time, fl_source = [], fl_provider = [], fl_model = [],
       fl_conversation = [], fl_group = [], fl_ungrouped = False, fl_token = [], fl_unbounded = False\<rparr>
      sample_store of Inr s \<Rightarrow> f_input (sm_sums s) = 5 \<and> sm_cost_total s = None | Inl _ \<Rightarrow> False"
  unfolding queries_read_the_rows [OF sample_reachable, of "\<lambda>_. None", OF refl, THEN conjunct1] sample_store_rows
  by code_simp

end
