(* ===== verification/Filters.thy ===== *)
theory Filters
  imports Dates Net Queries
begin

text \<open>
  Query parameters: what the sources use of \<open>net/url\<close> (parsing, escaping and \<open>url.Values\<close>), the
  dashboard's filter parameters (\<open>internal/web/filters.go\<close>) and the API's (\<open>filterParam\<close>,
  \<open>pageParams\<close> and \<open>dayRangeParams\<close> of \<open>internal/api/server.go\<close>).

  The theorems show that the links the dashboard builds parse back to the filter they were built
  from, that both front ends read the same filter from the same parameters, and for which accepted
  requests the storage layer still refuses the filter.
\<close>

section \<open>Query strings\<close>

text \<open>\<open>url.Values\<close>: the pairs of a query in the order in which they were added.\<close>

type_synonym url_values = "(string \<times> string) list"

definition q_get :: "url_values \<Rightarrow> string \<Rightarrow> string" where
  "q_get q k = (case map_of q k of None \<Rightarrow> [] | Some v \<Rightarrow> v)"

definition q_del :: "string \<Rightarrow> url_values \<Rightarrow> url_values" where
  "q_del k q = filter (\<lambda>kv. fst kv \<noteq> k) q"

definition q_set :: "string \<Rightarrow> string \<Rightarrow> url_values \<Rightarrow> url_values" where
  "q_set k v q = q_del k q @ [(k, v)]"

definition unreserved :: "char \<Rightarrow> bool" where
  "unreserved c \<longleftrightarrow> byte_in 97 122 c \<or> byte_in 65 90 c \<or> is_digit c
     \<or> c \<in> {CHR ''-'', CHR ''_'', CHR ''.'', CHR ''~''}"

definition upper_hex :: "int \<Rightarrow> char" where
  "upper_hex d = (if d < 10 then digit_char d else char_of (55 + d))"

definition escape_byte :: "char \<Rightarrow> string" where
  "escape_byte c = (if unreserved c then [c] else if c = CHR '' '' then ''+''
     else [CHR ''%'', upper_hex (of_char c div 16), upper_hex (of_char c mod 16)])"

definition query_escape :: "string \<Rightarrow> string" where
  "query_escape s = concat (map escape_byte s)"

definition unhex :: "char \<Rightarrow> int option" where
  "unhex c = (if is_digit c then Some (digit_val c)
     else if byte_in 97 102 c then Some (of_char c - 87)
     else if byte_in 65 70 c then Some (of_char c - 55) else None)"

fun query_unescape :: "string \<Rightarrow> string option" where
  "query_unescape [] = Some []"
| "query_unescape (c # s) =
     (if c = CHR ''%'' then (case s of
        a # b # r \<Rightarrow> (case (unhex a, unhex b) of
          (Some x, Some y) \<Rightarrow> map_option ((#) (char_of (16 * x + y))) (query_unescape r)
        | _ \<Rightarrow> None)
      | _ \<Rightarrow> None)
      else map_option ((#) (if c = CHR ''+'' then CHR '' '' else c)) (query_unescape s))"

fun join :: "string \<Rightarrow> string list \<Rightarrow> string" where
  "join sep [] = []"
| "join sep [x] = x"
| "join sep (x # y # ys) = x @ sep @ join sep (y # ys)"

definition encode_pair :: "string \<times> string \<Rightarrow> string" where
  "encode_pair kv = query_escape (fst kv) @ ''='' @ query_escape (snd kv)"

definition q_encode :: "url_values \<Rightarrow> string" where
  "q_encode q = join ''&'' (map encode_pair (sort_key fst q))"

definition parse_pair :: "string \<Rightarrow> (string \<times> string) option" where
  "parse_pair part = (if CHR '';'' \<in> set part \<or> part = [] then None
     else let (k, v) = (case cut_at (CHR ''='') part of None \<Rightarrow> (part, []) | Some kv \<Rightarrow> kv) in
       case (query_unescape k, query_unescape v) of (Some k, Some v) \<Rightarrow> Some (k, v) | _ \<Rightarrow> None)"

text \<open>\<open>r.URL.Query()\<close> drops the parts it cannot parse.\<close>

definition parse_query :: "string \<Rightarrow> url_values" where
  "parse_query s = List.map_filter parse_pair (split_on (CHR ''&'') s)"

subsection \<open>Encoding and parsing\<close>

lemma q_get_Nil [simp]: "q_get [] k = []"
  by (simp add: q_get_def)

lemma q_get_del [simp]: "q_get (q_del k q) k' = (if k' = k then [] else q_get q k')"
  by (induction q) (auto simp: q_get_def q_del_def)

lemma q_get_append: "q_get (a @ b) k = (if k \<in> fst ` set a then q_get a k else q_get b k)"
  by (induction a) (auto simp: q_get_def)

lemma q_get_none: "k \<notin> fst ` set q \<Longrightarrow> q_get q k = []"
  using map_of_eq_None_iff [of q k] by (simp add: q_get_def)

lemma q_get_set [simp]: "q_get (q_set k v q) k' = (if k' = k then v else q_get q k')"
proof (cases "k' = k")
  case True
  have "k \<notin> fst ` set (q_del k q)" by (auto simp: q_del_def)
  then show ?thesis using True unfolding q_set_def q_get_append by (simp add: q_get_def)
next
  case False
  then have "q_get q k' = q_get (q_del k q) k'" by simp
  moreover have "q_get [(k, v)] k' = []" using False by (simp add: q_get_def)
  ultimately show ?thesis
    using False q_get_none [of k' "q_del k q"] unfolding q_set_def q_get_append by presburger
qed

lemma map_of_sort_key: "map_of (sort_key fst q) = map_of (q :: url_values)"
proof -
  have ins: "map_of (insort_key fst x q) = (map_of q)(fst x \<mapsto> snd x)"
    for x :: "string \<times> string" and q
    by (induction q) auto
  show ?thesis by (induction q) (auto simp: ins)
qed

lemma q_get_sort_key [simp]: "q_get (sort_key fst q) k = q_get q k"
  by (simp add: q_get_def map_of_sort_key)

lemma of_char_bounds: "0 \<le> (of_char c :: int)" "(of_char c :: int) < 256"
  by (simp_all add: of_nat_of_char [symmetric, where 'a = int] del: of_nat_of_char)

lemma of_char_nibbles: "0 \<le> (of_char c :: int) div 16" "(of_char c :: int) div 16 < 16"
  using of_char_bounds [of c] by linarith+

lemma unhex_upper_hex: "0 \<le> d \<Longrightarrow> d < 16 \<Longrightarrow> unhex (upper_hex d) = Some d"
  by (auto simp: unhex_def upper_hex_def byte_in_def is_digit_def digit_char_def digit_val_def)

lemma unreserved_special: "unreserved c \<Longrightarrow> c \<notin> {CHR ''%'', CHR ''+'', CHR ''&'', CHR ''='', CHR '';''}"
  by (auto simp: unreserved_def byte_in_def is_digit_def)

lemma query_unescape_byte: "query_unescape (escape_byte c @ s) = map_option ((#) c) (query_unescape s)"
proof (cases "unreserved c \<or> c = CHR '' ''")
  case True
  then show ?thesis using unreserved_special [of c] by (auto simp: escape_byte_def)
next
  case False
  have "unhex (upper_hex (of_char c div 16)) = Some (of_char c div 16)"
    "unhex (upper_hex (of_char c mod 16)) = Some (of_char c mod 16)"
    by (simp_all add: unhex_upper_hex of_char_nibbles)
  then show ?thesis using False by (simp add: escape_byte_def)
qed

lemma query_unescape_escape [simp]: "query_unescape (query_escape s) = Some s"
  by (induction s) (simp_all add: query_escape_def query_unescape_byte)

lemma escape_byte_chars:
  assumes "x \<in> set (escape_byte c)"
  shows "x \<notin> {CHR ''&'', CHR ''='', CHR '';''}"
proof -
  have h: "upper_hex d \<notin> {CHR ''&'', CHR ''='', CHR '';''}" if "0 \<le> d" "d < 16" for d
    using unhex_upper_hex [OF that] by (auto simp: unhex_def byte_in_def is_digit_def)
  show ?thesis
    using assms h [OF of_char_nibbles [of c]] h [of "of_char c mod 16"] unreserved_special [of c]
    by (auto simp: escape_byte_def split: if_splits)
qed

lemma query_escape_chars: "x \<in> set (query_escape s) \<Longrightarrow> x \<notin> {CHR ''&'', CHR ''='', CHR '';''}"
  unfolding query_escape_def using escape_byte_chars by fastforce

lemma parse_encode_pair [simp]: "parse_pair (encode_pair kv) = Some kv"
proof -
  have "cut_at (CHR ''='') (encode_pair kv) = Some (query_escape (fst kv), query_escape (snd kv))"
    using query_escape_chars [of "CHR ''=''" "fst kv"] unfolding encode_pair_def by (simp, blast intro: cut_at_append)
  moreover have "CHR '';'' \<notin> set (encode_pair kv)"
    using query_escape_chars [of "CHR '';''"] by (auto simp: encode_pair_def)
  moreover have "encode_pair kv \<noteq> []" by (simp add: encode_pair_def)
  ultimately show ?thesis by (simp add: parse_pair_def)
qed

lemma split_on_append: "c \<notin> set a \<Longrightarrow> split_on c (a @ c # b) = a # split_on c b"
  by (induction a) auto

lemma split_on_none: "c \<notin> set a \<Longrightarrow> split_on c a = [a]"
  by (induction a) auto

lemma split_on_join: "\<forall>x \<in> set xs. c \<notin> set x \<Longrightarrow> xs \<noteq> [] \<Longrightarrow> split_on c (join [c] xs) = xs"
proof (induction xs)
  case (Cons x xs)
  then show ?case by (cases xs) (auto simp: split_on_append split_on_none)
qed simp

lemma sort_key_nonempty: "q \<noteq> [] \<Longrightarrow> sort_key f q \<noteq> []"
  using length_sort [of f q] by (cases "sort_key f q") auto

theorem parse_query_encode: "parse_query (q_encode q) = sort_key fst q"
proof (cases "q = []")
  case True
  then show ?thesis by (simp add: parse_query_def q_encode_def parse_pair_def List.map_filter_def)
next
  case False
  have "CHR ''&'' \<notin> set (encode_pair kv)" for kv
    using query_escape_chars [of "CHR ''&''"] by (auto simp: encode_pair_def)
  then have "split_on (CHR ''&'') (q_encode q) = map encode_pair (sort_key fst q)"
    using False unfolding q_encode_def by (intro split_on_join) (simp_all add: sort_key_nonempty)
  then show ?thesis by (simp add: parse_query_def List.map_filter_def o_def)
qed

section \<open>Parameters\<close>

text \<open>What a request can get wrong; the text of the answer is dropped.\<close>

datatype request_error = InvalidUngrouped string | InvalidTokenParam string | InvalidTime string string
  | InvalidRange string | ToBeforeFromParam string string | InvalidBucketParam string
  | InvalidOffsetParam string | InvalidOrderParam string | InvalidLimitParam string
  | InvalidMetricParam string | InvalidPeriodMode | InvalidPeriod string | InvalidDay string
  | UnknownAgent string | MissingDay

text \<open>\<open>strconv.ParseBool\<close>.\<close>

definition parse_bool :: "string \<Rightarrow> bool option" where
  "parse_bool s = (if s \<in> {''1'', ''t'', ''T'', ''TRUE'', ''true'', ''True''} then Some True
     else if s \<in> {''0'', ''f'', ''F'', ''FALSE'', ''false'', ''False''} then Some False else None)"

definition timeParam :: "string \<Rightarrow> string \<Rightarrow> request_error + int" where
  "timeParam v name = (if v = [] then Inr zero_time
     else case parse_rfc3339 v of Some t \<Rightarrow> Inr t
     | None \<Rightarrow> (case parse_date v of Some t \<Rightarrow> Inr t | None \<Rightarrow> Inl (InvalidTime name v)))"

definition token_param_ok :: "string \<Rightarrow> bool" where
  "token_param_ok tok \<longleftrightarrow> tok = [] \<or> tok = TokenNone
     \<or> (case parse_int64 tok of None \<Rightarrow> False | Some i \<Rightarrow> 0 < i)"

definition ungroupedParam :: "url_values \<Rightarrow> request_error + bool" where
  "ungroupedParam q = (let value = q_get q ''ungrouped'' in
     if value = [] then Inr False
     else case parse_bool value of Some b \<Rightarrow> Inr b | None \<Rightarrow> Inl (InvalidUngrouped value))"

section \<open>The dashboard\<close>

record uiFilter =
  uf_range :: string
  uf_source :: string
  uf_provider :: string
  uf_model :: string
  uf_group :: string
  uf_ungrouped :: bool
  uf_token :: string
  uf_conversation :: string
  uf_from :: string
  uf_to :: string
  uf_rank_by :: string

definition dims_filter :: "uiFilter \<Rightarrow> int \<Rightarrow> int \<Rightarrow> filter_spec" where
  "dims_filter u lo hi = \<lparr>fl_from = lo, fl_to = hi, fl_source = uf_source u, fl_provider = uf_provider u,
     fl_model = uf_model u, fl_conversation = uf_conversation u, fl_group = uf_group u,
     fl_ungrouped = uf_ungrouped u, fl_token = uf_token u, fl_unbounded = False\<rparr>"

definition set_dim :: "string \<Rightarrow> string \<Rightarrow> url_values \<Rightarrow> url_values" where
  "set_dim k v q = (if v \<noteq> [] then q_set k v q else q)"

definition setDims :: "uiFilter \<Rightarrow> url_values \<Rightarrow> url_values" where
  "setDims u q = (let q = (if uf_ungrouped u then q_set ''ungrouped'' ''true'' q else q) in
     set_dim ''token'' (uf_token u) (set_dim ''group'' (uf_group u) (set_dim ''model'' (uf_model u)
       (set_dim ''provider'' (uf_provider u) (set_dim ''source'' (uf_source u) q)))))"

definition rangeKeys :: "(string \<times> string) list" where
  "rangeKeys = [(''today'', ''Today''), (''7d'', ''7d''), (''30d'', ''30d''), (''month'', ''This month''), (''all'', ''All'')]"

definition query_ui :: "url_values \<Rightarrow> bool \<Rightarrow> uiFilter" where
  "query_ui q ungrouped = \<lparr>uf_range = q_get q ''range'', uf_source = q_get q ''source'',
     uf_provider = q_get q ''provider'', uf_model = q_get q ''model'', uf_group = q_get q ''group'',
     uf_ungrouped = ungrouped, uf_token = q_get q ''token'', uf_conversation = q_get q ''conversation'',
     uf_from = q_get q ''from'', uf_to = q_get q ''to'', uf_rank_by = []\<rparr>"

definition rangeStart :: "int \<Rightarrow> string \<Rightarrow> request_error + int" where
  "rangeStart now rng = (if rng = ''all'' then Inr zero_time
     else if rng = [] \<or> rng = ''today'' then Inr (startOfDay now)
     else if rng = ''7d'' then Inr (now - 7 * day_ns)
     else if rng = ''30d'' then Inr (now - 30 * day_ns)
     else if rng = ''month'' then Inr (startOfMonth now)
     else Inl (InvalidRange rng))"

definition parseFilter :: "int \<Rightarrow> url_values \<Rightarrow> request_error + filter_spec \<times> uiFilter" where
  "parseFilter now q = ebind (ungroupedParam q) (\<lambda>ungrouped.
     let u = query_ui q ungrouped in
     if \<not> token_param_ok (uf_token u) then Inl (InvalidTokenParam (uf_token u))
     else ebind (timeParam (q_get q ''from'') ''from'') (\<lambda>lo.
       ebind (timeParam (q_get q ''to'') ''to'') (\<lambda>hi.
       ebind (if is_zero_time lo \<and> is_zero_time hi then rangeStart now (uf_range u) else Inr lo) (\<lambda>lo.
       if \<not> is_zero_time lo \<and> \<not> is_zero_time hi \<and> hi < lo
       then Inl (ToBeforeFromParam (q_get q ''to'') (q_get q ''from''))
       else Inr (dims_filter u lo hi, u)))))"

definition bucketParam :: "url_values \<Rightarrow> request_error + string" where
  "bucketParam q = (let b = (if q_get q ''bucket'' = [] then BucketDay else q_get q ''bucket'') in
     if bucket_valid b then Inr b else Inl (InvalidBucketParam b))"

definition trendBucketParam :: "int \<Rightarrow> url_values \<Rightarrow> filter_spec \<Rightarrow> request_error + string" where
  "trendBucketParam now q f = (if q_get q ''bucket'' \<noteq> [] then bucketParam q
     else if is_zero_time (fl_from f) then Inr BucketMonth
     else let hi = (if is_zero_time (fl_to f) then now else fl_to f); d = time_sub hi (fl_from f) in
       if d \<le> 2 * day_ns then Inr BucketHour
       else if d \<le> 62 * day_ns then Inr BucketDay
       else if d \<le> 730 * day_ns then Inr BucketWeek
       else Inr BucketMonth)"

text \<open>The value, its label, and whether it is disabled.\<close>

definition trendBucketOptions :: "int \<Rightarrow> filter_spec \<Rightarrow> string \<Rightarrow> (string \<times> string \<times> bool) list" where
  "trendBucketOptions now f selected =
     (let hi = (if is_zero_time (fl_to f) then now else fl_to f);
          d = (if is_zero_time (fl_from f) then 2 ^ 63 - 1 else time_sub hi (fl_from f)) in
      [(BucketHour, ''Hour'', 7 * day_ns + 60 * second_ns < d \<and> selected \<noteq> BucketHour),
       (BucketDay, ''Day'', 180 * day_ns < d \<and> selected \<noteq> BucketDay),
       (BucketWeek, ''Week'', 730 * day_ns < d \<and> selected \<noteq> BucketWeek),
       (BucketMonth, ''Month'', False)])"

definition orderParam :: "url_values \<Rightarrow> request_error + string" where
  "orderParam q = (case ParseOrder (q_get q ''sort'') of Inr d \<Rightarrow> Inr d
     | Inl _ \<Rightarrow> Inl (InvalidOrderParam (q_get q ''sort'')))"

definition offsetParam :: "url_values \<Rightarrow> request_error + int" where
  "offsetParam q = (let v = q_get q ''offset'' in if v = [] then Inr 0
     else case parse_int64 v of None \<Rightarrow> Inl (InvalidOffsetParam v)
     | Some n \<Rightarrow> if n < 0 then Inl (InvalidOffsetParam v) else Inr n)"

section \<open>Links\<close>

record presetView =
  pv_label :: string
  pv_url :: string
  pv_active :: bool

definition preset_query :: "uiFilter \<Rightarrow> string \<Rightarrow> url_values" where
  "preset_query u key = set_dim ''rank_by'' (uf_rank_by u) (set_dim ''conversation'' (uf_conversation u)
     (setDims u (if key \<noteq> ''today'' then q_set ''range'' key [] else [])))"

definition presetViews :: "string \<Rightarrow> uiFilter \<Rightarrow> presetView list" where
  "presetViews action u = map (\<lambda>(key, label). let enc = q_encode (preset_query u key) in
     \<lparr>pv_label = label, pv_url = (if enc \<noteq> [] then action @ ''?'' @ enc else action),
      pv_active = (uf_range u = key \<or> key = ''today'' \<and> uf_range u = [])\<rparr>) rangeKeys"

definition statsPresetViews :: "uiFilter \<Rightarrow> presetView list" where
  "statsPresetViews u = map (\<lambda>p. if pv_label p = ''Today'' then p\<lparr>pv_url := ''/settings/stats?range=today''\<rparr>
     else if pv_label p = ''7d'' then p\<lparr>pv_url := ''/settings/stats''\<rparr> else p) (presetViews ''/settings/stats'' u)"

definition conversationURL :: "uiFilter \<Rightarrow> string \<Rightarrow> string" where
  "conversationURL u conv = ''/sessions?'' @ q_encode (q_set ''conversation'' conv
     (setDims u (set_dim ''range'' (uf_range u) [])))"

definition withoutConversationURL :: "string \<Rightarrow> uiFilter \<Rightarrow> string" where
  "withoutConversationURL action u = action @ ''?'' @ q_encode (set_dim ''rank_by'' (uf_rank_by u)
     (set_dim ''to'' (uf_to u) (set_dim ''from'' (uf_from u) (setDims u (set_dim ''range'' (uf_range u) [])))))"

text \<open>The query of a link, as the server that gets the request parses it.\<close>

definition url_query :: "string \<Rightarrow> url_values" where
  "url_query url = (case cut_at (CHR ''?'') url of None \<Rightarrow> [] | Some (_, s) \<Rightarrow> parse_query s)"

section \<open>The statistics page\<close>

definition statsDaysLimit :: nat where "statsDaysLimit = 3660"

text \<open>The selected range, the first and the last day, and the number of rows.\<close>

definition statsRangeParam :: "int \<Rightarrow> url_values \<Rightarrow> request_error + uiFilter \<times> string \<times> string \<times> nat" where
  "statsRangeParam now q =
     (let rng = (if q_get q ''range'' = [] then ''7d'' else q_get q ''range'');
          u = (query_ui [] False)\<lparr>uf_range := rng\<rparr>; today = startOfDay now in
      if rng = ''today'' then Inr (u, utc_day today, utc_day today, 1)
      else if rng = ''7d'' then Inr (u, utc_day (add_date today 0 (- 6)), utc_day today, 7)
      else if rng = ''30d'' then Inr (u, utc_day (add_date today 0 (- 29)), utc_day today, 30)
      else if rng = ''month'' then Inr (u, utc_day (startOfMonth today), utc_day today,
        (case civil_of_days (today div day_ns) of (y, m, d) \<Rightarrow> nat d))
      else if rng = ''all'' then Inr (u, [], utc_day today, statsDaysLimit)
      else Inl (InvalidRange rng))"

section \<open>The API\<close>

definition filterParam :: "url_values \<Rightarrow> request_error + filter_spec" where
  "filterParam q = ebind (ungroupedParam q) (\<lambda>ungrouped.
     if \<not> token_param_ok (q_get q ''token'') then Inl (InvalidTokenParam (q_get q ''token''))
     else ebind (timeParam (q_get q ''from'') ''from'') (\<lambda>lo. ebind (timeParam (q_get q ''to'') ''to'') (\<lambda>hi.
       if \<not> is_zero_time lo \<and> \<not> is_zero_time hi \<and> hi < lo
       then Inl (ToBeforeFromParam (q_get q ''to'') (q_get q ''from''))
       else Inr \<lparr>fl_from = lo, fl_to = hi, fl_source = q_get q ''source'', fl_provider = q_get q ''provider'',
         fl_model = q_get q ''model'', fl_conversation = q_get q ''conversation'', fl_group = q_get q ''group'',
         fl_ungrouped = ungrouped, fl_token = q_get q ''token'', fl_unbounded = False\<rparr>)))"

definition defaultGenerationLimit :: int where "defaultGenerationLimit = 50"
definition maxGenerationLimit :: int where "maxGenerationLimit = 500"

definition limitParam :: "url_values \<Rightarrow> int \<Rightarrow> int \<Rightarrow> request_error + int" where
  "limitParam q dflt most = (let v = q_get q ''limit'' in if v = [] then Inr dflt
     else case parse_int64 v of None \<Rightarrow> Inl (InvalidLimitParam v)
     | Some n \<Rightarrow> if n < 1 then Inl (InvalidLimitParam v) else Inr (min n most))"

definition pageParams :: "url_values \<Rightarrow> request_error + int \<times> int" where
  "pageParams q = ebind (limitParam q defaultGenerationLimit maxGenerationLimit) (\<lambda>limit.
     ebind (offsetParam q) (\<lambda>offset. Inr (limit, offset)))"

definition dayRangeParams :: "string \<Rightarrow> string \<Rightarrow> request_error + string \<times> string" where
  "dayRangeParams lo hi = (if lo \<noteq> [] \<and> parse_date lo = None then Inl (InvalidTime ''from'' lo)
     else if hi \<noteq> [] \<and> parse_date hi = None then Inl (InvalidTime ''to'' hi)
     else if lo \<noteq> [] \<and> hi \<noteq> [] \<and> hi < lo then Inl (ToBeforeFromParam hi lo)
     else Inr (lo, hi))"

record filterEcho =
  fe_from :: string
  fe_to :: string
  fe_source :: string
  fe_provider :: string
  fe_model :: string
  fe_group :: string
  fe_ungrouped :: bool
  fe_token :: string
  fe_conversation :: string

text \<open>\<open>t.Format(time.RFC3339)\<close> of a UTC time.\<close>

definition format_rfc3339 :: "int \<Rightarrow> string" where
  "format_rfc3339 t = format_date (t div day_ns) @ ''T'' @ format_clock (t mod day_ns div second_ns) @ ''Z''"

definition filterEchoOf :: "url_values \<Rightarrow> filter_spec \<Rightarrow> filterEcho" where
  "filterEchoOf q f = \<lparr>fe_from = (if is_zero_time (fl_from f) then [] else format_rfc3339 (fl_from f)),
     fe_to = (if is_zero_time (fl_to f) then [] else format_rfc3339 (fl_to f)),
     fe_source = q_get q ''source'', fe_provider = q_get q ''provider'', fe_model = q_get q ''model'',
     fe_group = q_get q ''group'', fe_ungrouped = fl_ungrouped f, fe_token = q_get q ''token'',
     fe_conversation = q_get q ''conversation''\<rparr>"

section \<open>Laws\<close>

lemma q_get_set_dim [simp]: "q_get (set_dim k v q) k' = (if k' = k \<and> v \<noteq> [] then v else q_get q k')"
  by (simp add: set_dim_def)

lemma query_ui_simps [simp]: "uf_token (query_ui q b) = q_get q ''token''" "uf_range (query_ui q b) = q_get q ''range''"
  "uf_from (query_ui q b) = q_get q ''from''" "uf_to (query_ui q b) = q_get q ''to''" "uf_rank_by (query_ui q b) = []"
  by (simp_all add: query_ui_def)

lemma parseFilter_Inr: "parseFilter now q = Inr (f, u) \<longleftrightarrow> (\<exists>b lo hi lo'. ungroupedParam q = Inr b
    \<and> token_param_ok (q_get q ''token'') \<and> timeParam (q_get q ''from'') ''from'' = Inr lo
    \<and> timeParam (q_get q ''to'') ''to'' = Inr hi
    \<and> (if is_zero_time lo \<and> is_zero_time hi then rangeStart now (q_get q ''range'') else Inr lo) = Inr lo'
    \<and> (is_zero_time lo' \<or> is_zero_time hi \<or> lo' \<le> hi)
    \<and> u = query_ui q b \<and> f = dims_filter u lo' hi)"
proof (cases "ungroupedParam q")
  case ub: (Inr b)
  show ?thesis
  proof (cases "timeParam (q_get q ''from'') ''from''")
    case lo: (Inr lo)
    show ?thesis
    proof (cases "timeParam (q_get q ''to'') ''to''")
      case hi: (Inr hi)
      show ?thesis
      proof (cases "if is_zero_time lo \<and> is_zero_time hi then rangeStart now (q_get q ''range'') else Inr lo")
        case st: (Inr lo')
        show ?thesis
          unfolding parseFilter_def ub lo hi Let_def ebind_simps query_ui_simps st using st
          by (cases "is_zero_time lo \<and> is_zero_time hi") (auto simp: not_less)
      qed (simp_all only: parseFilter_def ub lo hi Let_def ebind_simps query_ui_simps, auto)
    qed (simp add: parseFilter_def ub lo Let_def)
  qed (simp add: parseFilter_def ub Let_def)
qed (simp add: parseFilter_def)

lemma timeParam_Nil [simp]: "timeParam [] name = Inr zero_time"
  by (simp add: timeParam_def)

lemma zero_time_zero [simp]: "is_zero_time zero_time"
  by (simp add: is_zero_time_def)

lemma ungroupedParam_link: "q_get q ''ungrouped'' = (if b then ''true'' else []) \<Longrightarrow> ungroupedParam q = Inr b"
  by (simp add: ungroupedParam_def parse_bool_def)

text \<open>The parameters a link carries, whatever is added to them.\<close>

lemma q_get_setDims: "q_get (setDims u q) k =
   (if k = ''token'' \<and> uf_token u \<noteq> [] then uf_token u
    else if k = ''group'' \<and> uf_group u \<noteq> [] then uf_group u
    else if k = ''model'' \<and> uf_model u \<noteq> [] then uf_model u
    else if k = ''provider'' \<and> uf_provider u \<noteq> [] then uf_provider u
    else if k = ''source'' \<and> uf_source u \<noteq> [] then uf_source u
    else if k = ''ungrouped'' \<and> uf_ungrouped u then ''true'' else q_get q k)"
  by (simp add: setDims_def Let_def)

lemma q_get_link: "CHR ''?'' \<notin> set action \<Longrightarrow> q_get (url_query (action @ ''?'' @ q_encode q)) k = q_get q k"
  by (simp add: url_query_def parse_query_encode)

definition link_to :: "uiFilter \<Rightarrow> string \<Rightarrow> string \<Rightarrow> string \<Rightarrow> string \<Rightarrow> url_values \<Rightarrow> bool" where
  "link_to u rng conv lo hi q \<longleftrightarrow> q_get q ''range'' = rng \<and> q_get q ''conversation'' = conv
     \<and> q_get q ''from'' = lo \<and> q_get q ''to'' = hi \<and> q_get q ''token'' = uf_token u
     \<and> q_get q ''group'' = uf_group u \<and> q_get q ''model'' = uf_model u \<and> q_get q ''provider'' = uf_provider u
     \<and> q_get q ''source'' = uf_source u \<and> q_get q ''ungrouped'' = (if uf_ungrouped u then ''true'' else [])"

lemma link_to_parse:
  assumes "link_to u rng conv lo hi q" "token_param_ok (uf_token u)" "uf_rank_by u = []"
    and "timeParam lo ''from'' = Inr l" "timeParam hi ''to'' = Inr h"
    and "(if is_zero_time l \<and> is_zero_time h then rangeStart now rng else Inr l) = Inr l'"
    and "is_zero_time l' \<or> is_zero_time h \<or> l' \<le> h"
  shows "parseFilter now q = Inr (dims_filter (u\<lparr>uf_conversation := conv\<rparr>) l' h,
    u\<lparr>uf_range := rng, uf_conversation := conv, uf_from := lo, uf_to := hi\<rparr>)"
proof -
  have "ungroupedParam q = Inr (uf_ungrouped u)"
    using assms(1) by (intro ungroupedParam_link) (simp add: link_to_def)
  moreover have "query_ui q (uf_ungrouped u)
      = u\<lparr>uf_range := rng, uf_conversation := conv, uf_from := lo, uf_to := hi\<rparr>"
    using assms(1,3) by (cases u) (simp add: link_to_def query_ui_def)
  ultimately show ?thesis
    unfolding parseFilter_Inr using assms by (auto simp: link_to_def dims_filter_def)
qed

lemma links_to:
  assumes "CHR ''?'' \<notin> set action" "uf_rank_by u = []"
  shows "link_to u (uf_range u) [] (uf_from u) (uf_to u) (url_query (withoutConversationURL action u))"
    and "link_to u (uf_range u) conv [] [] (url_query (conversationURL u conv))"
proof -
  have "CHR ''?'' \<notin> set ''/sessions''" by simp
  note s = q_get_link [OF this, of "q_set ''conversation'' conv (setDims u (set_dim ''range'' (uf_range u) []))"]
  have url: "conversationURL u conv = ''/sessions'' @ ''?'' @ q_encode (q_set ''conversation'' conv
      (setDims u (set_dim ''range'' (uf_range u) [])))"
    by (simp add: conversationURL_def)
  show "link_to u (uf_range u) conv [] [] (url_query (conversationURL u conv))"
    unfolding link_to_def url s by (simp add: q_get_setDims)
  show "link_to u (uf_range u) [] (uf_from u) (uf_to u) (url_query (withoutConversationURL action u))"
    unfolding link_to_def withoutConversationURL_def q_get_link [OF assms(1)] by (simp add: q_get_setDims)
qed

lemma join_nonempty: "\<forall>x \<in> set xs. x \<noteq> [] \<Longrightarrow> xs \<noteq> [] \<Longrightarrow> join sep xs \<noteq> []"
  by (induction sep xs rule: join.induct) auto

lemma q_encode_Nil_iff: "q_encode q = [] \<longleftrightarrow> q = []"
proof
  show "q = []" if "q_encode q = []"
    using that join_nonempty [of "map encode_pair (sort_key fst q)" "''&''"] sort_key_nonempty [of q fst]
    by (auto simp: q_encode_def encode_pair_def)
qed (simp add: q_encode_def)

lemma preset_link:
  assumes "CHR ''?'' \<notin> set action" "uf_rank_by u = []"
  shows "link_to u (if key = ''today'' then [] else key) (uf_conversation u) [] []
    (url_query (let enc = q_encode (preset_query u key) in if enc \<noteq> [] then action @ ''?'' @ enc else action))"
proof -
  let ?q = "preset_query u key"
  have "q_get (url_query (let enc = q_encode ?q in if enc \<noteq> [] then action @ ''?'' @ enc else action)) k = q_get ?q k" for k
  proof (cases "?q = []")
    case True
    then show ?thesis
      using assms(1) by (simp add: q_encode_Nil_iff [THEN iffD2] url_query_def cut_at_None [THEN iffD2])
  next
    case False
    then show ?thesis by (simp add: Let_def q_encode_Nil_iff q_get_link [OF assms(1), simplified])
  qed
  then show ?thesis unfolding link_to_def using assms(2) by (simp add: preset_query_def q_get_setDims)
qed

text \<open>C40: The links of a page keep its filter: clearing the conversation keeps everything else, explicit
  dates included; opening a conversation keeps everything else when no explicit dates are set; and a
  preset keeps all but the dates, and is then the one that is highlighted.\<close>

theorem links_keep_the_filter:
  assumes "parseFilter now q = Inr (f, u)" "CHR ''?'' \<notin> set action"
  shows "parseFilter now (url_query (withoutConversationURL action u))
      = Inr (f\<lparr>fl_conversation := []\<rparr>, u\<lparr>uf_conversation := []\<rparr>)
    \<and> (uf_from u = [] \<and> uf_to u = [] \<longrightarrow> parseFilter now (url_query (conversationURL u conv))
      = Inr (f\<lparr>fl_conversation := conv\<rparr>, u\<lparr>uf_conversation := conv\<rparr>))
    \<and> (\<forall>p \<in> set (presetViews action u). \<exists>f' u'. parseFilter now (url_query (pv_url p)) = Inr (f', u')
      \<and> f' = f\<lparr>fl_from := fl_from f', fl_to := zero_time\<rparr> \<and> rangeStart now (uf_range u') = Inr (fl_from f')
      \<and> presetViews action u' = map (\<lambda>p'. p'\<lparr>pv_active := pv_label p' = pv_label p\<rparr>) (presetViews action u))"
proof -
  from assms(1)[unfolded parseFilter_Inr] obtain b lo hi lo' where
    p: "token_param_ok (q_get q ''token'')" "timeParam (q_get q ''from'') ''from'' = Inr lo"
      "timeParam (q_get q ''to'') ''to'' = Inr hi"
      "(if is_zero_time lo \<and> is_zero_time hi then rangeStart now (q_get q ''range'') else Inr lo) = Inr lo'"
      "is_zero_time lo' \<or> is_zero_time hi \<or> lo' \<le> hi" "u = query_ui q b" "f = dims_filter u lo' hi" by blast
  have u: "uf_rank_by u = []" "token_param_ok (uf_token u)" "uf_from u = q_get q ''from''" "uf_to u = q_get q ''to''"
    "uf_range u = q_get q ''range''" using p(1,6) by simp_all
  note links = links_to [OF assms(2) u(1)]
  from link_to_parse [OF links(1) u(2,1) p(2,3,4,5) [folded u(3-5)]]
  have 1: "parseFilter now (url_query (withoutConversationURL action u))
      = Inr (f\<lparr>fl_conversation := []\<rparr>, u\<lparr>uf_conversation := []\<rparr>)"
    by (simp add: p(7) dims_filter_def)
  have 2: "parseFilter now (url_query (conversationURL u conv)) = Inr (f\<lparr>fl_conversation := conv\<rparr>, u\<lparr>uf_conversation := conv\<rparr>)"
    if "uf_from u = []" "uf_to u = []"
  proof -
    have z: "lo = zero_time" "hi = zero_time" using p(2,3) that u(3,4) by simp_all
    from link_to_parse [OF links(2) u(2,1) timeParam_Nil timeParam_Nil p(4,5) [folded u(5), unfolded z]]
    show ?thesis using that by (simp add: p(7) dims_filter_def z)
  qed
  have 3: "\<exists>f' u'. parseFilter now (url_query (pv_url p)) = Inr (f', u')
      \<and> f' = f\<lparr>fl_from := fl_from f', fl_to := zero_time\<rparr> \<and> rangeStart now (uf_range u') = Inr (fl_from f')
      \<and> presetViews action u' = map (\<lambda>p'. p'\<lparr>pv_active := pv_label p' = pv_label p\<rparr>) (presetViews action u)"
    if "p \<in> set (presetViews action u)" for p
  proof -
    from that obtain key label where k: "(key, label) \<in> set rangeKeys"
      "pv_url p = (let enc = q_encode (preset_query u key) in if enc \<noteq> [] then action @ ''?'' @ enc else action)"
      "pv_label p = label" by (auto simp: presetViews_def Let_def)
    define r where "r = (if key = ''today'' then [] else key)"
    from k(1) obtain x where x: "rangeStart now r = Inr x" by (auto simp: rangeKeys_def rangeStart_def r_def)
    let ?u = "u\<lparr>uf_range := r, uf_conversation := uf_conversation u, uf_from := [], uf_to := []\<rparr>"
    from link_to_parse [OF preset_link [OF assms(2) u(1)] u(2,1) timeParam_Nil timeParam_Nil, of now key x] x
    have "parseFilter now (url_query (pv_url p)) = Inr (dims_filter (u\<lparr>uf_conversation := uf_conversation u\<rparr>) x zero_time, ?u)"
      by (simp add: k(2) r_def)
    moreover have "preset_query ?u = preset_query u" by (rule ext) (simp add: preset_query_def setDims_def)
    then have "presetViews action ?u = map (\<lambda>p'. p'\<lparr>pv_active := pv_label p' = pv_label p\<rparr>) (presetViews action u)"
      using k(1) unfolding presetViews_def r_def by (auto simp: rangeKeys_def k(3) Let_def)
    ultimately show ?thesis using x by (intro exI) (auto simp: p(7) dims_filter_def)
  qed
  from 1 2 3 show ?thesis by blast
qed

theorem links_keep_the_filter_witness:
  "\<exists>f u. parseFilter 0 [(''range'', ''7d''), (''model'', ''a/b c''), (''ungrouped'', ''1'')] = Inr (f, u)
    \<and> parseFilter 0 (url_query (conversationURL u ''x&y'')) = Inr (f\<lparr>fl_conversation := ''x&y''\<rparr>, u\<lparr>uf_conversation := ''x&y''\<rparr>)"
proof -
  let ?q = "[(''range'', ''7d''), (''model'', ''a/b c''), (''ungrouped'', ''1'')]"
  let ?u = "query_ui ?q True"
  have p: "parseFilter 0 ?q = Inr (dims_filter ?u (0 - 7 * day_ns) zero_time, ?u)"
    unfolding parseFilter_Inr
    by (intro exI [of _ True] exI [of _ zero_time] exI [of _ "0 - 7 * day_ns"])
       (simp add: ungroupedParam_def parse_bool_def q_get_def token_param_ok_def rangeStart_def)
  have "uf_from ?u = []" "uf_to ?u = []" "CHR ''?'' \<notin> set ''/''" by (simp_all add: q_get_def)
  with links_keep_the_filter [OF p, of "''/''" "''x&y''"] p show ?thesis by blast
qed

text \<open>A link to a conversation drops explicit dates, so the page it opens can show less than
  the list it was on.\<close>

theorem session_links_drop_dates:
  "\<exists>f u f' u'. parseFilter (20000 * day_ns) [(''from'', ''2020-01-01'')] = Inr (f, u)
    \<and> parseFilter (20000 * day_ns) (url_query (conversationURL u conv)) = Inr (f', u') \<and> fl_from f < fl_from f'"
proof -
  have t: "timeParam ''2020-01-01'' ''from'' = Inr (18262 * day_ns)" by code_simp
  let ?q = "[(''from'', ''2020-01-01'')]" let ?u = "query_ui ?q False"
  have p: "parseFilter (20000 * day_ns) ?q = Inr (dims_filter ?u (18262 * day_ns) zero_time, ?u)"
    unfolding parseFilter_Inr
    by (intro exI [of _ False] exI [of _ zero_time] exI [of _ "18262 * day_ns"])
       (simp add: ungroupedParam_def q_get_def token_param_ok_def t is_zero_time_def zero_time_def)
  have l: "link_to ?u [] conv [] [] (url_query (conversationURL ?u conv))"
    using links_to(2) [of "''/''" ?u conv] by (simp add: q_get_def)
  have s: "rangeStart (20000 * day_ns) [] = Inr (20000 * day_ns)"
    by (simp add: rangeStart_def startOfDay_eq)
  have "parseFilter (20000 * day_ns) (url_query (conversationURL ?u conv))
      = Inr (dims_filter (?u\<lparr>uf_conversation := conv\<rparr>) (20000 * day_ns) zero_time,
          ?u\<lparr>uf_range := [], uf_conversation := conv, uf_from := [], uf_to := []\<rparr>)"
    by (rule link_to_parse [OF l _ _ timeParam_Nil timeParam_Nil])
       (simp_all add: s [simplified] q_get_def token_param_ok_def)
  with p show ?thesis by (intro exI conjI) (assumption+, simp add: dims_filter_def)
qed

text \<open>The dashboard and the API read the same filter from the same parameters and reject the
  same requests, except that the dashboard, without explicit dates, takes the start from the range.\<close>

theorem api_and_dashboard_agree:
  "parseFilter now q = ebind (filterParam q) (\<lambda>f.
     ebind (if is_zero_time (fl_from f) \<and> is_zero_time (fl_to f) then rangeStart now (q_get q ''range'')
       else Inr (fl_from f)) (\<lambda>lo. Inr (f\<lparr>fl_from := lo\<rparr>, query_ui q (fl_ungrouped f))))"
proof (cases "ungroupedParam q")
  case ub: (Inr b)
  show ?thesis
  proof (cases "timeParam (q_get q ''from'') ''from''")
    case lo: (Inr lo)
    show ?thesis
    proof (cases "timeParam (q_get q ''to'') ''to''")
      case hi: (Inr hi)
      have f: "\<lparr>fl_from = lo, fl_to = hi, fl_source = q_get q ''source'', fl_provider = q_get q ''provider'',
         fl_model = q_get q ''model'', fl_conversation = q_get q ''conversation'', fl_group = q_get q ''group'',
         fl_ungrouped = b, fl_token = q_get q ''token'', fl_unbounded = False\<rparr> = dims_filter (query_ui q b) lo hi"
        by (simp add: dims_filter_def query_ui_def)
      have d: "fl_from (dims_filter u lo hi) = lo" "fl_to (dims_filter u lo hi) = hi"
        "fl_ungrouped (dims_filter (query_ui q b) lo hi) = b"
        "(dims_filter u lo hi)\<lparr>fl_from := lo'\<rparr> = dims_filter u lo' hi" for u lo'
        by (simp_all add: dims_filter_def query_ui_def)
      show ?thesis
        unfolding parseFilter_def filterParam_def ub lo hi ebind_simps Let_def query_ui_simps f
        by (cases "token_param_ok (q_get q ''token'')"; cases "is_zero_time lo \<and> is_zero_time hi";
            cases "rangeStart now (q_get q ''range'')") (auto simp: d)
    qed (simp_all only: parseFilter_def filterParam_def ub lo Let_def ebind_simps query_ui_simps, auto)
  qed (simp_all only: parseFilter_def filterParam_def ub Let_def ebind_simps query_ui_simps, auto)
qed (simp add: parseFilter_def filterParam_def)

lemma parse_int64_no_space: "parse_int64 s = Some n \<Longrightarrow> \<forall>c \<in> set s. \<not> is_space c"
proof -
  have d: "digits_val a ds = Some m \<Longrightarrow> \<forall>c \<in> set ds. is_digit c" for a ds m
    by (induction ds arbitrary: a) (auto split: if_splits)
  have "\<not> is_space c" if "is_digit c" for c using that by (auto simp: is_digit_def is_space_def byte_in_def)
  moreover assume "parse_int64 s = Some n"
  ultimately show ?thesis
    by (cases s) (auto simp: parse_int64_def split_sign_def is_space_def byte_in_def Let_def dest: d split: if_splits option.splits)
qed

lemma normalize_refuses:
  assumes "token_param_ok (fl_token f)" "is_zero_time (fl_from f) \<or> is_zero_time (fl_to f) \<or> fl_from f \<le> fl_to f"
  shows "(\<exists>e. normalize_filter now f = Inl e)
    \<longleftrightarrow> is_zero_time (fl_to f) \<and> \<not> is_zero_time (fl_from f) \<and> now < fl_from f"
proof -
  have trim: "trim_space s = s" if "\<forall>c \<in> set s. \<not> is_space c" for s
    using that dropWhile_id [of s is_space] dropWhile_id [of "rev s" is_space] by (simp add: trim_space_def)
  have "\<forall>c \<in> set (fl_token f). \<not> is_space c"
    using assms(1) parse_int64_no_space [of "fl_token f"]
    by (auto simp: token_param_ok_def TokenNone_def is_space_def byte_in_def split: option.splits)
  then have t: "trim_space (fl_token f) = fl_token f" by (rule trim)
  show ?thesis
    using assms by (auto simp: normalize_filter_def Let_def t token_param_ok_def not_less split: option.splits if_splits)
qed

lemma parsed_filter_ok:
  "filterParam q = Inr f \<Longrightarrow> token_param_ok (fl_token f)
    \<and> (is_zero_time (fl_from f) \<or> is_zero_time (fl_to f) \<or> fl_from f \<le> fl_to f)"
  "parseFilter now q = Inr (f, u) \<Longrightarrow> token_param_ok (fl_token f)
    \<and> (is_zero_time (fl_from f) \<or> is_zero_time (fl_to f) \<or> fl_from f \<le> fl_to f)"
  by (auto simp: filterParam_def ebind_Inr split: if_splits)
     (auto simp: parseFilter_Inr dims_filter_def query_ui_def)

text \<open>A request that passes the checks of the parameters is answered: the storage layer refuses its
  filter only when the start lies in the future and no end is given, which both front ends answer
  with an internal error.\<close>

theorem accepted_requests_answered:
  assumes "filterParam q = Inr f \<or> parseFilter now q = Inr (f, u)"
  shows "(\<exists>e. normalize_filter now' f = Inl e)
    \<longleftrightarrow> is_zero_time (fl_to f) \<and> \<not> is_zero_time (fl_from f) \<and> now' < fl_from f"
  using assms parsed_filter_ok by (intro normalize_refuses) blast+

theorem accepted_requests_answered_witness:
  "\<exists>f e. filterParam [(''from'', ''2999-01-01'')] = Inr f \<and> normalize_filter 0 f = Inl e"
proof -
  have t: "timeParam ''2999-01-01'' ''from'' = Inr (375835 * day_ns)" by code_simp
  let ?f = "\<lparr>fl_from = 375835 * day_ns, fl_to = zero_time, fl_source = [], fl_provider = [], fl_model = [],
    fl_conversation = [], fl_group = [], fl_ungrouped = False, fl_token = [], fl_unbounded = False\<rparr>"
  have f: "filterParam [(''from'', ''2999-01-01'')] = Inr ?f"
    by (simp add: filterParam_def ungroupedParam_def q_get_def token_param_ok_def t)
  have "\<exists>e. normalize_filter 0 ?f = Inl e"
    by (rule iffD2 [OF accepted_requests_answered [where u = undefined, OF disjI1 [OF f]]])
       (simp add: is_zero_time_def zero_time_def)
  with f show ?thesis by blast
qed

end
