(* ===== verification/Conversations.thy ===== *)
theory Conversations
  imports Queries
begin

text \<open>
  The session list and the per-source chart of \<open>internal/storage/conversations.go\<close>: aggregates per
  conversation over the second rollup, pagination, the latest row of each group on the page, and
  the mapping from a group's key back to the filter that selects its rows.
\<close>

record ConversationSummary =
  cs_key :: string
  cs_day :: string
  cs_sums :: facts
  cs_cost_unknown :: int
  cs_cost_total :: "rat option"
  cs_first :: int
  cs_last :: int
  cs_source :: string
  cs_model :: string
  cs_agent :: string
  cs_repo :: string

definition hasKeyPrefix :: "string \<Rightarrow> string \<Rightarrow> bool" where
  "hasKeyPrefix s p \<longleftrightarrow> cut_prefix s p \<noteq> None"

definition Other :: "ConversationSummary \<Rightarrow> bool" where
  "Other c \<longleftrightarrow> cs_key c = []"

definition IsAutocomplete :: "ConversationSummary \<Rightarrow> bool" where
  "IsAutocomplete c \<longleftrightarrow> hasKeyPrefix (cs_key c) convKeyAutocompletePrefix"

definition IsTitleProgress :: "ConversationSummary \<Rightarrow> bool" where
  "IsTitleProgress c \<longleftrightarrow> hasKeyPrefix (cs_key c) convKeyTitleProgressPrefix"

definition ConversationFilterForKey :: "string \<Rightarrow> string" where
  "ConversationFilterForKey key =
     (if key = [] then ConversationNone
      else if hasKeyPrefix key convKeyAutocompletePrefix then ConversationAutocomplete
      else if hasKeyPrefix key convKeyTitleProgressPrefix then ConversationTitleProgress
      else key)"

definition dayString :: "string \<Rightarrow> string" where
  "dayString after = (case parse_int64 after of Some ms \<Rightarrow> utc_day (of_unix_milli ms) | None \<Rightarrow> after)"

section \<open>Groups and pages\<close>

text \<open>The common table expression \<open>g\<close>: one row per conversation key.\<close>

record conv_group =
  cg_key :: string
  cg_sums :: facts
  cg_first :: int
  cg_last :: int

definition conv_of :: "int \<times> string \<times> dims \<Rightarrow> string" where
  "conv_of g = fst (snd g)"

definition opt_int :: "int option \<Rightarrow> int" where
  "opt_int x = (case x of None \<Rightarrow> 0 | Some n \<Rightarrow> n)"

definition conv_groups :: "(string \<times> dims) rollup_table \<Rightarrow> conv_group list" where
  "conv_groups t = map (\<lambda>k. \<lparr>cg_key = k, cg_sums = fact_sum (\<lambda>g. conv_of g = k) t,
     cg_first = opt_int (fact_first (\<lambda>g. conv_of g = k) t),
     cg_last = opt_int (fact_last (\<lambda>g. conv_of g = k) t)\<rparr>) (group_keys conv_of t)"

definition latest_row :: "(int \<Rightarrow> string option) \<Rightarrow> filter_spec \<Rightarrow> gen_row list \<Rightarrow> conv_group \<Rightarrow> gen_row option" where
  "latest_row groups f rows g = List.find (\<lambda>r. r_ts r = cg_last g \<and> conversationKey r = cg_key g
     \<and> whereSQL groups f r) rows"

definition from_row :: "(gen_row \<Rightarrow> string option) \<Rightarrow> gen_row option \<Rightarrow> string" where
  "from_row col r = (case r of None \<Rightarrow> [] | Some x \<Rightarrow> coal_string (col x))"

text \<open>Synthetic keys carry the day; the generic groups collapse to the empty key.\<close>

definition display_key :: "string \<Rightarrow> string \<times> string" where
  "display_key k = (case cut_prefix k convKeyOtherPrefix of
     Some day \<Rightarrow> ([], dayString day)
   | None \<Rightarrow> (case cut_prefix k convKeyAutocompletePrefix of
       Some day \<Rightarrow> (k, dayString day)
     | None \<Rightarrow> (case cut_prefix k convKeyTitleProgressPrefix of
         Some day \<Rightarrow> (k, dayString day)
       | None \<Rightarrow> (k, []))))"

definition conversation_summary :: "conv_group \<Rightarrow> gen_row option \<Rightarrow> ConversationSummary" where
  "conversation_summary g latest = (let (key, day) = display_key (cg_key g) in
     \<lparr>cs_key = key, cs_day = day, cs_sums = cg_sums g,
      cs_cost_unknown = factUnknownSQL (cg_sums g), cs_cost_total = factCostSQL (cg_sums g),
      cs_first = of_unix_milli (cg_first g), cs_last = of_unix_milli (cg_last g),
      cs_source = from_row (\<lambda>r. Some (r_source r)) latest, cs_model = from_row r_model latest,
      cs_agent = from_row r_agent_name latest, cs_repo = from_row r_git_repo latest\<rparr>)"

definition conversations_of :: "(int \<Rightarrow> string option) \<Rightarrow> filter_spec \<Rightarrow> string \<Rightarrow> int \<Rightarrow> int \<Rightarrow> gen_row list
    \<Rightarrow> (string \<times> dims) rollup_table \<Rightarrow> ConversationSummary list \<times> int" where
  "conversations_of groups f dir limit off rows t =
     (let gs = conv_groups t; pg = page limit off (order_rows dir cg_last gs)
      in (map (\<lambda>g. conversation_summary g (latest_row groups f rows g)) pg,
          if pg = [] then 0 else int (length gs)))"

definition Conversations :: "int \<Rightarrow> (int \<Rightarrow> string option) \<Rightarrow> filter_spec \<Rightarrow> string \<Rightarrow> int \<Rightarrow> int \<Rightarrow> store
    \<Rightarrow> query_error + ConversationSummary list \<times> int" where
  "Conversations now groups f order limit off st =
     (if limit \<le> 0 then Inl InvalidLimit
      else if off < 0 then Inl InvalidOffset
      else ebind (ParseOrder order) (\<lambda>dir. ebind (normalize_filter now f) (\<lambda>f.
        Inr (conversations_of groups f dir limit off (s_rows st)
          (factsSQL conversationRollup groups f False (s_rows st) (s_conv st))))))"

section \<open>The chart per source\<close>

type_synonym source_point = "(int \<times> string) \<times> facts"

text \<open>The index map of \<open>mergeSourceDays\<close> finds the point of a bucket and source, or appends one.\<close>

definition mergeSourceDays :: "string \<Rightarrow> source_point list \<Rightarrow> source_point list" where
  "mergeSourceDays bucket days = fold (\<lambda>((day, source), f) out.
     upsert (bucketStart day bucket, source) f (\<lambda>e. e + f) out) days []"

definition source_of :: "int \<times> dims \<times> bool \<Rightarrow> int \<times> string" where
  "source_of g = (fst g, fst (fst (snd g)))"

definition source_series_of :: "string \<Rightarrow> (dims \<times> bool) rollup_table \<Rightarrow> source_point list" where
  "source_series_of bucket t = (let days = group_sums source_of t in
     if directSQL bucket then days else mergeSourceDays bucket days)"

definition TimeseriesBySource :: "int \<Rightarrow> (int \<Rightarrow> string option) \<Rightarrow> filter_spec \<Rightarrow> string \<Rightarrow> store
    \<Rightarrow> query_error + source_point list" where
  "TimeseriesBySource now groups f bucket st = (if \<not> bucket_valid bucket then Inl InvalidBucket
     else ebind (normalize_filter now f) (\<lambda>f. Inr (source_series_of bucket
       (factsSQL usageRollup groups f (bucket = BucketHour) (s_rows st) (s_usage st)))))"

section \<open>Laws\<close>

lemma same_facts_conv_groups: "same_facts a b \<Longrightarrow> conv_groups a = conv_groups b"
  using same_facts_groups(1) [of a b conv_of] by (simp add: conv_groups_def same_facts_def)

lemma hasKeyPrefix_iff: "hasKeyPrefix s p \<longleftrightarrow> prefix p s"
  by (simp add: hasKeyPrefix_def cut_prefix_def)

text \<open>A group's last timestamp is that of a row of the group.\<close>

lemma fact_last_raw:
  assumes "k \<in> set (group_keys key (rawFactsSQL spec bucket p rows))" "has_span spec"
  shows "\<exists>r \<in> set rows. p r \<and> key (bucket (r_ts r), keys spec r) = k
    \<and> r_ts r = opt_int (fact_last (\<lambda>g. key g = k) (rawFactsSQL spec bucket p rows))"
proof -
  let ?t = "rawFactsSQL spec bucket p rows"
  let ?S = "{r \<in> set rows. p r \<and> key (bucket (r_ts r), keys spec r) = k}"
  have spans: "set (map snd (fact_spans (\<lambda>g. key g = k) ?t)) = r_ts ` ?S"
    using assms(2) by (force simp: set_fact_spans rawFactsSQL_def)
  have "?S \<noteq> {}" using assms(1) by (auto simp: group_keys_def rawFactsSQL_def)
  then have "Max (r_ts ` ?S) \<in> r_ts ` ?S" by (intro Max_in) auto
  moreover have "map snd (fact_spans (\<lambda>g. key g = k) ?t) \<noteq> []"
    using spans \<open>?S \<noteq> {}\<close> by (metis (no_types, lifting) image_is_empty list.set(1))
  then have "fact_last (\<lambda>g. key g = k) ?t = Some (Max (r_ts ` ?S))"
    unfolding fact_last_def max_opt_def spans [symmetric] by simp
  ultimately show ?thesis by (auto simp: opt_int_def)
qed

lemma sum_list_upsert_fold:
  fixes h :: "'d \<Rightarrow> 'k" and v :: "'d \<Rightarrow> facts"
  shows "(case map_of (fold (\<lambda>d out. upsert (h d) (v d) (\<lambda>e. e + v d) out) ds out) k of None \<Rightarrow> 0 | Some f \<Rightarrow> f)
    = (case map_of out k of None \<Rightarrow> 0 | Some f \<Rightarrow> f) + sum_list (map v (filter (\<lambda>d. h d = k) ds))"
proof (induction ds arbitrary: out)
  case (Cons d ds)
  show ?case by (simp add: Cons.IH map_of_upsert algebra_simps split: option.splits)
qed simp

lemma distinct_upsert_fold:
  "distinct (map fst out) \<Longrightarrow> distinct (map fst (fold (\<lambda>d out. upsert (h d) (v d) (u d) out) ds out))"
  by (induction ds arbitrary: out) (auto simp: distinct_upsert)

section \<open>Properties\<close>

text \<open>
  C21: The session list and the chart per source are also what the rows give, group by group with
  first and last time, page by page with the total.
\<close>

theorem sessions_read_the_rows:
  assumes "writes\<^sup>*\<^sup>* empty_store st" "groups 0 = None"
  shows "Conversations now groups f order limit off st =
     (if limit \<le> 0 then Inl InvalidLimit else if off < 0 then Inl InvalidOffset
      else ebind (ParseOrder order) (\<lambda>dir. ebind (normalize_filter now f) (\<lambda>f.
        Inr (conversations_of groups f dir limit off (s_rows st)
          (rawFactsSQL conversationRollup dayBucket (whereSQL groups f) (s_rows st))))))
    \<and> TimeseriesBySource now groups f bucket st = (if \<not> bucket_valid bucket then Inl InvalidBucket
     else ebind (normalize_filter now f) (\<lambda>f. Inr (source_series_of bucket
       (rawFactsSQL usageRollup (if bucket = BucketHour then hourBucket else dayBucket)
          (whereSQL groups f) (s_rows st)))))"
proof -
  from reachable_ok [OF assms(1)] have ok: "rollup_ok usageRollup (s_rows st) (s_usage st)"
    "rollup_ok conversationRollup (s_rows st) (s_conv st)"
    "\<forall>r \<in> set (s_rows st). row_ok r" "\<forall>r \<in> set (s_rows st). 0 \<le> r_ts r"
    by (simp_all add: store_ok_def dated_def)
  have conv: "conv_groups (factsSQL conversationRollup groups f' False (s_rows st) (s_conv st))
      = conv_groups (rawFactsSQL conversationRollup dayBucket (whereSQL groups f') (s_rows st))"
    if "normalize_filter now f = Inr f'" for f'
    using conversation_query.factsSQL_exact [where groups = groups and hourly = False,
        OF ok(2,3) normalize_filter_valid [OF that] assms(2) ok(4)]
    by (intro same_facts_conv_groups) simp
  have series: "source_series_of bucket (factsSQL usageRollup groups f' (bucket = BucketHour) (s_rows st) (s_usage st))
      = source_series_of bucket (rawFactsSQL usageRollup (if bucket = BucketHour then hourBucket else dayBucket)
          (whereSQL groups f') (s_rows st))"
    if "normalize_filter now f = Inr f'" for f'
    using same_facts_groups(2) [OF usage_query.factsSQL_exact [where groups = groups,
        OF ok(1,3) normalize_filter_valid [OF that] assms(2) ok(4)], of source_of]
    by (simp add: source_series_of_def)
  have page: "conversations_of groups f' dir limit off rows t = conversations_of groups f' dir limit off rows u"
    if "conv_groups t = conv_groups u" for f' dir rows t u
    unfolding conversations_of_def that ..
  have "ebind (normalize_filter now f) (\<lambda>f. Inr (conversations_of groups f dir limit off (s_rows st)
        (factsSQL conversationRollup groups f False (s_rows st) (s_conv st))))
      = ebind (normalize_filter now f) (\<lambda>f. Inr (conversations_of groups f dir limit off (s_rows st)
        (rawFactsSQL conversationRollup dayBucket (whereSQL groups f) (s_rows st))))"
    for dir :: string
  proof (rule ebind_cong_Inr)
    fix f' assume "normalize_filter now f = Inr f'"
    from page [OF conv [OF this]]
    show "Inr (conversations_of groups f' dir limit off (s_rows st)
          (factsSQL conversationRollup groups f' False (s_rows st) (s_conv st)))
        = Inr (conversations_of groups f' dir limit off (s_rows st)
          (rawFactsSQL conversationRollup dayBucket (whereSQL groups f') (s_rows st)))" by (rule arg_cong)
  qed
  moreover have "ebind (normalize_filter now f) (\<lambda>f. Inr (source_series_of bucket
        (factsSQL usageRollup groups f (bucket = BucketHour) (s_rows st) (s_usage st))))
      = ebind (normalize_filter now f) (\<lambda>f. Inr (source_series_of bucket
        (rawFactsSQL usageRollup (if bucket = BucketHour then hourBucket else dayBucket)
          (whereSQL groups f) (s_rows st))))"
    by (rule ebind_cong_Inr, rule arg_cong [where f = Inr], erule series)
  ultimately show ?thesis
    unfolding Conversations_def TimeseriesBySource_def by (simp only: simp_thms)
qed

theorem sessions_read_the_rows_witness:
  "case Conversations 1800000000000000000 (\<lambda>_. None)
      \<lparr>fl_from = zero_time, fl_to = zero_time, fl_source = [], fl_provider = [], fl_model = [],
       fl_conversation = [], fl_group = [], fl_ungrouped = False, fl_token = [], fl_unbounded = False\<rparr>
      [] 10 0 sample_store of Inr (cs, n) \<Rightarrow> n = 1 \<and> map cs_day cs = [''2023-11-14''] | Inl _ \<Rightarrow> False"
  unfolding sessions_read_the_rows [OF sample_reachable, of "\<lambda>_. None", OF refl, THEN conjunct1] sample_store_rows
  by code_simp

text \<open>Every session card is backed by a row: the group's last activity is the time of a row that
  matches the filter and belongs to the group, so the lookup for its source, model, agent and
  repository finds one.
\<close>

theorem session_cards_have_rows:
  "list_all (\<lambda>g. case latest_row groups f rows g of None \<Rightarrow> False
      | Some r \<Rightarrow> r \<in> set rows \<and> whereSQL groups f r \<and> conversationKey r = cg_key g \<and> r_ts r = cg_last g)
    (conv_groups (rawFactsSQL conversationRollup dayBucket (whereSQL groups f) rows))"
proof -
  let ?t = "rawFactsSQL conversationRollup dayBucket (whereSQL groups f) rows"
  have "\<exists>r \<in> set rows. whereSQL groups f r \<and> conversationKey r = k
      \<and> r_ts r = opt_int (fact_last (\<lambda>g. conv_of g = k) ?t)" if "k \<in> set (group_keys conv_of ?t)" for k
  proof -
    have key: "conv_of (x, keys conversationRollup r) = conversationKey r" for x r
      by (simp add: conversationRollup_def conv_of_def)
    have "has_span conversationRollup" by (simp add: conversationRollup_def)
    from fact_last_raw [OF that this] show ?thesis unfolding key by blast
  qed
  note ex = this
  have "\<exists>r \<in> set rows. r_ts r = cg_last g \<and> conversationKey r = cg_key g \<and> whereSQL groups f r"
    if g: "g \<in> set (conv_groups ?t)" for g
  proof -
    from g obtain k where "k \<in> set (group_keys conv_of ?t)" "cg_key g = k"
      "cg_last g = opt_int (fact_last (\<lambda>g. conv_of g = k) ?t)"
      by (auto simp: conv_groups_def)
    with ex show ?thesis by metis
  qed
  note row = this
  have "case latest_row groups f rows g of None \<Rightarrow> False
      | Some r \<Rightarrow> r \<in> set rows \<and> whereSQL groups f r \<and> conversationKey r = cg_key g \<and> r_ts r = cg_last g"
    if "g \<in> set (conv_groups ?t)" for g
  proof (cases "latest_row groups f rows g")
    case None
    with row [OF that] show ?thesis by (auto simp: latest_row_def find_None_iff)
  next
    case (Some r)
    then have "r \<in> set rows \<and> r_ts r = cg_last g \<and> conversationKey r = cg_key g \<and> whereSQL groups f r"
      unfolding latest_row_def find_Some_iff by (metis nth_mem)
    with Some show ?thesis by simp
  qed
  then show ?thesis by (simp add: list_all_iff)
qed

definition plain_key :: "string \<Rightarrow> bool" where
  "plain_key k \<longleftrightarrow> k \<noteq> [] \<and> k \<notin> {ConversationNone, ConversationAutocomplete, ConversationTitleProgress}
     \<and> (\<forall>p \<in> set convKeyPrefixes. \<not> prefix p k)"

text \<open>Opening a session shows exactly its rows: for the key of a real conversation the filter
  derived from the key selects the rows grouped under it and no others.
\<close>

theorem drill_down_selects_the_session:
  assumes "plain_key k"
  shows "conversationSQL (f\<lparr>fl_conversation := ConversationFilterForKey k\<rparr>) r \<longleftrightarrow> conversationKey r = k"
proof -
  have k: "ConversationFilterForKey k = k"
    using assms by (auto simp: plain_key_def ConversationFilterForKey_def hasKeyPrefix_iff
        convKeyPrefixes_def)
  have np: "p @ x \<noteq> k" if "p \<in> set convKeyPrefixes" for p x
    using assms that by (auto simp: plain_key_def)
  have "coal_string a \<in> {AgentXtabProvider, AgentTitle, AgentProgressMessages}
      \<longleftrightarrow> a \<in> {Some AgentXtabProvider, Some AgentTitle, Some AgentProgressMessages}" for a
    by (cases a) (auto simp: coal_string_def AgentXtabProvider_def AgentTitle_def AgentProgressMessages_def)
  with assms np show ?thesis
    by (auto simp: conversationSQL_def k plain_key_def conversationKey_def convKeyPrefixes_def Let_def
        split: option.splits)
qed

theorem drill_down_selects_the_session_witness:
  "\<forall>f r. conversationSQL (f\<lparr>fl_conversation := ConversationFilterForKey ''c1''\<rparr>) r \<longleftrightarrow> conversationKey r = ''c1''"
  by (intro allI, rule drill_down_selects_the_session)
     (simp add: plain_key_def ConversationNone_def ConversationAutocomplete_def ConversationTitleProgress_def
        convKeyPrefixes_def convKeyOtherPrefix_def convKeyAutocompletePrefix_def convKeyTitleProgressPrefix_def)

text \<open>A conversation whose identifier is the word \<open>none\<close> cannot be opened: its key maps to the
  sentinel for rows without a session, which selects none of its rows.
\<close>

theorem conversation_named_none:
  assumes "r_conversation_id r = Some ''none''" "r_source r \<noteq> SourceCopilot"
  shows "conversationKey r = ''none''
    \<and> \<not> conversationSQL (f\<lparr>fl_conversation := ConversationFilterForKey (conversationKey r)\<rparr>) r"
  using assms by (simp add: conversationKey_def ConversationFilterForKey_def hasKeyPrefix_iff
      convKeyAutocompletePrefix_def convKeyTitleProgressPrefix_def conversationSQL_def ConversationNone_def
      sessionless_def)

theorem conversation_named_none_witness:
  "\<forall>f. \<not> conversationSQL (f\<lparr>fl_conversation := ''none''\<rparr>)
     (insertArgs 0 (sample_gen\<lparr>g_conversation_id := ''none''\<rparr>))"
proof
  fix f
  let ?r = "insertArgs 0 (sample_gen\<lparr>g_conversation_id := ''none''\<rparr>)"
  have r: "r_conversation_id ?r = Some ''none''" "r_source ?r \<noteq> SourceCopilot"
    by (simp_all add: insertArgs_def sample_gen_def nullableString_def SourceCopilot_def)
  have key: "ConversationFilterForKey ''none'' = ''none''"
    by (simp add: ConversationFilterForKey_def hasKeyPrefix_iff convKeyAutocompletePrefix_def
        convKeyTitleProgressPrefix_def)
  from conversation_named_none [OF r, of f] have "conversationKey ?r = ''none''"
    and "\<not> conversationSQL (f\<lparr>fl_conversation := ConversationFilterForKey (conversationKey ?r)\<rparr>) ?r"
    by blast+
  then show "\<not> conversationSQL (f\<lparr>fl_conversation := ''none''\<rparr>) ?r" by (simp only: key not_False_eq_True)
qed

text \<open>Merging day points per source into weeks or months keeps one point per period and source, and
  its sums are those of exactly its days.
\<close>

theorem merge_source_days_exact:
  "distinct (map fst (mergeSourceDays b days))
   \<and> (\<forall>k. (case map_of (mergeSourceDays b days) k of None \<Rightarrow> 0 | Some f \<Rightarrow> f)
        = sum_list (map snd (filter (\<lambda>((day, s), _). (bucketStart day b, s) = k) days)))"
proof -
  let ?h = "\<lambda>((day, s), _). (bucketStart day b, s)"
  have fold: "mergeSourceDays b days = fold (\<lambda>d out. upsert (?h d) (snd d) (\<lambda>e. e + snd d) out) days []"
    unfolding mergeSourceDays_def by (rule fold_cong) (auto split: prod.splits)
  show ?thesis
    unfolding fold using sum_list_upsert_fold [of ?h snd days "[]"] distinct_upsert_fold [of "[]" ?h snd]
    by (simp add: case_prod_unfold)
qed

end
