(* ===== verification/Charts.thy ===== *)
theory Charts
  imports Filters Conversations
begin

text \<open>
  The charts and cards of the dashboard (\<open>internal/web/web.go\<close>): the buckets of the time axis and
  the filling of empty buckets, the series of the charts, the period cards, the calendar of daily
  totals, the leaderboard and the totals of the breakdown tables.

  Bucket starts are milliseconds in the query results and nanoseconds on the axis, as in the code.
  A cost is an exact rational, as in the queries.
\<close>

section \<open>The time axis\<close>

definition chartBucketStart :: "string \<Rightarrow> int \<Rightarrow> int" where
  "chartBucketStart bucket t = (if bucket = BucketHour then t div (3600 * second_ns) * (3600 * second_ns)
     else if bucket = BucketDay then startOfDay t
     else if bucket = BucketWeek then startOfWeek t
     else startOfMonth t)"

definition nextChartBucket :: "string \<Rightarrow> int \<Rightarrow> int" where
  "nextChartBucket bucket t = (if bucket = BucketHour then t + 3600 * second_ns
     else if bucket = BucketDay then add_date t 0 1
     else if bucket = BucketWeek then add_date t 0 7
     else add_date t 1 0)"

lemma add_month_gt: "t < add_date t 1 0"
proof -
  obtain y m d where c: "civil_of_days (t div day_ns) = (y, m, d)" by (cases "civil_of_days (t div day_ns)")
  have "0 < days_in_month y m" by (simp add: days_in_month_def)
  with add_month [OF c] show ?thesis by simp
qed

lemma nextChartBucket_gt [simp]: "t < nextChartBucket bucket t"
  using add_month_gt [of t] by (simp add: nextChartBucket_def)

text \<open>The counting loop gives up above a thousand; the second loop collects the starts.\<close>

function count_buckets :: "string \<Rightarrow> int \<Rightarrow> int \<Rightarrow> nat \<Rightarrow> nat" where
  "count_buckets bucket t until n = (if t \<le> until \<and> n \<le> 1000
     then count_buckets bucket (nextChartBucket bucket t) until (n + 1) else n)"
  by pat_completeness auto
termination by (relation "measure (\<lambda>(_, t, until, _). nat (until + 1 - t))") (auto simp: nat_less_iff)

function chart_buckets :: "string \<Rightarrow> int \<Rightarrow> int \<Rightarrow> int list" where
  "chart_buckets bucket t until = (if t \<le> until
     then t # chart_buckets bucket (nextChartBucket bucket t) until else [])"
  by pat_completeness auto
termination by (relation "measure (\<lambda>(_, t, until). nat (until + 1 - t))") (auto simp: nat_less_iff)

declare count_buckets.simps [simp del] chart_buckets.simps [simp del]

definition empty_point :: "int \<Rightarrow> TimeseriesPoint" where
  "empty_point b = \<lparr>tp_bucket = b, tp_sums = 0, tp_cost = None\<rparr>"

definition points_by_start :: "TimeseriesPoint list \<Rightarrow> int \<Rightarrow> TimeseriesPoint option" where
  "points_by_start pts = map_of (rev (map (\<lambda>p. (tp_bucket p, p)) pts))"

definition fill_span :: "TimeseriesPoint list \<Rightarrow> filter_spec \<Rightarrow> int \<Rightarrow> int \<times> int" where
  "fill_span pts f now =
     (if is_zero_time (fl_from f) then of_unix_milli (tp_bucket (hd pts)) else fl_from f,
      if is_zero_time (fl_to f) \<or> now < fl_to f then now else fl_to f)"

definition fillTimeseries :: "TimeseriesPoint list \<Rightarrow> filter_spec \<Rightarrow> string \<Rightarrow> int \<Rightarrow> TimeseriesPoint list" where
  "fillTimeseries pts f bucket now = (if pts = [] then pts
     else let (lo, hi) = fill_span pts f now;
         start = chartBucketStart bucket lo; until = chartBucketStart bucket (hi - 1) in
       if until < start then pts
       else if 1000 < count_buckets bucket start until 0 then pts
       else map (\<lambda>t. case points_by_start pts (unix_milli t) of Some p \<Rightarrow> p | None \<Rightarrow> empty_point (unix_milli t))
         (chart_buckets bucket start until))"

subsection \<open>What a bucketing promises\<close>

text \<open>
  A time axis: \<open>start\<close> is the beginning of the bucket an instant lies in and \<open>next\<close> the beginning of
  the bucket after it.  A run is what the loop from one bucket to another visits.
\<close>

fun bucket_run :: "(int \<Rightarrow> int) \<Rightarrow> int \<Rightarrow> int \<Rightarrow> int list \<Rightarrow> bool" where
  "bucket_run next t until [] = (until < t)"
| "bucket_run next t until (x # xs) = (x = t \<and> t \<le> until \<and> bucket_run next (next t) until xs)"

locale bucketing =
  fixes start :: "int \<Rightarrow> int" and "next" :: "int \<Rightarrow> int"
  assumes start_le: "start t \<le> t"
    and start_start [simp]: "start (start t) = start t"
    and next_gt: "start s = s \<Longrightarrow> s < next s"
    and start_next: "start s = s \<Longrightarrow> start (next s) = next s"
    and bucket: "start s = s \<Longrightarrow> s \<le> t \<Longrightarrow> start t = s \<longleftrightarrow> t < next s"
begin

lemma start_mono: "t \<le> u \<Longrightarrow> start t \<le> start u"
proof (rule ccontr)
  assume "t \<le> u" "\<not> start t \<le> start u"
  then have lt: "start u < start t" by simp
  have "start t < next (start u)"
    using lt bucket [of "start u" "start t"] bucket [of "start u" u] start_le [of t] start_le [of u] \<open>t \<le> u\<close> by simp
  then have "start (start t) = start u" using bucket [of "start u" "start t"] lt by simp
  then show False using lt by simp
qed

lemma run_starts:
  assumes "bucket_run next t until xs" "start t = t"
  shows "set xs = {s. start s = s \<and> t \<le> s \<and> s \<le> until} \<and> sorted_wrt (<) xs"
  using assms
proof (induction xs arbitrary: t)
  case (Cons x xs)
  then have x: "x = t" "t \<le> until" and IH: "set xs = {s. start s = s \<and> next t \<le> s \<and> s \<le> until} \<and> sorted_wrt (<) xs"
    using start_next [OF Cons.prems(2)] by auto
  have split: "start s = s \<and> t \<le> s \<longleftrightarrow> s = t \<or> (start s = s \<and> next t \<le> s)" for s
    using bucket [OF Cons.prems(2), of s] next_gt [OF Cons.prems(2)] Cons.prems(2) by fastforce
  have "{s. start s = s \<and> t \<le> s \<and> s \<le> until} = insert t {s. start s = s \<and> next t \<le> s \<and> s \<le> until}"
    using split x(2) by blast
  then show ?case using x IH next_gt [OF Cons.prems(2)] by auto
qed auto

text \<open>The buckets of a run from the bucket of one instant to that of another are exactly the
  buckets of the instants between them.\<close>

lemma run_covers:
  assumes "bucket_run next (start lo) (start hi) xs" "lo \<le> hi"
  shows "set xs = start ` {lo..hi}"
proof -
  have "set xs = {s. start s = s \<and> start lo \<le> s \<and> s \<le> start hi}"
    using run_starts [OF assms(1)] by simp
  also have "\<dots> = start ` {lo..hi}"
  proof (intro equalityI subsetI)
    fix s assume s: "s \<in> {s. start s = s \<and> start lo \<le> s \<and> s \<le> start hi}"
    show "s \<in> start ` {lo..hi}"
    proof (cases "s = start lo")
      case True
      then show ?thesis using assms(2) by simp
    next
      case False
      with s have "start lo < s" by simp
      moreover have "\<not> s \<le> lo" using False s start_mono [of s lo] by auto
      moreover have "s \<le> hi" using s start_le [of hi] by simp
      ultimately show ?thesis using s by (intro image_eqI [of _ _ s]) auto
    qed
  qed (auto intro: start_mono)
  finally show ?thesis .
qed

end

lemma chart_buckets_run: "bucket_run (nextChartBucket bucket) t until (chart_buckets bucket t until)"
  by (induction bucket t until rule: chart_buckets.induct) (subst chart_buckets.simps, simp)

lemma count_buckets_eq: "count_buckets bucket t until n
    = (if n \<le> 1000 then min 1001 (n + length (chart_buckets bucket t until)) else n)"
proof (induction bucket t until n rule: count_buckets.induct)
  case (1 bucket t until n)
  then show ?case
    by (subst count_buckets.simps, subst chart_buckets.simps) (auto simp: min_def)
qed

lemma hour_div:
  assumes "0 < (k::int)" "s div k * k = s" "s \<le> t"
  shows "t div k * k = s \<longleftrightarrow> t < s + k"
proof
  assume "t < s + k"
  then have "t div k = s div k" using assms by (intro int_div_pos_eq [of t k "s div k" "t - s"]) (simp_all add: mult.commute)
  then show "t div k * k = s" using assms(2) by simp
next
  assume "t div k * k = s"
  moreover have "t = t div k * k + t mod k" by simp
  moreover have "t mod k < k" using assms(1) by simp
  ultimately show "t < s + k" by linarith
qed

text \<open>A bucketing of indices is one of the instants they number in steps of \<open>k\<close>.\<close>

lemma int_div_less: "0 < (k::int) \<Longrightarrow> t div k < m \<longleftrightarrow> t < m * k"
proof -
  assume k: "0 < k"
  show ?thesis
  proof
    assume "t div k < m"
    then have "(t div k + 1) * k \<le> m * k" using k by (intro mult_right_mono) simp_all
    moreover have "t < (t div k + 1) * k"
      using minus_mod_eq_div_mult [of t k] pos_mod_bound [OF k, of t] by (simp add: distrib_right)
    ultimately show "t < m * k" by linarith
  next
    assume t: "t < m * k"
    show "t div k < m"
    proof (rule ccontr)
      assume "\<not> t div k < m"
      then have "m * k \<le> t div k * k" using k by (intro mult_right_mono) simp_all
      with t minus_mod_eq_div_mult [of t k] pos_mod_sign [OF k, of t] show False by linarith
    qed
  qed
qed

lemma scaled_bucketing:
  assumes "bucketing st nx" "0 < (k::int)"
  shows "bucketing (\<lambda>t. st (t div k) * k) (\<lambda>t. t + (nx (t div k) - t div k) * k)"
proof -
  note laws = assms(1) [unfolded bucketing_def]
  have le: "st n \<le> n" and ss: "st (st n) = st n" and gt: "st m = m \<Longrightarrow> m < nx m"
    and nn: "st m = m \<Longrightarrow> st (nx m) = nx m" and bk: "st m = m \<Longrightarrow> m \<le> n \<Longrightarrow> st n = m \<longleftrightarrow> n < nx m" for n m
    using laws by blast+
  have idx: "s = m * k \<and> st m = m" if "st (s div k) * k = s" "m = s div k" for s m
    using that assms(2) by (metis nonzero_mult_div_cancel_right order_less_irrefl)
  show ?thesis
  proof
    fix t show "st (t div k) * k \<le> t"
      using mult_right_mono [OF le [of "t div k"], of k] assms(2) minus_mod_eq_div_mult [of t k] pos_mod_sign [of k t]
      by linarith
    show "st (st (t div k) * k div k) * k = st (t div k) * k" using assms(2) ss by simp
  next
    fix s assume "st (s div k) * k = s"
    from idx [OF this refl] show "s < s + (nx (s div k) - s div k) * k"
      using gt [of "s div k"] assms(2) by simp
  next
    fix s assume "st (s div k) * k = s"
    from idx [OF this refl] obtain m where m: "s = m * k" "st m = m" by blast
    then have "s + (nx (s div k) - s div k) * k = nx m * k" using assms(2) by (simp add: algebra_simps)
    then show "st ((s + (nx (s div k) - s div k) * k) div k) * k = s + (nx (s div k) - s div k) * k"
      using nn [OF m(2)] assms(2) by simp
  next
    fix s t assume "st (s div k) * k = s" "s \<le> t"
    from idx [OF this(1) refl] obtain m where m: "s = m * k" "st m = m" by blast
    have "s + (nx (s div k) - s div k) * k = nx m * k" using m assms(2) by (simp add: algebra_simps)
    moreover have "m \<le> t div k" using \<open>s \<le> t\<close> zdiv_mono1 [of s t k] m assms(2) by simp
    then have "st (t div k) = m \<longleftrightarrow> t div k < nx m" by (rule bk [OF m(2)])
    moreover have "t div k < nx m \<longleftrightarrow> t < nx m * k"
      by (rule int_div_less [OF assms(2)])
    ultimately show "st (t div k) * k = s \<longleftrightarrow> t < s + (nx (s div k) - s div k) * k"
      using m assms(2) by simp
  qed
qed

lemma unit_bucketing: "bucketing (\<lambda>n. n) (\<lambda>n. n + 1)"
  by unfold_locales auto

lemma week_bucketing: "bucketing (\<lambda>n. 7 * ((n + 3) div 7) - 3 :: int) (\<lambda>n. n + 7)"
proof
  fix n :: int show "7 * ((n + 3) div 7) - 3 \<le> n"
    using mult_div_mod_eq [of 7 "n + 3"] pos_mod_sign [of 7 "n + 3"] by linarith
next
  fix s t :: int
  assume s: "7 * ((s + 3) div 7) - 3 = s" "s \<le> t"
  show "7 * ((t + 3) div 7) - 3 = s \<longleftrightarrow> t < s + 7"
    using hour_div [of 7 "s + 3" "t + 3"] s by (simp add: mult.commute) linarith
next
  fix s :: int assume "7 * ((s + 3) div 7) - 3 = s"
  then show "7 * ((s + 7 + 3) div 7) - 3 = s + 7"
    using div_add_self2 [of 7 "s + 3"] by (simp add: algebra_simps)
qed auto

lemma month_bucketing: "bucketing month_start (\<lambda>n. n + (case civil_of_days n of (y, m, d) \<Rightarrow> days_in_month y m))"
proof -
  have "0 < days_in_month y m" for y m by (simp add: days_in_month_def)
  then show ?thesis
    by unfold_locales (auto simp: month_start_bounds(1) month_start_next month_start_iff split: prod.splits)
qed

lemma chart_bucketing: "bucketing (chartBucketStart b) (nextChartBucket b)"
proof -
  consider "b = BucketHour" | "b = BucketDay" | "b = BucketWeek" | "b \<notin> {BucketHour, BucketDay, BucketWeek}" by blast
  then show ?thesis
  proof cases
    case 1
    then show ?thesis
      using scaled_bucketing [OF unit_bucketing, of "3600 * second_ns"]
      by (simp add: chartBucketStart_def [abs_def] nextChartBucket_def [abs_def])
  next
    case 2
    then show ?thesis
      using scaled_bucketing [OF unit_bucketing, of day_ns]
      by (simp add: chartBucketStart_def [abs_def] nextChartBucket_def [abs_def] startOfDay_eq BucketHour_def BucketDay_def)
  next
    case 3
    have "startOfWeek t = (7 * ((t div day_ns + 3) div 7) - 3) * day_ns" for t
    proof -
      let ?D = "t div day_ns"
      have "((?D + 4) mod 7 + 6) mod 7 = (?D + 4 + 6) mod 7" by (rule mod_add_left_eq)
      also have "\<dots> = (?D + 3 + 7) mod 7" by (simp add: algebra_simps)
      finally have "((?D + 4) mod 7 + 6) mod 7 = (?D + 3) mod 7" by (simp only: mod_add_self2)
      moreover have "?D - (?D + 3) mod 7 = 7 * ((?D + 3) div 7) - 3"
        using mult_div_mod_eq [of 7 "?D + 3"] by linarith
      ultimately show ?thesis by (simp add: startOfWeek_eq weekday_def)
    qed
    then show ?thesis
      using scaled_bucketing [OF week_bucketing, of day_ns] 3
      by (simp add: chartBucketStart_def [abs_def] nextChartBucket_def [abs_def] BucketHour_def BucketDay_def BucketWeek_def)
  next
    case 4
    have "add_date t 1 0 = t + (case civil_of_days (t div day_ns) of (y, m, d) \<Rightarrow> days_in_month y m) * day_ns" for t
      by (cases "civil_of_days (t div day_ns)") (simp add: add_month)
    then show ?thesis
      using scaled_bucketing [OF month_bucketing, of day_ns] 4
      by (simp add: chartBucketStart_def [abs_def] nextChartBucket_def [abs_def] startOfMonth_eq)
  qed
qed

interpretation chart: bucketing "chartBucketStart b" "nextChartBucket b" for b
  by (rule chart_bucketing)

subsection \<open>The buckets of the queries are those of the axis\<close>

definition rowBucket :: "string \<Rightarrow> int \<Rightarrow> int" where
  "rowBucket bucket ts = (if bucket = BucketHour then hourBucket ts
     else if bucket = BucketDay then dayBucket ts else bucketStart (dayBucket ts) bucket)"

lemma milli_div_scaled: "0 < k \<Longrightarrow> (ts * milli_ns) div (k * milli_ns) = ts div (k::int)"
  by (rule div_mult_mult1_if [of milli_ns ts k, simplified mult.commute, THEN trans]) simp

lemma rowBucket_chart:
  assumes "0 \<le> ts" "bucket_valid bucket"
  shows "of_unix_milli (rowBucket bucket ts) = chartBucketStart bucket (of_unix_milli ts)"
proof -
  have h: "of_unix_milli ts div (3600 * second_ns) = ts div 3600000"
    using milli_div_scaled [of 3600000 ts] by (simp add: of_unix_milli_def)
  have d: "of_unix_milli ts div day_ns = ts div day_ms"
    using milli_div_scaled [of day_ms ts] by (simp add: of_unix_milli_def)
  have s: "ts div day_ms * day_ms div day_ms = ts div day_ms" by simp
  consider "bucket = BucketHour" | "bucket = BucketDay" | "bucket = BucketWeek" | "bucket = BucketMonth"
    using assms(2) by (auto simp: bucket_valid_def)
  then show ?thesis
  proof cases
    case 1
    then show ?thesis using assms(1) by (simp add: rowBucket_def chartBucketStart_def h hourBucket_nonneg of_unix_milli_def)
  next
    case 2
    then show ?thesis
      using assms(1) by (simp add: rowBucket_def chartBucketStart_def startOfDay_eq d dayBucket_nonneg of_unix_milli_def
          BucketDay_def BucketHour_def)
  next
    case 3
    then show ?thesis
      using assms(1) by (simp add: rowBucket_def chartBucketStart_def startOfWeek_eq d dayBucket_nonneg s bucketStart_def
          of_unix_milli_def BucketDay_def BucketHour_def BucketWeek_def left_diff_distrib)
  next
    case 4
    then show ?thesis
      using assms(1) by (simp add: rowBucket_def chartBucketStart_def startOfMonth_eq d dayBucket_nonneg s bucketStart_def
          of_unix_milli_def BucketDay_def BucketHour_def BucketWeek_def BucketMonth_def)
  qed
qed

lemma chart_start_milli: "\<exists>m. chartBucketStart bucket t = of_unix_milli m"
proof -
  have "\<exists>m. n * day_ns = of_unix_milli m" for n
    by (intro exI [of _ "n * day_ms"]) (simp add: of_unix_milli_def)
  moreover have "\<exists>m. n * (3600 * second_ns) = of_unix_milli m" for n
    by (intro exI [of _ "n * 3600000"]) (simp add: of_unix_milli_def)
  ultimately show ?thesis
    unfolding chartBucketStart_def startOfDay_eq startOfWeek_eq startOfMonth_eq by (metis (full_types))
qed

lemma of_unix_milli_le: "of_unix_milli (unix_milli t) \<le> t" "t < of_unix_milli (unix_milli t + 1)"
  using minus_mod_eq_div_mult [of t milli_ns] pos_mod_sign [of milli_ns t] pos_mod_bound [of milli_ns t]
  by (simp_all add: of_unix_milli_def unix_milli_def distrib_right)

lemma of_unix_milli_mono: "m \<le> n \<Longrightarrow> of_unix_milli m \<le> of_unix_milli n"
  by (simp add: of_unix_milli_def)

lemma chart_start_unix [simp]: "chartBucketStart bucket (of_unix_milli (unix_milli t)) = chartBucketStart bucket t"
proof -
  let ?s = "chartBucketStart bucket t"
  obtain m where m: "?s = of_unix_milli m" using chart_start_milli by blast
  have "m \<le> unix_milli t" using unix_milli_mono [OF chart.start_le [of bucket t]] m by simp
  then have "?s \<le> of_unix_milli (unix_milli t)" unfolding m by (rule of_unix_milli_mono)
  moreover have "t < nextChartBucket bucket ?s"
    using chart.bucket [OF chart.start_start chart.start_le, of bucket t] by simp
  then have "of_unix_milli (unix_milli t) < nextChartBucket bucket ?s"
    using of_unix_milli_le(1) [of t] by linarith
  ultimately show ?thesis using chart.bucket [OF chart.start_start, of bucket t] by blast
qed

lemma group_sums_buckets:
  assumes "group_sums fst (rawFactsSQL spec bucket p rows) = days"
  shows "sorted_wrt (<) (map fst days)" "\<forall>d \<in> set days. \<exists>r \<in> set rows. p r \<and> fst d = bucket (r_ts r)"
proof -
  have "map fst days = group_keys fst (rawFactsSQL spec bucket p rows)"
    using assms by (auto simp: group_sums_def o_def)
  moreover have "sorted_wrt (<) (group_keys fst (rawFactsSQL spec bucket p rows))"
    by (simp add: group_keys_def strict_sorted_iff)
  moreover have "\<forall>b \<in> set (group_keys fst (rawFactsSQL spec bucket p rows)). \<exists>r \<in> set rows. p r \<and> b = bucket (r_ts r)"
    by (auto simp: group_keys_def rawFactsSQL_def)
  ultimately show "sorted_wrt (<) (map fst days)" "\<forall>d \<in> set days. \<exists>r \<in> set rows. p r \<and> fst d = bucket (r_ts r)"
    by (metis, metis image_eqI set_map)
qed

lemma timeseries_rows:
  assumes "writes\<^sup>*\<^sup>* empty_store st" "groups 0 = None" "Timeseries now groups f bucket st = Inr pts"
  shows "\<exists>f'. normalize_filter now f = Inr f' \<and> sorted_wrt (<) (map tp_bucket pts)
    \<and> (\<forall>p \<in> set pts. \<exists>r \<in> set (s_rows st). 0 \<le> r_ts r \<and> whereSQL groups f' r \<and> tp_bucket p = rowBucket bucket (r_ts r))"
proof -
  from reachable_ok [OF assms(1)] have ok: "rollup_ok usageRollup (s_rows st) (s_usage st)"
    "\<forall>r \<in> set (s_rows st). row_ok r" "\<forall>r \<in> set (s_rows st). 0 \<le> r_ts r"
    by (simp_all add: store_ok_def dated_def)
  from assms(3) obtain f' where f: "bucket_valid bucket" "normalize_filter now f = Inr f'"
    "pts = timeseries_of bucket (factsSQL usageRollup groups f' (bucket = BucketHour) (s_rows st) (s_usage st))"
    by (auto simp: Timeseries_def ebind_Inr split: if_splits)
  let ?b = "if bucket = BucketHour then hourBucket else dayBucket"
  let ?t = "rawFactsSQL usageRollup ?b (whereSQL groups f') (s_rows st)"
  have "same_facts (factsSQL usageRollup groups f' (bucket = BucketHour) (s_rows st) (s_usage st)) ?t"
    by (rule usage_query.factsSQL_exact [where groups = groups, OF ok(1,2) normalize_filter_valid [OF f(2)] assms(2) ok(3)])
  from same_facts_groups(2) [OF this, of fst] have pts: "pts = timeseries_of bucket ?t"
    by (simp add: f(3) timeseries_of_def)
  define days where "days = group_sums fst ?t"
  note g = group_sums_buckets [OF days_def [symmetric]]
  have days: "map fst (map (\<lambda>(b, f). (b, day_row f)) days) = map fst days" by auto
  show ?thesis
  proof (cases "directSQL bucket")
    case True
    then have b: "map tp_bucket pts = map fst days"
      unfolding pts timeseries_of_def days_def [symmetric] by (auto simp: point_def Let_def)
    then have set: "tp_bucket ` set pts = fst ` set days" by (metis set_map)
    have rb: "?b = rowBucket bucket" using True by (auto simp: directSQL_def rowBucket_def fun_eq_iff)
    have "\<forall>b \<in> tp_bucket ` set pts. \<exists>r \<in> set (s_rows st). 0 \<le> r_ts r \<and> whereSQL groups f' r \<and> b = rowBucket bucket (r_ts r)"
      unfolding set using g(2) ok(3) unfolding rb by fastforce
    then show ?thesis using g(1) f(2) unfolding b by blast
  next
    case False
    let ?ds = "map (\<lambda>(b, f). (b, day_row f)) days"
    have hour: "bucket \<noteq> BucketHour" using False by (simp add: directSQL_def)
    have "sorted (map fst ?ds)" unfolding days using g(1) by (simp add: strict_sorted_iff)
    moreover have "\<forall>d \<in> set ?ds. day_ms dvd fst d"
      using g(2) hour ok(3) by (fastforce simp: dayBucket_nonneg)
    ultimately have m: "map tp_bucket pts = sort (remdups (map (\<lambda>d. bucketStart (fst d) bucket) ?ds))"
      unfolding pts timeseries_of_def days_def [symmetric] using False
      by (simp add: merge_days_exact point_def o_def Let_def)
    then have "sorted_wrt (<) (map tp_bucket pts)" by (simp add: strict_sorted_iff)
    moreover have "\<forall>b \<in> set (map tp_bucket pts). \<exists>r \<in> set (s_rows st). 0 \<le> r_ts r \<and> whereSQL groups f' r \<and> b = rowBucket bucket (r_ts r)"
      unfolding m using g(2) hour False ok(3) by (fastforce simp: rowBucket_def directSQL_def)
    ultimately show ?thesis using f(2) by auto
  qed
qed

subsection \<open>Filling the gaps\<close>

lemma points_by_start_eq:
  assumes "sorted_wrt (<) (map tp_bucket pts)"
  shows "points_by_start pts b = Some p \<longleftrightarrow> p \<in> set pts \<and> tp_bucket p = b"
proof -
  have "distinct (map fst (rev (map (\<lambda>p. (tp_bucket p, p)) pts)))"
    using assms by (simp add: rev_map [symmetric] o_def strict_sorted_iff)
  then show ?thesis unfolding points_by_start_def by (auto simp: map_of_eq_Some_iff)
qed

lemma sorted_filter_buckets:
  "sorted_wrt (<) (map tp_bucket xs) \<Longrightarrow> sorted_wrt (<) (map tp_bucket (filter P xs))"
  by (induction xs) auto

lemma filter_points:
  assumes "sorted_wrt (<) (map tp_bucket out)" "sorted_wrt (<) (map tp_bucket pts)" "set pts \<subseteq> set out"
  shows "filter (\<lambda>p. p \<in> set pts) out = pts"
proof -
  let ?g = "filter (\<lambda>p. p \<in> set pts) out"
  have set: "set ?g = set pts" using assms(3) by auto
  have "map tp_bucket ?g = map tp_bucket pts"
    using sorted_filter_buckets [OF assms(1), of "\<lambda>p. p \<in> set pts"] assms(2) set
    by (intro sorted_distinct_set_unique) (auto simp: strict_sorted_iff)
  moreover have "inj_on tp_bucket (set pts)" using assms(2) by (simp add: strict_sorted_iff distinct_map)
  ultimately show ?thesis using set by (intro map_inj_on [of tp_bucket]) auto
qed

lemma fill_cases:
  assumes "pts \<noteq> []" "fill_span pts f now = (lo, hi)" "chartBucketStart bucket lo \<le> chartBucketStart bucket (hi - 1)"
  shows "fillTimeseries pts f bucket now =
    (let ts = chart_buckets bucket (chartBucketStart bucket lo) (chartBucketStart bucket (hi - 1)) in
     if 1000 < length ts then pts
     else map (\<lambda>t. case points_by_start pts (unix_milli t) of Some p \<Rightarrow> p | None \<Rightarrow> empty_point (unix_milli t)) ts)"
  using assms by (simp add: fillTimeseries_def count_buckets_eq Let_def)


definition whole_filter :: filter_spec where
  "whole_filter = \<lparr>fl_from = zero_time, fl_to = zero_time, fl_source = [], fl_provider = [], fl_model = [],
     fl_conversation = [], fl_group = [], fl_ungrouped = False, fl_token = [], fl_unbounded = False\<rparr>"

lemma sample_series: "\<exists>p. Timeseries 1700010000000000000 (\<lambda>_. None) whole_filter BucketHour sample_store = Inr [p]
    \<and> tp_bucket p = 1699999200000 \<and> f_input (tp_sums p) = 5"
proof -
  have "case Timeseries 1700010000000000000 (\<lambda>_. None) whole_filter BucketHour sample_store of
     Inr ps \<Rightarrow> map tp_bucket ps = [1699999200000] \<and> map (\<lambda>p. f_input (tp_sums p)) ps = [5] | Inl _ \<Rightarrow> False"
    unfolding Timeseries_def factsSQL_def sample_store_rows by code_simp
  then show ?thesis by (auto split: sum.splits)
qed


section \<open>Series\<close>

text \<open>A chart value: a count, a cost, a rate, or a gap.\<close>

datatype chart_value = CountVal int | CostVal rat | RateVal f64 | Gap

record chartSeries =
  se_name :: string
  se_fmt :: string
  se_span_gaps :: bool
  se_values :: "chart_value list"

record chartJSON =
  ch_labels :: "int list"
  ch_series :: "chartSeries list"
  ch_span :: int

definition no_chart :: chartJSON where
  "no_chart = \<lparr>ch_labels = [], ch_series = [], ch_span = 0\<rparr>"

definition count_series :: "string \<Rightarrow> int list \<Rightarrow> chartSeries" where
  "count_series name vs = \<lparr>se_name = name, se_fmt = [], se_span_gaps = False, se_values = map CountVal vs\<rparr>"

definition buildTokenChart :: "TimeseriesPoint list \<Rightarrow> string \<Rightarrow> chartJSON \<times> bool" where
  "buildTokenChart pts bucket = (\<lparr>ch_labels = map tp_bucket pts,
     ch_series = [count_series ''Input'' (map (\<lambda>p. f_input (tp_sums p)) pts),
       count_series ''Output'' (map (\<lambda>p. f_output (tp_sums p)) pts),
       count_series ''Cache read'' (map (\<lambda>p. f_cache_read (tp_sums p)) pts),
       count_series ''Cache creation'' (map (\<lambda>p. f_cache_creation (tp_sums p)) pts),
       count_series ''Reasoning'' (map (\<lambda>p. f_reasoning (tp_sums p)) pts)],
     ch_span = SpanSeconds bucket\<rparr>, pts \<noteq> [])"

definition cost_value :: "TimeseriesPoint \<Rightarrow> chart_value" where
  "cost_value p = (case tp_cost p of Some c \<Rightarrow> CostVal c
     | None \<Rightarrow> if f_requests (tp_sums p) = 0 then CostVal 0 else Gap)"

definition buildCostChart :: "TimeseriesPoint list \<Rightarrow> string \<Rightarrow> chartJSON \<times> bool" where
  "buildCostChart pts bucket = (if \<forall>p \<in> set pts. tp_cost p = None then (no_chart, False)
     else (\<lparr>ch_labels = map tp_bucket pts,
       ch_series = [\<lparr>se_name = ''Cost'', se_fmt = ''cost'', se_span_gaps = False, se_values = map cost_value pts\<rparr>],
       ch_span = SpanSeconds bucket\<rparr>, True))"

definition friendlySource :: "string \<Rightarrow> string" where
  "friendlySource s = (if s = ''opencode'' then ''OpenCode'' else if s = ''copilot'' then ''VS Code Copilot''
     else if s = ''codex'' then ''Codex'' else if s = ''maki'' then ''Maki''
     else if s = ''claude-code'' then ''Claude Code'' else s)"

text \<open>The values of a source by bucket; the last point of a bucket wins, absent ones are zero.\<close>

definition source_value :: "source_point list \<Rightarrow> string \<Rightarrow> int \<Rightarrow> int" where
  "source_value pts src l = (case map_of (rev (map (\<lambda>((b, s), f). ((s, b), factTotalTokensSQL f)) pts)) (src, l) of
     None \<Rightarrow> 0 | Some n \<Rightarrow> n)"

definition buildSourceChart :: "source_point list \<Rightarrow> TimeseriesPoint list \<Rightarrow> string \<Rightarrow> chartJSON \<times> bool" where
  "buildSourceChart pts totals bucket = (if pts = [] then (no_chart, False)
     else let labels = sort (map tp_bucket totals); sources = sort (remdups (map (\<lambda>p. snd (fst p)) pts)) in
       (\<lparr>ch_labels = labels,
         ch_series = map (\<lambda>src. count_series (friendlySource src) (map (source_value pts src) labels)) sources,
         ch_span = SpanSeconds bucket\<rparr>, True))"

definition rate_value :: "TimeseriesPoint \<Rightarrow> chart_value" where
  "rate_value p = (case CacheHitRate (f_input (tp_sums p)) (f_cache_read (tp_sums p)) (f_cache_creation (tp_sums p)) of
     Some r \<Rightarrow> RateVal (f_mul r (Fin 100)) | None \<Rightarrow> Gap)"

definition buildCacheChart :: "TimeseriesPoint list \<Rightarrow> string \<Rightarrow> chartJSON \<times> bool" where
  "buildCacheChart pts bucket = (if \<forall>p \<in> set pts. rate_value p = Gap then (no_chart, False)
     else (\<lparr>ch_labels = map tp_bucket pts,
       ch_series = [\<lparr>se_name = ''Cache hit rate'', se_fmt = ''pct'', se_span_gaps = True, se_values = map rate_value pts\<rparr>],
       ch_span = SpanSeconds bucket\<rparr>, pts \<noteq> []))"

section \<open>Cards\<close>

record periodModes =
  pm_rolling :: bool

definition parsePeriodModes :: "url_values \<Rightarrow> request_error + periodModes" where
  "parsePeriodModes q = (let v = q_get q ''period_mode'' in
     if v = ''calendar'' then Inr \<lparr>pm_rolling = False\<rparr>
     else if v = [] \<or> v = ''rolling'' then Inr \<lparr>pm_rolling = True\<rparr>
     else Inl InvalidPeriodMode)"

definition periodStart :: "string \<Rightarrow> int \<Rightarrow> periodModes \<Rightarrow> (int \<times> string) option" where
  "periodStart period now modes =
     (if period = ''today'' then Some (startOfDay now, ''Today'')
      else if period = ''week'' then
        (if pm_rolling modes then Some (now - 7 * day_ns, ''Last 7 days'') else Some (startOfWeek now, ''This week''))
      else if period = ''month'' then
        (if pm_rolling modes then Some (now - 30 * day_ns, ''Last 30 days'') else Some (startOfMonth now, ''This month''))
      else if period = ''all'' then Some (zero_time, ''All time'')
      else None)"

record cardView =
  cv_period :: string
  cv_label :: string
  cv_hero :: bool
  cv_sum :: SummaryResult
  cv_since :: "int option"

definition card_periods :: "int \<Rightarrow> periodModes \<Rightarrow> (string \<times> string \<times> int \<times> bool) list" where
  "card_periods now modes =
     (let ps = [(''today'', ''Today'', startOfDay now, True), (''week'', ''This week'', startOfWeek now, False),
            (''month'', ''This month'', startOfMonth now, False), (''all'', ''All time'', zero_time, False)] in
      if pm_rolling modes
      then ps[1 := (''week'', ''Last 7 days'', now - 7 * day_ns, False),
              2 := (''month'', ''Last 30 days'', now - 30 * day_ns, False)]
      else ps)"

fun collect :: "('a \<Rightarrow> 'e + 'b) \<Rightarrow> 'a list \<Rightarrow> 'e + 'b list" where
  "collect f [] = Inr []"
| "collect f (x # xs) = ebind (f x) (\<lambda>y. ebind (collect f xs) (\<lambda>ys. Inr (y # ys)))"

text \<open>\<open>now\<close> is the clock of the page and \<open>clock i\<close> that of the \<open>i\<close>-th query that follows.\<close>

definition cards :: "int \<Rightarrow> (nat \<Rightarrow> int) \<Rightarrow> (int \<Rightarrow> string option) \<Rightarrow> uiFilter \<Rightarrow> periodModes \<Rightarrow> store
    \<Rightarrow> query_error + cardView list" where
  "cards now clock groups u modes st = ebind (collect (\<lambda>(i, period, label, lo, hero).
       ebind (Summary (clock i) groups (dims_filter u lo zero_time) st) (\<lambda>s.
         Inr \<lparr>cv_period = period, cv_label = label, cv_hero = hero, cv_sum = s, cv_since = None\<rparr>))
       (enumerate 0 (card_periods now modes))) (\<lambda>out.
     ebind (Earliest (clock 4) groups (dims_filter u zero_time zero_time) st) (\<lambda>since.
       Inr (map (\<lambda>c. if cv_period c = ''all'' then c\<lparr>cv_since := since\<rparr> else c) out)))"

record periodDetailView =
  pd_period :: string
  pd_label :: string
  pd_sum :: SummaryResult
  pd_since :: "int option"

text \<open>The expansion of a card; \<open>None\<close> for a period that does not exist.\<close>

definition period_detail :: "int \<Rightarrow> int \<Rightarrow> (int \<Rightarrow> string option) \<Rightarrow> string \<Rightarrow> uiFilter \<Rightarrow> periodModes \<Rightarrow> store
    \<Rightarrow> (query_error + periodDetailView) option" where
  "period_detail now clock groups period u modes st = (case periodStart period now modes of None \<Rightarrow> None
     | Some (lo, label) \<Rightarrow> Some (ebind (Summary clock groups (dims_filter u lo zero_time) st) (\<lambda>s.
         ebind (if period = ''all'' then Earliest clock groups (dims_filter u zero_time zero_time) st else Inr None) (\<lambda>since.
           Inr \<lparr>pd_period = period, pd_label = label, pd_sum = s, pd_since = since\<rparr>))))"

section \<open>The leaderboard and the totals\<close>

record leaderboardRow =
  lr_rank_of :: ModelRank
  lr_rank :: nat
  lr_share :: rat

definition rank_value :: "metric \<Rightarrow> ModelRank \<Rightarrow> rat" where
  "rank_value metric r = (case metric of RankDays \<Rightarrow> of_nat (mr_active_days r)
     | RankCost \<Rightarrow> (case mr_cost_total r of None \<Rightarrow> 0 | Some c \<Rightarrow> c)
     | RankTokens \<Rightarrow> of_int (mr_total_tokens r))"

definition buildLeaderboard :: "metric \<Rightarrow> ModelRank list \<Rightarrow> leaderboardRow list" where
  "buildLeaderboard metric ranks = map (\<lambda>(i, r). let lead = rank_value metric (hd ranks) in
     \<lparr>lr_rank_of = r, lr_rank = i + 1,
      lr_share = (if 0 < lead \<and> 0 < rank_value metric r then max (rank_value metric r / lead * 100) (3 / 2) else 0)\<rparr>)
     (enumerate 0 ranks)"

definition totalBreakdown :: "Breakdown list \<Rightarrow> Breakdown" where
  "totalBreakdown rows = (let t = sum_list (map bd_sums rows) in
     \<lparr>bd_key = [], bd_sums = t, bd_cost_unknown = sum_list (map bd_cost_unknown rows),
      bd_cost_total = (if 0 < f_known t then Some (sum_list (map (\<lambda>b. opt_rat (bd_cost_total b)) rows)) else None)\<rparr>)"

text \<open>The cards and the expansion of a card show the same period.\<close>

lemma card_detail_agree:
  "(period, label, lo, hero) \<in> set (card_periods now modes) \<Longrightarrow> periodStart period now modes = Some (lo, label)"
  by (auto simp: card_periods_def periodStart_def Let_def split: if_splits)

section \<open>Everything adds up\<close>

lemma sum_list_partition:
  fixes v :: "'a \<Rightarrow> facts"
  assumes "distinct hs" "\<forall>x \<in> set xs. k x \<in> set hs"
  shows "sum_list (map (\<lambda>h. sum_list (map v (filter (\<lambda>x. k x = h) xs))) hs) = sum_list (map v xs)"
  using assms(2)
proof (induction xs)
  case (Cons x xs)
  have "sum_list (map (\<lambda>h. (if k x = h then v x else 0) + g h) hs) = v x + sum_list (map g hs)"
    if "k x \<in> set hs" for g :: "'b \<Rightarrow> facts"
  proof -
    have "sum_list (map (\<lambda>h. if k x = h then v x else 0) hs) = (if k x \<in> set hs then v x else 0)"
      using assms(1) by (induction hs) auto
    with that show ?thesis by (simp add: sum_list_addf)
  qed
  moreover have "sum_list (map v (filter (\<lambda>x. k x = h) (x # xs)))
      = (if k x = h then v x else 0) + sum_list (map v (filter (\<lambda>x. k x = h) xs))" for h by simp
  moreover have "(\<Sum>h\<leftarrow>hs. sum_list (map v (filter (\<lambda>x. k x = h) xs))) = sum_list (map v xs)" "k x \<in> set hs"
    using Cons by simp_all
  ultimately show ?case by (simp only: sum_list.Cons list.map)
qed simp

lemma group_sums_total: "sum_list (map snd (group_sums key t)) = fact_sum (\<lambda>_. True) t"
  using sum_list_partition [of "group_keys key t" t "\<lambda>x. key (fst x)" "\<lambda>x. fst (snd x)"]
  by (simp add: group_sums_def o_def fact_sum_def group_keys_def)

lemma raw_fact_sum: "fact_sum Q (rawFactsSQL spec b p rows)
    = sum_list (map factMeasures (filter (\<lambda>r. Q (b (r_ts r), keys spec r)) (filter p rows)))"
  by (induction rows) (simp_all add: rawFactsSQL_def fact_sum_def)

text \<open>A sum of facts without a known cost has cost zero.\<close>

definition cost_counted :: "facts \<Rightarrow> bool" where
  "cost_counted f \<longleftrightarrow> 0 \<le> f_known f \<and> (f_known f = 0 \<longrightarrow> f_cost f = 0)"

lemma cost_counted_sum: "cost_counted (sum_list (map factMeasures rs))"
proof (induction rs)
  case (Cons r rs)
  then show ?case by (cases "r_cost r") (auto simp: cost_counted_def factMeasures_def)
qed (simp add: cost_counted_def)

lemma opt_rat_cost: "cost_counted f \<Longrightarrow> opt_rat (factCostSQL f) = f_cost f"
  by (auto simp: cost_counted_def factCostSQL_def opt_rat_def)

lemma day_row_counted: "cost_counted f \<Longrightarrow> day_row f = f"
  by (cases f) (auto simp: cost_counted_def day_row_def factCostSQL_def)

lemma facts_sum_sel: "f_cost (sum_list fs) = sum_list (map f_cost fs)" "f_known (sum_list fs) = sum_list (map f_known fs)"
  "f_requests (sum_list fs) = sum_list (map f_requests fs)"
  by (induction fs) simp_all

lemma sum_list_sort_key: "sum_list (map g (sort_key k xs)) = (sum_list (map g xs) :: 'a :: comm_monoid_add)"
proof -
  have "mset (map g (sort_key k xs)) = mset (map g xs)" by simp
  then show ?thesis by (metis sum_mset_sum_list)
qed

lemma breakdown_total:
  assumes "\<forall>x \<in> set (group_sums (column_key groups c) t). cost_counted (snd x)"
    and "length (breakdown_of groups c t) < maxBreakdownGroups"
  shows "let b = totalBreakdown (breakdown_of groups c t); s = fact_sum (\<lambda>_. True) t in
    bd_sums b = s \<and> bd_cost_unknown b = factUnknownSQL s \<and> bd_cost_total b = factCostSQL s"
proof -
  define row where "row = (\<lambda>(k, s). \<lparr>bd_key = k, bd_sums = s, bd_cost_unknown = factUnknownSQL s,
            bd_cost_total = factCostSQL s\<rparr>)"
  define gs where "gs = group_sums (column_key groups c) t"
  define rows where "rows = (if c \<in> {ColModel, ColGroup, ColToken}
            then sort_key (\<lambda>b. - factTotalTokensSQL (bd_sums b)) (map row gs) else map row gs)"
  have b: "breakdown_of groups c t = take maxBreakdownGroups rows"
    by (simp add: breakdown_of_def Let_def rows_def row_def gs_def)
  then have take: "breakdown_of groups c t = rows" using assms(2) by (simp add: min_def split: if_splits)
  have sum: "sum_list (map g rows) = sum_list (map g (map row gs))" for g :: "Breakdown \<Rightarrow> 'b :: comm_monoid_add"
    unfolding rows_def by (simp only: sum_list_sort_key split: if_split) simp
  have s: "sum_list (map snd gs) = fact_sum (\<lambda>_. True) t" unfolding gs_def by (rule group_sums_total)
  have 1: "sum_list (map bd_sums rows) = fact_sum (\<lambda>_. True) t"
    unfolding sum using s by (simp add: o_def row_def case_prod_unfold)
  have 2: "sum_list (map bd_cost_unknown rows) = factUnknownSQL (fact_sum (\<lambda>_. True) t)"
    unfolding sum s [symmetric] factUnknownSQL_def facts_sum_sel
    by (simp add: o_def row_def case_prod_unfold factUnknownSQL_def sum_list_subtractf)
  have "sum_list (map (\<lambda>b. opt_rat (bd_cost_total b)) rows) = sum_list (map (\<lambda>x. f_cost (snd x)) gs)"
    unfolding sum using assms(1) by (simp add: o_def row_def case_prod_unfold opt_rat_cost gs_def cong: map_cong)
  also have "\<dots> = f_cost (fact_sum (\<lambda>_. True) t)" unfolding s [symmetric] facts_sum_sel by (simp add: o_def)
  finally show ?thesis
    by (simp add: totalBreakdown_def take 1 2 Let_def factCostSQL_def)
qed

lemma merge_days_total:
  assumes "sorted (map fst days)" "\<forall>d \<in> set days. day_ms dvd fst d"
  shows "sum_list (map tp_sums (mergeDays b days)) = sum_list (map snd days)"
  unfolding merge_days_exact [OF assms] using sum_list_partition [of
      "sort (remdups (map (\<lambda>d. bucketStart (fst d) b) days))" days "\<lambda>d. bucketStart (fst d) b" snd]
  by (simp add: o_def point_def)

text \<open>Cards, tables and charts of a page show the same totals: the totals row of every breakdown table
  (below the cap of a thousand groups) and the sum over the points of every chart are the summary's, counts,
  tokens and costs alike.\<close>

lemma totals_agree:
  assumes "writes\<^sup>*\<^sup>* empty_store st" "groups 0 = None" "Summary now groups f st = Inr s"
  shows "(case breakdown now groups f c st of Inr rows \<Rightarrow> length rows < maxBreakdownGroups \<longrightarrow>
        bd_sums (totalBreakdown rows) = sm_sums s \<and> bd_cost_total (totalBreakdown rows) = sm_cost_total s
        \<and> bd_cost_unknown (totalBreakdown rows) = sm_cost_unknown s | Inl _ \<Rightarrow> False)
    \<and> (case Timeseries now groups f bucket st of Inr pts \<Rightarrow> sum_list (map tp_sums pts) = sm_sums s
       | Inl e \<Rightarrow> \<not> bucket_valid bucket)"
proof -
  from reachable_ok [OF assms(1)] have ok: "rollup_ok usageRollup (s_rows st) (s_usage st)"
    "\<forall>r \<in> set (s_rows st). row_ok r" "\<forall>r \<in> set (s_rows st). 0 \<le> r_ts r"
    by (simp_all add: store_ok_def dated_def)
  from assms(3) obtain f' where f: "normalize_filter now f = Inr f'"
    and s: "s = summary_of (factsSQL usageRollup groups f' False (s_rows st) (s_usage st))"
    by (auto simp: Summary_def ebind_Inr)
  let ?raw = "\<lambda>b. rawFactsSQL usageRollup b (whereSQL groups f') (s_rows st)"
  have same: "same_facts (factsSQL usageRollup groups f' hourly (s_rows st) (s_usage st))
      (?raw (if hourly then hourBucket else dayBucket))" for hourly
    by (rule usage_query.factsSQL_exact [where groups = groups, OF ok(1,2) normalize_filter_valid [OF f] assms(2) ok(3)])
  have total: "fact_sum (\<lambda>_. True) (?raw b) = sum_list (map factMeasures (filter (whereSQL groups f') (s_rows st)))" for b
    by (simp add: raw_fact_sum)
  have sum: "sm_sums s = fact_sum (\<lambda>_. True) (?raw b)" for b
    using same [of False] unfolding s total by (simp add: summary_of_def same_facts_def total Let_def)
  have counted: "\<forall>x \<in> set (group_sums key (?raw b)). cost_counted (snd x)" for key :: "_ \<Rightarrow> 'h :: linorder" and b
    by (auto simp: group_sums_def raw_fact_sum cost_counted_sum)
  have bd: "breakdown_of groups c (factsSQL usageRollup groups f' False (s_rows st) (s_usage st))
      = breakdown_of groups c (?raw dayBucket)"
    using same_facts_groups(2) [OF same [of False], of "column_key groups c"] by (simp add: breakdown_of_def)
  have cost: "sm_cost_total s = factCostSQL (sm_sums s)" "sm_cost_unknown s = factUnknownSQL (sm_sums s)"
    by (simp_all add: s summary_of_def Let_def)
  have "case breakdown now groups f c st of Inr rows \<Rightarrow> length rows < maxBreakdownGroups \<longrightarrow>
        bd_sums (totalBreakdown rows) = sm_sums s \<and> bd_cost_total (totalBreakdown rows) = sm_cost_total s
        \<and> bd_cost_unknown (totalBreakdown rows) = sm_cost_unknown s | Inl _ \<Rightarrow> False"
    using breakdown_total [OF counted [of "column_key groups c" dayBucket]]
    by (simp add: breakdown_def f bd cost sum [of dayBucket] Let_def)
  moreover have "sum_list (map tp_sums pts) = sm_sums s" if "Timeseries now groups f bucket st = Inr pts" for pts
  proof -
    let ?b = "if bucket = BucketHour then hourBucket else dayBucket"
    define days where "days = group_sums fst (?raw ?b)"
    have "map (\<lambda>(b, f). (b, day_row f)) days = days"
      using counted [of fst ?b] unfolding days_def by (intro map_idI) (auto simp: day_row_counted)
    then have pts: "pts = (if directSQL bucket then map (\<lambda>(b, f). point b f) days else mergeDays bucket days)"
      using that same_facts_groups(2) [OF same [of "bucket = BucketHour"], of fst]
      by (simp add: Timeseries_def f timeseries_of_def days_def Let_def split: if_splits)
    have days: "sum_list (map snd days) = sm_sums s" unfolding days_def group_sums_total by (rule sum [symmetric])
    show ?thesis
    proof (cases "directSQL bucket")
      case True
      then show ?thesis using days by (simp add: pts o_def case_prod_unfold point_def)
    next
      case False
      note g = group_sums_buckets [OF days_def [symmetric]]
      have "sorted (map fst days)" using g(1) by (simp add: strict_sorted_iff)
      moreover have "\<forall>d \<in> set days. day_ms dvd fst d"
        using g(2) False ok(3) by (fastforce simp: dayBucket_nonneg directSQL_def)
      ultimately show ?thesis using False merge_days_total [of days bucket] days by (simp add: pts)
    qed
  qed
  moreover have "bucket_valid bucket \<Longrightarrow> \<exists>pts. Timeseries now groups f bucket st = Inr pts"
    by (simp add: Timeseries_def f)
  ultimately show ?thesis by (cases "Timeseries now groups f bucket st") auto
qed

end
