(* ===== verification/Tokens.thy ===== *)
theory Tokens
  imports Store "HOL-Library.Product_Lexorder" "HOL-Library.List_Lexorder" "HOL-Library.Char_ord"
begin

text \<open>
  Bearer tokens: the table \<open>api_tokens\<close> with its retired hashes (\<open>internal/storage/tokens.go\<close>) and
  the token store that caches the active hashes in memory (\<open>internal/auth/tokens.go\<close>).

  Every operation of the token store holds one lock from its transaction to the publication of
  the result, so it is one step here.  \<open>H\<close> is SHA-256, \<open>plain\<close> a freshly drawn secret, \<open>fault\<close> says
  whether the transaction fails; \<open>now\<close> is the clock.
\<close>

section \<open>The tables\<close>

record api_token =
  t_id :: int
  t_name :: string
  t_group :: string
  t_hash :: string
  t_hint :: string
  t_created :: int
  t_last_used :: "int option"
  t_revoked :: "int option"

record token_db =
  td_tokens :: "api_token list"
  td_retired :: "(string \<times> int \<times> int) list"

datatype token_error = ErrTokenNotFound | TokenDBError

definition empty_token_db :: token_db where
  "empty_token_db = \<lparr>td_tokens = [], td_retired = []\<rparr>"

definition Active :: "api_token \<Rightarrow> bool" where
  "Active t \<longleftrightarrow> t_revoked t = None"

definition Label :: "api_token \<Rightarrow> string" where
  "Label t = (if t_group t = [] then t_name t else t_group t @ '' / '' @ t_name t)"

text \<open>\<open>CleanTokenField\<close>: the trimmed field, or an error.\<close>

function rune_count :: "string \<Rightarrow> nat" where
  "rune_count s = (if s = [] then 0 else 1 + rune_count (drop (max 1 (rune_len s)) s))"
  by pat_completeness auto
termination
  by (relation "measure length") auto

declare rune_count.simps [simp del]

definition maxTokenFieldLen :: nat where "maxTokenFieldLen = 64"

datatype field_error = FieldRequired | InvalidUTF8 | FieldTooLong | ControlCharacters

definition CleanTokenField :: "string \<Rightarrow> bool \<Rightarrow> field_error + string" where
  "CleanTokenField v0 required = (let v = trim_space v0 in
     if required \<and> v = [] then Inl FieldRequired
     else if \<not> valid_utf8 v then Inl InvalidUTF8
     else if maxTokenFieldLen < rune_count v then Inl FieldTooLong
     else if list_ex (\<lambda>c. byte_in 0 31 c \<or> byte_in 127 127 c) v then Inl ControlCharacters
     else Inr v)"

definition next_token :: "token_db \<Rightarrow> int" where
  "next_token db = 1 + foldr (\<lambda>t m. max (t_id t) m) (td_tokens db) 0"

definition hash_known :: "string \<Rightarrow> token_db \<Rightarrow> bool" where
  "hash_known h db \<longleftrightarrow> list_ex (\<lambda>t. t_hash t = h) (td_tokens db)"

definition new_token :: "int \<Rightarrow> string \<Rightarrow> string \<Rightarrow> string \<Rightarrow> string \<Rightarrow> token_db \<Rightarrow> api_token" where
  "new_token now name grp hash hint db = \<lparr>t_id = next_token db, t_name = name, t_group = grp,
     t_hash = hash, t_hint = hint, t_created = unix_milli now, t_last_used = None, t_revoked = None\<rparr>"

text \<open>The hash column is unique.\<close>

definition CreateToken :: "bool \<Rightarrow> int \<Rightarrow> string \<Rightarrow> string \<Rightarrow> string \<Rightarrow> string \<Rightarrow> token_db \<Rightarrow> (token_error + int) \<times> token_db" where
  "CreateToken fault now name grp hash hint db =
     (if fault \<or> hash_known hash db then (Inl TokenDBError, db)
      else (Inr (next_token db), db\<lparr>td_tokens := td_tokens db @ [new_token now name grp hash hint db]\<rparr>))"

definition ListTokens :: "token_db \<Rightarrow> api_token list" where
  "ListTokens db = sort_key (\<lambda>t. (t_group t, t_name t, t_id t)) (td_tokens db)"

definition has_id :: "int \<Rightarrow> token_db \<Rightarrow> bool" where
  "has_id i db \<longleftrightarrow> list_ex (\<lambda>t. t_id t = i) (td_tokens db)"

definition on_id :: "int \<Rightarrow> (api_token \<Rightarrow> api_token) \<Rightarrow> token_db \<Rightarrow> token_db" where
  "on_id i f db = db\<lparr>td_tokens := map (\<lambda>t. if t_id t = i then f t else t) (td_tokens db)\<rparr>"

definition UpdateToken :: "bool \<Rightarrow> int \<Rightarrow> string \<Rightarrow> string \<Rightarrow> token_db \<Rightarrow> (token_error + unit) \<times> token_db" where
  "UpdateToken fault i name grp db =
     (if fault then (Inl TokenDBError, db) else if \<not> has_id i db then (Inl ErrTokenNotFound, db)
      else (Inr (), on_id i (\<lambda>t. t\<lparr>t_name := name, t_group := grp\<rparr>) db))"

definition RevokeToken :: "bool \<Rightarrow> int \<Rightarrow> int \<Rightarrow> token_db \<Rightarrow> (token_error + unit) \<times> token_db" where
  "RevokeToken fault now i db =
     (if fault then (Inl TokenDBError, db) else if \<not> has_id i db then (Inl ErrTokenNotFound, db)
      else (Inr (), on_id i (\<lambda>t. t\<lparr>t_revoked :=
        (case t_revoked t of Some r \<Rightarrow> Some r | None \<Rightarrow> Some (unix_milli now))\<rparr>) db))"

definition retire :: "int \<Rightarrow> int \<Rightarrow> token_db \<Rightarrow> token_db" where
  "retire now i db = db\<lparr>td_retired := td_retired db @
     map (\<lambda>t. (t_hash t, i, unix_milli now))
       (filter (\<lambda>t. t_id t = i \<and> t_hash t \<notin> fst ` set (td_retired db)) (td_tokens db))\<rparr>"

definition RegenerateToken :: "bool \<Rightarrow> int \<Rightarrow> int \<Rightarrow> string \<Rightarrow> string \<Rightarrow> token_db \<Rightarrow> (token_error + unit) \<times> token_db" where
  "RegenerateToken fault now i hash hint db =
     (if fault \<or> (has_id i db \<and> list_ex (\<lambda>t. t_hash t = hash \<and> t_id t \<noteq> i) (td_tokens db)) then (Inl TokenDBError, db)
      else if \<not> has_id i db then (Inl ErrTokenNotFound, db)
      else (Inr (), on_id i (\<lambda>t. t\<lparr>t_hash := hash, t_hint := hint, t_revoked := None, t_last_used := None\<rparr>)
        (retire now i db)))"

definition TokenHashes :: "token_db \<Rightarrow> (string \<times> int) list \<times> nat" where
  "TokenHashes db = (map (\<lambda>t. (t_hash t, t_id t))
       (filter (\<lambda>t. t_revoked t = None \<and> length (t_hash t) = 32) (td_tokens db)),
     length (td_tokens db))"

definition touch :: "int \<Rightarrow> api_token \<Rightarrow> api_token" where
  "touch ms t = t\<lparr>t_last_used := Some (max (case t_last_used t of None \<Rightarrow> 0 | Some u \<Rightarrow> u) ms)\<rparr>"

definition TouchTokens :: "bool \<Rightarrow> (int \<times> int) list \<Rightarrow> token_db \<Rightarrow> bool \<times> token_db" where
  "TouchTokens fault used db = (if used = [] then (True, db) else if fault then (False, db)
     else (True, fold (\<lambda>(i, time). on_id i (touch (unix_milli time))) used db))"

definition TokenGroups :: "token_db \<Rightarrow> string list" where
  "TokenGroups db = sort (remdups (filter (\<lambda>g. g \<noteq> []) (map t_group (td_tokens db))))"

text \<open>
  \<open>UPDATE generations SET token_id = ? WHERE token_id IS NULL\<close>, a row at a time with its triggers;
  \<open>None\<close> when a trigger fails.
\<close>

fun assign_tokens :: "int \<Rightarrow> string list \<Rightarrow> store \<Rightarrow> store option" where
  "assign_tokens i [] st = Some st"
| "assign_tokens i (g # gs) st =
     (case exec_update g (\<lambda>r. r_token r = None) (\<lambda>r. r\<lparr>r_token := Some i\<rparr>) st of
        None \<Rightarrow> None | Some (st', _) \<Rightarrow> assign_tokens i gs st')"

definition seed_known :: "string \<Rightarrow> token_db \<Rightarrow> bool" where
  "seed_known hash db \<longleftrightarrow> hash_known hash db \<or> hash \<in> fst ` set (td_retired db)"

definition SeedTokenID :: "bool \<Rightarrow> int \<Rightarrow> string \<Rightarrow> string \<Rightarrow> token_db \<Rightarrow> store \<Rightarrow> (token_error + int) \<times> token_db \<times> store" where
  "SeedTokenID fault now hash hint db st =
     (if fault then (Inl TokenDBError, db, st)
      else if seed_known hash db then (Inr 0, db, st)
      else let i = next_token db;
               db' = db\<lparr>td_tokens := td_tokens db @ [new_token now ''default'' ''default'' hash hint db]\<rparr> in
        if td_tokens db = [] then
          (case assign_tokens i (map r_id (s_rows st)) st of
             None \<Rightarrow> (Inl TokenDBError, db, st) | Some st' \<Rightarrow> (Inr i, db', st'))
        else (Inr i, db', st))"

definition SeedToken :: "bool \<Rightarrow> int \<Rightarrow> string \<Rightarrow> string \<Rightarrow> token_db \<Rightarrow> store \<Rightarrow> (token_error + bool) \<times> token_db \<times> store" where
  "SeedToken fault now hash hint db st = (case SeedTokenID fault now hash hint db st of
     (Inl e, r) \<Rightarrow> (Inl e, r) | (Inr i, r) \<Rightarrow> (Inr (i \<noteq> 0), r))"

section \<open>The token store\<close>

text \<open>\<open>ts_hashes\<close> and \<open>ts_used\<close> are the two maps, as association lists with distinct keys.\<close>

record token_store =
  ts_hashes :: "(string \<times> int) list"
  ts_total :: nat
  ts_used :: "(int \<times> int) list"

definition put :: "'k \<Rightarrow> 'v \<Rightarrow> ('k \<times> 'v) list \<Rightarrow> ('k \<times> 'v) list" where
  "put k v m = (k, v) # filter (\<lambda>e. fst e \<noteq> k) m"

definition tokenPrefix :: string where "tokenPrefix = ''aiu_''"

definition tokenHint :: "string \<Rightarrow> string" where
  "tokenHint token = (if length token < 16 then [] else drop (length token - 4) token)"

text \<open>\<open>newSecret\<close>: the prefix and 32 random bytes in base 64; the encoded bytes are \<open>random\<close>.\<close>

definition newSecret :: "string \<Rightarrow> string" where
  "newSecret random = tokenPrefix @ random"

definition Reload :: "bool \<Rightarrow> token_db \<Rightarrow> token_store \<Rightarrow> token_error option \<times> token_store" where
  "Reload fault db s = (if fault then (Some TokenDBError, s)
     else (None, s\<lparr>ts_hashes := fst (TokenHashes db), ts_total := snd (TokenHashes db)\<rparr>))"

definition NewTokenStore :: "bool \<Rightarrow> token_db \<Rightarrow> token_store option" where
  "NewTokenStore fault db = (case Reload fault db \<lparr>ts_hashes = [], ts_total = 0, ts_used = []\<rparr> of
     (None, s) \<Rightarrow> Some s | (Some _, _) \<Rightarrow> None)"

definition Verify :: "(string \<Rightarrow> string) \<Rightarrow> int \<Rightarrow> string \<Rightarrow> token_store \<Rightarrow> int option \<times> token_store" where
  "Verify H now token s = (if token = [] then (None, s)
     else case map_of (ts_hashes s) (H token) of
       None \<Rightarrow> (None, s)
     | Some i \<Rightarrow> (Some i, s\<lparr>ts_used := put i now (ts_used s)\<rparr>))"

definition HasTokens :: "token_store \<Rightarrow> bool" where
  "HasTokens s \<longleftrightarrow> 0 < ts_total s"

definition ActiveCount :: "token_store \<Rightarrow> nat" where
  "ActiveCount s = length (ts_hashes s)"

definition removeHash :: "int \<Rightarrow> token_store \<Rightarrow> token_store" where
  "removeHash i s = s\<lparr>ts_hashes := filter (\<lambda>e. snd e \<noteq> i) (ts_hashes s)\<rparr>"

definition Create :: "(string \<Rightarrow> string) \<Rightarrow> bool \<Rightarrow> int \<Rightarrow> string \<Rightarrow> string \<Rightarrow> string \<Rightarrow> token_db \<Rightarrow> token_store
    \<Rightarrow> (token_error + string \<times> int) \<times> token_db \<times> token_store" where
  "Create H fault now random name grp db s = (let plain = newSecret random in
     case CreateToken fault now name grp (H plain) (tokenHint plain) db of
       (Inl e, db') \<Rightarrow> (Inl e, db', s)
     | (Inr i, db') \<Rightarrow> (Inr (plain, i), db', s\<lparr>ts_hashes := put (H plain) i (ts_hashes s), ts_total := ts_total s + 1\<rparr>))"

definition Revoke :: "bool \<Rightarrow> int \<Rightarrow> int \<Rightarrow> token_db \<Rightarrow> token_store \<Rightarrow> (token_error + unit) \<times> token_db \<times> token_store" where
  "Revoke fault now i db s = (case RevokeToken fault now i db of
     (Inl e, db') \<Rightarrow> (Inl e, db', s) | (Inr u, db') \<Rightarrow> (Inr u, db', removeHash i s))"

definition Regenerate :: "(string \<Rightarrow> string) \<Rightarrow> bool \<Rightarrow> int \<Rightarrow> string \<Rightarrow> int \<Rightarrow> token_db \<Rightarrow> token_store
    \<Rightarrow> (token_error + string) \<times> token_db \<times> token_store" where
  "Regenerate H fault now random i db s = (let plain = newSecret random in
     case RegenerateToken fault now i (H plain) (tokenHint plain) db of
       (Inl e, db') \<Rightarrow> (Inl e, db', s)
     | (Inr _, db') \<Rightarrow> (let s1 = removeHash i (s\<lparr>ts_used := filter (\<lambda>e. fst e \<noteq> i) (ts_used s)\<rparr>) in
         (Inr plain, db', s1\<lparr>ts_hashes := put (H plain) i (ts_hashes s1)\<rparr>)))"

definition Seed :: "(string \<Rightarrow> string) \<Rightarrow> bool \<Rightarrow> int \<Rightarrow> string \<Rightarrow> token_db \<Rightarrow> store \<Rightarrow> token_store
    \<Rightarrow> (token_error + bool) \<times> token_db \<times> store \<times> token_store" where
  "Seed H fault now token db st s = (if token = [] then (Inr False, db, st, s)
     else case SeedTokenID fault now (H token) (tokenHint token) db st of
       (Inl e, db', st') \<Rightarrow> (Inl e, db', st', s)
     | (Inr i, db', st') \<Rightarrow> if i = 0 then (Inr False, db', st', s)
         else (Inr True, db', st', s\<lparr>ts_hashes := put (H token) i (ts_hashes s), ts_total := ts_total s + 1\<rparr>))"

definition PendingUse :: "token_store \<Rightarrow> (int \<times> int) list" where
  "PendingUse s = ts_used s"

text \<open>
  \<open>Flush\<close>: the collected times are taken out, written, and put back when the write fails.
  \<open>during\<close> are the uses recorded while the write ran.
\<close>

definition put_back :: "(int \<times> int) list \<Rightarrow> (int \<times> int) list \<Rightarrow> (int \<times> int) list" where
  "put_back used m = fold (\<lambda>(i, time) m.
     if (case map_of m i of None \<Rightarrow> zero_time | Some u \<Rightarrow> u) < time then put i time m else m) used m"

definition Flush :: "bool \<Rightarrow> (int \<times> int) list \<Rightarrow> token_db \<Rightarrow> token_store \<Rightarrow> bool \<times> token_db \<times> token_store" where
  "Flush fault during db s = (let used = ts_used s; m = fold (\<lambda>(i, time). put i time) during [] in
     case TouchTokens fault used db of
       (True, db') \<Rightarrow> (True, db', s\<lparr>ts_used := m\<rparr>)
     | (False, db') \<Rightarrow> (False, db', s\<lparr>ts_used := put_back used m\<rparr>))"

section \<open>Listeners\<close>

text \<open>The verifier of one listener.\<close>

definition listener_Required :: "bool \<Rightarrow> token_store \<Rightarrow> bool" where
  "listener_Required public s \<longleftrightarrow> public \<or> HasTokens s"

text \<open>\<open>StaticToken\<close>: \<open>equalConst\<close> compares the hashes of the two strings.\<close>

definition equalConst :: "(string \<Rightarrow> string) \<Rightarrow> string \<Rightarrow> string \<Rightarrow> bool" where
  "equalConst H a b \<longleftrightarrow> H a = H b"

definition static_Verify :: "(string \<Rightarrow> string) \<Rightarrow> string \<Rightarrow> string \<Rightarrow> unit \<Rightarrow> int option \<times> unit" where
  "static_Verify H s token u = (if s = [] \<or> \<not> equalConst H token s then None else Some 1, u)"

definition static_Required :: "string \<Rightarrow> unit \<Rightarrow> bool" where
  "static_Required s u \<longleftrightarrow> s \<noteq> []"

text \<open>
  The HTTP gate (\<open>internal/auth/bearer.go\<close>) and the gRPC one (\<open>internal/auth/grpc.go\<close>), over the
  two operations of a verifier: a request reaches the handler, with the token's id when one was
  verified, or it is refused after the hook has counted it.
\<close>

datatype gate = Served "int option" | Refused

definition bearerValid :: "(string \<Rightarrow> 's \<Rightarrow> int option \<times> 's) \<Rightarrow> string \<Rightarrow> 's \<Rightarrow> int option \<times> 's" where
  "bearerValid verify header s = (case cut_prefix header ''Bearer '' of
     None \<Rightarrow> (None, s) | Some v \<Rightarrow> verify v s)"

definition BearerWithHook :: "(string \<Rightarrow> 's \<Rightarrow> int option \<times> 's) \<Rightarrow> ('s \<Rightarrow> bool) \<Rightarrow> string \<Rightarrow> 's \<Rightarrow> gate \<times> 's" where
  "BearerWithHook verify required header s =
     (if \<not> required s then (Served None, s)
      else case bearerValid verify header s of
        (Some i, s') \<Rightarrow> (Served (Some i), s') | (None, s') \<Rightarrow> (Refused, s'))"

fun bearerValidMD :: "(string \<Rightarrow> 's \<Rightarrow> int option \<times> 's) \<Rightarrow> string list \<Rightarrow> 's \<Rightarrow> int option \<times> 's" where
  "bearerValidMD verify [] s = (None, s)"
| "bearerValidMD verify (h # hs) s = (case cut_prefix h ''Bearer '' of
     None \<Rightarrow> bearerValidMD verify hs s
   | Some v \<Rightarrow> (case verify v s of
       (Some i, s') \<Rightarrow> (Some i, s') | (None, s') \<Rightarrow> bearerValidMD verify hs s'))"

definition GRPCUnaryInterceptorWithHook :: "(string \<Rightarrow> 's \<Rightarrow> int option \<times> 's) \<Rightarrow> ('s \<Rightarrow> bool) \<Rightarrow> string list \<Rightarrow> 's \<Rightarrow> gate \<times> 's" where
  "GRPCUnaryInterceptorWithHook verify required headers s =
     (if \<not> required s then (Served None, s)
      else case bearerValidMD verify headers s of
        (Some i, s') \<Rightarrow> (Served (Some i), s') | (None, s') \<Rightarrow> (Refused, s'))"

section \<open>The cache answers as the tables do\<close>

definition token_db_ok :: "token_db \<Rightarrow> bool" where
  "token_db_ok db \<longleftrightarrow> distinct (map t_id (td_tokens db)) \<and> distinct (map t_hash (td_tokens db))
     \<and> (\<forall>t \<in> set (td_tokens db). 0 < t_id t \<and> length (t_hash t) = 32)"

text \<open>The abstraction: what the tables say about authentication.\<close>

definition active_hashes :: "token_db \<Rightarrow> (string \<times> int) set" where
  "active_hashes db = (\<lambda>t. (t_hash t, t_id t)) ` set (filter Active (td_tokens db))"

lemma active_hashes_iff: "e \<in> active_hashes db \<longleftrightarrow>
    (\<exists>t \<in> set (td_tokens db). Active t \<and> e = (t_hash t, t_id t))"
  by (auto simp: active_hashes_def)

definition cache_ok :: "token_db \<Rightarrow> token_store \<Rightarrow> bool" where
  "cache_ok db s \<longleftrightarrow> set (ts_hashes s) = active_hashes db \<and> distinct (map fst (ts_hashes s))
     \<and> ts_total s = length (td_tokens db)"

definition db_Verify :: "(string \<Rightarrow> string) \<Rightarrow> string \<Rightarrow> token_db \<Rightarrow> int option" where
  "db_Verify H token db = (if token = [] then None
     else map_option t_id (List.find (\<lambda>t. t_hash t = H token \<and> Active t) (td_tokens db)))"

lemma put_set: "set (put k v m) = insert (k, v) {e \<in> set m. fst e \<noteq> k}"
  by (auto simp: put_def)

lemma distinct_put: "distinct (map fst m) \<Longrightarrow> distinct (map fst (put k v m))"
  by (auto simp: put_def distinct_map_filter)

lemma next_token_fresh: "t \<in> set (td_tokens db) \<Longrightarrow> t_id t < next_token db"
proof -
  have "t \<in> set ts \<Longrightarrow> t_id t \<le> foldr (\<lambda>t m. max (t_id t) m) ts 0" for ts
    by (induction ts) auto
  then show "t \<in> set (td_tokens db) \<Longrightarrow> t_id t < next_token db" by (fastforce simp: next_token_def)
qed

lemma next_token_pos: "0 < next_token db"
proof -
  have "0 \<le> foldr (\<lambda>t m. max (t_id t) m) ts 0" for ts :: "api_token list" by (induction ts) auto
  from this [of "td_tokens db"] show ?thesis by (simp add: next_token_def)
qed

lemma map_on_id: "(\<And>t. t_id t = i \<Longrightarrow> g (f t) = g t) \<Longrightarrow> map g (td_tokens (on_id i f db)) = map g (td_tokens db)"
  by (auto simp: on_id_def)

lemma set_on_id: "set (td_tokens (on_id i f db)) = (\<lambda>t. if t_id t = i then f t else t) ` set (td_tokens db)"
  by (simp add: on_id_def)

lemma on_id_retired [simp]: "td_retired (on_id i f db) = td_retired db"
  by (simp add: on_id_def)

lemma retire_tokens [simp]: "td_tokens (retire now i db) = td_tokens db"
  by (simp add: retire_def)

lemma token_db_ok_on_id:
  assumes "token_db_ok db" "\<And>t. t_id (f t) = t_id t" "\<And>t. t_hash (f t) = t_hash t"
  shows "token_db_ok (on_id i f db)"
  using assms by (auto simp: token_db_ok_def map_on_id set_on_id)

lemma length_on_id [simp]: "length (td_tokens (on_id i f db)) = length (td_tokens db)"
  by (simp add: on_id_def)

lemma token_db_ok_retire [simp]: "token_db_ok (retire now i db) = token_db_ok db"
  by (simp add: token_db_ok_def)

lemma active_hashes_fst: "token_db_ok db \<Longrightarrow> (h, i) \<in> active_hashes db \<Longrightarrow> (h, j) \<in> active_hashes db \<Longrightarrow> i = j"
  unfolding token_db_ok_def active_hashes_def by (auto simp: distinct_map dest: inj_onD)

lemma add_token_ok:
  assumes "token_db_ok db" "\<not> hash_known hash db" "length hash = 32"
  shows "token_db_ok (db\<lparr>td_tokens := td_tokens db @ [new_token now name grp hash hint db]\<rparr>)"
    and "active_hashes (db\<lparr>td_tokens := td_tokens db @ [new_token now name grp hash hint db]\<rparr>)
      = insert (hash, next_token db) (active_hashes db)"
proof -
  have "next_token db \<notin> t_id ` set (td_tokens db)" using next_token_fresh by force
  moreover have "hash \<notin> t_hash ` set (td_tokens db)" using assms(2) by (auto simp: hash_known_def list_ex_iff)
  ultimately show "token_db_ok (db\<lparr>td_tokens := td_tokens db @ [new_token now name grp hash hint db]\<rparr>)"
    using assms(1,3) next_token_pos [of db] by (auto simp: token_db_ok_def new_token_def)
  show "active_hashes (db\<lparr>td_tokens := td_tokens db @ [new_token now name grp hash hint db]\<rparr>)
      = insert (hash, next_token db) (active_hashes db)"
    by (auto simp: active_hashes_def new_token_def Active_def)
qed

lemma cache_add:
  assumes "cache_ok db s" "\<not> hash_known hash db" "active_hashes db' = insert (hash, i) (active_hashes db)"
    "length (td_tokens db') = length (td_tokens db) + 1"
  shows "cache_ok db' (s\<lparr>ts_hashes := put hash i (ts_hashes s), ts_total := ts_total s + 1\<rparr>)"
proof -
  have "fst e \<noteq> hash" if "e \<in> active_hashes db" for e
    using that assms(2) by (auto simp: active_hashes_def hash_known_def list_ex_iff)
  then show ?thesis using assms by (auto simp: cache_ok_def put_set distinct_put)
qed

lemma active_on_id_gone:
  assumes "\<And>t. t_id (f t) = t_id t" "\<And>t. \<not> Active (f t)"
  shows "active_hashes (on_id i f db) = {e \<in> active_hashes db. snd e \<noteq> i}"
  using assms by (auto simp: active_hashes_def set_on_id split: if_splits)

lemma active_on_id_same:
  assumes "\<And>t. t_id (f t) = t_id t \<and> t_hash (f t) = t_hash t \<and> t_revoked (f t) = t_revoked t"
  shows "active_hashes (on_id i f db) = active_hashes db"
proof -
  define g where "g = (\<lambda>t. if t_id t = i then f t else t)"
  have g: "t_id (g t) = t_id t \<and> t_hash (g t) = t_hash t \<and> t_revoked (g t) = t_revoked t" for t
    by (simp add: g_def assms)
  have "set (filter Active (map g ts)) = g ` set (filter Active ts)" for ts
    using g by (auto simp: Active_def)
  then show ?thesis using g by (simp add: active_hashes_def on_id_def image_image flip: g_def)
qed

lemma cache_ok_cong: "cache_ok db s \<Longrightarrow> active_hashes db' = active_hashes db
    \<Longrightarrow> length (td_tokens db') = length (td_tokens db) \<Longrightarrow> cache_ok db' s"
  by (simp add: cache_ok_def)

lemma cache_remove:
  assumes "cache_ok db s" "active_hashes db' = {e \<in> active_hashes db. snd e \<noteq> i}"
    "length (td_tokens db') = length (td_tokens db)"
  shows "cache_ok db' (removeHash i s)"
  using assms by (auto simp: cache_ok_def removeHash_def distinct_map_filter)

lemma cache_Verify:
  assumes "token_db_ok db" "cache_ok db s"
  shows "fst (Verify H now token s) = db_Verify H token db"
proof (cases "List.find (\<lambda>t. t_hash t = H token \<and> Active t) (td_tokens db)")
  case None
  then have "(H token, i) \<notin> set (ts_hashes s)" for i
    using assms(2) by (auto simp: cache_ok_def active_hashes_def find_None_iff)
  then have "map_of (ts_hashes s) (H token) = None" by (auto simp: map_of_eq_None_iff)
  with None show ?thesis by (simp add: Verify_def db_Verify_def)
next
  case (Some t)
  then have "t \<in> set (td_tokens db) \<and> t_hash t = H token \<and> Active t"
    by (auto simp: find_Some_iff)
  then have "(H token, t_id t) \<in> active_hashes db"
    unfolding active_hashes_def by (intro image_eqI [of _ _ t]) auto
  then have "(H token, t_id t) \<in> set (ts_hashes s)" using assms(2) by (simp add: cache_ok_def)
  then have "map_of (ts_hashes s) (H token) = Some (t_id t)"
    using assms(2) by (simp add: cache_ok_def)
  with Some show ?thesis by (simp add: Verify_def db_Verify_def)
qed

lemma Verify_cache [simp]:
  "ts_hashes (snd (Verify H now token s)) = ts_hashes s" "ts_total (snd (Verify H now token s)) = ts_total s"
  by (simp_all add: Verify_def split: option.splits)

lemma cache_Reload: "token_db_ok db \<Longrightarrow> cache_ok db (s\<lparr>ts_hashes := fst (TokenHashes db), ts_total := snd (TokenHashes db)\<rparr>)"
  by (auto simp: token_db_ok_def cache_ok_def TokenHashes_def active_hashes_def Active_def distinct_map o_def
      intro: inj_on_subset)

subsection \<open>Steps\<close>

type_synonym token_service = "token_db \<times> store \<times> token_store"

inductive token_step :: "(string \<Rightarrow> string) \<Rightarrow> token_service \<Rightarrow> token_service \<Rightarrow> bool" for H where
  create: "Create H fault now random name grp db s = (r, db', s') \<Longrightarrow> token_step H (db, st, s) (db', st, s')"
| revoke: "Revoke fault now i db s = (r, db', s') \<Longrightarrow> token_step H (db, st, s) (db', st, s')"
| regenerate: "Regenerate H fault now random i db s = (r, db', s') \<Longrightarrow> token_step H (db, st, s) (db', st, s')"
| rename: "UpdateToken fault i name grp db = (r, db') \<Longrightarrow> token_step H (db, st, s) (db', st, s)"
| seed: "Seed H fault now token db st s = (r, db', st', s') \<Longrightarrow> token_step H (db, st, s) (db', st', s')"
| verify: "token_step H (db, st, s) (db, st, snd (Verify H now token s))"
| flush: "Flush fault during db s = (ok, db', s') \<Longrightarrow> token_step H (db, st, s) (db', st, s')"
| reload: "Reload fault db s = (r, s') \<Longrightarrow> token_step H (db, st, s) (db, st, s')"
| restart: "NewTokenStore fault db = Some s' \<Longrightarrow> token_step H (db, st, s) (db, st, s')"
| batch: "InsertGenerations dfault clock gens st = (res, st') \<Longrightarrow> list_all gen_dated gens
    \<Longrightarrow> token_step H (db, st, s) (db, st', s)"

definition token_init :: token_service where
  "token_init = (empty_token_db, empty_store, \<lparr>ts_hashes = [], ts_total = 0, ts_used = []\<rparr>)"

definition token_service_ok :: "token_service \<Rightarrow> bool" where
  "token_service_ok x \<longleftrightarrow> token_db_ok (fst x) \<and> cache_ok (fst x) (snd (snd x))"

lemma Create_ok:
  assumes "Create H fault now random name grp db s = (r, db', s')" "token_db_ok db" "cache_ok db s"
    "length (H (newSecret random)) = 32"
  shows "token_db_ok db' \<and> cache_ok db' s'"
proof (cases "fault \<or> hash_known (H (newSecret random)) db")
  case True
  with assms show ?thesis by (auto simp: Create_def CreateToken_def Let_def)
next
  case False
  then have new: "\<not> hash_known (H (newSecret random)) db" by simp
  note ok = add_token_ok [OF assms(2) new assms(4), of now name grp "tokenHint (newSecret random)"]
  show ?thesis
    using False assms(1) ok(1) cache_add [OF assms(3) new ok(2)] by (auto simp: Create_def CreateToken_def Let_def)
qed

lemma Revoke_ok:
  assumes "Revoke fault now i db s = (r, db', s')" "token_db_ok db" "cache_ok db s"
  shows "token_db_ok db' \<and> cache_ok db' s'"
proof (cases "fault \<or> \<not> has_id i db")
  case True
  with assms show ?thesis by (auto simp: Revoke_def RevokeToken_def split: if_splits)
next
  case False
  let ?f = "\<lambda>t. t\<lparr>t_revoked := (case t_revoked t of Some r \<Rightarrow> Some r | None \<Rightarrow> Some (unix_milli now))\<rparr>"
  have "token_db_ok (on_id i ?f db)" using assms(2) by (rule token_db_ok_on_id) simp_all
  moreover have "cache_ok (on_id i ?f db) (removeHash i s)"
    by (rule cache_remove [OF assms(3) active_on_id_gone]) (auto simp: Active_def split: option.splits)
  ultimately show ?thesis using False assms(1) by (auto simp: Revoke_def RevokeToken_def)
qed

lemma Regenerate_ok:
  assumes "Regenerate H fault now random i db s = (r, db', s')" "token_db_ok db" "cache_ok db s"
    "length (H (newSecret random)) = 32"
  shows "token_db_ok db' \<and> cache_ok db' s'"
proof (cases "fault \<or> \<not> has_id i db \<or> list_ex (\<lambda>t. t_hash t = H (newSecret random) \<and> t_id t \<noteq> i) (td_tokens db)")
  case True
  with assms show ?thesis by (auto simp: Regenerate_def RegenerateToken_def Let_def split: if_splits)
next
  case False
  define h where "h = H (newSecret random)"
  define f :: "api_token \<Rightarrow> api_token" where "f = (\<lambda>t. t\<lparr>t_hash := h, t_hint := tokenHint (newSecret random), t_revoked := None, t_last_used := None\<rparr>)"
  have f [simp]: "t_id (f t) = t_id t" "t_hash (f t) = h" "Active (f t)" for t
    by (simp_all add: f_def Active_def)
  have others: "t_hash t \<noteq> h" if "t \<in> set (td_tokens db)" "t_id t \<noteq> i" for t
    using False that by (auto simp: list_ex_iff h_def)
  obtain u where u: "u \<in> set (td_tokens db)" "t_id u = i" using False by (auto simp: has_id_def list_ex_iff)
  have res: "db' = on_id i f (retire now i db)" "s' = (removeHash i (s\<lparr>ts_used := filter (\<lambda>e. fst e \<noteq> i) (ts_used s)\<rparr>))
      \<lparr>ts_hashes := put h i (filter (\<lambda>e. snd e \<noteq> i) (ts_hashes s))\<rparr>"
    using False assms(1) by (auto simp: Regenerate_def RegenerateToken_def Let_def removeHash_def f_def h_def)
  have "inj_on t_id (set (td_tokens db))" and dist: "distinct (td_tokens db)"
    using assms(2) by (auto simp: token_db_ok_def distinct_map)
  have hashes: "inj_on t_hash (set (td_tokens db))" using assms(2) by (simp add: token_db_ok_def distinct_map)
  define g where "g = (\<lambda>t. if t_id t = i then f t else t)"
  have "inj_on t_hash (g ` set (td_tokens db))"
  proof (rule inj_onI; clarify)
    fix a b assume ab: "t_hash (g a) = t_hash (g b)" "a \<in> set (td_tokens db)" "b \<in> set (td_tokens db)"
    from others [OF ab(2)] others [OF ab(3)] ab inj_onD [OF hashes] inj_onD [OF \<open>inj_on t_id _\<close>]
    show "g a = g b" unfolding g_def by (metis f(2))
  qed
  then have "inj_on t_hash (set (td_tokens db'))" by (simp add: res(1) set_on_id g_def)
  moreover have "inj_on t_id (set (td_tokens db'))"
    using \<open>inj_on t_id _\<close> unfolding res(1) set_on_id by (auto simp: inj_on_def)
  moreover have "distinct (td_tokens db')"
    using assms(2) res(1) map_on_id [of i t_id f "retire now i db"] by (metis distinct_map f(1) retire_tokens token_db_ok_def)
  ultimately have ok: "token_db_ok db'"
    using assms(2,4) unfolding res(1) set_on_id token_db_ok_def by (auto simp: distinct_map h_def set_on_id)
  have "active_hashes db' = insert (h, i) {e \<in> active_hashes db. snd e \<noteq> i}"
  proof (intro set_eqI iffI)
    fix e assume "e \<in> active_hashes db'"
    then obtain t where "t \<in> set (td_tokens db)" "Active (g t)" "e = (t_hash (g t), t_id (g t))"
      by (auto simp: active_hashes_iff res(1) set_on_id g_def)
    then show "e \<in> insert (h, i) {e \<in> active_hashes db. snd e \<noteq> i}"
      by (cases "t_id t = i") (auto simp: g_def active_hashes_iff)
  next
    fix e assume "e \<in> insert (h, i) {e \<in> active_hashes db. snd e \<noteq> i}"
    then consider "e = (h, i)" | t where "t \<in> set (td_tokens db)" "Active t" "e = (t_hash t, t_id t)" "t_id t \<noteq> i"
      by (auto simp: active_hashes_iff)
    then show "e \<in> active_hashes db'"
    proof cases
      case 1
      have "f u \<in> set (td_tokens db')" using u by (auto simp: res(1) set_on_id intro: image_eqI [of _ _ u])
      then show ?thesis using 1 u(2) by (auto simp: active_hashes_iff intro: bexI [of _ "f u"])
    next
      case 2
      then have "t \<in> set (td_tokens db')" by (auto simp: res(1) set_on_id intro: image_eqI [of _ _ t])
      then show ?thesis using 2 by (auto simp: active_hashes_iff)
    qed
  qed
  moreover have "fst e \<noteq> h" if "e \<in> active_hashes db" "snd e \<noteq> i" for e
    using that others by (fastforce simp: active_hashes_iff)
  ultimately have "cache_ok db' s'"
    using assms(3) by (auto simp: cache_ok_def res(2) put_set distinct_put distinct_map_filter) (simp add: res(1) removeHash_def)
  with ok show ?thesis by simp
qed

lemma UpdateToken_ok:
  assumes "UpdateToken fault i name grp db = (r, db')" "token_db_ok db" "cache_ok db s"
  shows "token_db_ok db' \<and> cache_ok db' s"
proof (cases "fault \<or> \<not> has_id i db")
  case True
  with assms show ?thesis by (auto simp: UpdateToken_def split: if_splits)
next
  case False
  then have "db' = on_id i (\<lambda>t. t\<lparr>t_name := name, t_group := grp\<rparr>) db"
    using assms(1) by (simp add: UpdateToken_def)
  then show ?thesis
    using token_db_ok_on_id [OF assms(2), of "\<lambda>t. t\<lparr>t_name := name, t_group := grp\<rparr>" i]
      cache_ok_cong [OF assms(3), of db'] active_on_id_same [of "\<lambda>t. t\<lparr>t_name := name, t_group := grp\<rparr>" i db]
    by simp
qed

lemma TouchTokens_keeps:
  assumes "TouchTokens fault used db = (ok, db')"
  shows "token_db_ok db \<longrightarrow> token_db_ok db'" "active_hashes db' = active_hashes db"
    "length (td_tokens db') = length (td_tokens db)" "td_retired db' = td_retired db"
    "map t_hash (td_tokens db') = map t_hash (td_tokens db)"
proof -
  let ?F = "\<lambda>used db. fold (\<lambda>(i, time). on_id i (touch (unix_milli time))) used db"
  have "(token_db_ok db \<longrightarrow> token_db_ok (?F used db)) \<and> active_hashes (?F used db) = active_hashes db
      \<and> length (td_tokens (?F used db)) = length (td_tokens db) \<and> td_retired (?F used db) = td_retired db
      \<and> map t_hash (td_tokens (?F used db)) = map t_hash (td_tokens db)" for used
  proof (induction used arbitrary: db)
    case (Cons u used)
    have "token_db_ok db \<longrightarrow> token_db_ok (on_id i (touch ms) db)"
      "active_hashes (on_id i (touch ms) db) = active_hashes db"
      "map t_hash (td_tokens (on_id i (touch ms) db)) = map t_hash (td_tokens db)" for i ms
      using token_db_ok_on_id [of db "touch ms" i] active_on_id_same [of "touch ms" i db]
        map_on_id [of i t_hash "touch ms" db] by (simp_all add: touch_def)
    then show ?case by (cases u) (simp add: Cons.IH)
  qed simp
  then show "token_db_ok db \<longrightarrow> token_db_ok db'" "active_hashes db' = active_hashes db"
    "length (td_tokens db') = length (td_tokens db)" "td_retired db' = td_retired db"
    "map t_hash (td_tokens db') = map t_hash (td_tokens db)"
    using assms by (auto simp: TouchTokens_def split: if_splits)
qed

lemma Flush_ok:
  assumes "Flush fault during db s = (ok, db', s')" "token_db_ok db" "cache_ok db s"
  shows "token_db_ok db' \<and> cache_ok db' s'"
proof -
  obtain k db1 where touched: "TouchTokens fault (ts_used s) db = (k, db1)" by fastforce
  from TouchTokens_keeps [OF touched] assms(2,3)
  have "token_db_ok db1 \<and> cache_ok db1 s" by (auto intro: cache_ok_cong)
  moreover have "db' = db1 \<and> ts_hashes s' = ts_hashes s \<and> ts_total s' = ts_total s"
    using assms(1) touched by (auto simp: Flush_def Let_def split: bool.splits)
  ultimately show ?thesis by (simp add: cache_ok_def)
qed

lemma assign_tokens_ok:
  assumes "store_ok st" "dated st" "0 < i"
  shows "\<exists>st'. assign_tokens i gs st = Some st' \<and> store_ok st' \<and> dated st'"
  using assms(1,2)
proof (induction gs arbitrary: st)
  case (Cons g gs)
  let ?f = "\<lambda>r. r\<lparr>r_token := Some i\<rparr>"
  obtain st1 n where one: "exec_update g (\<lambda>r. r_token r = None) ?f st = Some (st1, n)"
    using exec_update_total [OF Cons.prems, of ?f] by fastforce
  have "store_ok st1 \<and> dated st1"
    using exec_update_ok [OF one Cons.prems] assms(3) by (simp add: row_ok_def)
  with Cons.IH [of st1] one show ?case by simp
qed simp

lemma Seed_ok:
  assumes "Seed H fault now token db st s = (r, db', st', s')" "token_db_ok db" "cache_ok db s"
    "store_ok st" "dated st" "length (H token) = 32"
  shows "token_db_ok db' \<and> cache_ok db' s' \<and> store_ok st' \<and> dated st'"
proof (cases "token = [] \<or> fault \<or> seed_known (H token) db")
  case True
  with assms show ?thesis by (auto simp: Seed_def SeedTokenID_def split: if_splits)
next
  case False
  then have new: "\<not> hash_known (H token) db" by (simp add: seed_known_def)
  note ok = add_token_ok [OF assms(2) new assms(6), of now "''default''" "''default''" "tokenHint token"]
  from assign_tokens_ok [OF assms(4,5) next_token_pos, of db "map r_id (s_rows st)"] obtain st1 where
    st1: "assign_tokens (next_token db) (map r_id (s_rows st)) st = Some st1" "store_ok st1" "dated st1" by blast
  show ?thesis
    using False assms(1,4,5) ok(1) cache_add [OF assms(3) new ok(2)] st1 next_token_pos [of db]
    by (auto simp: Seed_def SeedTokenID_def Let_def split: if_splits)
qed

lemma token_step_ok:
  assumes "token_step H x y" "\<And>t. length (H t) = 32"
    and "token_service_ok x" "store_ok (fst (snd x))" "dated (fst (snd x))"
  shows "token_service_ok y \<and> store_ok (fst (snd y)) \<and> dated (fst (snd y))"
  using assms
proof (induction rule: token_step.induct)
  case (create fault now random name grp db s r db' s' st)
  then show ?case using Create_ok [OF create(1)] by (simp add: token_service_ok_def)
next
  case (revoke fault now i db s r db' s' st)
  then show ?case using Revoke_ok [OF revoke(1)] by (simp add: token_service_ok_def)
next
  case (regenerate fault now random i db s r db' s' st)
  then show ?case using Regenerate_ok [OF regenerate(1)] by (simp add: token_service_ok_def)
next
  case (rename fault i name grp db r db' st s)
  then show ?case using UpdateToken_ok [OF rename(1), of s] by (simp add: token_service_ok_def)
next
  case (seed fault now token db st s r db' st' s')
  then show ?case using Seed_ok [OF seed(1)] by (simp add: token_service_ok_def)
next
  case (verify db st s now token)
  then show ?case by (simp add: token_service_ok_def cache_ok_def)
next
  case (flush fault during db s ok db' s' st)
  then show ?case using Flush_ok [OF flush(1)] by (simp add: token_service_ok_def)
next
  case (reload fault db s r s' st)
  then show ?case by (auto simp: token_service_ok_def Reload_def cache_Reload split: if_splits)
next
  case (restart fault db s' st s)
  then show ?case
    using cache_Reload [of db "\<lparr>ts_hashes = [], ts_total = 0, ts_used = []\<rparr>"]
    by (auto simp: token_service_ok_def NewTokenStore_def Reload_def split: if_splits)
next
  case (batch dfault clock gens st res st' db s)
  then show ?case using InsertGenerations_ok [OF batch(1)] by (auto simp: token_service_ok_def list_all_iff)
qed

lemma tokens_reachable_ok:
  assumes "(token_step H)\<^sup>*\<^sup>* token_init x" "\<And>t. length (H t) = 32"
  shows "token_service_ok x \<and> store_ok (fst (snd x)) \<and> dated (fst (snd x))"
  using assms(1)
proof (induction rule: rtranclp_induct)
  case base
  show ?case using store_ok_empty
    by (simp add: token_init_def token_service_ok_def token_db_ok_def cache_ok_def active_hashes_def
        empty_token_db_def dated_def empty_store_def)
next
  case (step x y)
  then show ?case using token_step_ok [OF step(2) assms(2)] by blast
qed

subsection \<open>Hashes are never forgotten\<close>

text \<open>A hash that was ever stored stays in the table or among the retired ones.\<close>

lemma seed_known_alt: "seed_known h db \<longleftrightarrow> h \<in> set (map t_hash (td_tokens db)) \<or> h \<in> fst ` set (td_retired db)"
  by (auto simp: seed_known_def hash_known_def list_ex_iff)

lemma retire_hashes: "fst ` set (td_retired (retire now i db)) =
    fst ` set (td_retired db) \<union> t_hash ` {t \<in> set (td_tokens db). t_id t = i}"
  by (simp add: retire_def image_Un image_image) auto

lemma seed_known_regenerate:
  assumes "RegenerateToken fault now i hash hint db = (r, db')" "seed_known h db"
  shows "seed_known h db'"
proof -
  let ?f = "\<lambda>t. t\<lparr>t_hash := hash, t_hint := hint, t_revoked := None, t_last_used := None\<rparr>"
  consider "db' = db" | "db' = on_id i ?f (retire now i db)"
    using assms(1) by (auto simp: RegenerateToken_def split: if_splits)
  then show ?thesis
  proof cases
    case 2
    from assms(2) consider "h \<in> fst ` set (td_retired db)" | t where "t \<in> set (td_tokens db)" "t_hash t = h"
      by (auto simp: seed_known_alt)
    then show ?thesis
    proof cases
      case 1
      then show ?thesis using 2 by (auto simp: seed_known_alt retire_def)
    next
      case (2 t)
      show ?thesis
      proof (cases "t_id t = i")
        case True
        then have "h \<in> fst ` set (td_retired (retire now i db))"
          using \<open>t \<in> _\<close> \<open>t_hash t = h\<close> by (auto simp: retire_hashes)
        then show ?thesis using \<open>db' = _\<close> by (simp add: seed_known_alt)
      next
        case False
        then have "t \<in> set (td_tokens db')"
          using \<open>db' = _\<close> \<open>t \<in> _\<close> by (auto simp: set_on_id intro: image_eqI [of _ _ t])
        then show ?thesis using \<open>t_hash t = h\<close> by (auto simp: seed_known_alt)
      qed
    qed
  qed (use assms(2) in simp)
qed

lemma seed_known_on_id: "(\<And>t. t_hash (f t) = t_hash t) \<Longrightarrow> seed_known h (on_id i f db) = seed_known h db"
  using map_on_id [of i t_hash f db] by (simp add: seed_known_alt)

lemma token_step_known:
  "token_step H x y \<Longrightarrow> seed_known h (fst x) \<Longrightarrow> seed_known h (fst y)"
proof (induction rule: token_step.induct)
  case (create fault now random name grp db s r db' s' st)
  then show ?case by (auto simp: Create_def CreateToken_def Let_def seed_known_alt split: if_splits)
next
  case (revoke fault now i db s r db' s' st)
  then show ?case by (auto simp: Revoke_def RevokeToken_def seed_known_on_id split: if_splits)
next
  case (regenerate fault now random i db s r db' s' st)
  obtain r1 db1 where "RegenerateToken fault now i (H (newSecret random)) (tokenHint (newSecret random)) db = (r1, db1)"
    by fastforce
  then show ?case using regenerate seed_known_regenerate by (auto simp: Regenerate_def Let_def split: sum.splits)
next
  case (rename fault i name grp db r db' st s)
  then show ?case by (auto simp: UpdateToken_def seed_known_on_id split: if_splits)
next
  case (seed fault now token db st s r db' st' s')
  then show ?case
    by (auto simp: Seed_def SeedTokenID_def Let_def seed_known_alt split: if_splits option.splits sum.splits prod.splits)
next
  case (flush fault during db s ok db' s' st)
  obtain k db1 where touched: "TouchTokens fault (ts_used s) db = (k, db1)" by fastforce
  then have "db' = db1" using flush(1) by (auto simp: Flush_def Let_def split: bool.splits)
  then show ?case using flush(2) TouchTokens_keeps(4,5) [OF touched] by (simp add: seed_known_alt)
qed simp_all

lemma tokens_never_removed: "token_step H x y \<Longrightarrow> length (td_tokens (fst x)) \<le> length (td_tokens (fst y))"
proof (induction rule: token_step.induct)
  case (flush fault during db s ok db' s' st)
  obtain k db1 where touched: "TouchTokens fault (ts_used s) db = (k, db1)" by fastforce
  then have "db' = db1" using flush by (auto simp: Flush_def Let_def split: bool.splits)
  then show ?case using TouchTokens_keeps(3) [OF touched] by simp
qed (auto simp: Create_def CreateToken_def Revoke_def RevokeToken_def Regenerate_def RegenerateToken_def
    UpdateToken_def Seed_def SeedTokenID_def Let_def split: if_splits option.splits sum.splits prod.splits)

section \<open>The gates, over any verifier\<close>

text \<open>
  The interface \<open>Verifier\<close>: \<open>accepts\<close> is what a provider promises to accept; verifying may record
  the use but never changes what is accepted.
\<close>

locale verifier =
  fixes verify :: "string \<Rightarrow> 's \<Rightarrow> int option \<times> 's"
    and required :: "'s \<Rightarrow> bool"
    and accepts :: "'s \<Rightarrow> string \<Rightarrow> int \<Rightarrow> bool"
  assumes verify_iff: "fst (verify token s) = Some i \<longleftrightarrow> accepts s token i"
    and verify_keeps: "accepts (snd (verify token s)) = accepts s"
begin

lemma bearerValid_iff: "fst (bearerValid verify header s) = Some i \<longleftrightarrow>
    (\<exists>token. header = ''Bearer '' @ token \<and> accepts s token i)"
  by (auto simp: bearerValid_def cut_prefix_def verify_iff prefix_def)

lemma http_served: "fst (BearerWithHook verify required header s) = Served (Some i) \<longleftrightarrow>
    required s \<and> (\<exists>token. header = ''Bearer '' @ token \<and> accepts s token i)"
  using bearerValid_iff [of header s i]
  by (auto simp: BearerWithHook_def split: prod.splits option.splits)

lemma http_open: "fst (BearerWithHook verify required header s) = Served None \<longleftrightarrow> \<not> required s"
  by (auto simp: BearerWithHook_def split: prod.splits option.splits)

lemma http_refused: "fst (BearerWithHook verify required header s) = Refused \<longleftrightarrow>
    required s \<and> \<not> (\<exists>token i. header = ''Bearer '' @ token \<and> accepts s token i)"
  using http_served http_open by (metis gate.exhaust gate.distinct(1) option.exhaust)

lemma metadata_accepted: "fst (bearerValidMD verify headers s) = Some i \<Longrightarrow>
    \<exists>token. ''Bearer '' @ token \<in> set headers \<and> accepts s token i"
proof (induction headers arbitrary: s)
  case (Cons h hs)
  show ?case
  proof (cases "cut_prefix h ''Bearer ''")
    case None
    then show ?thesis using Cons by auto
  next
    case (Some v)
    then have h: "h = ''Bearer '' @ v" by (auto simp: cut_prefix_def prefix_def split: if_splits)
    obtain r s' where v: "verify v s = (r, s')" by fastforce
    show ?thesis
    proof (cases r)
      case None
      then have "\<exists>token. ''Bearer '' @ token \<in> set hs \<and> accepts s' token i"
        using Cons.IH [of s'] Cons.prems Some v by simp
      then show ?thesis using verify_keeps [of v s] v by auto
    next
      case (Some j)
      then have "accepts s v i" using verify_iff [of v s i] Cons.prems v \<open>cut_prefix h _ = _\<close> by simp
      then show ?thesis using h by auto
    qed
  qed
qed simp

lemma metadata_refused: "fst (bearerValidMD verify headers s) = None \<Longrightarrow>
    ''Bearer '' @ token \<in> set headers \<Longrightarrow> \<not> accepts s token i"
proof (induction headers arbitrary: s)
  case (Cons h hs)
  show ?case
  proof (cases "cut_prefix h ''Bearer ''")
    case None
    then show ?thesis using Cons by (auto simp: cut_prefix_def)
  next
    case (Some v)
    then have h: "h = ''Bearer '' @ v" by (auto simp: cut_prefix_def prefix_def split: if_splits)
    obtain r s' where v: "verify v s = (r, s')" by fastforce
    with Cons.prems Some have r: "r = None" "fst (bearerValidMD verify hs s') = None"
      by (auto split: option.splits)
    have "\<not> accepts s v j" for j using verify_iff [of v s j] v r(1) by simp
    moreover have "\<not> accepts s token i" if "''Bearer '' @ token \<in> set hs"
      using Cons.IH [OF r(2) that] verify_keeps [of v s] v by auto
    ultimately show ?thesis using Cons.prems(2) h by auto
  qed
qed simp

lemma grpc_served: "fst (GRPCUnaryInterceptorWithHook verify required headers s) = Served (Some i) \<Longrightarrow>
    required s \<and> (\<exists>token. ''Bearer '' @ token \<in> set headers \<and> accepts s token i)"
  using metadata_accepted [of headers s i]
  by (auto simp: GRPCUnaryInterceptorWithHook_def split: prod.splits option.splits if_splits)

lemma grpc_refused: "fst (GRPCUnaryInterceptorWithHook verify required headers s) = Refused \<longleftrightarrow>
    required s \<and> \<not> (\<exists>token i. ''Bearer '' @ token \<in> set headers \<and> accepts s token i)"
proof (cases "required s")
  case True
  then show ?thesis
    using metadata_accepted [of headers s] metadata_refused [of headers s]
    by (cases "bearerValidMD verify headers s"; cases "fst (bearerValidMD verify headers s)")
       (auto simp: GRPCUnaryInterceptorWithHook_def)
qed (simp add: GRPCUnaryInterceptorWithHook_def)

lemma grpc_open: "fst (GRPCUnaryInterceptorWithHook verify required headers s) = Served None \<longleftrightarrow> \<not> required s"
  by (auto simp: GRPCUnaryInterceptorWithHook_def split: prod.splits option.splits)

end

definition listener_accepts :: "(string \<Rightarrow> string) \<Rightarrow> token_store \<Rightarrow> string \<Rightarrow> int \<Rightarrow> bool" where
  "listener_accepts H s token i \<longleftrightarrow> token \<noteq> [] \<and> map_of (ts_hashes s) (H token) = Some i"

definition static_accepts :: "(string \<Rightarrow> string) \<Rightarrow> string \<Rightarrow> unit \<Rightarrow> string \<Rightarrow> int \<Rightarrow> bool" where
  "static_accepts H secret u token i \<longleftrightarrow> secret \<noteq> [] \<and> H token = H secret \<and> i = 1"

interpretation listener: verifier "Verify H now" "listener_Required public" "listener_accepts H" for H now public
  by unfold_locales (auto simp: Verify_def listener_accepts_def fun_eq_iff split: option.splits)

interpretation static_token: verifier "static_Verify H secret" "static_Required secret" "static_accepts H secret" for H secret
  by unfold_locales (auto simp: static_Verify_def static_accepts_def equalConst_def)

section \<open>Properties\<close>

definition sample_hash :: "string \<Rightarrow> string" where
  "sample_hash t = take 32 (t @ replicate 32 (CHR ''0''))"

lemma sample_hash_length: "length (sample_hash t) = 32"
  by (simp add: sample_hash_def)

text \<open>A store that holds one token, with id 1 and secret \<open>aiu_key\<close>.\<close>

definition sample_tokens :: "(token_error + string \<times> int) \<times> token_db \<times> token_store" where
  "sample_tokens = Create sample_hash False 5 ''key'' ''laptop'' [] empty_token_db \<lparr>ts_hashes = [], ts_total = 0, ts_used = []\<rparr>"

definition sample_token_db :: token_db where "sample_token_db = fst (snd sample_tokens)"
definition sample_cache :: token_store where "sample_cache = snd (snd sample_tokens)"

lemma sample_tokens_reachable:
  "(token_step sample_hash)\<^sup>*\<^sup>* token_init (sample_token_db, empty_store, sample_cache)"
  unfolding token_init_def
  by (intro r_into_rtranclp token_step.create [of _ False 5 "''key''" "''laptop''" "[]" _ _ "fst sample_tokens"])
     (simp add: sample_token_db_def sample_cache_def flip: sample_tokens_def)

text \<open>C2: the in-memory cache refines the tables: whatever tokens were created, revoked,
  regenerated, imported, renamed or used, and whatever failed on the way, verifying a token answers
  what a lookup of the active rows would, authentication is known to be configured exactly when a
  row exists, and the cache holds one entry per active row.\<close>

theorem token_cache_refines_the_tables:
  assumes "(token_step H)\<^sup>*\<^sup>* token_init (db, st, s)" "\<And>t. length (H t) = 32"
  shows "fst (Verify H now token s) = db_Verify H token db \<and> HasTokens s = (td_tokens db \<noteq> [])
    \<and> ActiveCount s = length (filter Active (td_tokens db))"
proof -
  from tokens_reachable_ok [OF assms] have ok: "token_db_ok db" "cache_ok db s" by (simp_all add: token_service_ok_def)
  have "distinct (ts_hashes s)" using ok(2) by (simp add: cache_ok_def distinct_map)
  then have "length (ts_hashes s) = card (active_hashes db)"
    using ok(2) distinct_card by (metis cache_ok_def)
  also have "inj_on (\<lambda>t. (t_hash t, t_id t)) (set (filter Active (td_tokens db)))"
    using ok(1) by (auto simp: token_db_ok_def distinct_map inj_on_def)
  then have "card (active_hashes db) = card (set (filter Active (td_tokens db)))"
    unfolding active_hashes_def by (rule card_image)
  also have "\<dots> = length (filter Active (td_tokens db))"
    using ok(1) by (intro distinct_card distinct_filter) (simp add: token_db_ok_def distinct_map)
  finally show ?thesis
    using cache_Verify [OF ok] ok(2) by (simp add: HasTokens_def ActiveCount_def cache_ok_def)
qed

theorem token_cache_refines_the_tables_witness:
  "fst (Verify sample_hash 9 ''aiu_key'' sample_cache) = Some 1"
  unfolding conjunct1 [OF token_cache_refines_the_tables [OF sample_tokens_reachable sample_hash_length]]
  by code_simp

text \<open>C16: once a revocation has returned, no secret whatever authenticates as that token,
  and every other token answers as before.\<close>

theorem revoked_never_authenticates:
  assumes "Revoke fault now i db s = (Inr (), db', s')"
  shows "fst (Verify H t token s') \<noteq> Some i
    \<and> ((token_step H)\<^sup>*\<^sup>* token_init (db, st, s) \<and> (\<forall>t. length (H t) = 32) \<and> j \<noteq> i
      \<longrightarrow> (fst (Verify H t token s') = Some j \<longleftrightarrow> fst (Verify H t token s) = Some j))"
proof -
  have s': "s' = removeHash i s" using assms by (auto simp: Revoke_def split: prod.splits sum.splits)
  have gone: "map_of (filter (\<lambda>e. snd e \<noteq> i) m) k \<noteq> Some i" for m :: "(string \<times> int) list" and k
    by (auto dest: map_of_SomeD)
  have others: "map_of (filter (\<lambda>e. snd e \<noteq> i) m) k = Some j \<longleftrightarrow> map_of m k = Some j"
    if "distinct (map fst m)" "j \<noteq> i" for m :: "(string \<times> int) list" and k j
    using that by (auto simp: map_of_eq_Some_iff distinct_map_filter)
  show ?thesis
  proof (intro conjI impI)
    show "fst (Verify H t token s') \<noteq> Some i"
      using gone by (auto simp: Verify_def s' removeHash_def split: option.splits)
  next
    assume a: "(token_step H)\<^sup>*\<^sup>* token_init (db, st, s) \<and> (\<forall>t. length (H t) = 32) \<and> j \<noteq> i"
    then have "distinct (map fst (ts_hashes s))"
      using tokens_reachable_ok [of H "(db, st, s)"] by (auto simp: token_service_ok_def cache_ok_def)
    with a have "map_of (filter (\<lambda>e. snd e \<noteq> i) (ts_hashes s)) (H token) = Some j \<longleftrightarrow> map_of (ts_hashes s) (H token) = Some j"
      by (intro others) auto
    then show "fst (Verify H t token s') = Some j \<longleftrightarrow> fst (Verify H t token s) = Some j"
      by (auto simp: Verify_def s' removeHash_def split: option.splits)
  qed
qed

theorem revoked_never_authenticates_witness:
  "fst (Verify sample_hash 9 ''aiu_key'' (snd (snd (Revoke False 7 1 sample_token_db sample_cache)))) \<noteq> Some 1"
proof -
  define r where "r = Revoke False 7 1 sample_token_db sample_cache"
  have "fst r = Inr ()" unfolding r_def by code_simp
  then have "Revoke False 7 1 sample_token_db sample_cache = (Inr (), fst (snd r), snd (snd r))"
    by (simp add: r_def prod_eq_iff)
  from revoked_never_authenticates [OF this] show ?thesis by (simp add: r_def)
qed

text \<open>After a regeneration the new secret authenticates as the same token and any
  secret with another hash, the old one included, does not.\<close>

theorem regenerated_secret_replaces_the_old:
  assumes "Regenerate H fault now random i db s = (Inr plain, db', s')"
  shows "fst (Verify H t plain s') = Some i
    \<and> (H token \<noteq> H plain \<longrightarrow> fst (Verify H t token s') \<noteq> Some i)
    \<and> map_of (PendingUse s') i = None"
proof -
  have plain: "plain = newSecret random" and s': "ts_hashes s' = put (H plain) i (filter (\<lambda>e. snd e \<noteq> i) (ts_hashes s))"
    "ts_used s' = filter (\<lambda>e. fst e \<noteq> i) (ts_used s)"
    using assms by (auto simp: Regenerate_def Let_def removeHash_def split: prod.splits sum.splits)
  have "plain \<noteq> []" by (simp add: plain newSecret_def tokenPrefix_def)
  moreover have "map_of (ts_hashes s') k \<noteq> Some i" if "k \<noteq> H plain" for k
    using that by (auto simp: s' put_def dest!: map_of_SomeD)
  moreover have "map_of (ts_hashes s') (H plain) = Some i" by (simp add: s' put_def)
  moreover have "map_of (ts_used s') i = None" by (auto simp: s' map_of_eq_None_iff)
  ultimately show ?thesis by (auto simp: Verify_def PendingUse_def split: option.splits)
qed

theorem regenerated_secret_replaces_the_old_witness:
  "fst (Verify sample_hash 9 ''aiu_key'' (snd (snd (Regenerate sample_hash False 7 ''new'' 1 sample_token_db sample_cache)))) \<noteq> Some 1"
proof -
  define r where "r = Regenerate sample_hash False 7 ''new'' 1 sample_token_db sample_cache"
  have "fst r = Inr ''aiu_new''" unfolding r_def by code_simp
  then have "Regenerate sample_hash False 7 ''new'' 1 sample_token_db sample_cache = (Inr ''aiu_new'', fst (snd r), snd (snd r))"
    by (simp add: r_def prod_eq_iff)
  from regenerated_secret_replaces_the_old [OF this, of 9 "''aiu_key''"]
  have "fst (Verify sample_hash 9 ''aiu_key'' (snd (snd r))) \<noteq> Some 1"
    by (simp add: sample_hash_def)
  then show ?thesis by (simp add: r_def)
qed

text \<open>Importing the configured token never undoes a revocation or a regeneration: a
  secret whose hash was ever stored is not imported again, whatever happened since, restarts
  included.\<close>

theorem seed_respects_history:
  assumes "(token_step H)\<^sup>*\<^sup>* (db, st, s) (db', st', s')" "seed_known (H token) db"
  shows "Seed H False now token db' st' s' = (Inr False, db', st', s')"
proof -
  have "seed_known (H token) (fst x)" if "(token_step H)\<^sup>*\<^sup>* (db, st, s) x" for x
    using that
  proof (induction rule: rtranclp_induct)
    case base
    show ?case using assms(2) by simp
  next
    case (step x y)
    then show ?case using token_step_known by blast
  qed
  from this [OF assms(1)] show ?thesis by (simp add: Seed_def SeedTokenID_def)
qed

theorem seed_respects_history_witness:
  "fst (Seed sample_hash False 9 ''aiu_key'' (fst (snd (Revoke False 7 1 sample_token_db sample_cache))) empty_store
     (snd (snd (Revoke False 7 1 sample_token_db sample_cache)))) = Inr False"
proof -
  define r where "r = Revoke False 7 1 sample_token_db sample_cache"
  have "token_step sample_hash (sample_token_db, empty_store, sample_cache) (fst (snd r), empty_store, snd (snd r))"
    by (rule token_step.revoke [of False 7 1 _ _ "fst r"]) (simp add: r_def)
  moreover have "seed_known (sample_hash ''aiu_key'') sample_token_db" by code_simp
  ultimately show ?thesis using seed_respects_history [OF r_into_rtranclp] by (simp add: r_def)
qed



lemma assign_tokens_rows:
  assumes "assign_tokens i gs st = Some st'"
  shows "map r_id (s_rows st') = map r_id (s_rows st)
    \<and> (\<forall>r \<in> set (s_rows st'). r_token r = None \<longrightarrow> r \<in> set (s_rows st) \<and> (distinct (ids st) \<longrightarrow> r_id r \<notin> set gs))"
  using assms
proof (induction gs arbitrary: st)
  case (Cons g gs)
  from Cons.prems obtain st1 n where one: "exec_update g (\<lambda>r. r_token r = None) (\<lambda>r. r\<lparr>r_token := Some i\<rparr>) st = Some (st1, n)"
    and rest: "assign_tokens i gs st1 = Some st'" by (auto split: option.splits)
  from exec_update_Some [OF one]
  consider "st1 = st" "\<forall>r \<in> set (s_rows st). r_id r = g \<longrightarrow> r_token r \<noteq> None"
    | xs old ys where "s_rows st = xs @ old # ys" "r_id old = g" "s_rows st1 = xs @ old\<lparr>r_token := Some i\<rparr> # ys"
    by auto
  then show ?case
  proof cases
    case 1
    then show ?thesis using Cons.IH [OF rest] by auto
  next
    case (2 xs old ys)
    have g: "r_id r \<noteq> g" if "r \<in> set xs \<union> set ys" "distinct (ids st)" for r
      using distinct_key_split [of r_id xs old ys r] that 2 by (simp add: ids_def)
    have same: "ids st1 = ids st" using 2 by (simp add: ids_def)
    have "r \<in> set (s_rows st) \<and> (distinct (ids st) \<longrightarrow> r_id r \<notin> set (g # gs))"
      if r: "r \<in> set (s_rows st')" "r_token r = None" for r
    proof -
      have ih: "r \<in> set (s_rows st1)" "distinct (ids st) \<longrightarrow> r_id r \<notin> set gs"
        using Cons.IH [OF rest] r same by simp_all
      then have "r \<in> set xs \<union> set ys" using 2(3) r(2) by auto
      then show ?thesis using ih(2) g [of r] 2(1) by simp
    qed
    then show ?thesis using Cons.IH [OF rest] same by (simp add: ids_def)
  qed
qed simp

text \<open>Importing the very first token succeeds, attributes every stored row to it and keeps
  the rollups equal to a grouping of the rows.\<close>

theorem first_seed_attributes_all_usage:
  assumes "(token_step H)\<^sup>*\<^sup>* token_init (db, st, s)" "\<And>t. length (H t) = 32"
    and "td_tokens db = []" "\<not> seed_known (H token) db" "token \<noteq> []"
    and "Seed H False now token db st s = (r, db', st', s')"
  shows "r = Inr True \<and> map r_id (s_rows st') = map r_id (s_rows st)
    \<and> (\<forall>row \<in> set (s_rows st'). r_token row \<noteq> None) \<and> store_ok st'
    \<and> fst (Verify H t token s') = Some (next_token db)"
proof -
  from tokens_reachable_ok [OF assms(1,2)] have ok: "token_service_ok (db, st, s)" "store_ok st" "dated st" by simp_all
  then have db: "token_db_ok db" "cache_ok db s" by (simp_all add: token_service_ok_def)
  obtain st1 where st1: "assign_tokens (next_token db) (map r_id (s_rows st)) st = Some st1" "store_ok st1"
    using assign_tokens_ok [OF ok(2,3) next_token_pos] by blast
  have r: "r = Inr True" "st' = st1" "s' = s\<lparr>ts_hashes := put (H token) (next_token db) (ts_hashes s), ts_total := ts_total s + 1\<rparr>"
    using assms(3-6) st1(1) next_token_pos [of db] by (auto simp: Seed_def SeedTokenID_def Let_def)
  have "distinct (ids st)" using ok(2) by (simp add: store_ok_def)
  with assign_tokens_rows [OF st1(1)]
  have rows: "map r_id (s_rows st1) = map r_id (s_rows st) \<and> (\<forall>row \<in> set (s_rows st1). r_token row \<noteq> None)"
    by auto
  show ?thesis using rows r st1(2) assms(5) by (simp add: Verify_def put_def)
qed

theorem first_seed_attributes_all_usage_witness:
  "fst (Verify sample_hash 9 ''aiu_key'' (snd (snd (snd (Seed sample_hash False 5 ''aiu_key'' empty_token_db sample_store
     \<lparr>ts_hashes = [], ts_total = 0, ts_used = []\<rparr>))))) = Some 1"
proof -
  let ?s = "\<lparr>ts_hashes = [], ts_total = 0, ts_used = []\<rparr>"
  define x where "x = Seed sample_hash False 5 ''aiu_key'' empty_token_db sample_store ?s"
  have "token_step sample_hash token_init (empty_token_db, sample_store, ?s)"
  proof -
    obtain res where "InsertGenerations no_fault (\<lambda>_. 0) [sample_gen] empty_store = (Inr res, sample_store)"
      using sample_inserted by blast
    then show ?thesis unfolding token_init_def
      by (rule token_step.batch) (simp add: gen_dated_sample)
  qed
  moreover have "\<not> seed_known (sample_hash ''aiu_key'') empty_token_db" by code_simp
  moreover have "x = (fst x, fst (snd x), fst (snd (snd x)), snd (snd (snd x)))" by simp
  ultimately have "fst (Verify sample_hash 9 ''aiu_key'' (snd (snd (snd x)))) = Some (next_token empty_token_db)"
    using first_seed_attributes_all_usage [where H = sample_hash and token = "''aiu_key''" and now = 5 and t = 9
        and db = empty_token_db and st = sample_store and s = ?s and r = "fst x" and db' = "fst (snd x)"
        and st' = "fst (snd (snd x))" and s' = "snd (snd (snd x))", OF r_into_rtranclp sample_hash_length]
    by (simp add: x_def empty_token_db_def)
  then show ?thesis by (simp add: x_def next_token_def empty_token_db_def)
qed

end
