(* ===== verification/StatsStore.thy ===== *)
theory StatsStore
  imports Calendar "HOL-Library.Product_Lexorder" "HOL-Library.List_Lexorder" "HOL-Library.Char_ord"
begin

text \<open>
  The persisted ingestion counters (\<open>internal/storage/stats.go\<close>, \<open>stats_snapshot.go\<close>,
  \<open>stats_reasons.go\<close>): the tables \<open>stats_daily\<close> and \<open>stats_daily_reasons\<close> with their upserts and
  reads.  \<open>fault\<close> says at which statement of a write the database fails; a write that fails leaves
  both tables as they were.
\<close>

record DailyStats =
  ds_day :: string
  ds_received :: int
  ds_normalized :: int
  ds_stored :: int
  ds_deduplicated :: int
  ds_rejected :: int
  ds_ignored :: int
  ds_norm_errors :: int
  ds_ing_errors :: int
  ds_updated :: int

record ReasonStat =
  rs_kind :: string
  rs_reason :: string
  rs_count :: int

record stats_db =
  sd_days :: "DailyStats list"
  sd_reasons :: "(string \<times> ReasonStat) list"

definition empty_stats_db :: stats_db where
  "empty_stats_db = \<lparr>sd_days = [], sd_reasons = []\<rparr>"

definition zero_daily :: DailyStats where
  "zero_daily = \<lparr>ds_day = [], ds_received = 0, ds_normalized = 0, ds_stored = 0, ds_deduplicated = 0,
     ds_rejected = 0, ds_ignored = 0, ds_norm_errors = 0, ds_ing_errors = 0, ds_updated = 0\<rparr>"

section \<open>Writes\<close>

text \<open>The upsert: the row of the day is replaced, or added.\<close>

fun upsert_day :: "DailyStats \<Rightarrow> DailyStats list \<Rightarrow> DailyStats list" where
  "upsert_day s [] = [s]"
| "upsert_day s (t # ts) = (if ds_day t = ds_day s then s # ts else t # upsert_day s ts)"

definition UpsertDailyStats :: "bool \<Rightarrow> int \<Rightarrow> DailyStats \<Rightarrow> stats_db \<Rightarrow> bool \<times> stats_db" where
  "UpsertDailyStats fault now s db = (if fault then (False, db)
     else (True, db\<lparr>sd_days := upsert_day (s\<lparr>ds_updated := unix_milli now\<rparr>) (sd_days db)\<rparr>))"

text \<open>
  The reasons of a day are replaced one insert at a time; the primary key (day, kind, reason)
  refuses a pair that occurs twice.
\<close>

definition reason_pairs :: "ReasonStat list \<Rightarrow> (string \<times> string) list" where
  "reason_pairs rs = map (\<lambda>r. (rs_kind r, rs_reason r)) rs"

definition replace_reasons :: "string \<Rightarrow> ReasonStat list \<Rightarrow> stats_db \<Rightarrow> stats_db" where
  "replace_reasons day rs db = db\<lparr>sd_reasons := filter (\<lambda>(d, _). d \<noteq> day) (sd_reasons db) @ map (Pair day) rs\<rparr>"

definition UpsertDailyReasons :: "(nat \<Rightarrow> bool) \<Rightarrow> string \<Rightarrow> ReasonStat list \<Rightarrow> stats_db \<Rightarrow> bool \<times> stats_db" where
  "UpsertDailyReasons fault day rs db =
     (if list_ex fault [0..<length rs + 3] \<or> \<not> distinct (reason_pairs rs) then (False, db)
      else (True, replace_reasons day rs db))"

definition UpsertDailySnapshot :: "(nat \<Rightarrow> bool) \<Rightarrow> int \<Rightarrow> DailyStats \<Rightarrow> ReasonStat list \<Rightarrow> stats_db \<Rightarrow> bool \<times> stats_db" where
  "UpsertDailySnapshot fault now s rs db =
     (if list_ex fault [0..<length rs + 4] \<or> \<not> distinct (reason_pairs rs) then (False, db)
      else (True, (replace_reasons (ds_day s) rs db)
        \<lparr>sd_days := upsert_day (s\<lparr>ds_updated := unix_milli now\<rparr>) (sd_days db)\<rparr>))"

section \<open>Reads\<close>

definition DailyStatsForDay :: "string \<Rightarrow> stats_db \<Rightarrow> DailyStats option" where
  "DailyStatsForDay day db = List.find (\<lambda>s. ds_day s = day) (sd_days db)"

definition in_days :: "string \<Rightarrow> string \<Rightarrow> string \<Rightarrow> bool" where
  "in_days from til day \<longleftrightarrow> (from = [] \<or> from \<le> day) \<and> (til = [] \<or> day \<le> til)"

definition newest_first :: "DailyStats list \<Rightarrow> DailyStats list" where
  "newest_first ss = rev (sort_key ds_day ss)"

definition DailyStatsRange :: "string \<Rightarrow> string \<Rightarrow> nat \<Rightarrow> stats_db \<Rightarrow> DailyStats list" where
  "DailyStatsRange from til limit db =
     take limit (newest_first (filter (\<lambda>s. in_days from til (ds_day s)) (sd_days db)))"

definition RecentDailyStats :: "nat \<Rightarrow> stats_db \<Rightarrow> DailyStats list" where
  "RecentDailyStats limit db = take limit (newest_first (sd_days db))"

definition reason_days :: "(string \<Rightarrow> bool) \<Rightarrow> nat \<Rightarrow> stats_db \<Rightarrow> string list" where
  "reason_days p limit db = take limit (rev (sort (remdups
     (map fst (filter (\<lambda>(d, r). 0 < rs_count r \<and> p d) (sd_reasons db))))))"

definition RecentReasonDays :: "nat \<Rightarrow> stats_db \<Rightarrow> string list" where
  "RecentReasonDays limit db = reason_days (\<lambda>_. True) limit db"

definition DailyReasonDaysRange :: "string \<Rightarrow> string \<Rightarrow> nat \<Rightarrow> stats_db \<Rightarrow> string list" where
  "DailyReasonDaysRange from til limit db = reason_days (in_days from til) limit db"

definition DailyReasonsForDay :: "string \<Rightarrow> stats_db \<Rightarrow> ReasonStat list" where
  "DailyReasonsForDay day db = sort_key (\<lambda>r. (rs_kind r, rs_reason r))
     (map snd (filter (\<lambda>(d, _). d = day) (sd_reasons db)))"

section \<open>Laws\<close>

lemma find_upsert_day: "List.find (\<lambda>t. ds_day t = d) (upsert_day s ts) =
    (if ds_day s = d then Some s else List.find (\<lambda>t. ds_day t = d) ts)"
  by (induction ts) auto

lemma DailyStatsForDay_snapshot:
  assumes "UpsertDailySnapshot fault now s rs db = (True, db')"
  shows "DailyStatsForDay d db' = (if ds_day s = d then Some (s\<lparr>ds_updated := unix_milli now\<rparr>)
    else DailyStatsForDay d db)"
  using assms by (auto simp: UpsertDailySnapshot_def DailyStatsForDay_def find_upsert_day split: if_splits)

lemma filter_replaced:
  "filter (\<lambda>(d', _). d' = d) (filter (\<lambda>(d', _). d' \<noteq> day) xs @ map (Pair day) rs)
   = (if d = day then map (Pair day) rs else filter (\<lambda>(d', _). d' = d) xs)"
  by (induction xs) (auto simp: filter_empty_conv)

lemma DailyReasonsForDay_snapshot:
  assumes "UpsertDailySnapshot fault now s rs db = (True, db')"
  shows "DailyReasonsForDay d db' = (if ds_day s = d then sort_key (\<lambda>r. (rs_kind r, rs_reason r)) rs
    else DailyReasonsForDay d db)"
  using assms filter_replaced [of d "ds_day s" "sd_reasons db" rs]
  by (auto simp: UpsertDailySnapshot_def DailyReasonsForDay_def replace_reasons_def o_def split: if_splits)

lemma UpsertDailySnapshot_fail: "UpsertDailySnapshot fault now s rs db = (False, db') \<Longrightarrow> db' = db"
  by (auto simp: UpsertDailySnapshot_def split: if_splits)

end
