(* ===== verification/Dashboard.thy ===== *)
theory Dashboard
  imports Charts Tokens StatsStore
begin

text \<open>
  The pages of the dashboard (\<open>internal/web/web.go\<close> and \<open>tokens.go\<close>): the calendar of daily totals,
  the data of the trends, breakdowns, sessions and detail pages, the setup page and the management of
  tokens.  A page is its view model or an error; the templates that render it are not modelled.
\<close>

section \<open>The calendar\<close>

record heatmapCell =
  hc_label :: string
  hc_tokens :: int
  hc_level :: int
  hc_future :: bool

record heatmapMonth =
  hm_label :: string
  hm_padding :: nat
  hm_cells :: "heatmapCell list"

definition month_names :: "string list" where
  "month_names = [''Jan'', ''Feb'', ''Mar'', ''Apr'', ''May'', ''Jun'', ''Jul'', ''Aug'', ''Sep'', ''Oct'', ''Nov'', ''Dec'']"

definition day_names :: "string list" where
  "day_names = [''Sun'', ''Mon'', ''Tue'', ''Wed'', ''Thu'', ''Fri'', ''Sat'']"

text \<open>\<open>Format("Jan 2006")\<close> and \<open>Format("Mon, Jan 2, 2006")\<close>.\<close>

definition month_label :: "int \<Rightarrow> string" where
  "month_label t = (case civil_of_days (t div day_ns) of (y, m, d) \<Rightarrow>
     month_names ! nat (m - 1) @ '' '' @ format_year y)"

definition day_label :: "int \<Rightarrow> string" where
  "day_label t = (case civil_of_days (t div day_ns) of (y, m, d) \<Rightarrow>
     day_names ! nat (weekday (t div day_ns)) @ '', '' @ month_names ! nat (m - 1) @ '' '' @ show_nat d @ '', '' @ format_year y)"

definition day_of_month :: "int \<Rightarrow> int" where
  "day_of_month t = (case civil_of_days (t div day_ns) of (y, m, d) \<Rightarrow> d)"

definition heat_level :: "int \<Rightarrow> int \<Rightarrow> int" where
  "heat_level tokens maxTokens = (if 0 < tokens \<and> 0 < maxTokens
     then min (max (wrap64 (wrap64 (tokens * 4) + maxTokens - 1) sdiv maxTokens) 1) 4 else 0)"

definition heat_cell :: "(int \<Rightarrow> int) \<Rightarrow> int \<Rightarrow> int \<Rightarrow> int \<Rightarrow> heatmapCell" where
  "heat_cell byDay maxTokens today day = \<lparr>hc_label = day_label day, hc_tokens = byDay (unix_milli day),
     hc_level = heat_level (byDay (unix_milli day)) maxTokens, hc_future = (today < day)\<rparr>"

definition heat_day :: "(int \<Rightarrow> int) \<Rightarrow> int \<Rightarrow> int \<Rightarrow> int \<Rightarrow> heatmapMonth list \<Rightarrow> heatmapMonth list" where
  "heat_day byDay maxTokens today day months =
     (let months = (if months = [] \<or> day_of_month day = 1
          then months @ [\<lparr>hm_label = month_label day, hm_padding = nat (weekday (day div day_ns)), hm_cells = []\<rparr>]
          else months);
          month = last months
      in butlast months @ [month\<lparr>hm_cells := hm_cells month @ [heat_cell byDay maxTokens today day]\<rparr>])"

function heat_loop :: "(int \<Rightarrow> int) \<Rightarrow> int \<Rightarrow> int \<Rightarrow> int \<Rightarrow> int \<Rightarrow> heatmapMonth list \<Rightarrow> heatmapMonth list" where
  "heat_loop byDay maxTokens today endt day months = (if day < endt
     then heat_loop byDay maxTokens today endt (add_date day 0 1) (heat_day byDay maxTokens today day months)
     else months)"
  by pat_completeness auto
termination by (relation "measure (\<lambda>(_, _, _, endt, day, _). nat (endt - day))") auto

declare heat_loop.simps [simp del]

definition heat_start :: "int \<Rightarrow> int" where
  "heat_start today = (let start = add_date today 0 (- 364) in
     add_date start 0 (- weekday (start div day_ns)))"

definition point_total :: "TimeseriesPoint \<Rightarrow> int" where
  "point_total p = wrap64 (factTotalTokensSQL (tp_sums p))"

definition heat_by_day :: "TimeseriesPoint list \<Rightarrow> int \<Rightarrow> int" where
  "heat_by_day pts b = (case map_of (rev (map (\<lambda>p. (tp_bucket p, point_total p)) pts)) b of None \<Rightarrow> 0 | Some n \<Rightarrow> n)"

definition heat_max :: "TimeseriesPoint list \<Rightarrow> int" where
  "heat_max pts = fold (\<lambda>p m. if m < point_total p then point_total p else m) pts 0"

definition heat_months :: "int \<Rightarrow> TimeseriesPoint list \<Rightarrow> heatmapMonth list" where
  "heat_months now pts = (let today = startOfDay now; start = heat_start today in
     heat_loop (heat_by_day pts) (heat_max pts) today (add_date start 0 371) start [])"

definition heatmap :: "int \<Rightarrow> int \<Rightarrow> (int \<Rightarrow> string option) \<Rightarrow> uiFilter \<Rightarrow> store \<Rightarrow> query_error + heatmapMonth list" where
  "heatmap now clock groups u st = (let start = heat_start (startOfDay now) in
     ebind (Timeseries clock groups (dims_filter u start (add_date start 0 371)) BucketDay st) (\<lambda>pts.
       Inr (heat_months now pts)))"

subsection \<open>Its shape\<close>

definition month_view :: "(int \<Rightarrow> heatmapCell) \<Rightarrow> int list \<Rightarrow> heatmapMonth" where
  "month_view cell g = \<lparr>hm_label = month_label (hd g), hm_padding = nat (weekday (hd g div day_ns)), hm_cells = map cell g\<rparr>"

definition add_to_groups :: "int \<Rightarrow> int list list \<Rightarrow> int list list" where
  "add_to_groups day gs = (if gs = [] \<or> day_of_month day = 1 then gs @ [[day]] else butlast gs @ [last gs @ [day]])"

definition groups_ok :: "int list list \<Rightarrow> bool" where
  "groups_ok gs \<longleftrightarrow> (\<forall>g \<in> set gs. g \<noteq> [] \<and> (\<forall>d \<in> set (tl g). day_of_month d \<noteq> 1)) \<and> (\<forall>g \<in> set (tl gs). day_of_month (hd g) = 1)"

lemma heat_day_groups:
  assumes "\<forall>g \<in> set gs. g \<noteq> []"
  shows "heat_day byDay mx today day (map (month_view (heat_cell byDay mx today)) gs)
    = map (month_view (heat_cell byDay mx today)) (add_to_groups day gs)"
proof (cases "gs = [] \<or> day_of_month day = 1")
  case False
  then obtain hs g where gs: "gs = hs @ [g]" by (metis rev_exhaust)
  then have "g \<noteq> []" using assms by simp
  then show ?thesis using False by (simp add: heat_day_def add_to_groups_def gs month_view_def Let_def)
qed (auto simp: heat_day_def add_to_groups_def month_view_def Let_def)

lemma add_to_groups_ok: "groups_ok gs \<Longrightarrow> groups_ok (add_to_groups day gs) \<and> concat (add_to_groups day gs) = concat gs @ [day]"
proof (cases "gs = [] \<or> day_of_month day = 1")
  case True
  then show "groups_ok gs \<Longrightarrow> ?thesis" by (cases gs) (auto simp: add_to_groups_def groups_ok_def)
next
  case False
  then obtain hs g where gs: "gs = hs @ [g]" by (metis rev_exhaust)
  assume ok: "groups_ok gs"
  then have g: "g \<noteq> []" by (simp add: groups_ok_def gs)
  have "groups_ok (hs @ [g @ [day]])"
    using ok False g unfolding groups_ok_def gs by (cases hs) (auto simp: tl_append split: list.splits)
  then show ?thesis using False by (simp add: add_to_groups_def gs)
qed

definition heat_days :: "int \<Rightarrow> nat \<Rightarrow> int list" where
  "heat_days day n = map (\<lambda>k. day + int k * day_ns) [0..<n]"

lemma heat_days_Suc: "heat_days day (Suc n) = day # heat_days (day + day_ns) n"
  by (simp add: heat_days_def upt_conv_Cons map_Suc_upt [symmetric] algebra_simps del: upt_Suc)

lemma heat_loop_groups:
  assumes "groups_ok gs" "endt = day + int n * day_ns"
  shows "\<exists>gs'. heat_loop byDay mx today endt day (map (month_view (heat_cell byDay mx today)) gs)
      = map (month_view (heat_cell byDay mx today)) gs' \<and> groups_ok gs' \<and> concat gs' = concat gs @ heat_days day n"
  using assms
proof (induction n arbitrary: day gs)
  case 0
  then show ?case by (subst heat_loop.simps) (auto simp: heat_days_def)
next
  case (Suc n)
  note step = add_to_groups_ok [OF Suc.prems(1), of day]
  have "endt = add_date day 0 1 + int n * day_ns" using Suc.prems(2) by (simp add: algebra_simps)
  from Suc.IH [OF step [THEN conjunct1] this] obtain gs' where gs':
    "heat_loop byDay mx today endt (add_date day 0 1) (map (month_view (heat_cell byDay mx today)) (add_to_groups day gs))
      = map (month_view (heat_cell byDay mx today)) gs'" "groups_ok gs'"
    "concat gs' = concat (add_to_groups day gs) @ heat_days (add_date day 0 1) n" by blast
  have "day < endt" using Suc.prems(2) by simp
  then have "heat_loop byDay mx today endt day (map (month_view (heat_cell byDay mx today)) gs)
      = heat_loop byDay mx today endt (add_date day 0 1) (map (month_view (heat_cell byDay mx today)) (add_to_groups day gs))"
    using Suc.prems(1) by (subst heat_loop.simps) (simp add: heat_day_groups groups_ok_def)
  with gs' step show ?case by (intro exI [of _ gs']) (simp add: heat_days_Suc)
qed

lemma heat_level_bounds:
  assumes "t \<le> mx" "mx \<le> 2 ^ 60"
  shows "0 \<le> heat_level t mx" "heat_level t mx \<le> 4" "heat_level t mx = 0 \<longleftrightarrow> t \<le> 0"
    and "0 < t \<Longrightarrow> heat_level t mx = (4 * t + mx - 1) div mx"
proof -
  show "0 < t \<Longrightarrow> heat_level t mx = (4 * t + mx - 1) div mx"
  proof -
    assume t: "0 < t"
    have m: "0 < mx" using t assms(1) by simp
    have w: "wrap64 (wrap64 (t * 4) + mx - 1) = 4 * t + mx - 1"
    proof -
      have "wrap64 (t * 4) = t * 4" using t assms by (intro wrap64_id) (simp add: int64_range_def)
      moreover have "wrap64 (t * 4 + mx - 1) = t * 4 + mx - 1" using t assms by (intro wrap64_id) (simp add: int64_range_def)
      ultimately show ?thesis by (simp add: mult.commute)
    qed
    have s: "(4 * t + mx - 1) sdiv mx = (4 * t + mx - 1) div mx" using t m by (simp add: sdiv_nonneg)
    have "1 \<le> (4 * t + mx - 1) div mx" using zdiv_mono1 [of mx "4 * t + mx - 1" mx] t m by simp
    moreover have "4 * t + mx - 1 < 5 * mx" using t assms(1) m by linarith
    then have "(4 * t + mx - 1) div mx < 5" using int_div_less [OF m] by blast
    ultimately show ?thesis using t m by (simp add: heat_level_def w s)
  qed
  show "0 \<le> heat_level t mx" "heat_level t mx \<le> 4" "heat_level t mx = 0 \<longleftrightarrow> t \<le> 0"
    using assms(1) by (auto simp: heat_level_def)
qed

lemma heat_max_ge: "p \<in> set pts \<Longrightarrow> point_total p \<le> heat_max pts" and heat_max_nonneg: "0 \<le> heat_max pts"
proof -
  have "m \<le> fold (\<lambda>p m. if m < point_total p then point_total p else m) ps m" for m and ps :: "TimeseriesPoint list"
  proof (induction ps arbitrary: m)
    case (Cons p ps)
    from Cons [of "if m < point_total p then point_total p else m"] show ?case by (simp split: if_splits)
  qed simp
  note ge = this
  have "p \<in> set ps \<Longrightarrow> point_total p \<le> fold (\<lambda>p m. if m < point_total p then point_total p else m) ps m"
    for m and ps :: "TimeseriesPoint list"
  proof (induction ps arbitrary: m)
    case (Cons q ps)
    then show ?case using ge [of "if m < point_total q then point_total q else m" ps] by (auto split: if_splits)
  qed simp
  then show "p \<in> set pts \<Longrightarrow> point_total p \<le> heat_max pts" by (simp add: heat_max_def)
  show "0 \<le> heat_max pts" unfolding heat_max_def by (rule ge)
qed

lemma heat_by_day_le: "heat_by_day pts b \<le> heat_max pts"
proof (cases "map_of (rev (map (\<lambda>p. (tp_bucket p, point_total p)) pts)) b")
  case None
  then show ?thesis by (simp add: heat_by_day_def heat_max_nonneg)
next
  case (Some n)
  from map_of_SomeD [OF Some] obtain p where "p \<in> set pts" "n = point_total p" by auto
  then show ?thesis using Some heat_max_ge by (simp add: heat_by_day_def)
qed

lemma heat_level_mono:
  assumes "t \<le> t'" "t' \<le> mx" "mx \<le> 2 ^ 60"
  shows "heat_level t mx \<le> heat_level t' mx"
proof (cases "0 < t")
  case True
  then have "0 < t'" "0 < mx" using assms(1,2) by simp_all
  then show ?thesis
    using True assms heat_level_bounds(4) [of t mx] heat_level_bounds(4) [of t' mx] by (simp add: zdiv_mono1)
next
  case False
  then show ?thesis using assms heat_level_bounds(1,3) by (metis linorder_not_less order_trans order_refl)
qed

text \<open>The calendar shows a year: its months hold every one of the 371 days from a Sunday on, in order and
  once, a month starts at the first of the month, is labelled by its days and padded to its first weekday, and
  today is in the last week; and while the daily totals stay below 2^60 a day has level 0 exactly when it
  has no tokens, otherwise 1 to 4, never less than a day with fewer tokens.\<close>

theorem calendar_is_complete:
  defines "start now \<equiv> heat_start (startOfDay now)"
    and "cell now pts \<equiv> heat_cell (heat_by_day pts) (heat_max pts) (startOfDay now)"
  shows "(\<exists>gs. heat_months now pts = map (month_view (cell now pts)) gs \<and> concat gs = heat_days (start now) 371 \<and> groups_ok gs)
    \<and> weekday (start now div day_ns) = 0 \<and> start now \<le> startOfDay now - 364 * day_ns
    \<and> startOfDay now < start now + 371 * day_ns
    \<and> (heat_max pts \<le> 2 ^ 60 \<longrightarrow> (\<forall>d d'. let t = hc_tokens (cell now pts d); l = hc_level (cell now pts d) in
      0 \<le> l \<and> l \<le> 4 \<and> (l = 0 \<longleftrightarrow> t \<le> 0)
      \<and> (t \<le> hc_tokens (cell now pts d') \<longrightarrow> l \<le> hc_level (cell now pts d'))))"
proof -
  let ?t = "startOfDay now div day_ns"
  have today: "startOfDay now = ?t * day_ns" by (simp add: startOfDay_eq)
  define w where "w = weekday (?t - 364)"
  have w: "0 \<le> w" "w < 7" by (simp_all add: w_def weekday_def)
  have idx: "(startOfDay now + - 364 * day_ns) div day_ns = ?t - 364"
  proof -
    have "startOfDay now + - 364 * day_ns = (?t - 364) * day_ns" using today by (simp add: algebra_simps)
    then show ?thesis by simp
  qed
  have start: "start now = (?t - 364 - w) * day_ns"
    using today by (simp add: start_def heat_start_def idx [simplified] Let_def w_def algebra_simps)
  then have "start now div day_ns = ?t - 364 - w" by simp
  moreover have "weekday (?t - 364 - w) = 0"
  proof -
    define x where "x = ?t - 364 + 4"
    have "?t - 364 - w + 4 = x - x mod 7" by (simp only: w_def weekday_def x_def)
    then show ?thesis unfolding weekday_def by (simp add: minus_mod_eq_mult_div)
  qed
  moreover obtain gs where "heat_months now pts = map (month_view (cell now pts)) gs"
    "concat gs = heat_days (start now) 371" "groups_ok gs"
    using heat_loop_groups [of "[]" "add_date (start now) 0 371" "start now" 371 "heat_by_day pts" "heat_max pts" "startOfDay now"]
    by (auto simp: heat_months_def start_def cell_def groups_ok_def Let_def)
  moreover have "start now \<le> startOfDay now - 364 * day_ns" "startOfDay now < start now + 371 * day_ns"
    using w today start by (simp_all add: algebra_simps)
  moreover have "let t = hc_tokens (cell now pts d); l = hc_level (cell now pts d) in
      0 \<le> l \<and> l \<le> 4 \<and> (l = 0 \<longleftrightarrow> t \<le> 0) \<and> (t \<le> hc_tokens (cell now pts d') \<longrightarrow> l \<le> hc_level (cell now pts d'))"
    if "heat_max pts \<le> 2 ^ 60" for d d'
    using that heat_level_bounds [OF heat_by_day_le that] heat_level_mono [OF _ heat_by_day_le that]
    by (simp add: cell_def heat_cell_def Let_def)
  ultimately show ?thesis by auto
qed


theorem calendar_is_complete_witness:
  "hc_level (heat_cell (heat_by_day []) (heat_max []) (startOfDay 0) 0) = 0"
proof -
  have m: "heat_max [] \<le> 2 ^ 60" and t: "heat_by_day [] b = 0" for b
    by (simp_all add: heat_max_def heat_by_day_def)
  have "hc_tokens (heat_cell (heat_by_day []) (heat_max []) (startOfDay 0) 0) \<le> 0"
    by (simp add: heat_cell_def t)
  with calendar_is_complete [of 0 "[]"] m show ?thesis by (simp only: Let_def simp_thms)
qed

section \<open>Pages\<close>

text \<open>
  What a request finds: the database, the clock at its \<open>n\<close>-th reading, and which of its queries fail
  (the cards and the calendar count as one query each).
\<close>

record page_env =
  pg_store :: store
  pg_tokens :: token_db
  pg_clock :: "nat \<Rightarrow> int"
  pg_fault :: "nat \<Rightarrow> bool"

datatype page_error = BadRequest request_error | InternalError | PageNotFound

text \<open>\<open>writeErr\<close>: problems with the request answer 400, everything else 500 without details.\<close>

definition page_status :: "page_error + 'a \<Rightarrow> int" where
  "page_status r = (case r of Inl (BadRequest _) \<Rightarrow> 400 | Inl InternalError \<Rightarrow> 500 | Inl PageNotFound \<Rightarrow> 404 | Inr _ \<Rightarrow> 200)"

definition of_request :: "request_error + 'a \<Rightarrow> page_error + 'a" where
  "of_request r = (case r of Inl e \<Rightarrow> Inl (BadRequest e) | Inr a \<Rightarrow> Inr a)"

definition of_query :: "page_env \<Rightarrow> nat \<Rightarrow> query_error + 'a \<Rightarrow> page_error + 'a" where
  "of_query env n r = (if pg_fault env n then Inl InternalError
     else case r of Inl _ \<Rightarrow> Inl InternalError | Inr a \<Rightarrow> Inr a)"

definition group_of_token :: "token_db \<Rightarrow> int \<Rightarrow> string option" where
  "group_of_token db i = map_option t_group (List.find (\<lambda>t. t_id t = i) (td_tokens db))"

abbreviation pg_groups :: "page_env \<Rightarrow> int \<Rightarrow> string option" where
  "pg_groups env \<equiv> group_of_token (pg_tokens env)"

record filterView =
  fv_action :: string
  fv_show_dimensions :: bool
  fv_show_period_mode :: bool
  fv_period_rolling :: bool
  fv_presets :: "presetView list"
  fv_sources :: "string list"
  fv_providers :: "string list"
  fv_models :: "string list"
  fv_groups :: "string list"
  fv_tokens :: "api_token list"
  fv_has_ungrouped :: bool
  fv_selected :: uiFilter
  fv_conversation_url :: string
  fv_hidden :: "(string \<times> string) list"

definition no_filter :: filter_spec where
  "no_filter = \<lparr>fl_from = zero_time, fl_to = zero_time, fl_source = [], fl_provider = [], fl_model = [],
     fl_conversation = [], fl_group = [], fl_ungrouped = False, fl_token = [], fl_unbounded = False\<rparr>"

text \<open>Queries 0 to 4 of every page fill the filter bar.\<close>

definition base :: "page_env \<Rightarrow> string \<Rightarrow> uiFilter \<Rightarrow> page_error + filterView" where
  "base env action u =
     ebind (of_query env 0 (distinct_values (pg_clock env 2) (pg_groups env) no_filter ColSource (pg_store env))) (\<lambda>sources.
     ebind (of_query env 1 (distinct_values (pg_clock env 3) (pg_groups env) no_filter ColProvider (pg_store env))) (\<lambda>providers.
     ebind (of_query env 2 (distinct_values (pg_clock env 4) (pg_groups env) no_filter ColModel (pg_store env))) (\<lambda>models.
     ebind (of_query env 3 (Inr (ListTokens (pg_tokens env)))) (\<lambda>tokens.
     ebind (of_query env 4 (Inr (TokenGroups (pg_tokens env)))) (\<lambda>groups.
     Inr \<lparr>fv_action = action, fv_show_dimensions = True, fv_show_period_mode = False, fv_period_rolling = False,
       fv_presets = presetViews action u, fv_sources = sources, fv_providers = providers,
       fv_models = models, fv_groups = groups, fv_tokens = tokens,
       fv_has_ungrouped = list_ex (\<lambda>t. t_group t = []) tokens, fv_selected = u,
       fv_conversation_url = (if uf_conversation u \<noteq> [] then withoutConversationURL action u else []),
       fv_hidden = []\<rparr>)))))"

subsection \<open>Dashboard\<close>

record dashboardPage =
  db_filter :: filterView
  db_periods :: periodModes
  db_cards :: "cardView list"
  db_heatmap :: "heatmapMonth list"

definition dashboard_page :: "page_env \<Rightarrow> url_values \<Rightarrow> page_error + dashboardPage" where
  "dashboard_page env q = ebind (of_request (parseFilter (pg_clock env 0) q)) (\<lambda>(f, u).
     ebind (base env ''/'' u) (\<lambda>fv.
     ebind (of_request (parsePeriodModes q)) (\<lambda>modes.
     ebind (of_query env 5 (cards (pg_clock env 5) (\<lambda>i. pg_clock env (6 + i)) (pg_groups env) u modes (pg_store env))) (\<lambda>cs.
     ebind (of_query env 6 (heatmap (pg_clock env 11) (pg_clock env 12) (pg_groups env) u (pg_store env))) (\<lambda>hm.
     Inr \<lparr>db_filter = fv\<lparr>fv_presets := [], fv_show_period_mode := True, fv_period_rolling := pm_rolling modes\<rparr>, db_periods = modes, db_cards = cs, db_heatmap = hm\<rparr>)))))"

text \<open>The live section of the page runs the same queries.\<close>

definition fragDashboardStats :: "page_env \<Rightarrow> url_values \<Rightarrow> page_error + periodModes \<times> cardView list \<times> heatmapMonth list" where
  "fragDashboardStats env q = ebind (dashboard_page env q) (\<lambda>d. Inr (db_periods d, db_cards d, db_heatmap d))"

text \<open>\<open>None\<close> is the empty body that closes the expansion.\<close>

definition fragPeriodDetail :: "page_env \<Rightarrow> url_values \<Rightarrow> page_error + periodDetailView option" where
  "fragPeriodDetail env q = (let period = q_get q ''period'' in
     if period = [] then Inr None
     else ebind (of_request (parseFilter (pg_clock env 0) q)) (\<lambda>(f, u).
       ebind (of_request (parsePeriodModes q)) (\<lambda>modes.
       case period_detail (pg_clock env 1) (pg_clock env 2) (pg_groups env) period u modes (pg_store env) of
         None \<Rightarrow> Inl (BadRequest (InvalidPeriod period))
       | Some r \<Rightarrow> map_sum id Some (of_query env 5 r))))"

subsection \<open>Trends\<close>

record trendsPage =
  tr_filter :: filterView
  tr_bucket :: string
  tr_buckets :: "(string \<times> string \<times> bool) list"
  tr_metric :: metric
  tr_leaderboard :: "leaderboardRow list"
  tr_tokens :: "chartJSON \<times> bool"
  tr_cost :: "chartJSON \<times> bool"
  tr_source :: "chartJSON \<times> bool"
  tr_cache :: "chartJSON \<times> bool"

definition metricParam :: "url_values \<Rightarrow> request_error + metric" where
  "metricParam q = (let v = q_get q ''rank_by'' in
     if v = [] \<or> v = ''tokens'' then Inr RankTokens else if v = ''days'' then Inr RankDays
     else if v = ''cost'' then Inr RankCost else Inl (InvalidMetricParam v))"

definition hidden_dates :: "url_values \<Rightarrow> (string \<times> string) list" where
  "hidden_dates q = filter (\<lambda>(k, v). v \<noteq> []) (map (\<lambda>k. (k, q_get q k)) [''from'', ''to''])"

definition trendsData :: "page_env \<Rightarrow> url_values \<Rightarrow> page_error + trendsPage" where
  "trendsData env q = ebind (of_request (parseFilter (pg_clock env 0) q)) (\<lambda>(f, u).
     ebind (of_request (metricParam q)) (\<lambda>metric.
     let u = (if metric \<noteq> RankTokens then u\<lparr>uf_rank_by := q_get q ''rank_by''\<rparr> else u) in
     ebind (of_request (trendBucketParam (pg_clock env 1) q f)) (\<lambda>bucket.
     ebind (base env ''/trends'' u) (\<lambda>fv.
     ebind (of_query env 5 (TopModels (pg_clock env 6) (pg_groups env) f metric (pg_store env))) (\<lambda>ranks.
     ebind (of_query env 6 (Timeseries (pg_clock env 7) (pg_groups env) f bucket (pg_store env))) (\<lambda>pts.
     let pts = fillTimeseries pts f bucket (pg_clock env 8) in
     ebind (of_query env 7 (TimeseriesBySource (pg_clock env 9) (pg_groups env) f bucket (pg_store env))) (\<lambda>spts.
     Inr \<lparr>tr_filter = fv\<lparr>fv_hidden := hidden_dates q\<rparr>, tr_bucket = bucket,
       tr_buckets = trendBucketOptions (pg_clock env 5) f bucket, tr_metric = metric,
       tr_leaderboard = buildLeaderboard metric ranks, tr_tokens = buildTokenChart pts bucket,
       tr_cost = buildCostChart pts bucket, tr_source = buildSourceChart spts pts bucket,
       tr_cache = buildCacheChart pts bucket\<rparr>)))))))"

subsection \<open>Breakdowns\<close>

record tokenBreakdown =
  tb_row :: Breakdown
  tb_label :: string
  tb_revoked :: bool

record breaksView =
  br_source :: "Breakdown list"
  br_provider :: "Breakdown list"
  br_model :: "Breakdown list"
  br_group :: "Breakdown list"
  br_token :: "tokenBreakdown list"
  br_totals :: "Breakdown list"

definition tokensByID :: "api_token list \<Rightarrow> string \<Rightarrow> api_token option" where
  "tokensByID tokens k = map_of (rev (map (\<lambda>t. (show_int (t_id t), t)) tokens)) k"

definition token_row :: "api_token list \<Rightarrow> Breakdown \<Rightarrow> tokenBreakdown" where
  "token_row tokens b = (case tokensByID tokens (bd_key b) of
     Some t \<Rightarrow> \<lparr>tb_row = b, tb_label = Label t, tb_revoked = (\<not> Active t)\<rparr>
   | None \<Rightarrow> \<lparr>tb_row = b, tb_label = (if bd_key b \<noteq> [] then ''Deleted token #'' @ bd_key b else ''Unauthenticated''),
       tb_revoked = False\<rparr>)"

definition loadBreaks :: "page_env \<Rightarrow> filter_spec \<Rightarrow> filterView \<Rightarrow> page_error + breaksView" where
  "loadBreaks env f fv = (let by = (\<lambda>n c. of_query env n (breakdown (pg_clock env n) (pg_groups env) f c (pg_store env))) in
     ebind (by 5 ColSource) (\<lambda>source. ebind (by 6 ColProvider) (\<lambda>provider. ebind (by 7 ColModel) (\<lambda>model.
     ebind (by 8 ColGroup) (\<lambda>grp. ebind (by 9 ColToken) (\<lambda>token.
     Inr \<lparr>br_source = source, br_provider = provider, br_model = model, br_group = grp,
       br_token = map (token_row (fv_tokens fv)) token,
       br_totals = map totalBreakdown [source, provider, model, grp, token]\<rparr>))))))"

definition breakdowns_page :: "page_env \<Rightarrow> url_values \<Rightarrow> page_error + filterView \<times> breaksView" where
  "breakdowns_page env q = ebind (of_request (parseFilter (pg_clock env 0) q)) (\<lambda>(f, u).
     ebind (base env ''/breakdowns'' u) (\<lambda>fv. ebind (loadBreaks env f fv) (\<lambda>b. Inr (fv, b))))"

definition fragBreakdowns :: "page_env \<Rightarrow> url_values \<Rightarrow> page_error + breaksView" where
  "fragBreakdowns env q = ebind (breakdowns_page env q) (\<lambda>(_, b). Inr b)"

subsection \<open>Sessions and requests\<close>

record 'a pager =
  pr_rows :: "'a list"
  pr_total :: int
  pr_has_prev :: bool
  pr_prev :: int
  pr_has_next :: bool
  pr_next :: int

definition recentLimit :: int where "recentLimit = 50"
definition conversationsLimit :: int where "conversationsLimit = 60"

definition swapParamQuery :: "string \<Rightarrow> string \<Rightarrow> url_values \<Rightarrow> url_values" where
  "swapParamQuery k v q = (if v = [] then q_del k q else q_set k v q)"

definition swapParamPageURL :: "string \<Rightarrow> string \<Rightarrow> url_values \<Rightarrow> string" where
  "swapParamPageURL k v q = ''/sessions?'' @ q_encode (swapParamQuery k v q)"

definition sortLinks :: "string \<Rightarrow> url_values \<Rightarrow> string \<times> string" where
  "sortLinks dir q = (''/fragments/session-list?'' @ q_encode (swapParamQuery ''sort'' dir q), swapParamPageURL ''sort'' dir q)"

datatype session_rows = SessionList "ConversationSummary pager" | RequestList "generation pager"

record sessionsPage =
  sn_filter :: filterView
  sn_order :: string
  sn_desc :: "string \<times> string"
  sn_asc :: "string \<times> string"
  sn_sessions_tab :: string
  sn_requests_tab :: string
  sn_rows :: session_rows

definition requests_view :: "url_values \<Rightarrow> uiFilter \<Rightarrow> bool" where
  "requests_view q u \<longleftrightarrow> uf_conversation u \<noteq> [] \<or> q_get q ''view'' = ''requests''"

definition requests_pager :: "generation list \<Rightarrow> int \<Rightarrow> generation pager" where
  "requests_pager rows off = \<lparr>pr_rows = rows, pr_total = 0, pr_has_prev = (0 < off), pr_prev = max (off - recentLimit) 0,
     pr_has_next = (int (length rows) = recentLimit), pr_next = off + recentLimit\<rparr>"

definition sessions_pager :: "ConversationSummary list \<Rightarrow> int \<Rightarrow> int \<Rightarrow> ConversationSummary pager" where
  "sessions_pager convos tot off = \<lparr>pr_rows = convos, pr_total = tot, pr_has_prev = (0 < off),
     pr_prev = max (off - conversationsLimit) 0, pr_has_next = (off + int (length convos) < tot),
     pr_next = off + conversationsLimit\<rparr>"

definition sessionsData :: "page_env \<Rightarrow> url_values \<Rightarrow> page_error + sessionsPage" where
  "sessionsData env q = ebind (of_request (parseFilter (pg_clock env 0) q)) (\<lambda>(f, u).
     ebind (of_request (orderParam q)) (\<lambda>order.
     ebind (of_request (offsetParam q)) (\<lambda>offset.
     ebind (base env ''/sessions'' u) (\<lambda>fv.
     let sort_input = (''sort'', order);
         sn = \<lparr>sn_filter = fv\<lparr>fv_hidden := [sort_input]\<rparr>, sn_order = order,
           sn_desc = sortLinks ''desc'' q, sn_asc = sortLinks ''asc'' q, sn_sessions_tab = [], sn_requests_tab = [],
           sn_rows = RequestList (requests_pager [] offset)\<rparr> in
     if requests_view q u then
       ebind (of_query env 5 (RecentGenerations (pg_clock env 5) (pg_groups env) f order recentLimit offset (pg_store env))) (\<lambda>rows.
         let sn = (if uf_conversation u = [] then sn\<lparr>sn_filter := fv\<lparr>fv_hidden := [sort_input, (''view'', ''requests'')]\<rparr>,
               sn_sessions_tab := swapParamPageURL ''view'' [] q\<rparr> else sn) in
         Inr (sn\<lparr>sn_rows := RequestList (requests_pager rows offset)\<rparr>))
     else
       ebind (of_query env 5 (Conversations (pg_clock env 5) (pg_groups env) f order conversationsLimit offset (pg_store env))) (\<lambda>(convos, tot).
         Inr (sn\<lparr>sn_requests_tab := swapParamPageURL ''view'' ''requests'' q,
           sn_rows := SessionList (sessions_pager convos tot offset)\<rparr>))))))"

definition detail_page :: "page_env \<Rightarrow> string \<Rightarrow> page_error + generation" where
  "detail_page env i = ebind (of_query env 0 (Inr (GenerationByID i (pg_store env)))) (\<lambda>g.
     case g of None \<Rightarrow> Inl PageNotFound | Some g \<Rightarrow> Inr g)"

subsection \<open>Setup\<close>

definition setupAgents :: "string list" where
  "setupAgents = [''claude-code'', ''codex'', ''opencode'', ''copilot'', ''maki'']"

text \<open>The selected agent, and for every tab its key, name and whether it is active.\<close>

definition setupPage :: "url_values \<Rightarrow> request_error + string \<times> (string \<times> string \<times> bool) list" where
  "setupPage q = (let agent = (if q_get q ''agent'' = [] then hd setupAgents else q_get q ''agent'') in
     if agent \<notin> set setupAgents then Inl (UnknownAgent agent)
     else Inr (agent, map (\<lambda>key. (key, friendlySource key, key = agent)) setupAgents))"

section \<open>Laws\<close>

text \<open>The pages a reader sees who follows the links to the next page.\<close>

fun follow :: "nat \<Rightarrow> (int \<Rightarrow> 'a pager) \<Rightarrow> int \<Rightarrow> 'a list" where
  "follow n pg off = pr_rows (pg off) @ (if pr_has_next (pg off)
     then (case n of 0 \<Rightarrow> [] | Suc n \<Rightarrow> follow n pg (pr_next (pg off))) else [])"

declare follow.simps [simp del]

lemma follow_pages:
  assumes "0 < k" "0 \<le> off" "length L \<le> nat off + n"
    and "\<And>off. 0 \<le> off \<Longrightarrow> pr_rows (pg off) = page k off L \<and> pr_next (pg off) = off + k"
    and "\<And>off. 0 \<le> off \<Longrightarrow> off + k < int (length L) \<Longrightarrow> pr_has_next (pg off)"
    and "\<And>off. int (length L) \<le> off \<Longrightarrow> \<not> pr_has_next (pg off)"
  shows "follow n pg off = drop (nat off) L"
  using assms(2,3)
proof (induction n arbitrary: off)
  case 0
  then have "int (length L) \<le> off" by simp
  with assms(4) [of off] assms(6) [of off] 0 show ?case by (subst follow.simps) (simp add: page_def)
next
  case (Suc n)
  have rows: "pr_rows (pg off) = take (nat k) (drop (nat off) L)" "pr_next (pg off) = off + k"
    using assms(4) [of off] Suc.prems by (simp_all add: page_def)
  have len: "length L \<le> nat (off + k) + n" using Suc.prems assms(1) by simp
  have n: "nat (off + k) = nat off + nat k" using Suc.prems assms(1) by simp
  show ?case
  proof (cases "pr_has_next (pg off)")
    case True
    have n: "nat (k + off) = nat k + nat off" using n by (simp add: add.commute)
    from Suc.IH [of "off + k"] len Suc.prems assms(1)
    have "follow n pg (off + k) = drop (nat k) (drop (nat off) L)" by (simp add: n add.commute)
    with True rows show ?thesis
      using append_take_drop_id [of "nat k" "drop (nat off) L"] by (subst follow.simps) simp
  next
    case False
    then have "\<not> off + k < int (length L)" using assms(5) [of off] Suc.prems by blast
    then have "length (drop (nat off) L) \<le> nat k" using Suc.prems assms(1) by simp
    with False rows show ?thesis by (subst follow.simps) simp
  qed
qed

definition requests_at :: "int \<Rightarrow> (int \<Rightarrow> string option) \<Rightarrow> filter_spec \<Rightarrow> string \<Rightarrow> store \<Rightarrow> int \<Rightarrow> generation pager" where
  "requests_at now groups f order st off =
     requests_pager (projr (RecentGenerations now groups f order recentLimit off st)) off"

definition sessions_at :: "int \<Rightarrow> (int \<Rightarrow> string option) \<Rightarrow> filter_spec \<Rightarrow> string \<Rightarrow> store \<Rightarrow> int \<Rightarrow> ConversationSummary pager" where
  "sessions_at now groups f order st off = (case projr (Conversations now groups f order conversationsLimit off st) of
     (convos, tot) \<Rightarrow> sessions_pager convos tot off)"



text \<open>Reading the parameters and the queries.\<close>

lemma of_request_simps [simp]: "of_request (Inl e) = Inl (BadRequest e)" "of_request (Inr a) = Inr a"
  by (simp_all add: of_request_def)

lemma of_query_ok: "\<not> pg_fault env n \<Longrightarrow> of_query env n (Inr a) = Inr a"
  by (simp add: of_query_def)

lemma of_query_err: "of_query env n (Inl e) = Inl InternalError"
  by (simp add: of_query_def)

lemma page_status_simps [simp]: "page_status (Inr a) = 200" "page_status (Inl (BadRequest e)) = 400"
  "page_status (Inl InternalError) = 500"
  by (simp_all add: page_status_def)

definition no_faults :: "page_env \<Rightarrow> bool" where
  "no_faults env \<longleftrightarrow> (\<forall>n. \<not> pg_fault env n)"

lemma base_ok: "no_faults env \<Longrightarrow> \<exists>fv. base env action u = Inr fv"
proof -
  assume nf: "no_faults env"
  have "\<exists>vs. of_query env n (distinct_values now groups no_filter c (pg_store env)) = Inr vs" for n now groups c
    using nf by (simp add: distinct_values_def no_filter_def normalize_filter_def Let_def of_query_ok no_faults_def)
  then show ?thesis
    unfolding base_def using nf by (metis (no_types, lifting) ebind_simps(2) of_query_ok no_faults_def)
qed

text \<open>Every query over facts is answered exactly when its filter is.\<close>

lemma queries_answered:
  assumes "normalize_filter now f = Inr f'"
  shows "\<exists>s. Summary now groups f st = Inr s" "\<exists>r. breakdown now groups f c st = Inr r"
    "\<exists>r. TopModels now groups f metric st = Inr r"
    "bucket_valid bucket \<Longrightarrow> \<exists>r. Timeseries now groups f bucket st = Inr r"
    "bucket_valid bucket \<Longrightarrow> \<exists>r. TimeseriesBySource now groups f bucket st = Inr r"
    "ParseOrder order = Inr dir \<Longrightarrow> 0 < limit \<Longrightarrow> 0 \<le> off \<Longrightarrow> \<exists>r. RecentGenerations now groups f order limit off st = Inr r"
    "ParseOrder order = Inr dir \<Longrightarrow> 0 < limit \<Longrightarrow> 0 \<le> off \<Longrightarrow> \<exists>r. Conversations now groups f order limit off st = Inr r"
  using assms by (simp_all add: Summary_def breakdown_def TopModels_def Timeseries_def TimeseriesBySource_def
      RecentGenerations_def Conversations_def)

lemma queries_refused:
  assumes "normalize_filter now f = Inl e"
  shows "breakdown now groups f c st = Inl e" "TopModels now groups f metric st = Inl e"
  using assms by (simp_all add: breakdown_def TopModels_def)

text \<open>A start in the future, without an end.\<close>

definition starts_after :: "filter_spec \<Rightarrow> int \<Rightarrow> bool" where
  "starts_after f now \<longleftrightarrow> is_zero_time (fl_to f) \<and> \<not> is_zero_time (fl_from f) \<and> now < fl_from f"

lemma parsed_normalize:
  "parseFilter now q = Inr (f, u) \<Longrightarrow> (case normalize_filter now' f of Inl _ \<Rightarrow> starts_after f now' | Inr _ \<Rightarrow> \<not> starts_after f now')"
proof -
  assume "parseFilter now q = Inr (f, u)"
  from normalize_refuses [of f now'] parsed_filter_ok(2) [OF this] show ?thesis
    unfolding starts_after_def by (cases "normalize_filter now' f") auto
qed

lemma trend_bucket_valid: "trendBucketParam now q f = Inr b \<Longrightarrow> bucket_valid b"
  by (auto simp: trendBucketParam_def bucketParam_def bucket_valid_def Let_def split: if_splits)

lemma order_param: "orderParam q = Inr d \<Longrightarrow> ParseOrder d = Inr d"
  by (auto simp: orderParam_def ParseOrder_def OrderDesc_def OrderAsc_def split: if_splits)

lemma offset_param: "offsetParam q = Inr n \<Longrightarrow> 0 \<le> n"
  by (auto simp: offsetParam_def Let_def split: if_splits option.splits)

lemma not_starts_after: "\<not> starts_after f now \<Longrightarrow> now \<le> now' \<Longrightarrow> \<not> starts_after f now'"
  by (auto simp: starts_after_def)

lemma normalize_dims:
  assumes "token_param_ok (uf_token u)" "lo \<le> now" "is_zero_time hi \<or> lo \<le> hi"
  shows "\<exists>f'. normalize_filter now (dims_filter u lo hi) = Inr f'"
proof -
  have "fl_token (dims_filter u lo hi) = uf_token u" "fl_from (dims_filter u lo hi) = lo" "fl_to (dims_filter u lo hi) = hi"
    by (simp_all add: dims_filter_def)
  with normalize_refuses [of "dims_filter u lo hi" now] assms show ?thesis
    by (cases "normalize_filter now (dims_filter u lo hi)") auto
qed

lemma collect_ok: "\<forall>x \<in> set xs. \<exists>y. f x = Inr y \<Longrightarrow> \<exists>ys. collect f xs = Inr ys"
  by (induction xs) auto

lemma start_le:
  "startOfDay t \<le> t" "startOfWeek t \<le> t" "startOfMonth t \<le> t"
  using chart.start_le [of BucketDay t] chart.start_le [of BucketWeek t] chart.start_le [of BucketMonth t]
  by (simp_all add: chartBucketStart_def BucketHour_def BucketDay_def BucketWeek_def BucketMonth_def)

lemma card_periods_past: "0 \<le> now - zero_time \<Longrightarrow> (period, label, lo, hero) \<in> set (card_periods now modes) \<Longrightarrow> lo \<le> now"
  using start_le [of now] by (auto simp: card_periods_def Let_def split: if_splits)

lemma cards_ok:
  assumes "token_param_ok (uf_token u)" "zero_time \<le> now" "\<And>i. now \<le> clock i"
  shows "\<exists>cs. cards now clock groups u modes st = Inr cs"
proof -
  have "\<exists>ys. collect (\<lambda>(i, period, label, lo, hero).
       ebind (Summary (clock i) groups (dims_filter u lo zero_time) st) (\<lambda>s.
         Inr \<lparr>cv_period = period, cv_label = label, cv_hero = hero, cv_sum = s, cv_since = None\<rparr>))
       (enumerate 0 (card_periods now modes)) = Inr (ys :: cardView list)"
  proof (rule collect_ok, clarify)
    fix i period label lo hero assume "(i, period, label, lo, hero) \<in> set (enumerate 0 (card_periods now modes))"
    then have "(period, label, lo, hero) \<in> set (card_periods now modes)"
      by (auto simp: in_set_enumerate_eq) (metis nth_mem)
    then have "lo \<le> clock i" using card_periods_past assms(2) order_trans [OF _ assms(3) [of i]] by fastforce
    from normalize_dims [OF assms(1) this, of zero_time] obtain f' where
      "normalize_filter (clock i) (dims_filter u lo zero_time) = Inr f'" by auto
    from queries_answered(1) [OF this] obtain s where
      "Summary (clock i) groups (dims_filter u lo zero_time) st = Inr s" by blast
    then show "\<exists>y. ebind (Summary (clock i) groups (dims_filter u lo zero_time) st) (\<lambda>s.
         Inr \<lparr>cv_period = period, cv_label = label, cv_hero = hero, cv_sum = s, cv_since = None\<rparr>) = Inr (y :: cardView)"
      by simp
  qed
  moreover have "zero_time \<le> clock 4" using assms(2) assms(3) [of 4] by simp
  from normalize_dims [OF assms(1) this, of zero_time]
  have "\<exists>since. Earliest (clock 4) groups (dims_filter u zero_time zero_time) st = Inr since"
    by (auto simp: Earliest_def dims_filter_def)
  ultimately show ?thesis unfolding cards_def by auto
qed

lemma heat_start_le: "heat_start (startOfDay now) \<le> now" "heat_start (startOfDay now) \<le> add_date (heat_start (startOfDay now)) 0 371"
proof -
  have "0 \<le> weekday d" for d by (simp add: weekday_def)
  then show "heat_start (startOfDay now) \<le> now"
    using start_le(1) [of now] by (simp add: heat_start_def Let_def) (smt (verit) mult_nonneg_nonneg)
qed simp

lemma heatmap_ok:
  assumes "token_param_ok (uf_token u)" "now \<le> clock"
  shows "\<exists>hm. heatmap now clock groups u st = Inr hm"
proof -
  let ?s = "heat_start (startOfDay now)"
  have "?s \<le> clock" using heat_start_le(1) [of now] assms(2) by simp
  from normalize_dims [OF assms(1) this, of "add_date ?s 0 371"] heat_start_le(2) obtain f' where
    "normalize_filter clock (dims_filter u ?s (add_date ?s 0 371)) = Inr f'" by blast
  from queries_answered(4) [OF this, of BucketDay groups st] obtain r where
    "Timeseries clock groups (dims_filter u ?s (add_date ?s 0 371)) BucketDay st = Inr r" by (auto simp: bucket_valid_def)
  then show ?thesis unfolding heatmap_def Let_def by simp
qed

lemma parsed_token: "parseFilter now q = Inr (f, u) \<Longrightarrow> token_param_ok (uf_token u)"
  by (auto simp: parseFilter_Inr)

lemma ebind_status: "page_status (ebind r g) = 500 \<longleftrightarrow> page_status r = 500 \<or> (\<exists>a. r = Inr a \<and> page_status (g a) = 500)"
  by (cases r) (auto simp: page_status_def)

lemma of_request_status [simp]: "page_status (of_request r) \<noteq> 500"
  by (cases r) simp_all

lemma of_query_status: "\<not> pg_fault env n \<Longrightarrow> r = Inr a \<Longrightarrow> page_status (of_query env n r) \<noteq> 500"
  by (simp add: of_query_ok)

text \<open>C34: No request that is well formed fails: without a fault of the database the dashboard never
  answers with an internal error, and the breakdowns, trends and sessions pages do so only
  for a start in the future given without an end, the breakdowns page always then.\<close>

theorem requests_are_answered:
  assumes "no_faults env" "mono (pg_clock env)" "zero_time \<le> pg_clock env 0"
  shows "page_status (dashboard_page env q) \<noteq> 500
    \<and> (page_status (breakdowns_page env q) = 500 \<longleftrightarrow>
      (\<exists>f u. parseFilter (pg_clock env 0) q = Inr (f, u) \<and> starts_after f (pg_clock env 5)))
    \<and> (page_status (trendsData env q) = 500 \<or> page_status (sessionsData env q) = 500 \<longrightarrow>
      (\<exists>f u. parseFilter (pg_clock env 0) q = Inr (f, u) \<and> starts_after f (pg_clock env 5)))"
proof (intro conjI impI)
  have nf: "\<not> pg_fault env n" for n using assms(1) by (simp add: no_faults_def)
  have clk: "m \<le> n \<Longrightarrow> pg_clock env m \<le> pg_clock env n" for m n using assms(2) by (simp add: monoD)
  have past: "zero_time \<le> pg_clock env n" for n using clk [of 0 n] assms(3) by simp
  note ok = base_ok [OF assms(1)]
  show "page_status (dashboard_page env q) \<noteq> 500"
  proof (cases "parseFilter (pg_clock env 0) q")
    case (Inr fu)
    obtain f u where fu: "fu = (f, u)" by (cases fu)
    have tok: "token_param_ok (uf_token u)" using parsed_token Inr fu by simp
    obtain fv where fv: "base env ''/'' u = Inr fv" using ok by blast
    show ?thesis
    proof (cases "parsePeriodModes q")
      case modes: (Inr modes)
      obtain cs where cs: "cards (pg_clock env 5) (\<lambda>i. pg_clock env (6 + i)) (pg_groups env) u modes (pg_store env) = Inr cs"
        using cards_ok [OF tok past [of 5], of "\<lambda>i. pg_clock env (6 + i)"] clk [of 5] by fastforce
      obtain hm where hm: "heatmap (pg_clock env 11) (pg_clock env 12) (pg_groups env) u (pg_store env) = Inr hm"
        using heatmap_ok [OF tok clk [of 11 12]] by fastforce
      show ?thesis unfolding dashboard_page_def Inr fu of_request_simps ebind_simps prod.case fv modes cs hm of_query_ok [OF nf] by simp
    qed (simp add: dashboard_page_def Inr fu fv)
  qed (simp add: dashboard_page_def)
  show "page_status (breakdowns_page env q) = 500 \<longleftrightarrow>
      (\<exists>f u. parseFilter (pg_clock env 0) q = Inr (f, u) \<and> starts_after f (pg_clock env 5))"
  proof (cases "parseFilter (pg_clock env 0) q")
    case (Inr fu)
    obtain f u where fu: "fu = (f, u)" by (cases fu)
    note norm = parsed_normalize [OF Inr [unfolded fu]]
    obtain fv where fv: "base env ''/breakdowns'' u = Inr fv" using ok by blast
    show ?thesis
    proof (cases "starts_after f (pg_clock env 5)")
      case True
      with norm [of "pg_clock env 5"] obtain e where "normalize_filter (pg_clock env 5) f = Inl e"
        by (auto split: sum.splits)
      from queries_refused(1) [OF this] have "page_status (breakdowns_page env q) = 500"
        by (simp add: breakdowns_page_def Inr fu fv loadBreaks_def of_query_err Let_def)
      then show ?thesis using True Inr fu by simp
    next
      case False
      have "\<exists>f'. normalize_filter (pg_clock env n) f = Inr f'" if "5 \<le> n" for n
        using norm [of "pg_clock env n"] not_starts_after [OF False clk [OF that]] by (auto split: sum.splits)
      then have "\<exists>r. breakdown (pg_clock env n) (pg_groups env) f c (pg_store env) = Inr r" if "5 \<le> n" for n c
        using queries_answered(2) that by blast
      then have "\<exists>r. of_query env n (breakdown (pg_clock env n) (pg_groups env) f c (pg_store env)) = Inr r" if "5 \<le> n" for n c
        using of_query_ok [OF nf] that by metis
      from this [of 5 ColSource] this [of 6 ColProvider] this [of 7 ColModel] this [of 8 ColGroup] this [of 9 ColToken]
      have "\<exists>b. loadBreaks env f fv = Inr b" by (auto simp: loadBreaks_def Let_def)
      then have "page_status (breakdowns_page env q) = 200" by (auto simp: breakdowns_page_def Inr fu fv)
      then show ?thesis using False Inr fu by simp
    qed
  qed (simp add: breakdowns_page_def)
  show "\<exists>f u. parseFilter (pg_clock env 0) q = Inr (f, u) \<and> starts_after f (pg_clock env 5)"
    if "page_status (trendsData env q) = 500 \<or> page_status (sessionsData env q) = 500"
  proof (rule ccontr)
    assume no: "\<not> ?thesis"
    have answered: "\<exists>f'. normalize_filter (pg_clock env n) f = Inr f'"
      if "parseFilter (pg_clock env 0) q = Inr (f, u)" "5 \<le> n" for f u n
      using parsed_normalize [OF that(1), of "pg_clock env n"] no that(1) not_starts_after [OF _ clk [OF that(2)], of f]
      by (auto split: sum.splits)
    have "page_status (trendsData env q) \<noteq> 500"
    proof (cases "parseFilter (pg_clock env 0) q")
      case (Inr fu)
      obtain f u where fu: "fu = (f, u)" by (cases fu)
      note q = queries_answered [OF answered [OF Inr [unfolded fu], THEN someI_ex]]
      show ?thesis
      proof (cases "metricParam q")
        case m: (Inr metric)
        show ?thesis
        proof (cases "trendBucketParam (pg_clock env 1) q f")
          case b: (Inr bucket)
          note valid = trend_bucket_valid [OF b]
          define u' where "u' = (if metric \<noteq> RankTokens then u\<lparr>uf_rank_by := q_get q ''rank_by''\<rparr> else u)"
          obtain fv where fv: "base env ''/trends'' u' = Inr fv" using ok by blast
          obtain ranks where r: "TopModels (pg_clock env 6) (pg_groups env) f metric (pg_store env) = Inr ranks"
            using q(3) [of 6] by fastforce
          obtain pts where p: "Timeseries (pg_clock env 7) (pg_groups env) f bucket (pg_store env) = Inr pts"
            using q(4) [OF _ valid, of 7] by fastforce
          obtain spts where s: "TimeseriesBySource (pg_clock env 9) (pg_groups env) f bucket (pg_store env) = Inr spts"
            using q(5) [OF _ valid, of 9] by fastforce
          show ?thesis
            unfolding trendsData_def Inr fu m of_request_simps ebind_simps prod.case Let_def b u'_def [symmetric] fv r p s of_query_ok [OF nf]
            by simp
        qed (simp add: trendsData_def Inr fu m Let_def)
      qed (simp add: trendsData_def Inr fu)
    qed (simp add: trendsData_def)
    moreover have "page_status (sessionsData env q) \<noteq> 500"
    proof (cases "parseFilter (pg_clock env 0) q")
      case (Inr fu)
      obtain f u where fu: "fu = (f, u)" by (cases fu)
      note q = queries_answered [OF answered [OF Inr [unfolded fu], THEN someI_ex]]
      show ?thesis
      proof (cases "orderParam q")
        case o: (Inr order)
        show ?thesis
        proof (cases "offsetParam q")
          case off: (Inr offset)
          obtain fv where fv: "base env ''/sessions'' u = Inr fv" using ok by blast
          obtain rows where r: "RecentGenerations (pg_clock env 5) (pg_groups env) f order recentLimit offset (pg_store env) = Inr rows"
            using q(6) [OF _ order_param [OF o], of 5 recentLimit offset] offset_param [OF off] by (auto simp: recentLimit_def)
          obtain cs where c: "Conversations (pg_clock env 5) (pg_groups env) f order conversationsLimit offset (pg_store env) = Inr cs"
            using q(7) [where groups = "pg_groups env" and st = "pg_store env", OF _ order_param [OF o], of 5 conversationsLimit offset]
              offset_param [OF off] by (auto simp: conversationsLimit_def)
          show ?thesis
            unfolding sessionsData_def Inr fu o off of_request_simps ebind_simps prod.case Let_def fv r c of_query_ok [OF nf]
            by (simp split: prod.split)
        qed (simp add: sessionsData_def Inr fu o)
      qed (simp add: sessionsData_def Inr fu)
    qed (simp add: sessionsData_def)
    ultimately show False using that by blast
  qed
qed

theorem requests_are_answered_witness:
  "page_status (dashboard_page \<lparr>pg_store = sample_store, pg_tokens = empty_token_db,
     pg_clock = (\<lambda>n. 1700010000000000000 + int n), pg_fault = (\<lambda>_. False)\<rparr> []) \<noteq> 500"
proof -
  let ?e = "\<lparr>pg_store = sample_store, pg_tokens = empty_token_db,
     pg_clock = (\<lambda>n. 1700010000000000000 + int n), pg_fault = (\<lambda>_. False)\<rparr>"
  have "no_faults ?e" "mono (pg_clock ?e)" "zero_time \<le> pg_clock ?e 0"
    by (simp_all add: no_faults_def mono_def zero_time_def)
  from requests_are_answered [OF this, of "[]"] show ?thesis by blast
qed

end
