(* ===== verification/TokenPages.thy ===== *)
theory TokenPages
  imports Dashboard
begin

text \<open>
  The page that manages the tokens (\<open>internal/web/tokens.go\<close>): its view of tokens by group with their
  usage, and its handlers over the token store the listeners use.  \<open>store\<close> is \<open>None\<close> when the dashboard
  was built without a token store.  A reply keeps its status, message and view; redirects always lead
  back to the page.
\<close>

record createdToken =
  ct_plain :: string
  ct_label :: string
  ct_regenerated :: bool

record tokenRowView =
  tr_token :: api_token
  tr_url :: string
  tr_usage :: Breakdown

record tokenGroupView =
  tg_name :: string
  tg_url :: string
  tg_total :: Breakdown
  tg_rows :: "tokenRowView list"

record tokensView =
  tv_can_manage :: bool
  tv_created :: "createdToken option"
  tv_groups :: "tokenGroupView list"
  tv_unauth :: "Breakdown option"
  tv_unauth_url :: string
  tv_group_names :: "string list"
  tv_form :: "string \<times> string"

datatype token_reply = TokensPage int tokensView string | SeeTokens | TokenNotFound | Unavailable | TokenServerError

definition dashboardURL :: "string \<Rightarrow> string \<Rightarrow> string" where
  "dashboardURL k v = ''/?'' @ q_encode [(k, v)]"

definition zero_breakdown :: Breakdown where
  "zero_breakdown = \<lparr>bd_key = [], bd_sums = 0, bd_cost_unknown = 0, bd_cost_total = None\<rparr>"

definition usage_of :: "Breakdown list \<Rightarrow> string \<Rightarrow> Breakdown option" where
  "usage_of usage k = map_of (rev (map (\<lambda>b. (bd_key b, b)) usage)) k"

text \<open>Uses the store has not written yet are newer than the table's.\<close>

definition pending_use :: "(int \<times> int) list \<Rightarrow> api_token \<Rightarrow> api_token" where
  "pending_use pending t = (case map_of pending (t_id t) of None \<Rightarrow> t
     | Some p \<Rightarrow> if (case t_last_used t of None \<Rightarrow> True | Some l \<Rightarrow> of_unix_milli l < p)
         then t\<lparr>t_last_used := Some (unix_milli p)\<rparr> else t)"

definition empty_group :: "string \<Rightarrow> tokenGroupView" where
  "empty_group g = \<lparr>tg_name = g, tg_url = (if g \<noteq> [] then dashboardURL ''group'' g else dashboardURL ''ungrouped'' ''true''),
     tg_total = zero_breakdown, tg_rows = []\<rparr>"

definition token_view_row :: "Breakdown list \<Rightarrow> api_token \<Rightarrow> tokenRowView" where
  "token_view_row usage t = (let i = show_int (t_id t) in
     \<lparr>tr_token = t, tr_url = dashboardURL ''token'' i,
      tr_usage = (case usage_of usage i of Some b \<Rightarrow> b | None \<Rightarrow> zero_breakdown)\<rparr>)"

fun add_token_row :: "string \<Rightarrow> tokenRowView \<Rightarrow> tokenGroupView list \<Rightarrow> tokenGroupView list" where
  "add_token_row g r [] = [(empty_group g)\<lparr>tg_rows := [r]\<rparr>]"
| "add_token_row g r (v # vs) = (if tg_name v = g then v\<lparr>tg_rows := tg_rows v @ [r]\<rparr> # vs else v # add_token_row g r vs)"

definition token_groups :: "Breakdown list \<Rightarrow> (int \<times> int) list \<Rightarrow> api_token list \<Rightarrow> tokenGroupView list" where
  "token_groups usage pending tokens =
     map (\<lambda>v. v\<lparr>tg_total := totalBreakdown (map tr_usage (tg_rows v))\<rparr>)
       (fold (\<lambda>t. add_token_row (t_group t) (token_view_row usage (pending_use pending t))) tokens [])"

definition renderTokensError :: "int \<Rightarrow> tokensView \<Rightarrow> token_reply" where
  "renderTokensError status v = (if tv_created v = None then TokenServerError
     else TokensPage status v ''Token saved, but its usage details could not be loaded. Copy the secret below.'')"

definition renderTokens :: "page_env \<Rightarrow> token_store option \<Rightarrow> int \<Rightarrow> createdToken option \<Rightarrow> string \<times> string \<Rightarrow> string
    \<Rightarrow> token_reply" where
  "renderTokens env store status created form msg =
     (let v = \<lparr>tv_can_manage = (store \<noteq> None), tv_created = created, tv_groups = [], tv_unauth = None,
            tv_unauth_url = [], tv_group_names = [], tv_form = form\<rparr> in
      case of_query env 0 (Inr (ListTokens (pg_tokens env))) of Inl _ \<Rightarrow> renderTokensError status v
      | Inr tokens \<Rightarrow> (case of_query env 1 (breakdown (pg_clock env 0) (pg_groups env) no_filter ColToken (pg_store env)) of
          Inl _ \<Rightarrow> renderTokensError status v
        | Inr usage \<Rightarrow> (let gs = token_groups usage (case store of None \<Rightarrow> [] | Some s \<Rightarrow> PendingUse s) tokens in
            TokensPage status (v\<lparr>tv_groups := gs, tv_unauth := usage_of usage [],
              tv_unauth_url := (if usage_of usage [] \<noteq> None then dashboardURL ''token'' TokenNone else []),
              tv_group_names := filter (\<lambda>g. g \<noteq> []) (map tg_name gs)\<rparr>) msg)))"

section \<open>Handlers\<close>

definition tokenIDParam :: "string \<Rightarrow> int option" where
  "tokenIDParam s = (case parse_int64 s of None \<Rightarrow> None | Some i \<Rightarrow> if i \<le> 0 then None else Some i)"

definition tokenErr :: "token_error \<Rightarrow> token_reply" where
  "tokenErr e = (case e of ErrTokenNotFound \<Rightarrow> TokenNotFound | TokenDBError \<Rightarrow> TokenServerError)"

text \<open>The name must be given, the group may be empty.\<close>

definition token_fields :: "string \<Rightarrow> string \<Rightarrow> field_error + string \<times> string" where
  "token_fields name grp = ebind (CleanTokenField name True) (\<lambda>n. ebind (CleanTokenField grp False) (\<lambda>g. Inr (n, g)))"

definition tokensPage :: "page_env \<Rightarrow> token_store option \<Rightarrow> token_reply" where
  "tokensPage env store = renderTokens env store 200 None ([], []) []"

text \<open>
  The handlers take whether the write fails, and \<open>msg\<close> the text of a refused field; the page is rendered
  from the tables as the write leaves them.  After a refused name the form still echoes the group as it was
  typed, after a refused group as it was cleaned, which is empty.
\<close>

definition tokenCreate :: "(string \<Rightarrow> string) \<Rightarrow> bool \<Rightarrow> string \<Rightarrow> (field_error \<Rightarrow> string) \<Rightarrow> string \<Rightarrow> string \<Rightarrow> page_env
    \<Rightarrow> token_store option \<Rightarrow> token_reply \<times> token_db \<times> token_store option" where
  "tokenCreate H fault random msg name0 grp0 env store = (case store of None \<Rightarrow> (Unavailable, pg_tokens env, None)
   | Some s \<Rightarrow> (case token_fields name0 grp0 of
       Inl e \<Rightarrow> (renderTokens env store 400 None (name0, case CleanTokenField name0 True of Inl _ \<Rightarrow> grp0 | Inr _ \<Rightarrow> []) (msg e),
         pg_tokens env, store)
     | Inr (name, grp) \<Rightarrow> (case Create H fault (pg_clock env 0) random name grp (pg_tokens env) s of
         (Inl e, db, s') \<Rightarrow> (TokenServerError, db, Some s')
       | (Inr (plain, i), db, s') \<Rightarrow>
           (renderTokens (env\<lparr>pg_tokens := db\<rparr>) (Some s') 201
              (Some \<lparr>ct_plain = plain, ct_label = (if grp = [] then name else grp @ '' / '' @ name), ct_regenerated = False\<rparr>)
              ([], []) [], db, Some s'))))"

definition tokenUpdate :: "bool \<Rightarrow> (field_error \<Rightarrow> string) \<Rightarrow> string \<Rightarrow> string \<Rightarrow> string \<Rightarrow> page_env
    \<Rightarrow> token_store option \<Rightarrow> token_reply \<times> token_db" where
  "tokenUpdate fault msg i name0 grp0 env store = (case tokenIDParam i of None \<Rightarrow> (TokenNotFound, pg_tokens env)
   | Some i \<Rightarrow> if store = None then (Unavailable, pg_tokens env)
     else case token_fields name0 grp0 of
       Inl e \<Rightarrow> (renderTokens env store 400 None ([], []) (msg e), pg_tokens env)
     | Inr (name, grp) \<Rightarrow> (case UpdateToken fault i name grp (pg_tokens env) of
         (Inl e, db) \<Rightarrow> (tokenErr e, db) | (Inr _, db) \<Rightarrow> (SeeTokens, db)))"

definition tokenRevoke :: "bool \<Rightarrow> string \<Rightarrow> page_env \<Rightarrow> token_store option
    \<Rightarrow> token_reply \<times> token_db \<times> token_store option" where
  "tokenRevoke fault i env store = (case tokenIDParam i of None \<Rightarrow> (TokenNotFound, pg_tokens env, store)
   | Some i \<Rightarrow> (case store of None \<Rightarrow> (Unavailable, pg_tokens env, None)
     | Some s \<Rightarrow> (case Revoke fault (pg_clock env 0) i (pg_tokens env) s of
         (Inl e, db, s') \<Rightarrow> (tokenErr e, db, Some s') | (Inr _, db, s') \<Rightarrow> (SeeTokens, db, Some s'))))"

definition label_of :: "int \<Rightarrow> api_token list \<Rightarrow> string" where
  "label_of i tokens = fold (\<lambda>t l. if t_id t = i then Label t else l) tokens []"

text \<open>\<open>list_fault\<close> is the failure of the first read, of the label.\<close>

definition tokenRegenerate :: "(string \<Rightarrow> string) \<Rightarrow> bool \<Rightarrow> bool \<Rightarrow> string \<Rightarrow> string \<Rightarrow> page_env \<Rightarrow> token_store option
    \<Rightarrow> token_reply \<times> token_db \<times> token_store option" where
  "tokenRegenerate H list_fault fault random i env store = (case tokenIDParam i of None \<Rightarrow> (TokenNotFound, pg_tokens env, store)
   | Some i \<Rightarrow> (case store of None \<Rightarrow> (Unavailable, pg_tokens env, None)
     | Some s \<Rightarrow> if list_fault then (TokenServerError, pg_tokens env, store)
       else let label = label_of i (ListTokens (pg_tokens env)) in
       (case Regenerate H fault (pg_clock env 0) random i (pg_tokens env) s of
         (Inl e, db, s') \<Rightarrow> (tokenErr e, db, Some s')
       | (Inr plain, db, s') \<Rightarrow>
           (renderTokens (env\<lparr>pg_tokens := db\<rparr>) (Some s') 200
              (Some \<lparr>ct_plain = plain, ct_label = label, ct_regenerated = True\<rparr>) ([], []) [], db, Some s'))))"

section \<open>Laws\<close>

lemma add_token_row_names: "map tg_name (add_token_row g r vs) = (if g \<in> tg_name ` set vs then map tg_name vs else map tg_name vs @ [g])"
  by (induction vs) (auto simp: empty_group_def)

lemma add_token_row_member:
  assumes "distinct (map tg_name vs)" "v \<in> set (add_token_row g r vs)"
  shows "(\<exists>w \<in> set vs. tg_name w = tg_name v \<and> tg_rows v = tg_rows w @ (if tg_name v = g then [r] else []))
    \<or> tg_name v = g \<and> g \<notin> tg_name ` set vs \<and> tg_rows v = [r]"
  using assms
proof (induction vs)
  case (Cons w vs)
  show ?case
  proof (cases "tg_name w = g")
    case True
    then consider "v = w\<lparr>tg_rows := tg_rows w @ [r]\<rparr>" | "v \<in> set vs" using Cons.prems(2) by auto
    then show ?thesis
    proof cases
      case 2
      then have "tg_name v \<in> tg_name ` set vs" by simp
      then have "tg_name v \<noteq> g" using Cons.prems(1) True by auto
      then show ?thesis using 2 by auto
    qed (use True in auto)
  next
    case False
    then consider "v = w" | "v \<in> set (add_token_row g r vs)" using Cons.prems(2) by auto
    then show ?thesis
    proof cases
      case 2
      then show ?thesis using Cons.IH Cons.prems(1) False by auto
    qed (use False in auto)
  qed
qed (simp add: empty_group_def)

text \<open>The token page is complete: every token is shown once, in the section of its group, in the order of the
  table, with its latest use; no section is empty and none appears twice.\<close>

theorem token_page_shows_every_token:
  defines "gs usage pending tokens \<equiv> token_groups usage pending tokens"
  shows "distinct (map tg_name (gs usage pending tokens))
    \<and> tg_name ` set (gs usage pending tokens) = t_group ` set tokens
    \<and> (\<forall>v \<in> set (gs usage pending tokens). tg_total v = totalBreakdown (map tr_usage (tg_rows v))
      \<and> tg_rows v = map (\<lambda>t. token_view_row usage (pending_use pending t)) (filter (\<lambda>t. t_group t = tg_name v) tokens))"
proof -
  let ?row = "\<lambda>t. token_view_row usage (pending_use pending t)"
  let ?fold = "\<lambda>tokens. fold (\<lambda>t. add_token_row (t_group t) (?row t)) tokens []"
  have "distinct (map tg_name (?fold ts)) \<and> tg_name ` set (?fold ts) = t_group ` set ts
    \<and> (\<forall>v \<in> set (?fold ts). tg_rows v = map ?row (filter (\<lambda>t. t_group t = tg_name v) ts))" for ts
  proof (induction ts rule: rev_induct)
    case (snoc t ts)
    let ?vs = "?fold ts"
    from snoc have d: "distinct (map tg_name ?vs)" and n: "tg_name ` set ?vs = t_group ` set ts"
      and r: "\<And>v. v \<in> set ?vs \<Longrightarrow> tg_rows v = map ?row (filter (\<lambda>t. t_group t = tg_name v) ts)" by blast+
    note names = add_token_row_names [of "t_group t" "?row t" ?vs]
    have "distinct (map tg_name (add_token_row (t_group t) (?row t) ?vs))" unfolding names using d by auto
    moreover have "tg_name ` set (add_token_row (t_group t) (?row t) ?vs) = t_group ` set (ts @ [t])"
      unfolding set_map [symmetric] names using n by auto
    moreover have "tg_rows v = map ?row (filter (\<lambda>t. t_group t = tg_name v) (ts @ [t]))"
      if "v \<in> set (add_token_row (t_group t) (?row t) ?vs)" for v
      using add_token_row_member [OF d that]
    proof
      assume "\<exists>w \<in> set ?vs. tg_name w = tg_name v \<and> tg_rows v = tg_rows w @ (if tg_name v = t_group t then [?row t] else [])"
      then show ?thesis using r by auto
    next
      assume new: "tg_name v = t_group t \<and> t_group t \<notin> tg_name ` set ?vs \<and> tg_rows v = [?row t]"
      then have "filter (\<lambda>u. t_group u = t_group t) ts = []" unfolding n filter_empty_conv by (metis imageI)
      with new show ?thesis by simp
    qed
    ultimately show ?case by simp
  qed simp
  then show ?thesis unfolding gs_def token_groups_def by (auto simp: image_image o_def)
qed

text \<open>What a reply reveals.\<close>

definition shown_secret :: "token_reply \<Rightarrow> string option" where
  "shown_secret r = (case r of TokensPage _ v _ \<Rightarrow> map_option ct_plain (tv_created v) | _ \<Rightarrow> None)"

lemma renderTokens_shown [simp]: "shown_secret (renderTokens env store status created form msg) = map_option ct_plain created"
  by (auto simp: renderTokens_def renderTokensError_def shown_secret_def Let_def split: sum.splits)

lemma shown_simps [simp]: "shown_secret SeeTokens = None" "shown_secret TokenNotFound = None" "shown_secret Unavailable = None"
    "shown_secret TokenServerError = None" "shown_secret (tokenErr e) = None"
  by (auto simp: shown_secret_def tokenErr_def split: token_error.splits)

lemma Verify_put: "token \<noteq> [] \<Longrightarrow> fst (Verify H now token (s\<lparr>ts_hashes := put (H token) i m, ts_total := n\<rparr>)) = Some i"
  "token \<noteq> [] \<Longrightarrow> fst (Verify H now token (s\<lparr>ts_hashes := put (H token) i m\<rparr>)) = Some i"
  by (simp_all add: Verify_def put_def)

lemma newSecret_nonempty [simp]: "newSecret random \<noteq> []"
  by (simp add: newSecret_def tokenPrefix_def)

text \<open>C35: A page shows a secret exactly when one was stored by this request, and then it is one the listeners accept
  as this token; a page that cannot load its lists still shows it, because it is nowhere else.\<close>

theorem secret_is_shown_once:
  "(case tokenCreate H fault random msg name grp env (Some s) of (r, db, s') \<Rightarrow>
      (shown_secret r = None \<and> db = pg_tokens env \<and> s' = Some s)
    \<or> (shown_secret r = Some (newSecret random) \<and> length (td_tokens db) = Suc (length (td_tokens (pg_tokens env)))
      \<and> map_option (\<lambda>s'. fst (Verify H now (newSecret random) s')) s' = Some (Some (next_token (pg_tokens env)))))
   \<and> (case tokenRegenerate H list_fault fault random i env (Some s) of (r, db, s') \<Rightarrow>
      (shown_secret r = None \<and> db = pg_tokens env \<and> s' = Some s)
    \<or> (shown_secret r = Some (newSecret random) \<and> length (td_tokens db) = length (td_tokens (pg_tokens env))
      \<and> map_option (\<lambda>s'. fst (Verify H now (newSecret random) s')) s' = Some (tokenIDParam i)))
   \<and> shown_secret (tokensPage env (Some s)) = None \<and> shown_secret (fst (tokenUpdate fault msg i name grp env (Some s))) = None
   \<and> shown_secret (fst (tokenRevoke fault i env (Some s))) = None"
proof (intro conjI)
  show "case tokenCreate H fault random msg name grp env (Some s) of (r, db, s') \<Rightarrow>
      (shown_secret r = None \<and> db = pg_tokens env \<and> s' = Some s)
    \<or> (shown_secret r = Some (newSecret random) \<and> length (td_tokens db) = Suc (length (td_tokens (pg_tokens env)))
      \<and> map_option (\<lambda>s'. fst (Verify H now (newSecret random) s')) s' = Some (Some (next_token (pg_tokens env))))"
    by (auto simp: tokenCreate_def Create_def Let_def CreateToken_def Verify_put split: sum.splits if_splits)
  show "case tokenRegenerate H list_fault fault random i env (Some s) of (r, db, s') \<Rightarrow>
      (shown_secret r = None \<and> db = pg_tokens env \<and> s' = Some s)
    \<or> (shown_secret r = Some (newSecret random) \<and> length (td_tokens db) = length (td_tokens (pg_tokens env))
      \<and> map_option (\<lambda>s'. fst (Verify H now (newSecret random) s')) s' = Some (tokenIDParam i))"
    by (auto simp: tokenRegenerate_def Regenerate_def Let_def RegenerateToken_def Verify_put split: option.splits sum.splits if_splits)
  show "shown_secret (tokensPage env (Some s)) = None" by (simp add: tokensPage_def)
  show "shown_secret (fst (tokenUpdate fault msg i name grp env (Some s))) = None"
    by (auto simp: tokenUpdate_def split: option.splits sum.splits prod.splits)
  show "shown_secret (fst (tokenRevoke fault i env (Some s))) = None"
    by (auto simp: tokenRevoke_def split: option.splits sum.splits prod.splits)
qed

end
