(* ===== verification/Pipeline.thy ===== *)
theory Pipeline
  imports Store StatsStore "HOL-Library.Multiset"
begin

text \<open>
  The ingestion pipeline (\<open>internal/ingest/pipeline.go\<close>): decoded batches are normalized record by
  record, the accepted ones are stored in one transaction, and every record ends in exactly one of
  the counters.

  The atomics and the two maps are one record: the counters are \<open>64 word\<close>s, so additions wrap as
  they do in the code, and the maps are association lists (a map's iteration order never reaches an
  observable value, since the persisted rows are read back sorted).  Each operation is one step;
  the counters of batches that run at the same time are sums of the same additions.  \<open>now\<close> is the
  clock, \<open>fault\<close> the failures of the database, a batch's time limit among them.
\<close>

section \<open>State\<close>

definition ReasonKindRejected :: string where "ReasonKindRejected = ''rejected''"
definition ReasonKindIgnored :: string where "ReasonKindIgnored = ''ignored''"
definition ReasonKindNormError :: string where "ReasonKindNormError = ''norm_error''"
definition ReasonKindDedup :: string where "ReasonKindDedup = ''dedup''"
definition ReasonKindHTTPReject :: string where "ReasonKindHTTPReject = ''http_reject''"

lemmas kind_defs = ReasonKindRejected_def ReasonKindIgnored_def ReasonKindNormError_def
  ReasonKindDedup_def ReasonKindHTTPReject_def

definition ReasonNoSource :: string where "ReasonNoSource = ''no_source''"
definition ReasonNotGeneration :: string where "ReasonNotGeneration = ''not_a_generation''"
definition ReasonLogs :: string where "ReasonLogs = ''logs''"
definition ReasonMetrics :: string where "ReasonMetrics = ''metrics''"
definition ReasonBadAttrs :: string where "ReasonBadAttrs = ''bad_attributes''"
definition ReasonBadIDs :: string where "ReasonBadIDs = ''bad_ids''"
definition ReasonBadTimestamp :: string where "ReasonBadTimestamp = ''bad_timestamp''"
definition ReasonNormOther :: string where "ReasonNormOther = ''other''"

definition HTTPRejectReasons :: "string list" where
  "HTTPRejectReasons = [''unauthorized'', ''grpc_unauthenticated'', ''bad_content_type'',
     ''bad_content_encoding'', ''body_too_large'', ''body_read_error'', ''bad_gzip'', ''decode_failed'']"

definition ReasonKindOrder :: "string list" where
  "ReasonKindOrder = [ReasonKindRejected, ReasonKindIgnored, ReasonKindNormError, ReasonKindDedup,
     ReasonKindHTTPReject]"

definition ReasonKindRank :: "string \<Rightarrow> nat" where
  "ReasonKindRank kind = length (takeWhile (\<lambda>k. k \<noteq> kind) ReasonKindOrder)"

type_synonym reasonKey = "string \<times> string"
type_synonym reason_map = "(reasonKey \<times> u64) list"

record counters =
  c_received :: u64
  c_normalized :: u64
  c_stored :: u64
  c_dedup :: u64
  c_rejected :: u64
  c_ignored :: u64
  c_norm_errors :: u64
  c_ing_errors :: u64

definition zero_counters :: counters where
  "zero_counters = \<lparr>c_received = 0, c_normalized = 0, c_stored = 0, c_dedup = 0, c_rejected = 0,
     c_ignored = 0, c_norm_errors = 0, c_ing_errors = 0\<rparr>"

definition add_counters :: "counters \<Rightarrow> counters \<Rightarrow> counters" where
  "add_counters s t = \<lparr>c_received = c_received s + c_received t,
     c_normalized = c_normalized s + c_normalized t, c_stored = c_stored s + c_stored t,
     c_dedup = c_dedup s + c_dedup t, c_rejected = c_rejected s + c_rejected t,
     c_ignored = c_ignored s + c_ignored t, c_norm_errors = c_norm_errors s + c_norm_errors t,
     c_ing_errors = c_ing_errors s + c_ing_errors t\<rparr>"

text \<open>\<open>atomicStats\<close> is the field \<open>p_live\<close>.\<close>

record pipeline =
  p_live :: counters
  p_reasons :: reason_map
  p_base :: counters
  p_baseReasons :: reason_map
  p_baseDay :: string

definition NewPipeline :: pipeline where
  "NewPipeline = \<lparr>p_live = zero_counters, p_reasons = [], p_base = zero_counters,
     p_baseReasons = [], p_baseDay = []\<rparr>"

section \<open>Counters\<close>

fun bump :: "reasonKey \<Rightarrow> u64 \<Rightarrow> reason_map \<Rightarrow> reason_map" where
  "bump k n [] = [(k, n)]"
| "bump k n ((k', m) # r) = (if k' = k then (k', m + n) # r else (k', m) # bump k n r)"

definition bumpReason :: "string \<Rightarrow> string \<Rightarrow> u64 \<Rightarrow> pipeline \<Rightarrow> pipeline" where
  "bumpReason kind reason n p =
     (if n = 0 then p else p\<lparr>p_reasons := bump (kind, reason) n (p_reasons p)\<rparr>)"

definition BumpHTTPReject :: "string \<Rightarrow> pipeline \<Rightarrow> pipeline" where
  "BumpHTTPReject reason p =
     (if reason \<notin> set HTTPRejectReasons then p else bumpReason ReasonKindHTTPReject reason 1 p)"

fun normErrorReason :: "norm_error \<Rightarrow> string" where
  "normErrorReason (ErrNonStringAttrs _) = ReasonBadAttrs"
| "normErrorReason (ErrInvalidTokenAttr _) = ReasonBadAttrs"
| "normErrorReason (ErrInvalidMakiAttr _) = ReasonBadAttrs"
| "normErrorReason (ErrInvalidClaudeCodeAttr _) = ReasonBadAttrs"
| "normErrorReason ErrMissingSpanIDs = ReasonBadIDs"
| "normErrorReason ErrMissingLogIdentity = ReasonBadIDs"
| "normErrorReason ErrInvalidLogTimestamp = ReasonBadTimestamp"
| "normErrorReason (UnknownSource _) = ReasonNormOther"

definition combine :: "reason_map \<Rightarrow> reason_map \<Rightarrow> reason_map" where
  "combine base session = filter (\<lambda>(_, n). n \<noteq> 0)
     (fold (\<lambda>(k, n) r. if 0 < n then bump k n r else r) session base)"

definition Stats :: "int \<Rightarrow> pipeline \<Rightarrow> counters" where
  "Stats now p = add_counters (if p_baseDay p = utc_day now then p_base p else zero_counters) (p_live p)"

text \<open>\<open>ReasonCounts\<close> groups the entries by kind; the model keeps them flat.\<close>

definition ReasonCounts :: "int \<Rightarrow> pipeline \<Rightarrow> reason_map" where
  "ReasonCounts now p =
     combine (if p_baseDay p = utc_day now then p_baseReasons p else []) (p_reasons p)"

section \<open>Persistence\<close>

definition count_of :: "reason_map \<Rightarrow> reasonKey \<Rightarrow> u64" where
  "count_of r k = (case map_of r k of None \<Rightarrow> 0 | Some n \<Rightarrow> n)"

definition of_daily :: "DailyStats \<Rightarrow> counters" where
  "of_daily r = \<lparr>c_received = u64_of_int (ds_received r), c_normalized = u64_of_int (ds_normalized r),
     c_stored = u64_of_int (ds_stored r), c_dedup = u64_of_int (ds_deduplicated r),
     c_rejected = u64_of_int (ds_rejected r), c_ignored = u64_of_int (ds_ignored r),
     c_norm_errors = u64_of_int (ds_norm_errors r), c_ing_errors = u64_of_int (ds_ing_errors r)\<rparr>"

definition to_daily :: "string \<Rightarrow> counters \<Rightarrow> DailyStats" where
  "to_daily day s = \<lparr>ds_day = day, ds_received = int_of_u64 (c_received s),
     ds_normalized = int_of_u64 (c_normalized s), ds_stored = int_of_u64 (c_stored s),
     ds_deduplicated = int_of_u64 (c_dedup s), ds_rejected = int_of_u64 (c_rejected s),
     ds_ignored = int_of_u64 (c_ignored s), ds_norm_errors = int_of_u64 (c_norm_errors s),
     ds_ing_errors = int_of_u64 (c_ing_errors s), ds_updated = 0\<rparr>"

definition to_reason_stat :: "reasonKey \<times> u64 \<Rightarrow> ReasonStat" where
  "to_reason_stat kn = \<lparr>rs_kind = fst (fst kn), rs_reason = snd (fst kn), rs_count = int_of_u64 (snd kn)\<rparr>"

definition of_reason_stat :: "ReasonStat \<Rightarrow> reasonKey \<times> u64" where
  "of_reason_stat r = ((rs_kind r, rs_reason r), u64_of_int (rs_count r))"

definition snapshotReasonsLocked :: "pipeline \<Rightarrow> ReasonStat list" where
  "snapshotReasonsLocked p = map to_reason_stat (combine (p_baseReasons p) (p_reasons p))"

text \<open>\<open>read_fault 0\<close> and \<open>read_fault 1\<close> are the failures of the two reads.\<close>

definition RestoreBase :: "(nat \<Rightarrow> bool) \<Rightarrow> int \<Rightarrow> stats_db \<Rightarrow> pipeline \<Rightarrow> bool \<times> pipeline" where
  "RestoreBase read_fault now db p = (let day = utc_day now in
     if read_fault 0 \<or> read_fault 1 then (False, p)
     else (True, p\<lparr>
       p_base := of_daily (case DailyStatsForDay day db of None \<Rightarrow> zero_daily | Some r \<Rightarrow> r),
       p_baseReasons := map of_reason_stat (DailyReasonsForDay day db),
       p_baseDay := day\<rparr>))"

definition persistLocked :: "(nat \<Rightarrow> bool) \<Rightarrow> int \<Rightarrow> string \<Rightarrow> counters \<Rightarrow> pipeline \<Rightarrow> stats_db \<Rightarrow> bool \<times> stats_db" where
  "persistLocked fault now day s p db =
     UpsertDailySnapshot fault now (to_daily day s) (snapshotReasonsLocked p) db"

definition resetLocked :: "pipeline \<Rightarrow> pipeline" where
  "resetLocked p = p\<lparr>p_base := zero_counters, p_baseReasons := [], p_reasons := [], p_live := zero_counters\<rparr>"

definition Save :: "(nat \<Rightarrow> bool) \<Rightarrow> int \<Rightarrow> pipeline \<Rightarrow> stats_db \<Rightarrow> bool \<times> pipeline \<times> stats_db" where
  "Save fault now p db = (let
       today = utc_day now;
       snap = add_counters (p_base p) (p_live p) in
     if p_baseDay p \<noteq> [] \<and> p_baseDay p \<noteq> today then
       (case persistLocked fault now (p_baseDay p) snap p db of
          (False, db') \<Rightarrow> (False, p, db')
        | (True, db') \<Rightarrow> (True, (resetLocked p)\<lparr>p_baseDay := today\<rparr>, db'))
     else let p' = p\<lparr>p_baseDay := today\<rparr> in
       case persistLocked fault now today snap p' db of (ok, db') \<Rightarrow> (ok, p', db'))"

text \<open>The start of the UTC day after \<open>t\<close>.\<close>

definition nextUTCMidnight :: "int \<Rightarrow> int" where
  "nextUTCMidnight t = (case civil_of_days (t div day_ns) of
     (y, m, d) \<Rightarrow> days_of_civil y m d * day_ns + 24 * 3600 * second_ns)"

text \<open>
  The saver goroutine: every tick and every midnight saves; a failed save is logged.  Each event
  carries its time and the failures of its save.
\<close>

datatype saver_event = Tick int "nat \<Rightarrow> bool" | Midnight int "nat \<Rightarrow> bool" | Done

fun StartSaver :: "saver_event list \<Rightarrow> pipeline \<times> stats_db \<Rightarrow> pipeline \<times> stats_db" where
  "StartSaver [] (p, db) = (p, db)"
| "StartSaver (Done # _) (p, db) = (p, db)"
| "StartSaver (Tick now fault # es) (p, db) = StartSaver es (snd (Save fault now p db))"
| "StartSaver (Midnight now fault # es) (p, db) = StartSaver es (snd (Save fault now p db))"

section \<open>Batches\<close>

text \<open>Additions to one of the atomics.\<close>

definition live :: "(counters \<Rightarrow> counters) \<Rightarrow> pipeline \<Rightarrow> pipeline" where
  "live f p = p\<lparr>p_live := f (p_live p)\<rparr>"

definition add_received :: "u64 \<Rightarrow> pipeline \<Rightarrow> pipeline" where
  "add_received n = live (\<lambda>c. c\<lparr>c_received := c_received c + n\<rparr>)"
definition add_normalized :: "u64 \<Rightarrow> pipeline \<Rightarrow> pipeline" where
  "add_normalized n = live (\<lambda>c. c\<lparr>c_normalized := c_normalized c + n\<rparr>)"
definition add_stored :: "u64 \<Rightarrow> pipeline \<Rightarrow> pipeline" where
  "add_stored n = live (\<lambda>c. c\<lparr>c_stored := c_stored c + n\<rparr>)"
definition add_dedup :: "u64 \<Rightarrow> pipeline \<Rightarrow> pipeline" where
  "add_dedup n = live (\<lambda>c. c\<lparr>c_dedup := c_dedup c + n\<rparr>)"
definition add_rejected :: "u64 \<Rightarrow> pipeline \<Rightarrow> pipeline" where
  "add_rejected n = live (\<lambda>c. c\<lparr>c_rejected := c_rejected c + n\<rparr>)"
definition add_ignored :: "u64 \<Rightarrow> pipeline \<Rightarrow> pipeline" where
  "add_ignored n = live (\<lambda>c. c\<lparr>c_ignored := c_ignored c + n\<rparr>)"
definition add_norm_errors :: "u64 \<Rightarrow> pipeline \<Rightarrow> pipeline" where
  "add_norm_errors n = live (\<lambda>c. c\<lparr>c_norm_errors := c_norm_errors c + n\<rparr>)"
definition add_ing_errors :: "u64 \<Rightarrow> pipeline \<Rightarrow> pipeline" where
  "add_ing_errors n = live (\<lambda>c. c\<lparr>c_ing_errors := c_ing_errors c + n\<rparr>)"

lemmas add_defs = add_received_def add_normalized_def add_stored_def add_dedup_def add_rejected_def
  add_ignored_def add_norm_errors_def add_ing_errors_def live_def

definition sources_of :: "generation list \<Rightarrow> string list" where
  "sources_of gens = remdups (map g_source gens)"

definition countBySource :: "generation list \<Rightarrow> string \<Rightarrow> int" where
  "countBySource gens s = int (length (filter (\<lambda>g. g_source g = s) gens))"

definition needsPricing :: "generation list \<Rightarrow> bool" where
  "needsPricing gens \<longleftrightarrow> list_ex (\<lambda>g. g_cost g = None) gens"

text \<open>
  \<open>o_wake\<close> says that the pricing worker was woken, \<open>o_notify\<close> that the dashboard was notified.
  \<open>worker\<close> and \<open>hub\<close> say whether the pipeline was built with them; \<open>token\<close> is the id of the
  authenticated token, 0 without one.
\<close>

record outcome =
  o_error :: "db_step option"
  o_wake :: bool
  o_notify :: bool

definition dedup_breakdown :: "generation list \<Rightarrow> stored_map \<Rightarrow> pipeline \<Rightarrow> pipeline" where
  "dedup_breakdown gens stored = fold (\<lambda>src. bumpReason ReasonKindDedup src
     (u64_of_int (countBySource gens src) - u64_of_int (stored src))) (sources_of gens)"

definition storeGenerations :: "bool \<Rightarrow> bool \<Rightarrow> int \<Rightarrow> (db_step \<Rightarrow> bool) \<Rightarrow> (nat \<Rightarrow> int) \<Rightarrow> generation list
    \<Rightarrow> pipeline \<Rightarrow> store \<Rightarrow> outcome \<times> pipeline \<times> store" where
  "storeGenerations worker hub token fault now gens0 p st = (let
       gens = (if token \<noteq> 0 then map (\<lambda>g. g\<lparr>g_token_id := token\<rparr>) gens0 else gens0) in
     case InsertGenerations fault now gens st of
       (Inl e, st') \<Rightarrow> (\<lparr>o_error = Some e, o_wake = False, o_notify = False\<rparr>, add_ing_errors 1 p, st')
     | (Inr storedBySource, st') \<Rightarrow> (let
           stored = sum_list (map (\<lambda>s. u64_of_int (storedBySource s)) (sources_of gens));
           dedup = u64_of_int (int (length gens)) - stored;
           p1 = add_stored stored p;
           p2 = (if 0 < dedup then dedup_breakdown gens storedBySource (add_dedup dedup p1) else p1) in
         (\<lparr>o_error = None, o_wake = worker \<and> needsPricing gens, o_notify = hub \<and> 0 < stored\<rparr>, p2, st')))"

text \<open>
  A batch of spans or logs is a list of resources with their scopes; each scope is a list of
  records.  Per record, the counters and the accepted records so far are threaded through.
\<close>

type_synonym 'a batch = "(attrs \<times> 'a list list) list"

definition consume_span :: "(string \<Rightarrow> string) \<Rightarrow> (string \<Rightarrow> json option) \<Rightarrow> attrs \<Rightarrow> otel_span
    \<Rightarrow> pipeline \<times> generation list \<Rightarrow> pipeline \<times> generation list" where
  "consume_span H J resource sp pg = (let
       p = add_received 1 (fst pg); gens = snd pg;
       source = DetectSource resource (sp_attrs sp) in
     if source = [] then (bumpReason ReasonKindRejected ReasonNoSource 1 (add_rejected 1 p), gens)
     else case FromSpan H J source resource sp of
       Inl err \<Rightarrow> (bumpReason ReasonKindNormError (normErrorReason err) 1 (add_norm_errors 1 p), gens)
     | Inr None \<Rightarrow> (bumpReason ReasonKindRejected ReasonNotGeneration 1 (add_rejected 1 p), gens)
     | Inr (Some gen) \<Rightarrow> (add_normalized 1 p, gens @ [gen]))"

definition consume_log :: "(string \<Rightarrow> string) \<Rightarrow> attrs \<Rightarrow> log_record
    \<Rightarrow> pipeline \<times> generation list \<Rightarrow> pipeline \<times> generation list" where
  "consume_log H resource lr pg = (let
       p = add_received 1 (fst pg); gens = snd pg;
       source = DetectLogSource resource in
     if source = [] then (bumpReason ReasonKindIgnored ReasonLogs 1 (add_ignored 1 p), gens)
     else case FromLog H source resource lr of
       Inl err \<Rightarrow> (bumpReason ReasonKindNormError (normErrorReason err) 1 (add_norm_errors 1 p), gens)
     | Inr None \<Rightarrow> (bumpReason ReasonKindIgnored ReasonLogs 1 (add_ignored 1 p), gens)
     | Inr (Some gen) \<Rightarrow> (add_normalized 1 p, gens @ [gen]))"

definition each_record :: "(attrs \<Rightarrow> 'a \<Rightarrow> 's \<Rightarrow> 's) \<Rightarrow> 'a batch \<Rightarrow> 's \<Rightarrow> 's" where
  "each_record f = fold (\<lambda>(resource, scopes). fold (fold (f resource)) scopes)"

definition ConsumeTraces :: "(string \<Rightarrow> string) \<Rightarrow> (string \<Rightarrow> json option) \<Rightarrow> bool \<Rightarrow> bool \<Rightarrow> int
    \<Rightarrow> (db_step \<Rightarrow> bool) \<Rightarrow> (nat \<Rightarrow> int) \<Rightarrow> otel_span batch \<Rightarrow> pipeline \<Rightarrow> store \<Rightarrow> outcome \<times> pipeline \<times> store" where
  "ConsumeTraces H J worker hub token fault now td p st =
     (case each_record (consume_span H J) td (p, []) of
        (p', gens) \<Rightarrow> storeGenerations worker hub token fault now gens p' st)"

definition ConsumeLogs :: "(string \<Rightarrow> string) \<Rightarrow> bool \<Rightarrow> bool \<Rightarrow> int
    \<Rightarrow> (db_step \<Rightarrow> bool) \<Rightarrow> (nat \<Rightarrow> int) \<Rightarrow> log_record batch \<Rightarrow> pipeline \<Rightarrow> store \<Rightarrow> outcome \<times> pipeline \<times> store" where
  "ConsumeLogs H worker hub token fault now ld p st =
     (case each_record (consume_log H) ld (p, []) of
        (p', gens) \<Rightarrow> storeGenerations worker hub token fault now gens p' st)"

text \<open>Metrics are only counted, one per metric; a metric is its name here.\<close>

definition ConsumeMetrics :: "string batch \<Rightarrow> pipeline \<Rightarrow> pipeline" where
  "ConsumeMetrics md p = (let
       n = each_record (\<lambda>_ _ k. k + 1) md 0;
       w = u64_of_int n in
     bumpReason ReasonKindIgnored ReasonMetrics w (add_ignored w (add_received w p)))"

section \<open>Sums per kind\<close>

definition kind_sum :: "string \<Rightarrow> reason_map \<Rightarrow> u64" where
  "kind_sum kind r = sum_list (map snd (filter (\<lambda>e. fst (fst e) = kind) r))"

lemma kind_sum_simps [simp]: "kind_sum kind [] = 0"
  "kind_sum kind (e # r) = (if fst (fst e) = kind then snd e else 0) + kind_sum kind r"
  by (simp_all add: kind_sum_def)

lemma kind_sum_bump [simp]: "kind_sum kind (bump k n r) = kind_sum kind r + (if fst k = kind then n else 0)"
  by (induction k n r rule: bump.induct) auto

lemma keys_bump [simp]: "fst ` set (bump k n r) = insert k (fst ` set r)"
  by (induction k n r rule: bump.induct) auto

lemma distinct_bump [simp]: "distinct (map fst (bump k n r)) = distinct (map fst r)"
  by (induction k n r rule: bump.induct) auto

lemma count_of_bump: "count_of (bump k n r) j = count_of r j + (if j = k then n else 0)"
  by (induction k n r rule: bump.induct) (auto simp: count_of_def)

definition merge_counts :: "reason_map \<Rightarrow> reason_map \<Rightarrow> reason_map" where
  "merge_counts base session = fold (\<lambda>(k, n) r. if 0 < n then bump k n r else r) session base"

lemma combine_alt: "combine base session = filter (\<lambda>e. snd e \<noteq> 0) (merge_counts base session)"
  unfolding combine_def merge_counts_def by (rule filter_cong) auto

lemma kind_sum_merge: "kind_sum kind (merge_counts base session) = kind_sum kind base + kind_sum kind session"
  by (induction session arbitrary: base) (auto simp: merge_counts_def word_gt_0)

lemma distinct_merge: "distinct (map fst (merge_counts base session)) = distinct (map fst base)"
proof (induction session arbitrary: base)
  case (Cons e session)
  then show ?case by (cases e) (simp add: merge_counts_def)
qed (simp add: merge_counts_def)

lemma count_of_merge: "distinct (map fst session) \<Longrightarrow>
    count_of (merge_counts base session) k = count_of base k + count_of session k"
proof (induction session arbitrary: base)
  case (Cons e session)
  obtain j n where e: "e = (j, n)" by (cases e)
  have "map_of session j = None" using Cons.prems e by (auto simp: map_of_eq_None_iff)
  then have "count_of (e # session) k = (if k = j then n else 0) + count_of session k"
    by (auto simp: e count_of_def)
  then show ?case
    using Cons.IH [of "if 0 < n then bump j n base else base"] Cons.prems
    by (auto simp: e merge_counts_def count_of_bump word_gt_0)
qed (simp add: merge_counts_def count_of_def)

lemma kind_sum_nonzero: "kind_sum kind (filter (\<lambda>e. snd e \<noteq> 0) r) = kind_sum kind r"
  by (induction r) auto

lemma count_of_nonzero: "distinct (map fst r) \<Longrightarrow> count_of (filter (\<lambda>e. snd e \<noteq> 0) r) k = count_of r k"
proof (induction r)
  case (Cons e r)
  have "map_of (filter (\<lambda>e. snd e \<noteq> 0) r) (fst e) = None" "map_of r (fst e) = None"
    using Cons.prems by (auto simp: map_of_eq_None_iff)
  then show ?case using Cons by (cases e) (auto simp: count_of_def)
qed simp

lemma kind_sum_combine [simp]: "kind_sum kind (combine base session) = kind_sum kind base + kind_sum kind session"
  by (simp add: combine_alt kind_sum_nonzero kind_sum_merge)

lemma distinct_combine [simp]: "distinct (map fst base) \<Longrightarrow> distinct (map fst (combine base session))"
  by (simp add: combine_alt distinct_map_filter distinct_merge)

lemma count_of_combine: "distinct (map fst base) \<Longrightarrow> distinct (map fst session) \<Longrightarrow>
    count_of (combine base session) k = count_of base k + count_of session k"
  by (simp add: combine_alt count_of_nonzero distinct_merge count_of_merge)

lemma combine_Nil: "(\<And>e. e \<in> set base \<Longrightarrow> snd e \<noteq> 0) \<Longrightarrow> combine base [] = base"
  by (simp add: combine_alt merge_counts_def)

section \<open>The balance of the counters\<close>

text \<open>
  Every received record is counted once more as normalized, rejected, ignored or failed, and the
  breakdown of a kind adds up to its counter.
\<close>

definition balanced :: "counters \<Rightarrow> reason_map \<Rightarrow> bool" where
  "balanced c r \<longleftrightarrow> c_received c = c_normalized c + c_rejected c + c_ignored c + c_norm_errors c
     \<and> kind_sum ReasonKindRejected r = c_rejected c \<and> kind_sum ReasonKindIgnored r = c_ignored c
     \<and> kind_sum ReasonKindNormError r = c_norm_errors c \<and> kind_sum ReasonKindDedup r = c_dedup c"

lemma balanced_zero [simp]: "balanced zero_counters []"
  by (simp add: balanced_def zero_counters_def)

lemma balanced_add: "balanced c r \<Longrightarrow> balanced c' r' \<Longrightarrow> balanced (add_counters c c') (combine r r')"
  by (simp add: balanced_def add_counters_def)

definition pipeline_ok :: "pipeline \<Rightarrow> bool" where
  "pipeline_ok p \<longleftrightarrow> balanced (p_live p) (p_reasons p) \<and> distinct (map fst (p_reasons p))
     \<and> balanced (p_base p) (p_baseReasons p) \<and> distinct (map fst (p_baseReasons p))
     \<and> (p_baseDay p = [] \<longrightarrow> p_base p = zero_counters \<and> p_baseReasons p = [])"

definition day_counters :: "string \<Rightarrow> stats_db \<Rightarrow> counters" where
  "day_counters day db = of_daily (case DailyStatsForDay day db of None \<Rightarrow> zero_daily | Some r \<Rightarrow> r)"

definition day_reasons :: "string \<Rightarrow> stats_db \<Rightarrow> reason_map" where
  "day_reasons day db = map of_reason_stat (DailyReasonsForDay day db)"

definition db_ok :: "stats_db \<Rightarrow> bool" where
  "db_ok db \<longleftrightarrow> (\<forall>day. balanced (day_counters day db) (day_reasons day db)
     \<and> distinct (map fst (day_reasons day db)))"

lemma pipeline_ok_New [simp]: "pipeline_ok NewPipeline"
  by (simp add: pipeline_ok_def NewPipeline_def)

lemma db_ok_empty [simp]: "db_ok empty_stats_db"
  by (simp add: db_ok_def empty_stats_db_def day_counters_def day_reasons_def DailyStatsForDay_def
      DailyReasonsForDay_def balanced_def of_daily_def zero_daily_def u64_of_int_def)

lemma kind_neq [simp]:
  "ReasonKindRejected \<noteq> ReasonKindIgnored" "ReasonKindIgnored \<noteq> ReasonKindRejected"
  "ReasonKindRejected \<noteq> ReasonKindNormError" "ReasonKindNormError \<noteq> ReasonKindRejected"
  "ReasonKindRejected \<noteq> ReasonKindDedup" "ReasonKindDedup \<noteq> ReasonKindRejected"
  "ReasonKindIgnored \<noteq> ReasonKindNormError" "ReasonKindNormError \<noteq> ReasonKindIgnored"
  "ReasonKindIgnored \<noteq> ReasonKindDedup" "ReasonKindDedup \<noteq> ReasonKindIgnored"
  "ReasonKindNormError \<noteq> ReasonKindDedup" "ReasonKindDedup \<noteq> ReasonKindNormError"
  "ReasonKindHTTPReject \<noteq> ReasonKindRejected" "ReasonKindHTTPReject \<noteq> ReasonKindIgnored"
  "ReasonKindHTTPReject \<noteq> ReasonKindNormError" "ReasonKindHTTPReject \<noteq> ReasonKindDedup"
  by (simp_all add: kind_defs)

subsection \<open>Batches\<close>

text \<open>What a step may do to the session: the base stays, the deltas are named.\<close>

lemma bumpReason_simps [simp]:
  "p_live (bumpReason kind reason n p) = p_live p" "p_base (bumpReason kind reason n p) = p_base p"
  "p_baseReasons (bumpReason kind reason n p) = p_baseReasons p"
  "p_baseDay (bumpReason kind reason n p) = p_baseDay p"
  "kind_sum k (p_reasons (bumpReason kind reason n p)) = kind_sum k (p_reasons p) + (if kind = k then n else 0)"
  "distinct (map fst (p_reasons (bumpReason kind reason n p))) = distinct (map fst (p_reasons p))"
  by (auto simp: bumpReason_def)

lemma live_simps [simp]:
  "p_live (live f p) = f (p_live p)" "p_base (live f p) = p_base p"
  "p_baseReasons (live f p) = p_baseReasons p" "p_baseDay (live f p) = p_baseDay p"
  "p_reasons (live f p) = p_reasons p"
  by (simp_all add: live_def)

lemma consume_span_ok: "pipeline_ok p \<Longrightarrow> pipeline_ok (fst (consume_span H J resource sp (p, gens)))"
  by (auto simp: consume_span_def Let_def pipeline_ok_def balanced_def add_received_def add_normalized_def
      add_rejected_def add_norm_errors_def split: sum.splits option.splits)

lemma consume_log_ok: "pipeline_ok p \<Longrightarrow> pipeline_ok (fst (consume_log H resource lr (p, gens)))"
  by (auto simp: consume_log_def Let_def pipeline_ok_def balanced_def add_received_def add_normalized_def
      add_ignored_def add_norm_errors_def split: sum.splits option.splits)

lemma fold_invariant: "(\<And>x s. x \<in> set xs \<Longrightarrow> I s \<Longrightarrow> I (f x s)) \<Longrightarrow> I s \<Longrightarrow> I (fold f xs s)"
  by (induction xs arbitrary: s) auto

lemma each_record_invariant:
  assumes "\<And>resource x s. I s \<Longrightarrow> I (f resource x s)" "I s"
  shows "I (each_record f b s)"
  unfolding each_record_def
  by (rule fold_invariant) (auto intro!: fold_invariant assms)

lemma dedup_breakdown_simps [simp]:
  "p_live (dedup_breakdown gens stored p) = p_live p" "p_base (dedup_breakdown gens stored p) = p_base p"
  "p_baseReasons (dedup_breakdown gens stored p) = p_baseReasons p"
  "p_baseDay (dedup_breakdown gens stored p) = p_baseDay p"
  "distinct (map fst (p_reasons (dedup_breakdown gens stored p))) = distinct (map fst (p_reasons p))"
proof -
  have "p_live (fold (\<lambda>s. bumpReason k s (f s)) ss p) = p_live p
      \<and> p_base (fold (\<lambda>s. bumpReason k s (f s)) ss p) = p_base p
      \<and> p_baseReasons (fold (\<lambda>s. bumpReason k s (f s)) ss p) = p_baseReasons p
      \<and> p_baseDay (fold (\<lambda>s. bumpReason k s (f s)) ss p) = p_baseDay p
      \<and> distinct (map fst (p_reasons (fold (\<lambda>s. bumpReason k s (f s)) ss p))) = distinct (map fst (p_reasons p))"
    for k f ss by (induction ss arbitrary: p) simp_all
  then show "p_live (dedup_breakdown gens stored p) = p_live p" "p_base (dedup_breakdown gens stored p) = p_base p"
    "p_baseReasons (dedup_breakdown gens stored p) = p_baseReasons p"
    "p_baseDay (dedup_breakdown gens stored p) = p_baseDay p"
    "distinct (map fst (p_reasons (dedup_breakdown gens stored p))) = distinct (map fst (p_reasons p))"
    by (simp_all add: dedup_breakdown_def)
qed

lemma u64_of_int_add: "u64_of_int (a + b) = u64_of_int a + u64_of_int b"
  by (simp add: u64_of_int_def)

lemma u64_of_int_0 [simp]: "u64_of_int 0 = 0"
  by (simp add: u64_of_int_def)

lemma u64_of_int_eq_0: "0 \<le> n \<Longrightarrow> n < 2 ^ 64 \<Longrightarrow> u64_of_int n = 0 \<longleftrightarrow> n = 0"
proof -
  assume "0 \<le> n" "n < 2 ^ 64"
  then have "uint (u64_of_int n) = n" by (simp add: u64_of_int_def uint_word_of_int)
  then show ?thesis by (metis uint_0_iff)
qed

lemma u64_of_int_sum_list: "sum_list (map (\<lambda>x. u64_of_int (f x)) xs) = u64_of_int (sum_list (map f xs))"
  by (induction xs) (simp_all add: u64_of_int_add)

lemma sum_countBySource: "sum_list (map (countBySource gens) (sources_of gens)) = int (length gens)"
proof -
  have "sum_list (map (countBySource gens) (sources_of gens))
      = (\<Sum>s \<in> set (map g_source gens). int (count_list (map g_source gens) s))"
    unfolding sources_of_def
    by (subst sum_list_distinct_conv_sum_set)
       (auto simp: countBySource_def count_list_eq_length_filter filter_map o_def intro!: sum.cong arg_cong [where f = length] filter_cong)
  also have "\<dots> = int (\<Sum>s \<in> set (map g_source gens). count_list (map g_source gens) s)"
    by simp
  also have "(\<Sum>s \<in> set (map g_source gens). count_list (map g_source gens) s) = length gens"
    using sum_count_set [OF subset_refl finite_set, of "map g_source gens"] by simp
  finally show ?thesis .
qed

lemma kind_sum_dedup: "kind_sum ReasonKindDedup (p_reasons (dedup_breakdown gens stored p)) =
    kind_sum ReasonKindDedup (p_reasons p)
    + (u64_of_int (int (length gens)) - sum_list (map (\<lambda>s. u64_of_int (stored s)) (sources_of gens)))"
proof -
  have "kind_sum ReasonKindDedup (p_reasons (fold (\<lambda>s. bumpReason ReasonKindDedup s (f s)) ss p))
      = kind_sum ReasonKindDedup (p_reasons p) + sum_list (map f ss)" for f ss
    by (induction ss arbitrary: p) (simp_all add: add.assoc)
  then show ?thesis
    by (simp add: dedup_breakdown_def sum_list_subtractf u64_of_int_sum_list sum_countBySource)
qed

lemma kind_sum_dedup_other [simp]: "k \<noteq> ReasonKindDedup \<Longrightarrow>
    kind_sum k (p_reasons (dedup_breakdown gens stored p)) = kind_sum k (p_reasons p)"
proof -
  assume "k \<noteq> ReasonKindDedup"
  then have "kind_sum k (p_reasons (fold (\<lambda>s. bumpReason ReasonKindDedup s (f s)) ss p)) = kind_sum k (p_reasons p)" for f ss
    by (induction ss arbitrary: p) simp_all
  then show ?thesis by (simp add: dedup_breakdown_def)
qed

lemma storeGenerations_ok:
  assumes "storeGenerations worker hub token fault now gens p st = (out, p', st')" "pipeline_ok p"
  shows "pipeline_ok p'"
proof (cases "InsertGenerations fault now (if token \<noteq> 0 then map (\<lambda>g. g\<lparr>g_token_id := token\<rparr>) gens else gens) st")
  case (Pair r s)
  show ?thesis
  proof (cases r)
    case (Inl e)
    then have "p' = add_ing_errors 1 p" using assms(1) Pair by (auto simp: storeGenerations_def Let_def)
    then show ?thesis using assms(2) by (simp add: pipeline_ok_def balanced_def add_ing_errors_def)
  next
    case (Inr stored)
    define gs where "gs = (if token \<noteq> 0 then map (\<lambda>g. g\<lparr>g_token_id := token\<rparr>) gens else gens)"
    define n where "n = sum_list (map (\<lambda>s. u64_of_int (stored s)) (sources_of gs))"
    define d where "d = u64_of_int (int (length gs)) - n"
    have p': "p' = (if 0 < d then dedup_breakdown gs stored (add_dedup d (add_stored n p)) else add_stored n p)"
      using assms(1) Pair Inr unfolding d_def n_def gs_def by (auto simp: storeGenerations_def Let_def)
    have "kind_sum ReasonKindDedup (p_reasons (dedup_breakdown gs stored q)) = kind_sum ReasonKindDedup (p_reasons q) + d" for q
      by (simp add: kind_sum_dedup flip: n_def d_def)
    then show ?thesis using assms(2)
      by (simp add: p' pipeline_ok_def balanced_def add_stored_def add_dedup_def)
  qed
qed

subsection \<open>Steps\<close>

type_synonym service = "pipeline \<times> store \<times> stats_db"

definition init_service :: service where
  "init_service = (NewPipeline, empty_store, empty_stats_db)"

text \<open>
  Everything that changes the counters: the three signals, transport rejections, the saver, and a
  restart, which begins with a fresh pipeline and restores the base (a failed restore aborts).
\<close>

inductive service_step :: "service \<Rightarrow> service \<Rightarrow> bool" where
  traces: "ConsumeTraces H J worker hub token fault now td p st = (out, p', st') \<Longrightarrow>
    service_step (p, st, db) (p', st', db)"
| logs: "ConsumeLogs H worker hub token fault now ld p st = (out, p', st') \<Longrightarrow>
    service_step (p, st, db) (p', st', db)"
| metrics: "service_step (p, st, db) (ConsumeMetrics md p, st, db)"
| http_reject: "service_step (p, st, db) (BumpHTTPReject reason p, st, db)"
| save: "Save sfault t p db = (ok, p', db') \<Longrightarrow> service_step (p, st, db) (p', st, db')"
| restart: "RestoreBase rfault t db NewPipeline = (True, p') \<Longrightarrow> service_step (p, st, db) (p', st, db)"

inductive_cases service_stepE: "service_step s s'"

definition service_ok :: "service \<Rightarrow> bool" where
  "service_ok s \<longleftrightarrow> pipeline_ok (fst s) \<and> db_ok (snd (snd s))"

lemma of_daily_to_daily [simp]: "of_daily ((to_daily day c)\<lparr>ds_updated := t\<rparr>) = c"
  by (simp add: of_daily_def to_daily_def)

lemma of_to_reason_stat [simp]: "of_reason_stat (to_reason_stat e) = e"
  by (simp add: of_reason_stat_def to_reason_stat_def)

lemma kind_sum_sort: "kind_sum kind (map of_reason_stat (sort_key f rs)) = kind_sum kind (map of_reason_stat rs)"
proof -
  have "kind_sum kind xs = sum_mset (image_mset snd (filter_mset (\<lambda>e. fst (fst e) = kind) (mset xs)))" for xs
    by (simp add: kind_sum_def flip: sum_mset_sum_list mset_map mset_filter)
  then show ?thesis by simp
qed

lemma keys_sort: "distinct (map fst (map of_reason_stat (sort_key f rs))) = distinct (map fst (map of_reason_stat rs))"
proof -
  have "mset (map fst (map of_reason_stat (sort_key f rs))) = mset (map fst (map of_reason_stat rs))"
    by (simp only: mset_map mset_sort)
  then show ?thesis by (metis distinct_count_atmost_1 mset_eq_setD set_mset_mset)
qed

lemma reason_pairs_snapshot: "reason_pairs (map to_reason_stat r) = map fst r"
  by (simp add: reason_pairs_def to_reason_stat_def)

text \<open>What a committed snapshot of a day reads back as.\<close>

lemma persist_reads:
  assumes "persistLocked fault now day c p db = (True, db')"
  shows "day_counters d db' = (if d = day then c else day_counters d db)"
    and "d \<noteq> day \<Longrightarrow> day_reasons d db' = day_reasons d db"
    and "kind_sum k (day_reasons day db') = kind_sum k (combine (p_baseReasons p) (p_reasons p))"
    and "mset (day_reasons day db') = mset (combine (p_baseReasons p) (p_reasons p))"
proof -
  note snap = DailyStatsForDay_snapshot [OF assms [unfolded persistLocked_def]]
    DailyReasonsForDay_snapshot [OF assms [unfolded persistLocked_def]]
  have [simp]: "ds_day (to_daily day c) = day" by (simp add: to_daily_def)
  show "day_counters d db' = (if d = day then c else day_counters d db)"
    by (simp add: day_counters_def snap)
  show "d \<noteq> day \<Longrightarrow> day_reasons d db' = day_reasons d db"
    by (simp add: day_reasons_def snap)
  show "kind_sum k (day_reasons day db') = kind_sum k (combine (p_baseReasons p) (p_reasons p))"
    by (simp add: day_reasons_def snap kind_sum_sort snapshotReasonsLocked_def o_def del: kind_sum_combine)
  show "mset (day_reasons day db') = mset (combine (p_baseReasons p) (p_reasons p))"
    by (simp add: day_reasons_def snap snapshotReasonsLocked_def image_mset.compositionality o_def)
qed

lemma distinct_mset_cong: "mset xs = mset ys \<Longrightarrow> distinct (map f xs) = distinct (map f ys)"
  by (metis distinct_count_atmost_1 mset_eq_setD mset_map set_mset_mset)

lemma persist_db_ok:
  assumes "persistLocked fault now day (add_counters (p_base p) (p_live p)) p db = (ok, db')" "db_ok db" "pipeline_ok p"
  shows "db_ok db'"
proof (cases ok)
  case False
  then show ?thesis using assms UpsertDailySnapshot_fail by (metis persistLocked_def)
next
  case True
  have "persistLocked fault now day (add_counters (p_base p) (p_live p)) p db = (True, db')" using assms(1) True by simp
  note reads = persist_reads [OF this]
  have "balanced (add_counters (p_base p) (p_live p)) (combine (p_baseReasons p) (p_reasons p))"
    using assms(3) by (intro balanced_add) (simp_all add: pipeline_ok_def)
  then have "balanced (add_counters (p_base p) (p_live p)) (day_reasons day db')"
    by (simp add: balanced_def reads(3))
  moreover have "distinct (map fst (day_reasons day db'))"
    using distinct_mset_cong [OF reads(4), of fst] assms(3) by (simp add: pipeline_ok_def)
  ultimately show ?thesis
    using assms(2) reads(1,2) unfolding db_ok_def by metis
qed

lemma utc_day_nonempty [simp]: "utc_day t \<noteq> []"
  by (auto simp: utc_day_def format_date_def split: prod.splits)

lemma Save_ok:
  assumes "Save fault t p db = (ok, p', db')" "db_ok db" "pipeline_ok p"
  shows "pipeline_ok p' \<and> db_ok db'"
proof -
  have day: "pipeline_ok (p\<lparr>p_baseDay := utc_day t\<rparr>)" and reset: "pipeline_ok ((resetLocked p)\<lparr>p_baseDay := utc_day t\<rparr>)"
    using assms(3) by (auto simp: pipeline_ok_def resetLocked_def)
  show ?thesis
  proof (cases "p_baseDay p \<noteq> [] \<and> p_baseDay p \<noteq> utc_day t")
    case True
    obtain k db1 where pers: "persistLocked fault t (p_baseDay p) (add_counters (p_base p) (p_live p)) p db = (k, db1)"
      by fastforce
    then show ?thesis using persist_db_ok [OF pers assms(2,3)] assms(1,3) reset True
      by (cases k) (auto simp: Save_def Let_def)
  next
    case False
    obtain k db1 where pers: "persistLocked fault t (utc_day t)
        (add_counters (p_base (p\<lparr>p_baseDay := utc_day t\<rparr>)) (p_live (p\<lparr>p_baseDay := utc_day t\<rparr>)))
        (p\<lparr>p_baseDay := utc_day t\<rparr>) db = (k, db1)"
      by fastforce
    then show ?thesis using persist_db_ok [OF pers assms(2) day] assms(1) day False
      by (auto simp: Save_def Let_def)
  qed
qed

lemma RestoreBase_alt: "RestoreBase rf t db p = (if rf 0 \<or> rf 1 then (False, p)
   else (True, p\<lparr>p_base := day_counters (utc_day t) db, p_baseReasons := day_reasons (utc_day t) db,
     p_baseDay := utc_day t\<rparr>))"
  by (simp add: RestoreBase_def Let_def day_counters_def day_reasons_def)

lemma service_step_ok: "service_step s s' \<Longrightarrow> service_ok s \<Longrightarrow> service_ok s'"
proof (induction rule: service_step.induct)
  case (traces H J worker hub token fault now td p st out p' st' db)
  obtain q gens where rec: "each_record (consume_span H J) td (p, []) = (q, gens)" by fastforce
  have "pipeline_ok (fst (each_record (consume_span H J) td (p, [])))"
    using traces(2) by (intro each_record_invariant [where I = "\<lambda>s. pipeline_ok (fst s)"])
      (auto simp: service_ok_def intro: consume_span_ok)
  moreover have "storeGenerations worker hub token fault now gens q st = (out, p', st')"
    using traces(1) rec by (simp add: ConsumeTraces_def)
  ultimately show ?case using traces(2) storeGenerations_ok rec by (simp add: service_ok_def)
next
  case (logs H worker hub token fault now ld p st out p' st' db)
  obtain q gens where rec: "each_record (consume_log H) ld (p, []) = (q, gens)" by fastforce
  have "pipeline_ok (fst (each_record (consume_log H) ld (p, [])))"
    using logs(2) by (intro each_record_invariant [where I = "\<lambda>s. pipeline_ok (fst s)"])
      (auto simp: service_ok_def intro: consume_log_ok)
  moreover have "storeGenerations worker hub token fault now gens q st = (out, p', st')"
    using logs(1) rec by (simp add: ConsumeLogs_def)
  ultimately show ?case using logs(2) storeGenerations_ok rec by (simp add: service_ok_def)
next
  case (metrics p st db md)
  then show ?case
    by (simp add: service_ok_def ConsumeMetrics_def Let_def pipeline_ok_def balanced_def add_received_def
        add_ignored_def)
next
  case (http_reject p st db reason)
  then show ?case by (auto simp: service_ok_def BumpHTTPReject_def pipeline_ok_def balanced_def)
next
  case (save sfault t p db ok p' db' st)
  then show ?case using Save_ok by (simp add: service_ok_def)
next
  case (restart rfault t db p' p st)
  then show ?case
    by (auto simp: service_ok_def RestoreBase_alt pipeline_ok_def NewPipeline_def db_ok_def split: if_splits)
qed

lemma service_reachable_ok: "service_step\<^sup>*\<^sup>* init_service s \<Longrightarrow> service_ok s"
proof (induction rule: rtranclp_induct)
  case base
  then show ?case by (simp add: init_service_def service_ok_def)
next
  case (step s s')
  then show ?case by (blast intro: service_step_ok)
qed

section \<open>Properties\<close>



lemma insert_all_total_stored:
  "insert_all fault now i gens st stored = Inr (stored', st') \<Longrightarrow> finite S \<Longrightarrow> g_source ` set gens \<subseteq> S \<Longrightarrow>
    (\<Sum>s\<in>S. stored' s) - (\<Sum>s\<in>S. stored s) = int (length (s_rows st')) - int (length (s_rows st))
    \<and> length (s_rows st) \<le> length (s_rows st') \<and> length (s_rows st') \<le> length (s_rows st) + length gens"
proof (induction gens arbitrary: i st stored)
  case (Cons g gens)
  from Cons.prems(1) show ?case
  proof (rule insert_all_Cons)
    fix ins st1 assume one: "insertGeneration fault i (now i) g st = Inr (ins, st1)"
      and rest: "insert_all fault now (i + 1) gens st1
        (if ins then stored(g_source g := stored (g_source g) + 1) else stored) = Inr (stored', st')"
    have len: "length (s_rows st1) = length (s_rows st) + (if ins then 1 else 0)"
      using insertGeneration_rows [OF one] by (cases ins) auto
    have "(\<Sum>s\<in>S. (stored(g_source g := stored (g_source g) + 1)) s) = (\<Sum>s\<in>S. stored s) + 1"
      using Cons.prems(2,3) by (subst sum.remove [of S "g_source g"]; simp add: sum.remove [of S "g_source g"])
    with Cons.IH [OF rest Cons.prems(2)] Cons.prems(3) len show ?thesis by (cases ins) auto
  qed
qed simp

text \<open>A batch adds the number of rows it created to the stored counter and the rest of
  its records to the deduplicated one; it notifies the dashboard exactly when a row was created and wakes
  the pricing worker exactly when a record came without a cost.  A batch that fails leaves the
  stored rows alone and only counts one ingestion error, silently.\<close>

theorem batch_counters:
  assumes "storeGenerations worker hub token fault now gens p st = (out, p', st')" "int (length gens) < 2 ^ 64"
  shows "case o_error out of
      Some e \<Rightarrow> st' = st \<and> p' = add_ing_errors 1 p \<and> \<not> o_notify out \<and> \<not> o_wake out
    | None \<Rightarrow> (let added = int (length (s_rows st')) - int (length (s_rows st)) in
        0 \<le> added \<and> added \<le> int (length gens)
        \<and> p_live p' = (p_live p)\<lparr>c_stored := c_stored (p_live p) + u64_of_int added,
            c_dedup := c_dedup (p_live p) + u64_of_int (int (length gens) - added)\<rparr>
        \<and> o_notify out = (hub \<and> 0 < added) \<and> o_wake out = (worker \<and> needsPricing gens))"
proof (cases "InsertGenerations fault now (if token \<noteq> 0 then map (\<lambda>g. g\<lparr>g_token_id := token\<rparr>) gens else gens) st")
  case (Pair r s)
  define gs where "gs = (if token \<noteq> 0 then map (\<lambda>g. g\<lparr>g_token_id := token\<rparr>) gens else gens)"
  have gs: "length gs = length gens" "needsPricing gs = needsPricing gens"
    by (simp_all add: gs_def needsPricing_def list_ex_iff)
  show ?thesis
  proof (cases r)
    case (Inl e)
    with Pair assms(1) show ?thesis
      using InsertGenerations_Inl [of fault now gs st e s] by (auto simp: storeGenerations_def Let_def gs_def)
  next
    case (Inr stored)
    define n where "n = sum_list (map stored (sources_of gs))"
    define d where "d = int (length gs) - n"
    have s: "s = st'" and out: "out = \<lparr>o_error = None, o_wake = worker \<and> needsPricing gs, o_notify = hub \<and> 0 < u64_of_int n\<rparr>"
      using assms(1) Pair Inr unfolding n_def gs_def by (auto simp: storeGenerations_def Let_def u64_of_int_sum_list)
    have p': "p' = (if 0 < u64_of_int (int (length gs)) - u64_of_int n
        then dedup_breakdown gs stored (add_dedup (u64_of_int (int (length gs)) - u64_of_int n) (add_stored (u64_of_int n) p))
        else add_stored (u64_of_int n) p)"
      using assms(1) Pair Inr unfolding n_def gs_def by (auto simp: storeGenerations_def Let_def u64_of_int_sum_list)
    have ins: "InsertGenerations fault now gs st = (Inr stored, st')" using Pair Inr s by (simp add: gs_def)
    have n_sum: "n = (\<Sum>s \<in> g_source ` set gs. stored s)"
      by (simp add: n_def sources_of_def sum_list_distinct_conv_sum_set)
    have rows: "n = int (length (s_rows st')) - int (length (s_rows st)) \<and> 0 \<le> n \<and> n \<le> int (length gs)"
      using ins
    proof (rule InsertGenerations_Inr)
      assume "gs = []" "stored = (\<lambda>_. 0)" "st' = st"
      then show ?thesis by (simp add: n_def sources_of_def)
    next
      assume all: "insert_all fault now 0 gs st (\<lambda>_. 0) = Inr (stored, st')"
      from insert_all_total_stored [OF all, of "g_source ` set gs"] show ?thesis
        by (simp add: n_sum)
    qed
    have pos: "0 < u64_of_int n \<longleftrightarrow> 0 < n"
      using rows assms(2) gs(1) u64_of_int_eq_0 [of n] by (auto simp: word_gt_0)
    have sub: "u64_of_int (int (length gs)) - u64_of_int n = u64_of_int (int (length gs) - n)"
      by (simp add: u64_of_int_def)
    have "p_live p' = (p_live p)\<lparr>c_stored := c_stored (p_live p) + u64_of_int n,
            c_dedup := c_dedup (p_live p) + u64_of_int (int (length gs) - n)\<rparr>"
      unfolding p' sub by (simp add: add_stored_def add_dedup_def word_gt_0)
    with rows pos gs out show ?thesis by (simp add: Let_def)
  qed
qed

theorem batch_counters_witness:
  "case storeGenerations True True 0 no_fault (\<lambda>_. 0) [sample_gen] NewPipeline empty_store of (out, p', st') \<Rightarrow>
     c_stored (p_live p') = 1 \<and> c_dedup (p_live p') = 0 \<and> o_notify out"
proof -
  obtain out p' st' where r: "storeGenerations True True 0 no_fault (\<lambda>_. 0) [sample_gen] NewPipeline empty_store = (out, p', st')"
    by (metis prod_cases3)
  obtain s where "InsertGenerations no_fault (\<lambda>_. 0) [sample_gen] empty_store = (Inr s, sample_store)"
    using sample_inserted by blast
  then have st': "st' = sample_store" "o_error out = None" using r by (auto simp: storeGenerations_def Let_def)
  have "int (length (s_rows sample_store)) - int (length (s_rows empty_store)) = 1"
    by (simp add: sample_store_rows empty_store_def)
  with batch_counters [OF r] st' r show ?thesis
    by (simp add: Let_def NewPipeline_def zero_counters_def u64_of_int_def)
qed

text \<open>C17: a restart continues the day: after a save the counters and every reason shown by
  a fresh process that restores the base on the same day are those shown before.\<close>

theorem restart_continues_the_day:
  assumes "service_step\<^sup>*\<^sup>* init_service (p, st, db)" "Save fault t p db = (True, p', db')"
    and "p_baseDay p \<in> {[], utc_day t}" "RestoreBase read_fault t' db' NewPipeline = (True, q)" "utc_day t' = utc_day t"
  shows "Stats t' q = Stats t p \<and> count_of (ReasonCounts t' q) k = count_of (ReasonCounts t p) k"
proof -
  have ok: "pipeline_ok p" using service_reachable_ok [OF assms(1)] by (simp add: service_ok_def)
  define p0 where "p0 = p\<lparr>p_baseDay := utc_day t\<rparr>"
  have pers: "persistLocked fault t (utc_day t) (add_counters (p_base p) (p_live p)) p0 db = (True, db')"
    using assms(2,3) by (auto simp: Save_def Let_def p0_def split: if_splits prod.splits)
  note reads = persist_reads [OF pers]
  have q: "q = NewPipeline\<lparr>p_base := add_counters (p_base p) (p_live p), p_baseReasons := day_reasons (utc_day t) db',
      p_baseDay := utc_day t\<rparr>"
    using assms(4,5) reads(1) by (simp add: RestoreBase_alt split: if_splits)
  have base: "(if p_baseDay p = utc_day t then p_base p else zero_counters) = p_base p"
    "(if p_baseDay p = utc_day t then p_baseReasons p else []) = p_baseReasons p"
    using ok assms(3) by (auto simp: pipeline_ok_def)
  have m: "mset (day_reasons (utc_day t) db') = mset (combine (p_baseReasons p) (p_reasons p))"
    using reads(4) by (simp add: p0_def)
  have dist: "distinct (map fst (combine (p_baseReasons p) (p_reasons p)))"
    using ok by (simp add: pipeline_ok_def)
  have nz: "snd e \<noteq> 0" if "e \<in> set (day_reasons (utc_day t) db')" for e
    using that mset_eq_setD [OF m] by (auto simp: combine_alt)
  have "count_of (day_reasons (utc_day t) db') k = count_of (combine (p_baseReasons p) (p_reasons p)) k"
    using map_of_inject_set [OF dist, of "day_reasons (utc_day t) db'"] distinct_mset_cong [OF m, of fst] dist
      mset_eq_setD [OF m] by (simp add: count_of_def)
  moreover have "Stats t' q = Stats t p"
    using assms(5) unfolding Stats_def base by (simp add: q add_counters_def NewPipeline_def zero_counters_def)
  moreover have "ReasonCounts t' q = day_reasons (utc_day t) db'"
    using assms(5) combine_Nil [OF nz] by (simp add: ReasonCounts_def q NewPipeline_def)
  ultimately show ?thesis by (simp add: ReasonCounts_def base)
qed

definition sample_pipeline :: pipeline where
  "sample_pipeline = BumpHTTPReject ''bad_gzip'' NewPipeline"

lemma sample_pipeline_reachable: "service_step\<^sup>*\<^sup>* init_service (sample_pipeline, empty_store, empty_stats_db)"
  unfolding sample_pipeline_def init_service_def by (intro r_into_rtranclp service_step.http_reject)

lemma sample_pipeline_day [simp]: "p_baseDay sample_pipeline = []"
  by code_simp

theorem restart_continues_the_day_witness:
  "count_of (ReasonCounts 7 (snd (RestoreBase (\<lambda>_. False) 7
     (snd (snd (Save (\<lambda>_. False) 5 sample_pipeline empty_stats_db))) NewPipeline))) (''http_reject'', ''bad_gzip'') = 1"
proof -
  define r where "r = Save (\<lambda>_. False) 5 sample_pipeline empty_stats_db"
  have "fst r" unfolding r_def by code_simp
  then have save: "Save (\<lambda>_. False) 5 sample_pipeline empty_stats_db = (True, fst (snd r), snd (snd r))"
    by (simp add: r_def prod_eq_iff)
  have "RestoreBase (\<lambda>_. False) 7 (snd (snd r)) NewPipeline = (True, snd (RestoreBase (\<lambda>_. False) 7 (snd (snd r)) NewPipeline))"
    by (simp add: RestoreBase_alt)
  moreover have "count_of (ReasonCounts 5 sample_pipeline) (''http_reject'', ''bad_gzip'') = 1" by code_simp
  moreover have "utc_day 7 = utc_day 5" by (simp add: utc_day_def)
  ultimately show ?thesis
    using restart_continues_the_day [OF sample_pipeline_reachable save] by (simp add: r_def)
qed

text \<open>At a midnight rollover the save writes the old day's totals to the old day, leaves
  every other day alone, and the counters of the new day start at zero.\<close>

theorem rollover_closes_the_day:
  assumes "Save fault t p db = (True, p', db')" "p_baseDay p \<noteq> []" "p_baseDay p \<noteq> utc_day t"
  shows "day_counters (p_baseDay p) db' = add_counters (p_base p) (p_live p)
    \<and> mset (day_reasons (p_baseDay p) db') = mset (combine (p_baseReasons p) (p_reasons p))
    \<and> (\<forall>d. d \<noteq> p_baseDay p \<longrightarrow> day_counters d db' = day_counters d db \<and> day_reasons d db' = day_reasons d db)
    \<and> Stats t p' = zero_counters \<and> ReasonCounts t p' = []"
proof -
  have "persistLocked fault t (p_baseDay p) (add_counters (p_base p) (p_live p)) p db = (True, db')"
    and p': "p' = (resetLocked p)\<lparr>p_baseDay := utc_day t\<rparr>"
    using assms by (auto simp: Save_def Let_def split: prod.splits bool.splits)
  note reads = persist_reads [OF this(1)]
  have "Stats t p' = zero_counters \<and> ReasonCounts t p' = []"
    by (simp add: p' Stats_def ReasonCounts_def resetLocked_def add_counters_def zero_counters_def combine_def)
  then show ?thesis using reads(1,2,4) by simp
qed

theorem rollover_closes_the_day_witness:
  "Stats (90000 * second_ns) (fst (snd (Save (\<lambda>_. False) (90000 * second_ns)
     (sample_pipeline\<lparr>p_baseDay := utc_day 5\<rparr>) empty_stats_db))) = zero_counters"
proof -
  define r where "r = Save (\<lambda>_. False) (90000 * second_ns) (sample_pipeline\<lparr>p_baseDay := utc_day 5\<rparr>) empty_stats_db"
  have "fst r" unfolding r_def by code_simp
  then have save: "Save (\<lambda>_. False) (90000 * second_ns) (sample_pipeline\<lparr>p_baseDay := utc_day 5\<rparr>) empty_stats_db
      = (True, fst (snd r), snd (snd r))"
    by (simp add: r_def prod_eq_iff)
  have "utc_day 5 \<noteq> utc_day (90000 * second_ns)" by code_simp
  with rollover_closes_the_day [OF save] show ?thesis by (simp add: r_def)
qed

text \<open>A save that fails loses nothing: the database keeps its rows and the counters
  shown stay the same, so the next save writes them.\<close>

theorem failed_save_keeps_the_counters:
  assumes "service_step\<^sup>*\<^sup>* init_service (p, st, db)" "Save fault t p db = (False, p', db')"
  shows "db' = db \<and> Stats t p' = Stats t p \<and> ReasonCounts t p' = ReasonCounts t p"
proof -
  have "pipeline_ok p" using service_reachable_ok [OF assms(1)] by (simp add: service_ok_def)
  then show ?thesis using assms(2) UpsertDailySnapshot_fail
    by (fastforce simp: Save_def Let_def persistLocked_def pipeline_ok_def Stats_def ReasonCounts_def
        split: if_splits prod.splits bool.splits)
qed

theorem failed_save_keeps_the_counters_witness:
  "snd (snd (Save (\<lambda>_. True) 5 sample_pipeline empty_stats_db)) = empty_stats_db"
proof -
  define r where "r = Save (\<lambda>_. True) 5 sample_pipeline empty_stats_db"
  have "\<not> fst r" unfolding r_def by code_simp
  then have "Save (\<lambda>_. True) 5 sample_pipeline empty_stats_db = (False, fst (snd r), snd (snd r))"
    by (simp add: r_def prod_eq_iff)
  from failed_save_keeps_the_counters [OF sample_pipeline_reachable this] show ?thesis by (simp add: r_def)
qed

text \<open>The saver's midnight timer fires at the start of the next UTC day, at most a day
  ahead, never at the present moment.\<close>

theorem next_midnight: "t < nextUTCMidnight t \<and> nextUTCMidnight t \<le> t + day_ns
    \<and> nextUTCMidnight t mod day_ns = 0 \<and> nextUTCMidnight t div day_ns = t div day_ns + 1"
proof -
  have "nextUTCMidnight t = (t div day_ns + 1) * day_ns"
    using days_of_civil_of_days [of "t div day_ns"] by (simp add: nextUTCMidnight_def algebra_simps split: prod.splits)
  moreover have "t div day_ns * day_ns + t mod day_ns = t" by (rule div_mult_mod_eq)
  moreover have "0 \<le> t mod day_ns" "t mod day_ns < day_ns" by simp_all
  ultimately have "nextUTCMidnight t - day_ns \<le> t" "t < nextUTCMidnight t"
    by (simp_all only: distrib_right)
  with \<open>nextUTCMidnight t = _\<close> show ?thesis by simp
qed

end
