(* ===== verification/StatsPages.thy ===== *)
theory StatsPages
  imports Charts Pipeline
begin

text \<open>
  The ingestion counters as they are shown: the statistics page and its breakdown by reason
  (\<open>loadStats\<close>, \<open>reasonsDetail\<close> and their helpers in \<open>internal/web/web.go\<close>), and the API's list of
  reasons and of days (\<open>internal/api/server.go\<close>).  \<open>stats\<close> and \<open>reasons\<close> are the snapshots of the
  running pipeline, \<open>None\<close> when the server was built without one; \<open>today\<close> is the clock's UTC day and
  \<open>fault n\<close> whether the n-th read fails.
\<close>

section \<open>The table of days\<close>

record statsRow =
  sw_day :: string
  sw_live :: bool
  sw_stats :: counters

record statsView =
  sv_rows :: "statsRow list"
  sv_total :: counters
  sv_chart :: "chartJSON \<times> bool"

definition dailyToIngest :: "DailyStats \<Rightarrow> counters" where
  "dailyToIngest r = of_daily r"

definition addIngestStats :: "counters \<Rightarrow> counters \<Rightarrow> counters" where
  "addIngestStats a b = add_counters a b"

definition isZeroIngestStats :: "counters \<Rightarrow> bool" where
  "isZeroIngestStats s \<longleftrightarrow> s = zero_counters"

definition hasLiveReasons :: "reason_map \<Rightarrow> bool" where
  "hasLiveReasons rc \<longleftrightarrow> list_ex (\<lambda>(k, n). 0 < n) rc"

text \<open>Problem counters by day, oldest first; a day that is no date has no point.\<close>

definition u64_series :: "string \<Rightarrow> u64 list \<Rightarrow> chartSeries" where
  "u64_series name ns = count_series name (map uint ns)"

definition buildStatsChart :: "statsRow list \<Rightarrow> chartJSON \<times> bool" where
  "buildStatsChart rows = (let pts = filter (\<lambda>r. parse_date (sw_day r) \<noteq> None) (rev rows) in
     (no_chart\<lparr>ch_labels := map (\<lambda>r. unix_milli (the (parse_date (sw_day r)))) pts,
        ch_series := [u64_series ''Rejected'' (map (\<lambda>r. c_rejected (sw_stats r)) pts),
          u64_series ''Normalization errors'' (map (\<lambda>r. c_norm_errors (sw_stats r)) pts),
          u64_series ''Ingestion errors'' (map (\<lambda>r. c_ing_errors (sw_stats r)) pts)]\<rparr>,
      list_ex (\<lambda>r. 0 < c_rejected (sw_stats r) \<or> 0 < c_norm_errors (sw_stats r) \<or> 0 < c_ing_errors (sw_stats r)) pts))"

text \<open>The rows the table has, without noise and without the day the live counters stand for.\<close>

definition persisted_rows :: "bool \<Rightarrow> string \<Rightarrow> string list \<Rightarrow> DailyStats list \<Rightarrow> statsRow list" where
  "persisted_rows lv today reasonDays rows =
     map (\<lambda>r. \<lparr>sw_day = ds_day r, sw_live = False, sw_stats = dailyToIngest r\<rparr>)
       (filter (\<lambda>r. \<not> ((lv \<and> ds_day r = today) \<or> (ds_received r = 0 \<and> ds_day r \<notin> set reasonDays))) rows)"

text \<open>Days that have reasons but no row.\<close>

definition orphan_rows :: "bool \<Rightarrow> string \<Rightarrow> string list \<Rightarrow> statsRow list \<Rightarrow> statsRow list" where
  "orphan_rows lv today reasonDays vs =
     map (\<lambda>day. \<lparr>sw_day = day, sw_live = False, sw_stats = zero_counters\<rparr>)
       (filter (\<lambda>day. day \<notin> sw_day ` set vs \<and> \<not> (day = today \<and> lv)) reasonDays)"

definition showLive :: "string \<Rightarrow> string list \<Rightarrow> counters \<Rightarrow> reason_map option \<Rightarrow> bool" where
  "showLive today reasonDays lv reasons \<longleftrightarrow> (\<not> isZeroIngestStats lv \<or> today \<in> set reasonDays)
     \<or> (case reasons of None \<Rightarrow> False | Some rc \<Rightarrow> hasLiveReasons rc)"

definition stats_rows :: "counters option \<Rightarrow> reason_map option \<Rightarrow> string \<Rightarrow> string list \<Rightarrow> DailyStats list \<Rightarrow> statsRow list" where
  "stats_rows stats reasons today reasonDays rows =
     (let vs = persisted_rows (stats \<noteq> None) today reasonDays rows;
          vs = vs @ orphan_rows (stats \<noteq> None) today reasonDays vs;
          vs = rev (sort_key sw_day vs) in
      case stats of None \<Rightarrow> vs
      | Some lv \<Rightarrow> if showLive today reasonDays lv reasons
          then \<lparr>sw_day = today, sw_live = True, sw_stats = lv\<rparr> # vs else vs)"

definition loadStats :: "(nat \<Rightarrow> bool) \<Rightarrow> counters option \<Rightarrow> reason_map option \<Rightarrow> string \<Rightarrow> string \<Rightarrow> string \<Rightarrow> nat
    \<Rightarrow> stats_db \<Rightarrow> statsView option" where
  "loadStats fault stats reasons today lo hi limit db = (if fault 0 \<or> fault 1 then None
     else let rows = take limit (stats_rows stats reasons today (DailyReasonDaysRange lo hi limit db) (DailyStatsRange lo hi limit db)) in
       Some \<lparr>sv_rows = rows, sv_total = fold (\<lambda>r t. addIngestStats t (sw_stats r)) rows zero_counters,
         sv_chart = buildStatsChart rows\<rparr>)"

text \<open>The page: its status, and what it shows.\<close>

definition statsPage :: "(nat \<Rightarrow> bool) \<Rightarrow> (nat \<Rightarrow> int) \<Rightarrow> counters option \<Rightarrow> reason_map option \<Rightarrow> stats_db \<Rightarrow> url_values
    \<Rightarrow> int \<times> (presetView list \<times> statsView) option" where
  "statsPage fault clock stats reasons db q = (case statsRangeParam (clock 0) q of Inl _ \<Rightarrow> (400, None)
   | Inr (u, lo, hi, limit) \<Rightarrow> (case loadStats fault stats reasons (utc_day (clock 1)) lo hi limit db of
       None \<Rightarrow> (500, None) | Some v \<Rightarrow> (200, Some (statsPresetViews u, v))))"

definition fragStats :: "(nat \<Rightarrow> bool) \<Rightarrow> (nat \<Rightarrow> int) \<Rightarrow> counters option \<Rightarrow> reason_map option \<Rightarrow> stats_db \<Rightarrow> url_values
    \<Rightarrow> int \<times> statsView option" where
  "fragStats fault clock stats reasons db q = map_prod id (map_option snd) (statsPage fault clock stats reasons db q)"

section \<open>The reasons of a day\<close>

record reasonRow =
  rr_reason :: string
  rr_label :: string
  rr_count :: u64

record reasonGroup =
  rg_kind :: string
  rg_label :: string
  rg_rows :: "reasonRow list"
  rg_note :: string

record reasonsDetailView =
  rd_day :: string
  rd_live :: bool
  rd_groups :: "reasonGroup list"

definition reasonKindMeta :: "string \<Rightarrow> (string \<times> string) option" where
  "reasonKindMeta kind =
     (if kind = ReasonKindRejected then Some (''Rejected spans'',
        ''Spans with no known source's markers, or healthy spans that are never generation records.'')
      else if kind = ReasonKindIgnored then Some (''Ignored (not used)'',
        ''Records that arrived healthy but can never become generations.'')
      else if kind = ReasonKindNormError then Some (''Normalization errors'',
        ''Spans recognized as generations but too malformed to normalize.'')
      else if kind = ReasonKindDedup then Some (''Deduplicated'',
        ''Duplicate generation records, by source (same trace/span ID retried or re-exported).'')
      else if kind = ReasonKindHTTPReject then Some (''Transport rejections'',
        ''Requests rejected before the pipeline; counted per request, not per record.'')
      else None)"

definition reason_labels :: "(string \<times> string) list" where
  "reason_labels = [(ReasonNoSource, ''No known source''), (ReasonNotGeneration, ''Not a generation record''),
     (ReasonLogs, ''Log records''), (ReasonMetrics, ''Metric datapoints''), (ReasonBadAttrs, ''Invalid attribute values''),
     (ReasonBadIDs, ''Missing record identity''), (ReasonBadTimestamp, ''Invalid log timestamp''), (ReasonNormOther, ''Other''),
     (''unauthorized'', ''Missing or invalid bearer token (HTTP)''),
     (''grpc_unauthenticated'', ''Missing or invalid bearer token (gRPC)''),
     (''bad_content_type'', ''Missing or unsupported content type''), (''bad_content_encoding'', ''Unsupported content encoding''),
     (''body_too_large'', ''Request body too large''), (''body_read_error'', ''Request body read error''),
     (''bad_gzip'', ''Malformed gzip body''), (''decode_failed'', ''Payload decode failed'')]"

definition reasonLabel :: "string \<Rightarrow> string \<Rightarrow> string" where
  "reasonLabel kind reason = (if kind = ReasonKindDedup then friendlySource reason
     else case map_of reason_labels reason of Some l \<Rightarrow> l | None \<Rightarrow> reason)"

text \<open>The rows of a kind; no rows is the result \<open>false\<close> of the code.\<close>

definition groupReasons :: "reason_map \<Rightarrow> string \<Rightarrow> reasonRow list" where
  "groupReasons counts kind = map (\<lambda>reason. \<lparr>rr_reason = reason, rr_label = reasonLabel kind reason,
       rr_count = count_of counts (kind, reason)\<rparr>)
     (sort (map (snd \<circ> fst) (filter (\<lambda>((k, r), n). k = kind \<and> n \<noteq> 0) counts)))"

definition unknownReasonKinds :: "reason_map \<Rightarrow> string list \<Rightarrow> string list" where
  "unknownReasonKinds counts seen = sort_key (\<lambda>k. (ReasonKindRank k, k))
     (remdups (map (fst \<circ> fst) (filter (\<lambda>((k, r), n). n \<noteq> 0 \<and> k \<notin> set seen) counts)))"

definition reason_group :: "reason_map \<Rightarrow> string \<Rightarrow> string \<times> string \<Rightarrow> reasonGroup list" where
  "reason_group counts kind meta = (let rows = groupReasons counts kind in
     if rows = [] then [] else [\<lparr>rg_kind = kind, rg_label = fst meta, rg_rows = rows, rg_note = snd meta\<rparr>])"

definition reason_groups :: "reason_map \<Rightarrow> reasonGroup list" where
  "reason_groups counts =
     concat (map (\<lambda>kind. reason_group counts kind (case reasonKindMeta kind of Some m \<Rightarrow> m | None \<Rightarrow> (kind, []))) ReasonKindOrder)
     @ concat (map (\<lambda>kind. reason_group counts kind (kind, [])) (unknownReasonKinds counts ReasonKindOrder))"

definition reason_counts :: "ReasonStat list \<Rightarrow> reason_map" where
  "reason_counts rows = fold (\<lambda>r m. bump (rs_kind r, rs_reason r) (u64_of_int (rs_count r)) m) rows []"

definition reasonsDetail :: "bool \<Rightarrow> string \<Rightarrow> reason_map option \<Rightarrow> string \<Rightarrow> stats_db \<Rightarrow> reasonsDetailView option" where
  "reasonsDetail fault today reasons day db = (case (if day = today then reasons else None) of
     Some lv \<Rightarrow> Some \<lparr>rd_day = day, rd_live = True, rd_groups = reason_groups (filter (\<lambda>(k, n). n \<noteq> 0) lv)\<rparr>
   | None \<Rightarrow> if fault then None else Some \<lparr>rd_day = day, rd_live = False,
       rd_groups = reason_groups (reason_counts (DailyReasonsForDay day db))\<rparr>)"

definition fragStatsReasons :: "bool \<Rightarrow> string \<Rightarrow> reason_map option \<Rightarrow> stats_db \<Rightarrow> url_values
    \<Rightarrow> int \<times> reasonsDetailView option" where
  "fragStatsReasons fault today reasons db q = (let day = q_get q ''day'' in
     if day = [] then (200, None)
     else if parse_date day = None then (400, None)
     else case reasonsDetail fault today reasons day db of None \<Rightarrow> (500, None) | Some v \<Rightarrow> (200, Some v))"

section \<open>The API\<close>

definition sortReasonStats :: "ReasonStat list \<Rightarrow> ReasonStat list" where
  "sortReasonStats = sort_key (\<lambda>r. (ReasonKindRank (rs_kind r), rs_kind r, rs_reason r))"

definition api_stats_reasons :: "bool \<Rightarrow> string \<Rightarrow> reason_map option \<Rightarrow> stats_db \<Rightarrow> url_values \<Rightarrow> int \<times> ReasonStat list option" where
  "api_stats_reasons fault today reasons db q = (let day = q_get q ''day'' in
     if day = [] \<or> parse_date day = None then (400, None)
     else case (if day = today then reasons else None) of
       Some lv \<Rightarrow> (200, Some (sortReasonStats (map to_reason_stat (filter (\<lambda>(k, n). n \<noteq> 0) lv))))
     | None \<Rightarrow> if fault then (500, None)
         else (200, Some (sortReasonStats (filter (\<lambda>r. rs_count r \<noteq> 0) (DailyReasonsForDay day db)))))"

definition api_stats :: "counters option \<Rightarrow> counters" where
  "api_stats stats = (case stats of None \<Rightarrow> zero_counters | Some s \<Rightarrow> s)"

definition api_stats_daily :: "bool \<Rightarrow> stats_db \<Rightarrow> url_values \<Rightarrow> int \<times> (string \<times> counters \<times> string) list option" where
  "api_stats_daily fault db q = (case dayRangeParams (q_get q ''from'') (q_get q ''to'') of Inl _ \<Rightarrow> (400, None)
   | Inr (lo, hi) \<Rightarrow> (case limitParam q 30 365 of Inl _ \<Rightarrow> (400, None)
     | Inr limit \<Rightarrow> if fault then (500, None)
         else (200, Some (map (\<lambda>s. (ds_day s, of_daily s, format_rfc3339 (of_unix_milli (ds_updated s))))
           (if lo \<noteq> [] \<or> hi \<noteq> [] then DailyStatsRange lo hi (nat limit) db else RecentDailyStats (nat limit) db)))))"

section \<open>The page of a range\<close>

definition reasons_on :: "string \<Rightarrow> stats_db \<Rightarrow> bool" where
  "reasons_on day db \<longleftrightarrow> (\<exists>(d, r) \<in> set (sd_reasons db). d = day \<and> 0 < rs_count r)"

text \<open>What a day has to show: something received or refused, now or in the tables.\<close>

definition has_activity :: "counters option \<Rightarrow> reason_map option \<Rightarrow> string \<Rightarrow> stats_db \<Rightarrow> string \<Rightarrow> bool" where
  "has_activity stats reasons today db day \<longleftrightarrow> (case (if day = today then stats else None) of
     Some lv \<Rightarrow> lv \<noteq> zero_counters \<or> reasons_on day db \<or> (\<exists>rc. reasons = Some rc \<and> hasLiveReasons rc)
   | None \<Rightarrow> (\<exists>s \<in> set (sd_days db). ds_day s = day \<and> ds_received s \<noteq> 0) \<or> reasons_on day db)"

definition row_of_day :: "counters option \<Rightarrow> string \<Rightarrow> stats_db \<Rightarrow> string \<Rightarrow> statsRow" where
  "row_of_day stats today db day = (case (if day = today then stats else None) of
     Some lv \<Rightarrow> \<lparr>sw_day = day, sw_live = True, sw_stats = lv\<rparr>
   | None \<Rightarrow> \<lparr>sw_day = day, sw_live = False, sw_stats = day_counters day db\<rparr>)"

lemma reason_days_set:
  assumes "card {d. p d \<and> reasons_on d db} \<le> limit"
  shows "set (reason_days p limit db) = {d. p d \<and> reasons_on d db}"
    "distinct (reason_days p limit db)"
proof -
  let ?ds = "remdups (map fst (filter (\<lambda>(d, r). 0 < rs_count r \<and> p d) (sd_reasons db)))"
  have set: "set ?ds = {d. p d \<and> reasons_on d db}" by (force simp: reasons_on_def)
  then have "length (rev (sort ?ds)) \<le> limit" using assms distinct_card [of ?ds] by simp
  then have "reason_days p limit db = rev (sort ?ds)" by (simp add: reason_days_def)
  then show "set (reason_days p limit db) = {d. p d \<and> reasons_on d db}" "distinct (reason_days p limit db)"
    using set by simp_all
qed

lemma stats_range_set:
  assumes "length (filter (\<lambda>s. in_days lo hi (ds_day s)) (sd_days db)) \<le> limit"
  shows "set (DailyStatsRange lo hi limit db) = {s \<in> set (sd_days db). in_days lo hi (ds_day s)}"
    "distinct (map ds_day (sd_days db)) \<Longrightarrow> distinct (map ds_day (DailyStatsRange lo hi limit db))"
proof -
  let ?ss = "filter (\<lambda>s. in_days lo hi (ds_day s)) (sd_days db)"
  have eq: "DailyStatsRange lo hi limit db = rev (sort_key ds_day ?ss)"
    using assms by (simp add: DailyStatsRange_def newest_first_def)
  show "set (DailyStatsRange lo hi limit db) = {s \<in> set (sd_days db). in_days lo hi (ds_day s)}" unfolding eq by auto
  assume "distinct (map ds_day (sd_days db))"
  then have "distinct (map ds_day ?ss)" by (simp add: distinct_map_filter)
  then have "distinct (map ds_day (sort_key ds_day ?ss))" 
    by (simp add: distinct_map)
  then show "distinct (map ds_day (DailyStatsRange lo hi limit db))" unfolding eq rev_map [symmetric] by simp
qed

lemma find_day: "distinct (map ds_day ss) \<Longrightarrow> s \<in> set ss \<Longrightarrow> List.find (\<lambda>t. ds_day t = ds_day s) ss = Some s"
  by (induction ss) (auto simp: image_iff)

lemma day_counters_row: "distinct (map ds_day (sd_days db)) \<Longrightarrow> s \<in> set (sd_days db) \<Longrightarrow>
    day_counters (ds_day s) db = of_daily s"
  by (simp add: day_counters_def DailyStatsForDay_def find_day)

lemma of_zero_daily [simp]: "of_daily zero_daily = zero_counters"
  by (simp add: of_daily_def zero_daily_def zero_counters_def u64_of_int_def)

lemma day_counters_none: "day \<notin> ds_day ` set (sd_days db) \<Longrightarrow> day_counters day db = zero_counters"
proof -
  assume "day \<notin> ds_day ` set (sd_days db)"
  then have "List.find (\<lambda>s. ds_day s = day) (sd_days db) = None" unfolding find_None_iff by blast
  then show ?thesis by (simp add: day_counters_def DailyStatsForDay_def)
qed

lemma newest_rows:
  assumes "distinct (map sw_day vs)"
  shows "sorted_wrt (\<lambda>a b. b < a) (map sw_day (rev (sort_key sw_day vs)))"
proof -
  have "sorted (map sw_day (sort_key sw_day vs))" by simp
  moreover have "distinct (map sw_day (sort_key sw_day vs))" using assms by (simp add: distinct_map)
  ultimately have "sorted_wrt (<) (map sw_day (sort_key sw_day vs))" by (simp add: strict_sorted_iff)
  then show ?thesis by (simp add: rev_map [symmetric] sorted_wrt_rev)
qed

lemma stats_rows_days:
  fixes stats reasons today rds rows db lo
  assumes ds: "distinct (map ds_day (sd_days db))" "distinct (map ds_day rows)" "distinct rds"
    and rows: "set rows = {s \<in> set (sd_days db). in_days lo today (ds_day s)}"
    and rds: "set rds = {d. in_days lo today d \<and> reasons_on d db}"
    and today: "today \<noteq> []" "in_days lo today today"
  shows "sorted_wrt (\<lambda>a b. b < a) (map sw_day (stats_rows stats reasons today rds rows))"
    "sw_day ` set (stats_rows stats reasons today rds rows) = {d. in_days lo today d \<and> has_activity stats reasons today db d}"
    "\<forall>r \<in> set (stats_rows stats reasons today rds rows). r = row_of_day stats today db (sw_day r)"
proof -
  let ?lv = "stats \<noteq> None"
  let ?ps = "persisted_rows ?lv today rds rows"
  let ?os = "orphan_rows ?lv today rds ?ps"
  let ?vs = "rev (sort_key sw_day (?ps @ ?os))"
  have in_ps: "r \<in> set ?ps \<longleftrightarrow> (\<exists>s \<in> set (sd_days db). in_days lo today (ds_day s) \<and> \<not> (?lv \<and> ds_day s = today)
      \<and> (ds_received s \<noteq> 0 \<or> reasons_on (ds_day s) db) \<and> r = \<lparr>sw_day = ds_day s, sw_live = False, sw_stats = of_daily s\<rparr>)" for r
    by (auto simp: persisted_rows_def rows rds dailyToIngest_def)
  have in_os: "r \<in> set ?os \<longleftrightarrow> (\<exists>d. in_days lo today d \<and> reasons_on d db \<and> d \<notin> sw_day ` set ?ps \<and> \<not> (?lv \<and> d = today)
      \<and> r = \<lparr>sw_day = d, sw_live = False, sw_stats = zero_counters\<rparr>)" for r
    by (auto simp: orphan_rows_def rds)
  have "distinct (map sw_day ?ps)" using ds(2) by (simp add: persisted_rows_def o_def distinct_map_filter)
  moreover have "distinct (map sw_day ?os)" using ds(3) by (simp add: orphan_rows_def o_def)
  moreover have "sw_day ` set ?os \<inter> sw_day ` set ?ps = {}" using in_os by force
  ultimately have "distinct (map sw_day (?ps @ ?os))" by auto
  then have sorted: "sorted_wrt (\<lambda>a b. b < a) (map sw_day ?vs)" by (rule newest_rows)
  have days: "sw_day ` set ?vs = {d. in_days lo today d \<and> \<not> (?lv \<and> d = today)
      \<and> ((\<exists>s \<in> set (sd_days db). ds_day s = d \<and> ds_received s \<noteq> 0) \<or> reasons_on d db)}" (is "_ = ?D")
  proof -
    have "sw_day r \<in> ?D" if "r \<in> set ?ps" for r
    proof -
      from that [unfolded in_ps] obtain s where "s \<in> set (sd_days db)" "in_days lo today (ds_day s)" "\<not> (?lv \<and> ds_day s = today)"
        "ds_received s \<noteq> 0 \<or> reasons_on (ds_day s) db" "sw_day r = ds_day s" by force
      then show ?thesis by auto
    qed
    then have A: "sw_day ` set ?ps \<subseteq> ?D" by blast
    have "sw_day r \<in> ?D" if "r \<in> set ?os" for r
    proof -
      from that [unfolded in_os] obtain d where "in_days lo today d" "reasons_on d db" "\<not> (?lv \<and> d = today)" "sw_day r = d" by force
      then show ?thesis by auto
    qed
    then have B: "sw_day ` set ?os \<subseteq> ?D" by blast
    have C: "d \<in> sw_day ` set ?ps \<union> sw_day ` set ?os" if d: "d \<in> ?D" for d
    proof (cases "reasons_on d db")
      case True
      then have "d \<notin> sw_day ` set ?ps \<Longrightarrow> \<lparr>sw_day = d, sw_live = False, sw_stats = zero_counters\<rparr> \<in> set ?os"
        using d by (subst in_os) auto
      then show ?thesis by force
    next
      case False
      then obtain s where "s \<in> set (sd_days db)" "ds_day s = d" "ds_received s \<noteq> 0" using d False by auto
      moreover have "in_days lo today d" "\<not> (?lv \<and> d = today)" using d by auto
      ultimately have "\<lparr>sw_day = d, sw_live = False, sw_stats = of_daily s\<rparr> \<in> set ?ps" by (subst in_ps) blast
      then show ?thesis by force
    qed
    have U: "sw_day ` set ?vs = sw_day ` set ?ps \<union> sw_day ` set ?os" by (simp add: image_Un)
    show ?thesis unfolding U by (intro equalityI Un_least A B subsetI C)
  qed
  have vals: "r = row_of_day stats today db (sw_day r)" if "r \<in> set ?vs" for r
  proof -
    from that consider "r \<in> set ?ps" | "r \<in> set ?os" by auto
    then show ?thesis
    proof cases
      case 1
      then obtain s where "s \<in> set (sd_days db)" "\<not> (?lv \<and> ds_day s = today)"
          "r = \<lparr>sw_day = ds_day s, sw_live = False, sw_stats = of_daily s\<rparr>" using in_ps by blast
      then show ?thesis using day_counters_row [OF ds(1)] by (auto simp: row_of_day_def)
    next
      case 2
      then obtain d where d: "in_days lo today d" "reasons_on d db" "d \<notin> sw_day ` set ?ps" "\<not> (?lv \<and> d = today)"
          "r = \<lparr>sw_day = d, sw_live = False, sw_stats = zero_counters\<rparr>" using in_os by blast
      have "d \<notin> ds_day ` set (sd_days db)"
      proof
        assume "d \<in> ds_day ` set (sd_days db)"
        then obtain s where "s \<in> set (sd_days db)" "ds_day s = d" by blast
        then have "\<lparr>sw_day = d, sw_live = False, sw_stats = of_daily s\<rparr> \<in> set ?ps" using d by (subst in_ps) auto
        with d(3) show False by force
      qed
      then show ?thesis using d by (auto simp: row_of_day_def day_counters_none)
    qed
  qed
  have earlier: "d < today" if "d \<in> sw_day ` set ?vs" "?lv" for d
    using that days today(1) by (auto simp: in_days_def)
  have rows_eq: "stats_rows stats reasons today rds rows = (case stats of None \<Rightarrow> ?vs
      | Some lv \<Rightarrow> if showLive today rds lv reasons then \<lparr>sw_day = today, sw_live = True, sw_stats = lv\<rparr> # ?vs else ?vs)"
    unfolding stats_rows_def Let_def ..
  have show_live: "showLive today rds lv reasons \<longleftrightarrow> has_activity (Some lv) reasons today db today" for lv
    using today by (auto simp: showLive_def has_activity_def isZeroIngestStats_def rds split: option.splits)
  show "sorted_wrt (\<lambda>a b. b < a) (map sw_day (stats_rows stats reasons today rds rows))"
    using sorted earlier unfolding rows_eq by (auto split: option.splits)
  show "\<forall>r \<in> set (stats_rows stats reasons today rds rows). r = row_of_day stats today db (sw_day r)"
  proof
    fix r assume "r \<in> set (stats_rows stats reasons today rds rows)"
    then consider "r \<in> set ?vs" | lv where "stats = Some lv" "r = \<lparr>sw_day = today, sw_live = True, sw_stats = lv\<rparr>"
      unfolding rows_eq by (cases stats) (simp_all only: option.case set_simps if_split_asm split: if_split_asm, blast+)
    then show "r = row_of_day stats today db (sw_day r)"
      by cases (rule vals, simp_all add: row_of_day_def)
  qed
  show "sw_day ` set (stats_rows stats reasons today rds rows) = {d. in_days lo today d \<and> has_activity stats reasons today db d}"
  proof (cases stats)
    case None
    have "sw_day ` set (stats_rows stats reasons today rds rows) = sw_day ` set ?vs"
      unfolding rows_eq by (simp only: None option.case)
    then show ?thesis unfolding days by (auto simp: has_activity_def None)
  next
    case (Some lv)
    have "sw_day ` set ?vs = {d. in_days lo today d \<and> d \<noteq> today \<and> has_activity stats reasons today db d}"
      unfolding days by (auto simp: has_activity_def Some)
    moreover have "sw_day ` set (stats_rows stats reasons today rds rows)
        = (if has_activity stats reasons today db today then insert today (sw_day ` set ?vs) else sw_day ` set ?vs)"
      unfolding rows_eq using show_live [of lv] by (simp only: Some option.case split: if_split) simp
    ultimately show ?thesis using today(2) by auto
  qed
qed

text \<open>The statistics page is complete: when the range has no more days than its limit, the page lists exactly the days
  of the range on which something happened, newest first and once each, with the counters of the running pipeline for
  today and the stored ones for the other days.  A day that only has reasons and no stored counters is listed too.\<close>

theorem stats_page_lists_the_active_days:
  assumes "distinct (map ds_day (sd_days db))" "length (filter (\<lambda>s. in_days lo today (ds_day s)) (sd_days db)) \<le> limit"
    and "card {d. in_days lo today d \<and> reasons_on d db} \<le> limit" "today \<noteq> []" "in_days lo today today"
  shows "\<exists>v days. loadStats (\<lambda>_. False) stats reasons today lo today limit db = Some v
    \<and> sorted_wrt (\<lambda>a b. b < a) days \<and> set days = {d. in_days lo today d \<and> has_activity stats reasons today db d}
    \<and> sv_rows v = map (row_of_day stats today db) (take limit days)"
proof -
  let ?rds = "DailyReasonDaysRange lo today limit db" and ?rows = "DailyStatsRange lo today limit db"
  have rds: "set ?rds = {d. in_days lo today d \<and> reasons_on d db}" "distinct ?rds"
    unfolding DailyReasonDaysRange_def by (rule reason_days_set [OF assms(3)])+
  note rows = stats_range_set [OF assms(2)]
  let ?vs = "stats_rows stats reasons today ?rds ?rows"
  note vs = stats_rows_days [OF assms(1) rows(2) [OF assms(1)] rds(2) rows(1) rds(1) assms(4,5)]
  have "map (row_of_day stats today db) (take limit (map sw_day ?vs)) = take limit ?vs"
    using vs(3) [of stats reasons] by (simp add: take_map [symmetric] o_def map_idI)
  then have "sv_rows (the (loadStats (\<lambda>_. False) stats reasons today lo today limit db))
      = map (row_of_day stats today db) (take limit (map sw_day ?vs))"
    by (simp add: loadStats_def Let_def)
  moreover have "loadStats (\<lambda>_. False) stats reasons today lo today limit db \<noteq> None" by (simp add: loadStats_def Let_def)
  ultimately show ?thesis using vs(1,2) [of stats reasons] by (metis (no_types, lifting) option.collapse set_map)
qed

text \<open>Two days: today's counters come from the pipeline, the day before has been stored.\<close>

definition sample_stats_db :: stats_db where
  "sample_stats_db = \<lparr>sd_days = [zero_daily\<lparr>ds_day := ''2026-08-01'', ds_received := 3, ds_stored := 3\<rparr>],
     sd_reasons = [(''2026-08-01'', \<lparr>rs_kind = ''rejected'', rs_reason = ''no_source'', rs_count = 2\<rparr>)]\<rparr>"

theorem stats_page_lists_the_active_days_witness:
  "\<exists>v days. loadStats (\<lambda>_. False) (Some (zero_counters\<lparr>c_received := 1\<rparr>)) None ''2026-08-02'' ''2026-07-27'' ''2026-08-02'' 7
      sample_stats_db = Some v
    \<and> sv_rows v = map (row_of_day (Some (zero_counters\<lparr>c_received := 1\<rparr>)) ''2026-08-02'' sample_stats_db) (take 7 days)"
proof -
  have "{d. in_days ''2026-07-27'' ''2026-08-02'' d \<and> reasons_on d sample_stats_db} \<subseteq> {''2026-08-01''}"
    by (auto simp: reasons_on_def sample_stats_db_def)
  from card_mono [OF _ this] have c: "card {d. in_days ''2026-07-27'' ''2026-08-02'' d \<and> reasons_on d sample_stats_db} \<le> 7"
    by simp
  have d: "distinct (map ds_day (sd_days sample_stats_db))" by code_simp
  have l: "length (filter (\<lambda>s. in_days ''2026-07-27'' ''2026-08-02'' (ds_day s)) (sd_days sample_stats_db)) \<le> 7" by code_simp
  have t: "''2026-08-02'' \<noteq> []" "in_days ''2026-07-27'' ''2026-08-02'' ''2026-08-02''" by code_simp+
  from stats_page_lists_the_active_days [OF d l c t, of "Some (zero_counters\<lparr>c_received := 1\<rparr>)" None]
  show ?thesis by (elim exE conjE) (intro exI conjI, assumption+)
qed

section \<open>Both lists of reasons\<close>

definition reason_order :: "ReasonStat \<Rightarrow> nat \<times> string \<times> string" where
  "reason_order r = (ReasonKindRank (rs_kind r), rs_kind r, rs_reason r)"

lemma sortReasonStats_alt: "sortReasonStats = sort_key reason_order"
  by (simp add: sortReasonStats_def reason_order_def [abs_def])

definition group_stats :: "reasonGroup \<Rightarrow> ReasonStat list" where
  "group_stats g = map (\<lambda>r. \<lparr>rs_kind = rg_kind g, rs_reason = rr_reason r, rs_count = int_of_u64 (rr_count r)\<rparr>) (rg_rows g)"

definition kind_stats :: "reason_map \<Rightarrow> string \<Rightarrow> ReasonStat list" where
  "kind_stats counts kind = map (\<lambda>reason. \<lparr>rs_kind = kind, rs_reason = reason, rs_count = int_of_u64 (count_of counts (kind, reason))\<rparr>)
      (sort (map (snd \<circ> fst) (filter (\<lambda>((k, r), n). k = kind \<and> n \<noteq> 0) counts)))"

lemma group_stats_reason_group: "concat (map group_stats (reason_group counts kind meta)) = kind_stats counts kind"
  by (auto simp: reason_group_def Let_def group_stats_def groupReasons_def kind_stats_def)

lemma concat_map_concat: "concat (map g (concat (map f ks))) = concat (map (\<lambda>k. concat (map g (f k))) ks)"
  by (induction ks) auto

lemma reason_groups_stats: "concat (map group_stats (reason_groups counts)) =
    concat (map (kind_stats counts) (ReasonKindOrder @ unknownReasonKinds counts ReasonKindOrder))"
  unfolding reason_groups_def map_append concat_append concat_map_concat group_stats_reason_group by (simp add: o_def)

lemma kind_stats_set:
  assumes "distinct (map fst counts)"
  shows "set (kind_stats counts kind) = to_reason_stat ` {e \<in> set counts. snd e \<noteq> 0 \<and> fst (fst e) = kind}"
proof -
  have "count_of counts (k, r) = n" if "((k, r), n) \<in> set counts" for k r n
    using map_of_is_SomeI [OF assms that] by (simp add: count_of_def)
  then show ?thesis by (force simp: kind_stats_def to_reason_stat_def image_iff)
qed

lemma kind_stats_sorted:
  assumes "distinct (map fst counts)"
  shows "sorted_wrt (<) (map reason_order (kind_stats counts kind))"
proof -
  let ?es = "filter (\<lambda>((k, r), n). k = kind \<and> n \<noteq> 0) counts"
  have "distinct (map fst ?es)" using assms by (simp add: distinct_map_filter)
  moreover have "inj_on snd (set (map fst ?es))" by (auto simp: inj_on_def)
  ultimately have "distinct (map snd (map fst ?es))" by (subst distinct_map) blast
  then have "sorted_wrt (<) (sort (map (snd \<circ> fst) ?es))" by (simp add: strict_sorted_iff)
  then show ?thesis by (simp add: kind_stats_def sorted_wrt_map reason_order_def)
qed

lemma kinds_sorted:
  assumes "distinct (map fst counts)" "sorted_wrt (\<lambda>a b. (ReasonKindRank a, a) < (ReasonKindRank b, b)) ks"
  shows "sorted_wrt (<) (map reason_order (concat (map (kind_stats counts) ks)))"
  using assms(2)
proof (induction ks)
  case (Cons k ks)
  have kind: "rs_kind r = k'" if "r \<in> set (kind_stats counts k')" for r k' using that by (auto simp: kind_stats_def)
  have "reason_order x < reason_order y" if "x \<in> set (kind_stats counts k)" "k' \<in> set ks" "y \<in> set (kind_stats counts k')" for x y k'
  proof -
    have "(ReasonKindRank k, k) < (ReasonKindRank k', k')" using Cons.prems that(2) by simp
    then show ?thesis using kind [OF that(1)] kind [OF that(3)] by (auto simp: reason_order_def)
  qed
  then show ?case using kind_stats_sorted [OF assms(1), of k] Cons by (auto simp: sorted_wrt_append)
qed simp

lemma rank_unknown: "k \<notin> set ReasonKindOrder \<Longrightarrow> ReasonKindRank k = length ReasonKindOrder"
proof -
  assume "k \<notin> set ReasonKindOrder"
  then have "takeWhile (\<lambda>l. l \<noteq> k) ReasonKindOrder = ReasonKindOrder" unfolding takeWhile_eq_all_conv by blast
  then show ?thesis by (simp only: ReasonKindRank_def)
qed

lemma rank_known: "k \<in> set ReasonKindOrder \<Longrightarrow> ReasonKindRank k < length ReasonKindOrder"
proof -
  have "k \<in> set ks \<Longrightarrow> length (takeWhile (\<lambda>l. l \<noteq> k) ks) < length ks" for ks by (induction ks) auto
  then show "k \<in> set ReasonKindOrder \<Longrightarrow> ?thesis" by (simp only: ReasonKindRank_def)
qed

lemma all_kinds_sorted:
  "sorted_wrt (\<lambda>a b. (ReasonKindRank a, a) < (ReasonKindRank b, b)) (ReasonKindOrder @ unknownReasonKinds counts ReasonKindOrder)"
proof -
  let ?us = "unknownReasonKinds counts ReasonKindOrder"
  have u: "set ?us \<inter> set ReasonKindOrder = {}" by (auto simp: unknownReasonKinds_def)
  have "sorted (map (\<lambda>k. (ReasonKindRank k, k)) ?us)" by (simp add: unknownReasonKinds_def)
  moreover have "distinct (map (\<lambda>k. (ReasonKindRank k, k)) ?us)" by (simp add: unknownReasonKinds_def distinct_map inj_on_def)
  ultimately have "sorted_wrt (<) (map (\<lambda>k. (ReasonKindRank k, k)) ?us)" by (simp add: strict_sorted_iff)
  then have "sorted_wrt (\<lambda>a b. (ReasonKindRank a, a) < (ReasonKindRank b, b)) ?us" by (simp add: sorted_wrt_map)
  moreover have "sorted_wrt (\<lambda>a b. (ReasonKindRank a, a) < (ReasonKindRank b, b)) ReasonKindOrder" by code_simp
  moreover have "(ReasonKindRank a, a) < (ReasonKindRank b, b)" if "a \<in> set ReasonKindOrder" "b \<in> set ?us" for a b
  proof -
    have "b \<notin> set ReasonKindOrder" using that(2) u by blast
    then show ?thesis using rank_known [OF that(1)] rank_unknown [of b] by simp
  qed
  ultimately show ?thesis unfolding sorted_wrt_append by blast
qed

lemma strictly_sorted_unique:
  fixes f :: "'a \<Rightarrow> 'b :: linorder"
  assumes "sorted_wrt (<) (map f xs)" "sorted_wrt (<) (map f ys)" "set xs = set ys" "inj_on f (set ys)"
  shows "xs = ys"
proof -
  have "map f xs = map f ys" using assms(1-3) by (intro strict_sorted_equal) simp_all
  then show ?thesis using assms(3,4) by (simp add: inj_on_map_eq_map)
qed

lemma reason_groups_flat:
  assumes "distinct (map fst counts)"
  shows "concat (map group_stats (reason_groups counts)) = sortReasonStats (map to_reason_stat (filter (\<lambda>(k, n). n \<noteq> 0) counts))"
proof (rule strictly_sorted_unique [where f = reason_order])
  let ?nz = "filter (\<lambda>(k, n). n \<noteq> 0) counts"
  let ?us = "unknownReasonKinds counts ReasonKindOrder"
  have nz: "distinct (map fst ?nz)" using assms by (simp add: distinct_map_filter)
  have inj: "inj_on reason_order (set (map to_reason_stat ?nz))"
  proof (rule inj_onI)
    fix r s assume "r \<in> set (map to_reason_stat ?nz)" "s \<in> set (map to_reason_stat ?nz)" and eq: "reason_order r = reason_order s"
    then obtain a b where ab: "a \<in> set ?nz" "r = to_reason_stat a" "b \<in> set ?nz" "s = to_reason_stat b" by auto
    then have "fst a = fst b" using eq by (simp add: reason_order_def to_reason_stat_def prod_eq_iff)
    then have "a = b" using ab(1,3) nz by (metis eq_key_imp_eq_value prod.collapse)
    then show "r = s" using ab by simp
  qed
  show "inj_on reason_order (set (sortReasonStats (map to_reason_stat ?nz)))"
    using inj by (simp add: sortReasonStats_def)
  have eq: "map reason_order (map to_reason_stat ?nz) = map (\<lambda>k. (ReasonKindRank (fst k), fst k, snd k)) (map fst ?nz)"
    by (simp add: reason_order_def to_reason_stat_def)
  have "distinct (map reason_order (map to_reason_stat ?nz))"
    unfolding eq by (subst distinct_map) (use nz in \<open>auto simp: inj_on_def\<close>)
  then have "distinct (map reason_order (sortReasonStats (map to_reason_stat ?nz)))"
    unfolding sortReasonStats_def by (simp only: distinct_map [of reason_order] set_sort distinct_sort)
  then show "sorted_wrt (<) (map reason_order (sortReasonStats (map to_reason_stat ?nz)))"
    by (simp add: strict_sorted_iff sortReasonStats_alt)
  show "sorted_wrt (<) (map reason_order (concat (map group_stats (reason_groups counts))))"
    unfolding reason_groups_stats by (rule kinds_sorted [OF assms all_kinds_sorted])
  let ?ks = "ReasonKindOrder @ ?us"
  have "fst (fst e) \<in> set ?ks" if "e \<in> set counts" "snd e \<noteq> 0" for e
    using that by (force simp: unknownReasonKinds_def)
  then have "(\<Union>k \<in> set ?ks. to_reason_stat ` {e \<in> set counts. snd e \<noteq> 0 \<and> fst (fst e) = k})
      = to_reason_stat ` {e \<in> set counts. snd e \<noteq> 0}" by blast
  then show "set (concat (map group_stats (reason_groups counts))) = set (sortReasonStats (map to_reason_stat ?nz))"
    unfolding reason_groups_stats sortReasonStats_def set_concat set_map image_image kind_stats_set [OF assms]
    by (simp add: case_prod_beta)
qed

lemma bump_fresh: "k \<notin> fst ` set m \<Longrightarrow> bump k n m = m @ [(k, n)]"
  by (induction m) auto

lemma reason_counts_rows:
  assumes "distinct (reason_pairs rs)"
  shows "reason_counts rs = map of_reason_stat rs"
  using assms
proof (induction rs rule: rev_induct)
  case (snoc r rs)
  then have "(rs_kind r, rs_reason r) \<notin> fst ` set (map of_reason_stat rs)"
    by (auto simp: reason_pairs_def of_reason_stat_def)
  then show ?case using snoc by (simp add: reason_counts_def reason_pairs_def bump_fresh of_reason_stat_def)
qed (simp add: reason_counts_def)

text \<open>The dashboard and the API break a day down alike: for every day, with the running pipeline or from the
  tables, both answer with the same status, and the groups of the dashboard, one after the other, are the API's list:
  the same pairs with the same counts in the same order.\<close>

theorem both_front_ends_list_the_reasons:
  assumes "q_get q ''day'' \<noteq> []" "\<And>live. reasons = Some live \<Longrightarrow> distinct (map fst live)"
    and "distinct (reason_pairs (DailyReasonsForDay (q_get q ''day'') db))"
    and "\<And>r. r \<in> set (DailyReasonsForDay (q_get q ''day'') db) \<Longrightarrow> int64_range (rs_count r)"
  shows "fst (fragStatsReasons fault today reasons db q) = fst (api_stats_reasons fault today reasons db q)
    \<and> map_option (\<lambda>v. concat (map group_stats (rd_groups v))) (snd (fragStatsReasons fault today reasons db q))
      = snd (api_stats_reasons fault today reasons db q)"
proof -
  let ?rs = "DailyReasonsForDay (q_get q ''day'') db"
  have live: "concat (map group_stats (reason_groups (filter (\<lambda>(k, n). n \<noteq> 0) lv)))
      = sortReasonStats (map to_reason_stat (filter (\<lambda>(k, n). n \<noteq> 0) lv))" if "reasons = Some lv" for lv
    using reason_groups_flat [of "filter (\<lambda>(k, n). n \<noteq> 0) lv"] assms(2) [OF that] by (simp add: distinct_map_filter)
  have "distinct (map fst (reason_counts ?rs))"
    using assms(3) by (simp add: reason_counts_rows reason_pairs_def of_reason_stat_def o_def)
  moreover have "map to_reason_stat (filter (\<lambda>(k, n). n \<noteq> 0) (map of_reason_stat rs)) = filter (\<lambda>r. rs_count r \<noteq> 0) rs"
    if "\<And>r. r \<in> set rs \<Longrightarrow> int64_range (rs_count r)" for rs using that
  proof (induction rs)
    case (Cons r rs)
    have "to_reason_stat (of_reason_stat r) = r" using Cons.prems [of r] by (simp add: to_reason_stat_def of_reason_stat_def)
    moreover have "u64_of_int (rs_count r) = 0 \<longleftrightarrow> rs_count r = 0" using Cons.prems [of r]
      by (metis int_of_u64_of_int list.set_intros(1) int_of_u64_def sint_0 u64_of_int_def word_of_int_0)
    ultimately show ?case using Cons by (simp add: of_reason_stat_def)
  qed simp
  ultimately have "concat (map group_stats (reason_groups (reason_counts ?rs)))
      = sortReasonStats (filter (\<lambda>r. rs_count r \<noteq> 0) ?rs)"
    using reason_groups_flat [of "reason_counts ?rs"] assms(3,4) by (simp add: reason_counts_rows)
  then show ?thesis using assms(1) live
    by (auto simp: fragStatsReasons_def reasonsDetail_def api_stats_reasons_def Let_def split: option.splits)
qed

theorem both_front_ends_list_the_reasons_witness:
  "fst (api_stats_reasons False ''2026-08-02'' None sample_stats_db [(''day'', ''2026-08-01'')]) = 200
    \<and> map_option (\<lambda>v. concat (map group_stats (rd_groups v)))
        (snd (fragStatsReasons False ''2026-08-02'' None sample_stats_db [(''day'', ''2026-08-01'')]))
      = Some [\<lparr>rs_kind = ''rejected'', rs_reason = ''no_source'', rs_count = 2\<rparr>]"
proof -
  have q: "q_get [(''day'', ''2026-08-01'')] ''day'' = ''2026-08-01''" by code_simp
  have "DailyReasonsForDay ''2026-08-01'' sample_stats_db = [\<lparr>rs_kind = ''rejected'', rs_reason = ''no_source'', rs_count = 2\<rparr>]"
    by code_simp
  moreover have "api_stats_reasons False ''2026-08-02'' None sample_stats_db [(''day'', ''2026-08-01'')]
      = (200, Some [\<lparr>rs_kind = ''rejected'', rs_reason = ''no_source'', rs_count = 2\<rparr>])" by code_simp
  ultimately show ?thesis using both_front_ends_list_the_reasons [of "[(''day'', ''2026-08-01'')]" None sample_stats_db False "''2026-08-02''"]
    by (simp add: q reason_pairs_def int64_range_def)
qed

end
