(* ===== verification/Api.thy ===== *)
theory Api
  imports Dashboard StatsPages
begin

text \<open>
  The JSON API (\<open>internal/api/server.go\<close>): its handlers over the tables and the answers they encode.
  As on the pages, a request that is refused answers 400, an unknown record 404, a failing query 500;
  the environment holds the tables, the clock reads and the faults of the database.
\<close>

section \<open>Answers\<close>

record summaryResponse =
  sr_filter :: filterEcho
  sr_sums :: facts
  sr_cache_hit_rate :: "f64 option"
  sr_cost_total :: "rat option"
  sr_cost_unknown :: int

record timeseriesPoint =
  ap_bucket_start :: string
  ap_sums :: facts
  ap_cost_total :: "rat option"

record breakdownRow =
  ab_key :: string
  ab_sums :: facts
  ab_cache_hit_rate :: "f64 option"
  ab_cost_unknown :: int
  ab_cost_total :: "rat option"

record tokenInfo =
  ti_id :: int
  ti_name :: string
  ti_group :: string
  ti_hint :: string
  ti_active :: bool
  ti_created :: int
  ti_last_used :: "int option"
  ti_revoked :: "int option"

record generation_row =
  gj_cost_reported :: bool
  gj_cost_source :: string
  gj_pricing_model_id :: string
  gj_pricing_fetched_at :: "int option"
  gj_id :: string
  gj_timestamp :: string
  gj_source :: string
  gj_service_name :: string
  gj_provider :: string
  gj_model :: string
  gj_input :: "int option"
  gj_output :: "int option"
  gj_cache_read :: "int option"
  gj_cache_creation :: "int option"
  gj_reasoning :: "int option"
  gj_cost :: "f64 option"
  gj_conversation_id :: string
  gj_trace_id :: string
  gj_span_id :: string
  gj_duration_ms :: "int option"
  gj_agent_name :: string
  gj_git_repo :: string
  gj_git_branch :: string
  gj_reasoning_effort :: string
  gj_token_id :: "int option"

definition tokenIDPtr :: "int \<Rightarrow> int option" where
  "tokenIDPtr i = (if i = 0 then None else Some i)"

text \<open>A duration counts in nanoseconds; \<open>Milliseconds\<close> truncates towards zero.\<close>

definition milliseconds :: "int \<Rightarrow> int" where
  "milliseconds d = (if d < 0 then - (- d div 1000000) else d div 1000000)"

definition generationJSON :: "generation \<Rightarrow> generation_row" where
  "generationJSON g = \<lparr>gj_cost_reported = g_cost_reported g, gj_cost_source = g_cost_source g,
     gj_pricing_model_id = g_pricing_model_id g, gj_pricing_fetched_at = g_pricing_fetched_at g, gj_id = g_id g,
     gj_timestamp = format_rfc3339 (g_timestamp g), gj_source = g_source g, gj_service_name = g_service_name g,
     gj_provider = g_provider g, gj_model = g_model g, gj_input = UncachedInput g, gj_output = NonReasoningOutput g,
     gj_cache_read = g_cache_read g, gj_cache_creation = g_cache_creation g, gj_reasoning = g_reasoning g,
     gj_cost = g_cost g, gj_conversation_id = g_conversation_id g, gj_trace_id = g_trace_id g, gj_span_id = g_span_id g,
     gj_duration_ms = (if g_duration g \<noteq> 0 then Some (milliseconds (g_duration g)) else None),
     gj_agent_name = g_agent_name g, gj_git_repo = g_git_repo g, gj_git_branch = g_git_branch g,
     gj_reasoning_effort = g_reasoning_effort g, gj_token_id = tokenIDPtr (g_token_id g)\<rparr>"

definition rate_of :: "facts \<Rightarrow> f64 option" where
  "rate_of s = CacheHitRate (f_input s) (f_cache_read s) (f_cache_creation s)"

definition breakdown_row :: "Breakdown \<Rightarrow> breakdownRow" where
  "breakdown_row b = \<lparr>ab_key = bd_key b, ab_sums = bd_sums b, ab_cache_hit_rate = rate_of (bd_sums b),
     ab_cost_unknown = bd_cost_unknown b, ab_cost_total = bd_cost_total b\<rparr>"

definition token_info :: "api_token \<Rightarrow> tokenInfo" where
  "token_info t = \<lparr>ti_id = t_id t, ti_name = t_name t, ti_group = t_group t, ti_hint = t_hint t, ti_active = Active t,
     ti_created = t_created t, ti_last_used = t_last_used t, ti_revoked = t_revoked t\<rparr>"

section \<open>Handlers\<close>

definition api_summary :: "page_env \<Rightarrow> url_values \<Rightarrow> page_error + summaryResponse" where
  "api_summary env q = ebind (of_request (filterParam q)) (\<lambda>f.
     ebind (of_query env 0 (Summary (pg_clock env 0) (pg_groups env) f (pg_store env))) (\<lambda>s.
     Inr \<lparr>sr_filter = filterEchoOf q f, sr_sums = sm_sums s, sr_cache_hit_rate = rate_of (sm_sums s),
       sr_cost_total = sm_cost_total s, sr_cost_unknown = sm_cost_unknown s\<rparr>))"

definition api_timeseries :: "page_env \<Rightarrow> url_values \<Rightarrow> page_error + timeseriesPoint list" where
  "api_timeseries env q = (let bucket = (if q_get q ''bucket'' = [] then BucketDay else q_get q ''bucket'') in
     if \<not> bucket_valid bucket then Inl (BadRequest (InvalidBucketParam bucket))
     else ebind (of_request (filterParam q)) (\<lambda>f.
       ebind (of_query env 0 (Timeseries (pg_clock env 0) (pg_groups env) f bucket (pg_store env))) (\<lambda>pts.
       Inr (map (\<lambda>p. \<lparr>ap_bucket_start = format_rfc3339 (of_unix_milli (tp_bucket p)), ap_sums = tp_sums p,
         ap_cost_total = tp_cost p\<rparr>) pts))))"

text \<open>The columns of the five breakdown routes.\<close>

definition breakdownOf :: "page_env \<Rightarrow> filter_spec \<Rightarrow> string \<Rightarrow> page_error + breakdownRow list" where
  "breakdownOf env f col = ebind (of_query env 0 (breakdown (pg_clock env 0) (pg_groups env) f
       (if col = ''source'' then ColSource else if col = ''provider'' then ColProvider else if col = ''group'' then ColGroup
        else if col = ''token'' then ColToken else ColModel) (pg_store env))) (\<lambda>rows.
     Inr (map breakdown_row rows))"

definition api_routes :: "(string \<times> string) list" where
  "api_routes = [(''/api/sources'', ''source''), (''/api/providers'', ''provider''), (''/api/models'', ''model''),
     (''/api/groups'', ''group''), (''/api/tokens/usage'', ''token'')]"

definition api_breakdown :: "page_env \<Rightarrow> string \<Rightarrow> url_values \<Rightarrow> page_error + breakdownRow list" where
  "api_breakdown env path q = (case map_of api_routes path of None \<Rightarrow> Inl PageNotFound
   | Some col \<Rightarrow> ebind (of_request (filterParam q)) (\<lambda>f. breakdownOf env f col))"

definition api_tokens :: "page_env \<Rightarrow> page_error + tokenInfo list" where
  "api_tokens env = ebind (of_query env 0 (Inr (ListTokens (pg_tokens env)))) (\<lambda>ts. Inr (map token_info ts))"

definition api_generations :: "page_env \<Rightarrow> url_values \<Rightarrow> page_error + generation_row list" where
  "api_generations env q = ebind (of_request (filterParam q)) (\<lambda>f.
     ebind (of_request (pageParams q)) (\<lambda>(limit, offset).
     ebind (case ParseOrder (q_get q ''order'') of Inl _ \<Rightarrow> Inl (BadRequest (InvalidOrderParam (q_get q ''order''))) | Inr d \<Rightarrow> Inr d)
       (\<lambda>order.
     ebind (of_query env 0 (RecentGenerations (pg_clock env 0) (pg_groups env) f order limit offset (pg_store env))) (\<lambda>gens.
     Inr (map generationJSON gens)))))"

definition api_generation :: "page_env \<Rightarrow> string \<Rightarrow> page_error + generation_row" where
  "api_generation env i = ebind (of_query env 0 (Inr (GenerationByID i (pg_store env)))) (\<lambda>g.
     case g of None \<Rightarrow> Inl PageNotFound | Some g \<Rightarrow> Inr (generationJSON g))"

section \<open>Laws\<close>

lemma of_query_Inr: "of_query env n r = Inr a \<longleftrightarrow> \<not> pg_fault env n \<and> r = Inr a"
  by (auto simp: of_query_def split: sum.splits)

lemma scanned_id [simp]: "g_id (scanGeneration snaps r) = r_id r"
  by (simp add: scanGeneration_def)

lemma json_id [simp]: "gj_id (generationJSON g) = g_id g"
  by (simp add: generationJSON_def)

lemma find_row: "distinct (map r_id rows) \<Longrightarrow> r \<in> set rows \<Longrightarrow> List.find (\<lambda>s. r_id s = r_id r) rows = Some r"
  by (induction rows) (auto simp: image_iff)

lemma page_subset: "set (page limit off xs) \<subseteq> set xs"
  unfolding page_def by (meson set_drop_subset set_take_subset subset_trans)

lemma page_limit: "pageParams q = Inr (limit, offset) \<Longrightarrow> 1 \<le> limit \<and> limit \<le> maxGenerationLimit"
  by (auto simp: pageParams_def limitParam_def ebind_Inr Let_def defaultGenerationLimit_def maxGenerationLimit_def
      split: if_splits option.splits)

text \<open>Every generation of a list is served under its own address, as it was listed; no list is longer than 500.\<close>

theorem listed_generations_are_served:
  assumes "writes\<^sup>*\<^sup>* empty_store (pg_store env)" "\<not> pg_fault env 0" "api_generations env q = Inr gs"
  shows "length gs \<le> 500 \<and> (\<forall>g \<in> set gs. api_generation env (gj_id g) = Inr g)"
proof -
  let ?st = "pg_store env"
  have d: "distinct (map r_id (s_rows ?st))"
    using reachable_ok [OF assms(1)] by (simp add: store_ok_def ids_def)
  from assms(3) obtain limit offset dir f' where l: "pageParams q = Inr (limit, offset)" and
    "gs = map (generationJSON \<circ> scanGeneration (s_snapshots ?st)) (page limit offset (order_rows dir r_ts
      (filter (whereSQL (pg_groups env) f') (s_rows ?st))))"
    by (auto simp: api_generations_def ebind_Inr of_query_Inr of_request_def RecentGenerations_def split: sum.splits if_splits)
  then obtain rows where gs: "gs = map (generationJSON \<circ> scanGeneration (s_snapshots ?st)) (page limit offset rows)"
      "set rows \<subseteq> set (s_rows ?st)"
    by (auto simp: order_rows_def)
  have "api_generation env (gj_id g) = Inr g" if "g \<in> set gs" for g
  proof -
    from that gs obtain r where r: "r \<in> set (s_rows ?st)" "g = generationJSON (scanGeneration (s_snapshots ?st) r)"
      by (auto dest!: subsetD [OF page_subset])
    then show ?thesis using find_row [OF d r(1)] assms(2) by (simp add: api_generation_def of_query_ok GenerationByID_def)
  qed
  moreover have "length gs \<le> 500"
    using page_limit [OF l] unfolding gs(1) page_def length_map length_take maxGenerationLimit_def by linarith
  ultimately show ?thesis by blast
qed

text \<open>What an answer may depend on: the tables with every hash replaced.\<close>

definition rehash :: "(api_token \<Rightarrow> string) \<Rightarrow> page_env \<Rightarrow> page_env" where
  "rehash h env = env\<lparr>pg_tokens := (pg_tokens env)\<lparr>td_tokens := map (\<lambda>t. t\<lparr>t_hash := h t\<rparr>) (td_tokens (pg_tokens env))\<rparr>\<rparr>"

lemma rehash_sel [simp]: "pg_store (rehash h env) = pg_store env" "pg_clock (rehash h env) = pg_clock env"
    "pg_fault (rehash h env) = pg_fault env"
  by (simp_all add: rehash_def)

lemma rehash_groups [simp]: "pg_groups (rehash h env) = pg_groups env"
proof -
  have "map_option t_group (List.find (\<lambda>t. t_id t = i) (map (\<lambda>t. t\<lparr>t_hash := h t\<rparr>) ts))
      = map_option t_group (List.find (\<lambda>t. t_id t = i) ts)" for i ts
    by (induction ts) auto
  then show ?thesis by (simp add: rehash_def group_of_token_def [abs_def])
qed

lemma of_query_rehash [simp]: "of_query (rehash h env) n r = of_query env n r"
  by (simp add: of_query_def)

lemma ListTokens_rehash: "ListTokens (pg_tokens (rehash h env)) = map (\<lambda>t. t\<lparr>t_hash := h t\<rparr>) (ListTokens (pg_tokens env))"
proof -
  have ins: "insort_key (\<lambda>t. (t_group t, t_name t, t_id t)) (x\<lparr>t_hash := h x\<rparr>) (map (\<lambda>t. t\<lparr>t_hash := h t\<rparr>) ts)
      = map (\<lambda>t. t\<lparr>t_hash := h t\<rparr>) (insort_key (\<lambda>t. (t_group t, t_name t, t_id t)) x ts)" for x ts
    by (induction ts) auto
  have "sort_key (\<lambda>t. (t_group t, t_name t, t_id t)) (map (\<lambda>t. t\<lparr>t_hash := h t\<rparr>) ts)
      = map (\<lambda>t. t\<lparr>t_hash := h t\<rparr>) (sort_key (\<lambda>t. (t_group t, t_name t, t_id t)) ts)" for ts
    by (induction ts) (simp_all add: ins)
  then show ?thesis by (simp add: ListTokens_def rehash_def)
qed

text \<open>No answer of the API depends on the stored hash of a token: a reader learns nothing about the secrets.\<close>

theorem answers_hide_the_hashes:
  "api_tokens (rehash h env) = api_tokens env \<and> api_summary (rehash h env) q = api_summary env q
    \<and> api_timeseries (rehash h env) q = api_timeseries env q \<and> api_breakdown (rehash h env) path q = api_breakdown env path q
    \<and> api_generations (rehash h env) q = api_generations env q \<and> api_generation (rehash h env) i = api_generation env i"
proof -
  have "map token_info (ListTokens (pg_tokens (rehash h env))) = map token_info (ListTokens (pg_tokens env))"
    unfolding ListTokens_rehash by (simp add: token_info_def Active_def)
  then have "api_tokens (rehash h env) = api_tokens env" by (simp add: api_tokens_def of_query_def)
  then show ?thesis unfolding api_summary_def api_timeseries_def api_breakdown_def breakdownOf_def api_generations_def
      api_generation_def rehash_sel rehash_groups of_query_rehash by blast
qed


text \<open>A request at one instant over one stored generation.\<close>

definition sample_env :: page_env where
  "sample_env = \<lparr>pg_store = sample_store, pg_tokens = empty_token_db, pg_clock = (\<lambda>_. 1700010000000000000), pg_fault = (\<lambda>_. False)\<rparr>"

definition sample_dates :: url_values where
  "sample_dates = [(''from'', ''2023-11-01''), (''to'', ''2023-12-01'')]"

lemma sample_env_simps [simp]: "pg_store sample_env = sample_store" "pg_fault sample_env n = False"
    "pg_clock sample_env = (\<lambda>_. 1700010000000000000)" "pg_groups sample_env = (\<lambda>_. None)" "no_faults sample_env"
  by (simp_all add: sample_env_def group_of_token_def [abs_def] empty_token_db_def no_faults_def)

theorem listed_generations_are_served_witness:
  "\<exists>gs. api_generations sample_env [] = Inr gs \<and> (\<forall>g \<in> set gs. api_generation sample_env (gj_id g) = Inr g)"
proof -
  have "\<exists>gs. api_generations sample_env [] = Inr gs"
    by (simp add: api_generations_def filterParam_def ungroupedParam_def pageParams_def limitParam_def offsetParam_def
        timeParam_def token_param_ok_def q_get_def ParseOrder_def RecentGenerations_def normalize_filter_def of_query_def
        is_zero_time_def zero_time_def defaultGenerationLimit_def Let_def OrderDesc_def)
  then obtain gs where gs: "api_generations sample_env [] = Inr gs" by blast
  from listed_generations_are_served [OF _ _ gs] sample_reachable gs show ?thesis by simp
qed


end
