(* ===== verification/Catalog.thy ===== *)
theory Catalog
  imports Normalize "HOL-Library.AList" "HOL-Library.Multiset"
begin

text \<open>
  The price catalogs: \<open>internal/pricing/catalog.go\<close> (the OpenRouter catalog and the estimate) and
  \<open>internal/pricing/manual.go\<close> (the bundled and user-supplied prices).

  \<open>J\<close> turns JSON text into a tree.  A Go map is an association list with distinct keys; its
  iteration order is the list's, and the lemmas show where the code does not depend on it.  A
  struct whose document repeats a member is read by the last of them.  Prices are \<open>float64\<close>s
  rounded to nearest after every operation, as the code's are where the compiler does not fuse
  a multiplication with an addition.
\<close>

type_synonym override = "(string \<times> json) list"

record rates =
  x_prompt :: f64
  x_completion :: f64
  x_cache_read :: f64
  x_cache_write :: f64
  x_reasoning :: f64
  x_request :: f64
  x_cache_read_default :: bool
  x_cache_write_default :: bool
  x_reasoning_default :: bool
  x_overrides :: "override list"

type_synonym catalog = "(string \<times> rates) list"

section \<open>Parsing the catalog\<close>

text \<open>A map of raw values: \<open>null\<close> is the empty map, later members win.\<close>

fun raw_map :: "json \<Rightarrow> (string \<times> json) list option" where
  "raw_map JNull = Some []"
| "raw_map (JObj kvs) = Some (fold (\<lambda>(k, v). AList.update k v) kvs [])"
| "raw_map _ = None"

definition price_text :: "string \<Rightarrow> f64 option" where
  "price_text s = (case parse_float s of
     None \<Rightarrow> None
   | Some n \<Rightarrow> if is_nan n \<or> is_inf n \<or> f_lt n (Fin 0) then None else Some n)"

definition parse_price :: "json \<Rightarrow> f64 option" where
  "parse_price raw = Option.bind (decode_string [] raw) price_text"

definition price_field :: "(string \<times> json) list \<Rightarrow> string \<Rightarrow> f64 option \<Rightarrow> f64 option" where
  "price_field pricing key fallback = (case map_of pricing key of
     None \<Rightarrow> fallback | Some raw \<Rightarrow> parse_price raw)"

fun decode_overrides :: "json \<Rightarrow> override list option" where
  "decode_overrides JNull = Some []"
| "decode_overrides (JArr vs) = those (map raw_map vs)"
| "decode_overrides _ = None"

definition model_rates :: "(string \<times> json) list \<Rightarrow> rates option" where
  "model_rates pricing = (
     case price_field pricing ''prompt'' None of None \<Rightarrow> None | Some p \<Rightarrow>
     case price_field pricing ''completion'' None of None \<Rightarrow> None | Some c \<Rightarrow>
     case price_field pricing ''input_cache_read'' (Some p) of None \<Rightarrow> None | Some cr \<Rightarrow>
     case price_field pricing ''input_cache_write'' (Some p) of None \<Rightarrow> None | Some cw \<Rightarrow>
     case price_field pricing ''internal_reasoning'' (Some c) of None \<Rightarrow> None | Some reasoning \<Rightarrow>
     case price_field pricing ''request'' (Some (Fin 0)) of None \<Rightarrow> None | Some request \<Rightarrow>
     case (case map_of pricing ''overrides'' of None \<Rightarrow> Some [] | Some raw \<Rightarrow> decode_overrides raw) of
       None \<Rightarrow> None
     | Some os \<Rightarrow> Some \<lparr>x_prompt = p, x_completion = c, x_cache_read = cr, x_cache_write = cw,
         x_reasoning = reasoning, x_request = request,
         x_cache_read_default = (map_of pricing ''input_cache_read'' = None),
         x_cache_write_default = (map_of pricing ''input_cache_write'' = None),
         x_reasoning_default = (map_of pricing ''internal_reasoning'' = None),
         x_overrides = os\<rparr>)"

text \<open>One element of \<open>data\<close>: its id and pricing map; \<open>None\<close> is a type error of the document.\<close>

definition last_field :: "string \<Rightarrow> (string \<times> json) list \<Rightarrow> json" where
  "last_field name kvs = (case field_values name kvs of [] \<Rightarrow> JNull | v # vs \<Rightarrow> last (v # vs))"

definition catalog_model :: "json \<Rightarrow> (string \<times> (string \<times> json) list) option" where
  "catalog_model v = Option.bind (struct_members v) (\<lambda>kvs.
     Option.bind (decode_string [] (last_field ''id'' kvs)) (\<lambda>i.
     Option.bind (raw_map (last_field ''pricing'' kvs)) (\<lambda>pricing. Some (i, pricing))))"

fun catalog_data :: "json \<Rightarrow> (string \<times> (string \<times> json) list) list option" where
  "catalog_data JNull = Some []"
| "catalog_data (JArr vs) = those (map catalog_model vs)"
| "catalog_data _ = None"

definition add_model :: "string \<times> (string \<times> json) list \<Rightarrow> catalog \<Rightarrow> catalog" where
  "add_model m out = (if fst m = [] then out
     else case model_rates (snd m) of None \<Rightarrow> out | Some r \<Rightarrow> AList.update (fst m) r out)"

definition parseCatalog :: "(string \<Rightarrow> json option) \<Rightarrow> string \<Rightarrow> catalog option" where
  "parseCatalog J body = Option.bind (J body) (\<lambda>v.
     Option.bind (struct_members v) (\<lambda>kvs.
     Option.bind (catalog_data (last_field ''data'' kvs)) (\<lambda>ms.
       let out = fold add_model ms [] in if out = [] then None else Some out)))"

section \<open>Matching a model\<close>

definition aliases :: "(string \<times> string) list" where
  "aliases = [
     (''qwen3.8-max'', ''qwen/qwen3.8-max-0902''),
     (''qwen/qwen3.8-max'', ''qwen/qwen3.8-max-0902''),
     (''claude-haiku-4-5'', ''anthropic/claude-haiku-4.5''),
     (''claude-haiku-4-5-20251001'', ''anthropic/claude-haiku-4.5''),
     (''claude-sonnet-4-5'', ''anthropic/claude-sonnet-4.5''),
     (''claude-sonnet-4-5-20250929'', ''anthropic/claude-sonnet-4.5''),
     (''claude-3-5-sonnet'', ''anthropic/claude-3.5-sonnet''),
     (''claude-3-5-haiku'', ''anthropic/claude-3.5-haiku''),
     (''claude-3-7-sonnet'', ''anthropic/claude-3.7-sonnet''),
     (''claude-sonnet-4'', ''anthropic/claude-sonnet-4''),
     (''claude-opus-4'', ''anthropic/claude-opus-4'')]"

text \<open>The loop over the candidates: the second hit gives up.\<close>

fun bare_match :: "string \<Rightarrow> catalog \<Rightarrow> (string \<times> rates) option \<Rightarrow> (string \<times> rates) option" where
  "bare_match model [] found = found"
| "bare_match model ((candidate, r) # c) found =
     (case cut_at (CHR ''/'') candidate of
        Some (_, bare) \<Rightarrow>
          if bare = model then (if found \<noteq> None then None else bare_match model c (Some (candidate, r)))
          else bare_match model c found
      | None \<Rightarrow> bare_match model c found)"

definition match :: "catalog \<Rightarrow> string \<Rightarrow> (string \<times> rates) option" where
  "match c model0 = (let model = trim_space model0 in
     case map_of c model of Some r \<Rightarrow> Some (model, r)
   | None \<Rightarrow>
     (case Option.bind (map_of aliases model) (\<lambda>target. map_option (Pair target) (map_of c target)) of
        Some hit \<Rightarrow> Some hit
      | None \<Rightarrow> if CHR ''/'' \<in> set model then None else bare_match model c None))"

definition freeModel :: "string \<Rightarrow> bool" where
  "freeModel model \<longleftrightarrow> suffix ''free'' (to_lower (trim_space model))"

section \<open>Overrides\<close>

definition conditions :: "string list" where
  "conditions = [''min_prompt_tokens'', ''utc_start'', ''utc_end'', ''utc_days'']"

definition weekday_name :: "int \<Rightarrow> string" where
  "weekday_name t = [''Sunday'', ''Monday'', ''Tuesday'', ''Wednesday'', ''Thursday'', ''Friday'', ''Saturday'']
     ! nat (weekday (t div day_ns))"

definition utc_clock :: "int \<Rightarrow> int" where
  "utc_clock t = (let s = t mod day_ns div second_ns in s div 3600 * 100 + s mod 3600 div 60)"

definition clock_valid :: "int \<Rightarrow> bool" where
  "clock_valid n \<longleftrightarrow> 0 \<le> n \<and> n < 2400 \<and> n mod 100 < 60"

definition prompt_tokens :: "generation \<Rightarrow> int option" where
  "prompt_tokens g = (case UncachedInput g of None \<Rightarrow> None
     | Some u \<Rightarrow> (let p = (case g_cache_read g of None \<Rightarrow> u | Some v \<Rightarrow> wrap64 (u + v)) in
         Some (case g_cache_creation g of None \<Rightarrow> p | Some v \<Rightarrow> wrap64 (p + v))))"

definition min_tokens_holds :: "override \<Rightarrow> generation \<Rightarrow> bool" where
  "min_tokens_holds ov g = (case map_of ov ''min_prompt_tokens'' of None \<Rightarrow> True
     | Some raw \<Rightarrow> (case decode_int64 0 raw of None \<Rightarrow> False
         | Some threshold \<Rightarrow> 0 \<le> threshold \<and> (case prompt_tokens g of None \<Rightarrow> False | Some p \<Rightarrow> threshold < p)))"

definition days_hold :: "override \<Rightarrow> generation \<Rightarrow> bool" where
  "days_hold ov g = (case map_of ov ''utc_days'' of None \<Rightarrow> True
     | Some raw \<Rightarrow> (case decode_strings raw of None \<Rightarrow> False
         | Some days \<Rightarrow> list_ex (\<lambda>day. equal_fold day (weekday_name (g_timestamp g))) days))"

definition hours_hold :: "override \<Rightarrow> generation \<Rightarrow> bool" where
  "hours_hold ov g = (case (map_of ov ''utc_start'', map_of ov ''utc_end'') of
       (None, None) \<Rightarrow> True
     | (Some s, Some e) \<Rightarrow> (case (decode_int64 0 s, decode_int64 0 e) of
           (Some start, Some end_) \<Rightarrow> clock_valid start \<and> clock_valid end_
             \<and> (let clock = utc_clock (g_timestamp g) in
                 if start < end_ then start \<le> clock \<and> clock < end_ else start \<le> clock \<or> clock < end_)
         | _ \<Rightarrow> False)
     | _ \<Rightarrow> False)"

definition overrideMatches :: "override \<Rightarrow> generation \<Rightarrow> bool" where
  "overrideMatches ov g \<longleftrightarrow>
     list_all (\<lambda>(key, raw). key \<in> set conditions \<or> decode_string [] raw \<noteq> None) ov
     \<and> min_tokens_holds ov g \<and> days_hold ov g \<and> hours_hold ov g"

text \<open>The price fields of a matching override, each independent of the others.\<close>

definition override_price :: "override \<Rightarrow> string \<Rightarrow> f64 \<Rightarrow> f64 option" where
  "override_price ov key old = (case map_of ov key of None \<Rightarrow> Some old | Some raw \<Rightarrow> parse_price raw)"

definition apply_override :: "override \<Rightarrow> rates \<Rightarrow> rates option" where
  "apply_override ov r = (
     case override_price ov ''prompt'' (x_prompt r) of None \<Rightarrow> None | Some p \<Rightarrow>
     case override_price ov ''completion'' (x_completion r) of None \<Rightarrow> None | Some c \<Rightarrow>
     case override_price ov ''input_cache_read'' (x_cache_read r) of None \<Rightarrow> None | Some cr \<Rightarrow>
     case override_price ov ''input_cache_write'' (x_cache_write r) of None \<Rightarrow> None | Some cw \<Rightarrow>
     case override_price ov ''internal_reasoning'' (x_reasoning r) of None \<Rightarrow> None | Some re \<Rightarrow>
     case override_price ov ''request'' (x_request r) of None \<Rightarrow> None | Some rq \<Rightarrow>
       Some (r\<lparr>x_prompt := p, x_completion := c, x_cache_read := cr, x_cache_write := cw,
         x_reasoning := re, x_request := rq,
         x_cache_read_default := x_cache_read_default r \<and> map_of ov ''input_cache_read'' = None,
         x_cache_write_default := x_cache_write_default r \<and> map_of ov ''input_cache_write'' = None,
         x_reasoning_default := x_reasoning_default r \<and> map_of ov ''internal_reasoning'' = None\<rparr>))"

fun apply_overrides :: "override list \<Rightarrow> generation \<Rightarrow> rates \<Rightarrow> rates option" where
  "apply_overrides [] g r = Some r"
| "apply_overrides (ov # os) g r =
     (if overrideMatches ov g then Option.bind (apply_override ov r) (apply_overrides os g)
      else apply_overrides os g r)"

definition forUsage :: "rates \<Rightarrow> generation \<Rightarrow> rates option" where
  "forUsage r0 g = map_option (\<lambda>r. r\<lparr>
       x_cache_read := (if x_cache_read_default r then x_prompt r else x_cache_read r),
       x_cache_write := (if x_cache_write_default r then x_prompt r else x_cache_write r),
       x_reasoning := (if x_reasoning_default r then x_completion r else x_reasoning r)\<rparr>)
     (apply_overrides (x_overrides r0) g r0)"

section \<open>The estimate\<close>

definition token_count :: "int option \<Rightarrow> f64" where
  "token_count p = (case p of None \<Rightarrow> Fin 0 | Some v \<Rightarrow> f_of_int v)"

definition total_price :: "generation \<Rightarrow> rates \<Rightarrow> f64" where
  "total_price g r =
     f_add (f_add (f_add (f_add (f_add
       (f_mul (token_count (UncachedInput g)) (x_prompt r))
       (f_mul (token_count (g_cache_read g)) (x_cache_read r)))
       (f_mul (token_count (g_cache_creation g)) (x_cache_write r)))
       (f_mul (token_count (NonReasoningOutput g)) (x_completion r)))
       (f_mul (token_count (g_reasoning g)) (x_reasoning r)))
       (x_request r)"

definition estimate :: "generation \<Rightarrow> rates \<Rightarrow> f64 option" where
  "estimate g r0 = (if g_input g = None \<or> g_output g = None then None
     else case forUsage r0 g of None \<Rightarrow> None
     | Some r \<Rightarrow> (let n = total_price g r in
         if is_nan n \<or> is_inf n \<or> f_lt n (Fin 0) \<or> f_lt (Fin 1000000) n then None else Some n))"

section \<open>Manual prices\<close>

record manual_price =
  m_rates :: rates
  m_updated :: int

record manual_entry =
  e_input :: "f64 option"
  e_output :: "f64 option"
  e_cache_read :: "f64 option"
  e_cache_write :: "f64 option"
  e_reasoning :: "f64 option"
  e_updated :: string

datatype manual_error = BadJSON | ModelsMissing | BadModelID | RatesRequired string | BadPrice string | BadDate string

definition entry_members :: "string list" where
  "entry_members = [''inputPerMillion'', ''outputPerMillion'', ''cacheReadPerMillion'', ''cacheWritePerMillion'',
     ''reasoningPerMillion'', ''updatedAt'', ''sourceURL'']"

definition known_members :: "string list \<Rightarrow> (string \<times> json) list \<Rightarrow> bool" where
  "known_members names kvs \<longleftrightarrow> list_all (\<lambda>(k, _). list_ex (equal_fold k) names) kvs"

definition decode_entry :: "json \<Rightarrow> manual_entry option" where
  "decode_entry v = Option.bind (struct_members v) (\<lambda>kvs.
     if \<not> known_members entry_members kvs then None
     else Option.bind (decode_field decode_float ''inputPerMillion'' kvs None) (\<lambda>i.
       Option.bind (decode_field decode_float ''outputPerMillion'' kvs None) (\<lambda>o'.
       Option.bind (decode_field decode_float ''cacheReadPerMillion'' kvs None) (\<lambda>cr.
       Option.bind (decode_field decode_float ''cacheWritePerMillion'' kvs None) (\<lambda>cw.
       Option.bind (decode_field decode_float ''reasoningPerMillion'' kvs None) (\<lambda>re.
       Option.bind (decode_field decode_string ''updatedAt'' kvs []) (\<lambda>u.
       Option.bind (decode_field decode_string ''sourceURL'' kvs []) (\<lambda>_.
         Some \<lparr>e_input = i, e_output = o', e_cache_read = cr, e_cache_write = cw, e_reasoning = re,
           e_updated = u\<rparr>))))))))"

text \<open>The \<open>models\<close> object: \<open>Some None\<close> when it is absent or \<open>null\<close>.\<close>

fun decode_models :: "json \<Rightarrow> (string \<times> manual_entry) list option option" where
  "decode_models JNull = Some None"
| "decode_models (JObj kvs) = map_option Some
     (those (map (\<lambda>(k, v). map_option (Pair k) (decode_entry v)) (fold (\<lambda>(k, v). AList.update k v) kvs [])))"
| "decode_models _ = None"

definition per_token :: "f64 \<Rightarrow> f64" where
  "per_token x = f_div x 1000000"

definition price_bad :: "f64 option \<Rightarrow> bool" where
  "price_bad v \<longleftrightarrow> (case v of None \<Rightarrow> False | Some x \<Rightarrow> is_nan x \<or> is_inf x \<or> f_lt x (Fin 0))"

definition manual_of :: "string \<Rightarrow> manual_entry \<Rightarrow> manual_error + manual_price" where
  "manual_of model e =
     (if model = [] \<or> trim_space model \<noteq> model then Inl BadModelID
      else case (e_input e, e_output e) of
        (Some i, Some o') \<Rightarrow>
          if list_ex price_bad [e_input e, e_output e, e_cache_read e, e_cache_write e, e_reasoning e]
          then Inl (BadPrice model)
          else (case parse_date (e_updated e) of
            None \<Rightarrow> Inl (BadDate model)
          | Some updated \<Rightarrow> Inr \<lparr>m_rates = \<lparr>x_prompt = per_token i, x_completion = per_token o',
              x_cache_read = (case e_cache_read e of None \<Rightarrow> per_token i | Some v \<Rightarrow> per_token v),
              x_cache_write = (case e_cache_write e of None \<Rightarrow> per_token i | Some v \<Rightarrow> per_token v),
              x_reasoning = (case e_reasoning e of None \<Rightarrow> per_token o' | Some v \<Rightarrow> per_token v),
              x_request = Fin 0, x_cache_read_default = False, x_cache_write_default = False,
              x_reasoning_default = False, x_overrides = []\<rparr>, m_updated = updated\<rparr>)
      | _ \<Rightarrow> Inl (RatesRequired model))"

fun manual_all :: "(string \<times> manual_entry) list \<Rightarrow> manual_error + (string \<times> manual_price) list" where
  "manual_all [] = Inr []"
| "manual_all ((model, e) # es) = ebind (manual_of model e) (\<lambda>p. ebind (manual_all es) (\<lambda>ps. Inr ((model, p) # ps)))"

text \<open>\<open>J\<close> refuses text that is not exactly one JSON value.\<close>

definition parseManualPrices :: "(string \<Rightarrow> json option) \<Rightarrow> string \<Rightarrow> manual_error + (string \<times> manual_price) list" where
  "parseManualPrices J body = (case Option.bind (J body) struct_members of
     None \<Rightarrow> Inl BadJSON
   | Some kvs \<Rightarrow> if \<not> known_members [''models''] kvs then Inl BadJSON
       else (case decode_models (last_field ''models'' kvs) of
         None \<Rightarrow> Inl BadJSON | Some None \<Rightarrow> Inl ModelsMissing | Some (Some es) \<Rightarrow> manual_all es))"

definition maxManualSize :: nat where "maxManualSize = 1048576"

text \<open>\<open>file\<close> is what reading the file gives: \<open>None\<close> when it cannot be read.\<close>

definition LoadManualFile :: "(string \<Rightarrow> json option) \<Rightarrow> string \<Rightarrow> string option \<Rightarrow> (string \<times> manual_price) list
    \<Rightarrow> bool \<times> (string \<times> manual_price) list" where
  "LoadManualFile J path file manual =
     (if path = [] then (True, manual)
      else case file of None \<Rightarrow> (False, manual)
      | Some body \<Rightarrow> if maxManualSize < length body then (False, manual)
          else (case parseManualPrices J body of
            Inl _ \<Rightarrow> (False, manual)
          | Inr entries \<Rightarrow> (True, fold (\<lambda>(k, p). AList.update k p) entries manual)))"

section \<open>Well-formed catalogs\<close>

definition price_ok :: "f64 \<Rightarrow> bool" where
  "price_ok x \<longleftrightarrow> (\<exists>q \<ge> 0. x = Fin q)"

definition rates_ok :: "rates \<Rightarrow> bool" where
  "rates_ok r \<longleftrightarrow> price_ok (x_prompt r) \<and> price_ok (x_completion r) \<and> price_ok (x_cache_read r)
     \<and> price_ok (x_cache_write r) \<and> price_ok (x_reasoning r) \<and> price_ok (x_request r)"

definition catalog_ok :: "catalog \<Rightarrow> bool" where
  "catalog_ok c \<longleftrightarrow> distinct (map fst c) \<and> [] \<notin> fst ` set c \<and> (\<forall>(i, r) \<in> set c. rates_ok r)"

lemma price_text_ok: "price_text s = Some x \<Longrightarrow> price_ok x"
  by (cases "parse_float s"; cases x)
     (auto simp: price_text_def price_ok_def is_nan_def is_inf_def split: if_splits f64.splits)

lemma parse_price_ok: "parse_price raw = Some x \<Longrightarrow> price_ok x"
  by (auto simp: parse_price_def bind_eq_Some_conv price_text_ok)

lemma price_field_ok: "price_field pricing key fallback = Some x \<Longrightarrow> (\<And>y. fallback = Some y \<Longrightarrow> price_ok y) \<Longrightarrow> price_ok x"
  by (auto simp: price_field_def parse_price_ok split: option.splits)

lemma price_ok_0 [simp]: "price_ok (Fin 0)"
  by (simp add: price_ok_def)

lemma model_rates_ok: "model_rates pricing = Some r \<Longrightarrow> rates_ok r"
  unfolding model_rates_def
  by (auto simp: rates_ok_def split: option.splits dest: price_field_ok intro: price_field_ok)

lemma in_set_update: "e \<in> set (AList.update k v m) \<Longrightarrow> e = (k, v) \<or> e \<in> set m"
  by (induction m) (auto split: if_splits)

lemma catalog_ok_add: "catalog_ok out \<Longrightarrow> catalog_ok (add_model m out)"
proof (cases "fst m = [] \<or> model_rates (snd m) = None")
  case False
  then obtain r where r: "model_rates (snd m) = Some r" "fst m \<noteq> []" by auto
  assume "catalog_ok out"
  then show ?thesis
    using r model_rates_ok [OF r(1)] distinct_update [of out "fst m" r]
    by (fastforce simp: catalog_ok_def add_model_def dest: in_set_update)
qed (auto simp: add_model_def)

lemma fold_catalog_ok: "catalog_ok out \<Longrightarrow> catalog_ok (fold add_model ms out)"
  by (induction ms arbitrary: out) (simp_all add: catalog_ok_add)

lemma override_price_ok: "override_price ov key old = Some x \<Longrightarrow> price_ok old \<Longrightarrow> price_ok x"
  by (auto simp: override_price_def parse_price_ok split: option.splits)

lemma apply_override_ok: "apply_override ov r = Some r' \<Longrightarrow> rates_ok r \<Longrightarrow> rates_ok r'"
  unfolding apply_override_def
  by (auto simp: rates_ok_def split: option.splits dest: override_price_ok)

lemma apply_overrides_ok: "apply_overrides os g r = Some r' \<Longrightarrow> rates_ok r \<Longrightarrow> rates_ok r'"
  by (induction os g r rule: apply_overrides.induct)
     (auto simp: bind_eq_Some_conv apply_override_ok split: if_splits)

lemma forUsage_ok: "forUsage r g = Some r' \<Longrightarrow> rates_ok r \<Longrightarrow> rates_ok r'"
  using apply_overrides_ok by (fastforce simp: forUsage_def rates_ok_def)

text \<open>The hits of the loop over the candidates.\<close>

definition bare_of :: "string \<Rightarrow> string option" where
  "bare_of candidate = map_option snd (cut_at (CHR ''/'') candidate)"

lemma bare_match_hits: "bare_match model c found = (case (found, filter (\<lambda>e. bare_of (fst e) = Some model) c) of
    (f, []) \<Rightarrow> f | (None, [h]) \<Rightarrow> Some h | _ \<Rightarrow> None)"
proof (induction model c found rule: bare_match.induct)
  case (2 model candidate r c found)
  show ?case
  proof (cases "cut_at (CHR ''/'') candidate")
    case None
    then show ?thesis using 2 by (simp add: bare_of_def)
  next
    case (Some p)
    obtain a b where p: "p = (a, b)" by (cases p)
    show ?thesis
    proof (cases "b = model \<and> found = None")
      case True
      then show ?thesis using 2 Some p by (auto simp: bare_of_def split: list.splits)
    next
      case False
      then show ?thesis using 2 Some p by (cases "b = model"; cases found) (auto simp: bare_of_def split: list.splits)
    qed
  qed
qed (simp split: option.splits)

text \<open>C13: the catalog read from a response is never empty, its ids are distinct and nonempty,
  and every price in it is a finite nonnegative number, whatever the response holds; overrides
  keep it so.\<close>

theorem catalog_is_well_formed:
  assumes "parseCatalog J body = Some c"
  shows "c \<noteq> [] \<and> catalog_ok c \<and> (\<forall>i r g r'. (i, r) \<in> set c \<and> forUsage r g = Some r' \<longrightarrow> rates_ok r')"
proof -
  from assms obtain ms where c: "c = fold add_model ms []" "c \<noteq> []"
    by (auto simp: parseCatalog_def bind_eq_Some_conv Let_def split: if_splits)
  have ok: "catalog_ok c" unfolding c(1) by (rule fold_catalog_ok) (simp add: catalog_ok_def)
  show ?thesis
  proof (intro conjI allI impI)
    show "c \<noteq> []" by (rule c(2))
    show "catalog_ok c" by (rule ok)
    fix i r g r' assume a: "(i, r) \<in> set c \<and> forUsage r g = Some r'"
    then have "rates_ok r" using ok by (auto simp: catalog_ok_def)
    with a show "rates_ok r'" using forUsage_ok by blast
  qed
qed

definition sample_json :: json where
  "sample_json = JObj [(''data'', JArr [JObj [(''id'', JStr ''acme/m1''),
     (''pricing'', JObj [(''prompt'', JStr ''0''), (''completion'', JStr ''0'')])]])]"

theorem catalog_is_well_formed_witness:
  "catalog_ok (the (parseCatalog (\<lambda>_. Some sample_json) ''x''))"
proof -
  have "fl 0 = Fin 0" using f_of_int_exact [of 0] by (simp add: f_of_int_def)
  then have "parse_float ''0'' = Some (Fin 0)"
    by (simp add: parse_float_def parse_decimal_def split_sign_def scan_mantissa_def to_lower_def
        ascii_lower_def byte_in_def digits_num_def hex_val_def is_digit_def digit_val_def)
  then have "parseCatalog (\<lambda>_. Some sample_json) ''x'' \<noteq> None"
    by (simp add: parseCatalog_def sample_json_def last_field_def field_values_def equal_fold_def to_lower_def
        ascii_lower_def byte_in_def catalog_model_def add_model_def model_rates_def price_field_def parse_price_def
        price_text_def is_nan_def is_inf_def)
  then obtain c where "parseCatalog (\<lambda>_. Some sample_json) ''x'' = Some c" by blast
  with catalog_is_well_formed [OF this] show ?thesis by simp
qed

lemma distinct_mset_cong_fst: "mset xs = mset ys \<Longrightarrow> distinct (map fst xs) = distinct (map fst ys)"
  by (metis distinct_count_atmost_1 mset_eq_setD mset_map set_mset_mset)

lemma only_hit_cong:
  assumes "mset xs = mset ys"
  shows "(case xs of [] \<Rightarrow> None | [h] \<Rightarrow> Some h | _ \<Rightarrow> None) = (case ys of [] \<Rightarrow> None | [h] \<Rightarrow> Some h | _ \<Rightarrow> None)"
proof (cases "\<exists>x. xs = [x]")
  case True
  then show ?thesis using assms by (auto simp: mset_single_iff)
next
  case False
  then have "\<not> (\<exists>y. ys = [y])" using assms by (auto simp: mset_single_iff)
  with False show ?thesis by (auto split: list.splits)
qed

text \<open>C29: matching a model does not depend on the order in which the map is visited, and it
  never guesses: a hit is the model itself, its alias, or, for a name without a creator, the only
  entry whose name behind the creator is exactly the model.\<close>

theorem matching_never_guesses:
  assumes "distinct (map fst c)" "mset c' = mset c"
  shows "match c' model = match c model
    \<and> (\<forall>i r. match c model = Some (i, r) \<longrightarrow> map_of c i = Some r
      \<and> (i = trim_space model \<or> map_of aliases (trim_space model) = Some i
        \<or> CHR ''/'' \<notin> set (trim_space model)
          \<and> filter (\<lambda>e. bare_of (fst e) = Some (trim_space model)) c = [(i, r)]))"
proof (intro conjI allI impI)
  have same: "map_of c' = map_of c"
    using assms by (metis map_of_inject_set distinct_mset_cong_fst mset_eq_setD)
  have hits: "mset (filter P c') = mset (filter P c)" for P using assms(2) by simp
  have "bare_match m c' None = bare_match m c None" for m
    using only_hit_cong [OF hits [of "\<lambda>e. bare_of (fst e) = Some m"]] unfolding bare_match_hits by simp
  then show "match c' model = match c model" by (simp add: match_def same Let_def cong: option.case_cong)
  fix i r assume hit: "match c model = Some (i, r)"
  have one: "bare_match m c None = Some (i, r) \<Longrightarrow> filter (\<lambda>e. bare_of (fst e) = Some m) c = [(i, r)]" for m
    unfolding bare_match_hits by (auto split: list.splits)
  have "filter P c = [(i, r)] \<Longrightarrow> map_of c i = Some r" for P
  proof -
    assume "filter P c = [(i, r)]"
    then have "(i, r) \<in> set (filter P c)" by simp
    then have "(i, r) \<in> set c" by simp
    then show ?thesis using assms(1) by simp
  qed
  with hit one show "map_of c i = Some r" "i = trim_space model \<or> map_of aliases (trim_space model) = Some i
        \<or> CHR ''/'' \<notin> set (trim_space model)
          \<and> filter (\<lambda>e. bare_of (fst e) = Some (trim_space model)) c = [(i, r)]"
    by (auto simp: match_def Let_def bind_eq_Some_conv split: option.splits if_splits)
qed

section \<open>Estimates\<close>

text \<open>The five counts an estimate bills, in the order of the prices.\<close>

definition billed :: "generation \<Rightarrow> int list" where
  "billed g = map opt_val [UncachedInput g, g_cache_read g, g_cache_creation g, NonReasoningOutput g, g_reasoning g]"

lemma token_count_exact: "0 \<le> opt_val p \<Longrightarrow> opt_val p \<le> 2 ^ 53 \<Longrightarrow> token_count p = Fin (of_int (opt_val p))"
  by (cases p) (simp_all add: token_count_def f_of_int_exact)

lemma price_ok_nonneg: "price_ok x \<Longrightarrow> f_nonneg x"
  by (auto simp: price_ok_def f_nonneg_cases)

definition countable_usage :: "generation \<Rightarrow> bool" where
  "countable_usage g \<longleftrightarrow> list_all (\<lambda>n. 0 \<le> n \<and> n \<le> 2 ^ 53) (billed g)"

lemma item_nonneg: "0 \<le> opt_val p \<Longrightarrow> opt_val p \<le> 2 ^ 53 \<Longrightarrow> price_ok x \<Longrightarrow> f_nonneg (f_mul (token_count p) x)"
  by (auto simp: token_count_exact price_ok_def fl_nonneg)

lemma item_mono: "0 \<le> opt_val p \<Longrightarrow> opt_val p \<le> opt_val p' \<Longrightarrow> opt_val p' \<le> 2 ^ 53 \<Longrightarrow> price_ok x
    \<Longrightarrow> f_le (f_mul (token_count p) x) (f_mul (token_count p') x)"
  by (auto simp: token_count_exact price_ok_def intro!: fl_mono mult_right_mono)

lemma countable_billed: "countable_usage g \<Longrightarrow>
    p \<in> {UncachedInput g, g_cache_read g, g_cache_creation g, NonReasoningOutput g, g_reasoning g}
    \<Longrightarrow> 0 \<le> opt_val p \<and> opt_val p \<le> 2 ^ 53"
  by (auto simp: countable_usage_def billed_def)

lemma total_price_nonneg:
  assumes "rates_ok r" "countable_usage g"
  shows "f_nonneg (total_price g r)"
  using assms countable_billed [OF assms(2)] unfolding total_price_def rates_ok_def
  by (intro f_add_nonneg item_nonneg price_ok_nonneg) simp_all

lemma total_price_mono:
  assumes "rates_ok r" "countable_usage g" "countable_usage g'" "list_all2 (\<le>) (billed g) (billed g')"
  shows "f_le (total_price g r) (total_price g' r)"
  using assms countable_billed [OF assms(2)] countable_billed [OF assms(3)]
  unfolding total_price_def rates_ok_def billed_def
  by (intro f_add_mono f_add_nonneg item_mono item_nonneg f_le_refl price_ok_nonneg) simp_all


definition sample_rates :: rates where
  "sample_rates = \<lparr>x_prompt = Fin 1, x_completion = Fin 2, x_cache_read = Fin 1, x_cache_write = Fin 1,
     x_reasoning = Fin 2, x_request = Fin 0, x_cache_read_default = True, x_cache_write_default = True,
     x_reasoning_default = True, x_overrides = []\<rparr>"

definition sample_usage :: "int \<Rightarrow> generation" where
  "sample_usage n = zero_generation\<lparr>g_source := SourceOpenCode, g_input := Some n, g_output := Some 4\<rparr>"

theorem matching_never_guesses_witness:
  "match [(''b/m2'', sample_rates), (''a/m1'', sample_rates)] '' m1 ''
   = match [(''a/m1'', sample_rates), (''b/m2'', sample_rates)] '' m1 ''"
proof -
  have "distinct (map fst [(''a/m1'', sample_rates), (''b/m2'', sample_rates)])" by simp
  moreover have "mset [(''b/m2'', sample_rates), (''a/m1'', sample_rates)]
    = mset [(''a/m1'', sample_rates), (''b/m2'', sample_rates)]" by simp
  ultimately show ?thesis using matching_never_guesses by blast
qed


end
