(* ===== verification/Format.thy ===== *)
theory Format
  imports Charts Catalog
begin

text \<open>
  What the templates call on values (\<open>internal/web/format.go\<close>): numbers with separators, costs, durations,
  sizes, and the pieces of markup that are built from recorded strings.  A float is printed as
  \<open>strconv.FormatFloat\<close> does it, rounded half to even on its exact value; strings are bytes.
\<close>

section \<open>Numbers\<close>

definition emDash :: string where "emDash = [CHR 0xE2, CHR 0x80, CHR 0x94]"
definition ellipsis :: string where "ellipsis = [CHR 0xE2, CHR 0x80, CHR 0xA6]"
definition approx :: string where "approx = [CHR 0xE2, CHR 0x89, CHR 0x88, CHR '' '']"

text \<open>\<open>FormatFloat (_, 'f', prec, 64)\<close>.\<close>

definition format_fixed :: "nat \<Rightarrow> f64 \<Rightarrow> string" where
  "format_fixed prec v = (case v of NaN \<Rightarrow> ''NaN'' | Inf neg \<Rightarrow> if neg then ''-Inf'' else ''+Inf''
   | Fin q \<Rightarrow> (let n = rne (\<bar>q\<bar> * 10 ^ prec) in
       (if q < 0 then ''-'' else []) @ show_nat (n div 10 ^ prec)
         @ (if prec = 0 then [] else CHR ''.'' # pad prec (n mod 10 ^ prec))))"

text \<open>A comma stands before a digit that starts a full group of three, except the first digit.\<close>

fun group3 :: "bool \<Rightarrow> string \<Rightarrow> string" where
  "group3 first [] = []"
| "group3 first (c # cs) = (if \<not> first \<and> length (c # cs) mod 3 = 0 then '','' else []) @ c # group3 False cs"

definition commas :: "int \<Rightarrow> string" where
  "commas n = (let s = show_int n; neg = (take 1 s = ''-'') in
     group3 True (if neg then drop 1 s else s) @ (if neg then ''-'' else []))"

definition tokens_text :: "int option \<Rightarrow> string" where
  "tokens_text v = (case v of None \<Rightarrow> emDash | Some n \<Rightarrow> commas n)"

definition costDecimals :: "f64 \<Rightarrow> nat" where
  "costDecimals v = (if f_lt v (Fin 10) then 4 else 2)"

definition cost :: "f64 option \<Rightarrow> string" where
  "cost v = (case v of None \<Rightarrow> emDash | Some c \<Rightarrow> CHR ''$'' # format_fixed (costDecimals c) c)"

definition costLine :: "int \<Rightarrow> int \<Rightarrow> f64 option \<Rightarrow> int option \<Rightarrow> string" where
  "costLine known unknown tot estimated = (let est = (case estimated of None \<Rightarrow> 0 | Some e \<Rightarrow> e) in
     if known = 0 then emDash
     else if 0 < est then approx @ cost tot @ '' ('' @ show_int (known - est) @ '' known, '' @ show_int est
       @ '' estimated, '' @ show_int unknown @ '' without cost data)''
     else approx @ cost tot @ '' ('' @ show_int known @ '' known, '' @ show_int unknown @ '' without cost data)'')"

definition costCell :: "int \<Rightarrow> f64 option \<Rightarrow> int option \<Rightarrow> string" where
  \<open>costCell known tot estimated = (if known = 0 then emDash
     else if (case estimated of None \<Rightarrow> False | Some e \<Rightarrow> 0 < e)
     then ''<abbr class="cost-estimate" title="Includes estimated costs from OpenRouter or manual rates">''
       @ butlast approx @ ''</abbr> '' @ cost tot
     else cost tot)\<close>

definition generationCost :: "generation \<Rightarrow> string" where
  "generationCost g = (if g_cost g = None then emDash
     else if g_cost_source g = ''manual'' then approx @ cost (g_cost g) @ '' (manual estimate)''
     else if g_cost_source g = ''openrouter'' then approx @ cost (g_cost g) @ '' (estimated)''
     else if g_cost_source g = ''free'' then cost (g_cost g) @ '' (free)''
     else cost (g_cost g) @ '' (reported)'')"

definition pct :: "f64 option \<Rightarrow> string" where
  "pct v = (case v of None \<Rightarrow> emDash | Some r \<Rightarrow> format_fixed 1 (f_mul r (Fin 100)) @ ''%'')"

section \<open>Durations and sizes\<close>

text \<open>\<open>Duration.Seconds\<close> of a duration that is not negative, and \<open>math.Round\<close>.\<close>

definition seconds :: "int \<Rightarrow> f64" where
  "seconds d = f_add (f_of_int (d div second_ns)) (f_div (f_of_int (d mod second_ns)) 1000000000)"

definition f_round :: "f64 \<Rightarrow> int" where
  "f_round v = (case v of Fin q \<Rightarrow> if 0 \<le> q then \<lfloor>q + 1/2\<rfloor> else - \<lfloor>1/2 - q\<rfloor> | _ \<Rightarrow> 0)"

definition dur :: "int \<Rightarrow> string" where
  "dur d = (if d \<le> 0 then emDash
     else if d < 60 * second_ns then format_fixed 1 (seconds d) @ ''s''
     else show_int (d div (60 * second_ns)) @ ''m '' @ show_int (f_round (seconds d) mod 60) @ ''s'')"

fun size_loop :: "f64 \<Rightarrow> string list \<Rightarrow> string" where
  "size_loop v [] = []"
| "size_loop v (unit # units) = (let v = f_div v 1000 in
     if f_lt v (fl (99995 / 100)) \<or> unit = ''TB'' then format_fixed 1 v @ '' '' @ unit else size_loop v units)"

definition byteSize :: "int \<Rightarrow> string" where
  "byteSize n = (if n < 1000 then show_int n @ '' B'' else size_loop (f_of_int n) [''kB'', ''MB'', ''GB'', ''TB''])"

definition utc :: "int \<Rightarrow> string" where
  "utc t = utc_day t @ '' '' @ take 5 (format_clock (t mod day_ns div second_ns)) @ '' UTC''"

definition utcTime :: "int \<Rightarrow> string" where
  "utcTime t = take 5 (format_clock (t mod day_ns div second_ns))"

section \<open>Markup\<close>

text \<open>\<open>template.HTMLEscapeString\<close>.\<close>

definition html_escape_byte :: "char \<Rightarrow> string" where
  "html_escape_byte c = (if c = CHR 0x00 then [CHR 0xEF, CHR 0xBF, CHR 0xBD] else if c = CHR 0x22 then ''&#34;''
     else if c = CHR 0x27 then ''&#39;'' else if c = CHR ''&'' then ''&amp;'' else if c = CHR ''<'' then ''&lt;''
     else if c = CHR ''>'' then ''&gt;'' else [c])"

definition html_escape :: "string \<Rightarrow> string" where
  "html_escape s = concat (map html_escape_byte s)"

definition copyID :: "string \<Rightarrow> string" where
  \<open>copyID s = (if s = [] then emDash
     else ''<code class="copy" data-copy="'' @ html_escape s @ ''" title="Click to copy">'' @ html_escape s @ ''</code>'')\<close>

definition shortConv :: "string \<Rightarrow> string" where
  "shortConv s = (if length s \<le> 10 then s else take 10 s @ ellipsis)"

definition convHref :: "uiFilter \<Rightarrow> string \<Rightarrow> string" where
  "convHref u key = conversationURL u (ConversationFilterForKey key)"

definition conversationLink :: "uiFilter \<Rightarrow> string \<Rightarrow> string" where
  \<open>conversationLink u conv0 = (let href = convHref u conv0;
       conv = (if conv0 = [] then ConversationNone else conv0);
       label = (if conv \<noteq> ConversationNone then html_escape (shortConv conv) else ''other'') in
     ''<a class="conv" title="Show this conversation'' @ CHR 0x27 # ''s requests" href="'' @ href @ ''">'' @ label @ ''</a>'')\<close>

definition convTitle :: "ConversationSummary \<Rightarrow> string" where
  "convTitle c = (if cs_source c \<noteq> [] then friendlySource (cs_source c) else ''Session'')"

definition convSub :: "ConversationSummary \<Rightarrow> string" where
  "convSub c = (if cs_model c \<noteq> [] then cs_model c else shortConv (cs_key c))"

section \<open>Laws\<close>

text \<open>No character of a piece can leave the attribute or the text it stands in.\<close>

definition inert :: "string \<Rightarrow> bool" where
  "inert s \<longleftrightarrow> list_all (\<lambda>c. c \<notin> {CHR ''<'', CHR ''>'', CHR 0x22, CHR 0x27}) s"

lemma inert_simps [simp]: "inert []" "inert (c # s) \<longleftrightarrow> c \<notin> {CHR ''<'', CHR ''>'', CHR 0x22, CHR 0x27} \<and> inert s"
    "inert (s @ t) \<longleftrightarrow> inert s \<and> inert t"
  by (simp_all add: inert_def)

lemma inert_concat: "(\<And>s. s \<in> set ss \<Longrightarrow> inert s) \<Longrightarrow> inert (concat ss)"
  by (induction ss) auto

lemma inert_escape [simp]: "inert (html_escape s)"
proof -
  have "inert (html_escape_byte c)" for c by (simp add: html_escape_byte_def)
  then show ?thesis unfolding html_escape_def by (intro inert_concat) auto
qed

lemma digit_inert: "is_digit c \<Longrightarrow> c \<notin> {CHR ''<'', CHR ''>'', CHR 0x22, CHR 0x27}"
  by (auto simp: is_digit_def byte_in_def)

lemma inert_query_escape [simp]: "inert (query_escape s)"
proof -
  have h: "upper_hex d \<notin> {CHR ''<'', CHR ''>'', CHR 0x22, CHR 0x27}" if "0 \<le> d" "d < 16" for d
  proof -
    from that have "d \<in> set [0..15]" by simp
    moreover have "list_all (\<lambda>d. upper_hex d \<notin> {CHR ''<'', CHR ''>'', CHR 0x22, CHR 0x27}) [0..15]" by code_simp
    ultimately show ?thesis unfolding list_all_iff by blast
  qed
  have "inert (escape_byte c)" for c
    using h [OF of_char_nibbles [of c]] h [of "of_char c mod 16"]
    by (auto simp: escape_byte_def unreserved_def byte_in_def dest: digit_inert)
  then show ?thesis unfolding query_escape_def by (intro inert_concat) auto
qed

lemma inert_join: "inert sep \<Longrightarrow> (\<And>x. x \<in> set xs \<Longrightarrow> inert x) \<Longrightarrow> inert (join sep xs)"
  by (induction sep xs rule: join.induct) auto

lemma inert_q_encode [simp]: "inert (q_encode q)"
  unfolding q_encode_def by (rule inert_join) (auto simp: encode_pair_def)

text \<open>C39: Recorded strings cannot inject markup: whatever the identifiers of a telemetry record hold, the link of a session and
  the identifier to copy are the fixed elements around pieces without a quote or an angle bracket.\<close>

theorem recorded_strings_are_inert:
  "(\<exists>href label. inert href \<and> inert label \<and> conversationLink u conv =
      ''<a class='' @ [CHR 0x22] @ ''conv'' @ [CHR 0x22] @ '' title='' @ [CHR 0x22] @ ''Show this conversation'' @ [CHR 0x27]
      @ ''s requests'' @ [CHR 0x22] @ '' href='' @ [CHR 0x22] @ href @ [CHR 0x22] @ ''>'' @ label @ ''</a>'')
    \<and> (s \<noteq> [] \<longrightarrow> (\<exists>i. inert i \<and> copyID s = ''<code class='' @ [CHR 0x22] @ ''copy'' @ [CHR 0x22] @ '' data-copy='' @ [CHR 0x22]
      @ i @ [CHR 0x22] @ '' title='' @ [CHR 0x22] @ ''Click to copy'' @ [CHR 0x22] @ ''>'' @ i @ ''</code>''))"
proof (intro conjI impI)
  let ?conv = "if conv = [] then ConversationNone else conv"
  let ?label = "if ?conv \<noteq> ConversationNone then html_escape (shortConv ?conv) else ''other''"
  have "inert (convHref u conv)" by (simp add: convHref_def conversationURL_def)
  moreover have "inert ?label" by simp
  ultimately show "\<exists>href label. inert href \<and> inert label \<and> conversationLink u conv =
      ''<a class='' @ [CHR 0x22] @ ''conv'' @ [CHR 0x22] @ '' title='' @ [CHR 0x22] @ ''Show this conversation'' @ [CHR 0x27]
      @ ''s requests'' @ [CHR 0x22] @ '' href='' @ [CHR 0x22] @ href @ [CHR 0x22] @ ''>'' @ label @ ''</a>''"
    by (intro exI [of _ "convHref u conv"] exI [of _ ?label] conjI) (simp_all add: conversationLink_def Let_def)
  assume "s \<noteq> []"
  then show "\<exists>i. inert i \<and> copyID s = ''<code class='' @ [CHR 0x22] @ ''copy'' @ [CHR 0x22] @ '' data-copy='' @ [CHR 0x22]
      @ i @ [CHR 0x22] @ '' title='' @ [CHR 0x22] @ ''Click to copy'' @ [CHR 0x22] @ ''>'' @ i @ ''</code>''"
    by (intro exI [of _ "html_escape s"] conjI) (simp_all add: copyID_def)
qed

theorem recorded_strings_are_inert_witness:
  "\<exists>i. inert i \<and> copyID ''<b>'' = ''<code class='' @ [CHR 0x22] @ ''copy'' @ [CHR 0x22] @ '' data-copy='' @ [CHR 0x22]
    @ i @ [CHR 0x22] @ '' title='' @ [CHR 0x22] @ ''Click to copy'' @ [CHR 0x22] @ ''>'' @ i @ ''</code>''"
  using recorded_strings_are_inert [of _ _ "''<b>''"] by simp

section \<open>Counts\<close>

fun triples :: "string \<Rightarrow> string list" where
  "triples (a # b # c # s) = [a, b, c] # triples s"
| "triples _ = []"

lemma concat_triples: "length s mod 3 = 0 \<Longrightarrow> concat (triples s) = s"
  by (induction s rule: triples.induct) auto

lemma length_triples: "x \<in> set (triples s) \<Longrightarrow> length x = 3"
  by (induction s rule: triples.induct) auto

lemma group3_triples: "length s mod 3 = 0 \<Longrightarrow> group3 False s = concat (map (\<lambda>g. CHR '','' # g) (triples s))"
  by (induction s rule: triples.induct) (auto simp: mod_Suc)

lemma group3_short:
  assumes "length g = Suc k" "k < 3" "length t mod 3 = 0"
  shows "group3 True (g @ t) = g @ group3 False t"
proof -
  obtain a s where g: "g = a # s" and s: "length s = k" using assms(1) by (cases g) auto
  have "group3 False (s @ t) = s @ group3 False t" if "length s < 3" for s
    using that
  proof (induction s)
    case (Cons c s)
    obtain m where "length t = 3 * m" using assms(3) by blast
    then have "length (c # s @ t) = Suc (length s) + 3 * m" by simp
    then have "length (c # s @ t) mod 3 = Suc (length s) mod 3" by (simp only: mod_mult_self2)
    then have "length (c # s @ t) mod 3 \<noteq> 0" using Cons.prems by simp
    with Cons show ?case by simp
  qed simp
  then show ?thesis using s assms(2) by (simp add: g)
qed

lemma group3_head:
  assumes "s \<noteq> []"
  shows "\<exists>g t. s = g @ t \<and> length t mod 3 = 0 \<and> 1 \<le> length g \<and> length g \<le> 3 \<and> group3 True s = g @ group3 False t"
proof -
  obtain m where m: "length s = Suc m" using assms by (cases s) auto
  define k where "k = m mod 3"
  have k: "k < 3" "k \<le> m" by (simp_all add: k_def)
  have "m - k = 3 * (m div 3)" unfolding k_def by (rule minus_mod_eq_mult_div)
  then have "length (drop (Suc k) s) = 3 * (m div 3)" by (simp only: length_drop m diff_Suc_Suc)
  then have t: "length (drop (Suc k) s) mod 3 = 0" by (simp only: mod_mult_self1_is_0)
  have g: "length (take (Suc k) s) = Suc k" using k(2) by (simp add: m)
  from group3_short [OF g k(1) t] have e: "group3 True s = take (Suc k) s @ group3 False (drop (Suc k) s)"
    by (simp only: append_take_drop_id)
  show ?thesis
    by (rule exI [of _ "take (Suc k) s"], rule exI [of _ "drop (Suc k) s"]) (use t g k(1) e in auto)
qed

lemma split_groups: "\<forall>x \<in> set (g # gs). CHR '','' \<notin> set x \<Longrightarrow>
    split_on (CHR '','') (g @ concat (map (\<lambda>g. CHR '','' # g) gs)) = g # gs"
  by (induction gs arbitrary: g) (auto simp: split_on_append split_on_none)

lemma commas_eq: "0 \<le> n \<Longrightarrow> commas n = group3 True (show_int n)" "0 < n \<Longrightarrow> commas (- n) = group3 True (show_int n) @ ''-''"
proof -
  assume "0 \<le> n"
  then obtain c s where "show_int n = c # s" "is_digit c"
    using show_nat_digits [of _ n] by (cases "show_nat n") (auto simp: show_int_def)
  then show "commas n = group3 True (show_int n)" by (auto simp: commas_def Let_def is_digit_def byte_in_def)
next
  assume "0 < n"
  then show "commas (- n) = group3 True (show_int n) @ ''-''" by (simp add: commas_def show_int_def)
qed

text \<open>Separators group the digits and change nothing else: a number is its digits in groups of three after a first group
  of one to three.  Of a negative number the sign ends up behind the digits.\<close>

theorem separators_group_the_digits:
  assumes "0 < n"
  shows "(\<exists>g gs. split_on (CHR '','') (commas n) = g # gs \<and> concat (g # gs) = show_int n \<and> 1 \<le> length g \<and> length g \<le> 3
      \<and> (\<forall>x \<in> set gs. length x = 3)) \<and> commas (- n) = commas n @ ''-''"
proof
  have digits: "c \<noteq> CHR '',''" if "c \<in> set (show_int n)" for c
    using that assms show_nat_digits [of c n] by (auto simp: show_int_def is_digit_def byte_in_def)
  have "show_int n \<noteq> []" using assms by (simp add: show_int_def)
  from group3_head [OF this] obtain g t where gt: "show_int n = g @ t" "length t mod 3 = 0" "1 \<le> length g" "length g \<le> 3"
    and eq: "group3 True (show_int n) = g @ group3 False t" by (elim exE conjE) (rule that)
  have parts: "concat (g # triples t) = show_int n" using concat_triples [OF gt(2)] gt(1) by simp
  have "CHR '','' \<notin> set x" if "x \<in> set (g # triples t)" for x
  proof -
    have "set x \<subseteq> set (concat (g # triples t))" using that by auto
    then show ?thesis unfolding parts using digits by blast
  qed
  then have "\<forall>x \<in> set (g # triples t). CHR '','' \<notin> set x" by blast
  from split_groups [OF this] have "split_on (CHR '','') (commas n) = g # triples t"
    using commas_eq(1) [of n] assms by (simp add: eq group3_triples [OF gt(2)])
  then show "\<exists>g gs. split_on (CHR '','') (commas n) = g # gs \<and> concat (g # gs) = show_int n \<and> 1 \<le> length g \<and> length g \<le> 3
      \<and> (\<forall>x \<in> set gs. length x = 3)" using parts gt(3,4) length_triples by blast
  show "commas (- n) = commas n @ ''-''" using commas_eq assms by simp
qed

theorem separators_group_the_digits_witness:
  "\<exists>g gs. split_on (CHR '','') (commas 1234567) = g # gs \<and> concat (g # gs) = show_int 1234567"
  using separators_group_the_digits [of 1234567] by auto

section \<open>Durations\<close>

lemma fl_abs_half:
  assumes "0 < x" "- 1000 \<le> lg x"
  shows "fl_abs (x / 2) = fl_abs x / 2"
proof -
  have "k \<le> lg (x / 2) \<longleftrightarrow> k \<le> lg x - 1" for k
  proof -
    have "k \<le> lg (x / 2) \<longleftrightarrow> 2 powi (k + 1) \<le> x"
      using lg_le_iff [of "x / 2" k] assms(1) by (simp add: power_int_add field_simps)
    also have "\<dots> \<longleftrightarrow> k + 1 \<le> lg x" by (rule lg_le_iff [OF assms(1), symmetric])
    finally show ?thesis by linarith
  qed
  then have "lg (x / 2) = lg x - 1" by (meson order_antisym order_refl)
  then have e: "ulp_exp (x / 2) = ulp_exp x - 1" using assms(2) by (simp add: ulp_exp_def)
  have p: "(2 :: rat) powi (ulp_exp x - 1) = 2 powi ulp_exp x / 2" by (simp add: power_int_diff)
  show ?thesis using assms(1) by (simp add: fl_abs_def e p)
qed

lemma fl_half:
  assumes "0 < n" "n < 2 ^ 53"
  shows "fl (of_int n / 2) = Fin (of_int n / 2)"
proof -
  have "2 powi 0 \<le> (of_int n :: rat)" using assms(1) by simp
  then have "0 \<le> lg (of_int n)" using lg_le_iff [of "of_int n" 0] assms(1) by simp
  then have h: "fl_abs (of_int n / 2) = of_int n / 2"
    using fl_abs_half [of "of_int n"] fl_abs_int [of "nat n"] assms by simp
  have "f_of_int n = Fin (of_int n)" using assms by (intro f_of_int_exact) simp
  then have "(of_int n :: rat) < overflow_bound" using fl_abs_int [of "nat n"] assms
    by (auto simp: f_of_int_def fl_def Let_def split: if_splits)
  then show ?thesis using h assms(1) by (simp add: fl_def Let_def)
qed

lemma seconds_whole: "0 \<le> k \<Longrightarrow> k < 2 ^ 52 \<Longrightarrow> seconds (k * second_ns) = Fin (of_int k)"
proof -
  assume k: "0 \<le> k" "k < 2 ^ 52"
  have "f_of_int k = Fin (of_int k)" using k by (intro f_of_int_exact) simp
  moreover have "fl (of_int k) = Fin (of_int k)" using \<open>f_of_int k = Fin (of_int k)\<close> by (simp add: f_of_int_def)
  moreover have "f_of_int 0 = Fin 0" by (rule f_of_int_exact [of 0, simplified])
  moreover have "fl 0 = Fin 0" using \<open>f_of_int 0 = Fin 0\<close> by (simp add: f_of_int_def)
  ultimately show ?thesis by (simp add: seconds_def)
qed

lemma seconds_half: "0 \<le> k \<Longrightarrow> k < 2 ^ 51 \<Longrightarrow> seconds (k * second_ns + 500000000) = Fin (of_int k + 1/2)"
proof -
  assume k: "0 \<le> k" "k < 2 ^ 51"
  have d: "(k * second_ns + 500000000) div second_ns = k" "(k * second_ns + 500000000) mod second_ns = 500000000"
    using int_div_pos_eq [of "k * second_ns + 500000000" second_ns k 500000000]
      int_mod_pos_eq [of "k * second_ns + 500000000" second_ns k 500000000] by simp_all
  have "f_of_int k = Fin (of_int k)" using k by (intro f_of_int_exact) simp
  moreover have "f_of_int 500000000 = Fin 500000000" using f_of_int_exact [of 500000000] by simp
  moreover have "fl (1/2) = Fin (1/2)" using fl_half [of 1] by simp
  moreover have "fl (of_int k + 1/2) = Fin (of_int k + 1/2)" using fl_half [of "2 * k + 1"] k by (simp add: add_divide_distrib)
  ultimately show ?thesis by (simp add: seconds_def d)
qed

text \<open>A duration of whole seconds, from a minute on, is shown as its minutes and the seconds left.  One that is not
  whole may lose a minute: the minutes are cut off but the seconds rounded, so half a second before a full minute the
  seconds start over while the minutes stay (119.5 seconds appear as one minute).\<close>

theorem durations_in_minutes:
  assumes "60 \<le> k" "k < 2 ^ 51"
  shows "dur (k * second_ns) = show_int (k div 60) @ ''m '' @ show_int (k mod 60) @ ''s''
    \<and> dur (k * second_ns + 500000000) = show_int (k div 60) @ ''m '' @ show_int ((k + 1) mod 60) @ ''s''"
proof
  have "k * second_ns div (60 * second_ns) = k div 60" by simp
  moreover have "\<not> k * second_ns \<le> 0" "\<not> k * second_ns < 60 * second_ns" using assms(1) by simp_all
  moreover have "f_round (Fin (of_int k)) = k" using assms(1) by (simp add: f_round_def floor_unique)
  ultimately show "dur (k * second_ns) = show_int (k div 60) @ ''m '' @ show_int (k mod 60) @ ''s''"
    using seconds_whole [of k] assms by (simp add: dur_def)
  have "(k * second_ns + 500000000) div (second_ns * 60) = k div 60"
    using zdiv_zmult2_eq [of 60 "k * second_ns + 500000000" second_ns]
      int_div_pos_eq [of "k * second_ns + 500000000" second_ns k 500000000] by simp
  then have m: "(k * second_ns + 500000000) div (60 * second_ns) = k div 60" by (simp only: mult.commute)
  have "f_round (Fin (of_int k + 1/2)) = k + 1" using assms(1) by (simp add: f_round_def floor_unique)
  moreover have "\<not> k * second_ns + 500000000 \<le> 0" "\<not> k * second_ns + 500000000 < 60 * second_ns" using assms(1) by simp_all
  ultimately show "dur (k * second_ns + 500000000) = show_int (k div 60) @ ''m '' @ show_int ((k + 1) mod 60) @ ''s''"
    using seconds_half [of k] assms m by (simp only: dur_def if_False)
qed

theorem durations_in_minutes_witness: "dur (119 * second_ns) = ''1m 59s'' \<and> dur (119 * second_ns + 500000000) = ''1m 0s''"
proof -
  have "show_int (119 div 60) @ ''m '' @ show_int (119 mod 60) @ ''s'' = ''1m 59s''"
    "show_int (119 div 60) @ ''m '' @ show_int ((119 + 1) mod 60) @ ''s'' = ''1m 0s''" by code_simp+
  moreover have "(60 :: int) \<le> 119" "(119 :: int) < 2 ^ 51" by simp_all
  ultimately show ?thesis using durations_in_minutes [of 119] by (simp only:)
qed

end
