(* ===== verification/Sessions.thy ===== *)
theory Sessions
  imports Tokens
begin

text \<open>
  The dashboard's guards: signed session cookies (\<open>auth/session.go\<close>), the login guard
  (\<open>auth/dashboard.go\<close>), the loopback guard against DNS rebinding (\<open>auth/host.go\<close>) and the public
  files both let through (\<open>assets.go\<close>).

  HMAC-SHA-256 is a parameter \<open>mac\<close> (key, message), SHA-256 a parameter \<open>H\<close>; of \<open>mac\<close> the theorems use
  that a tag has 32 bytes.  The cookie of a request is what \<open>r.Cookie\<close> returns.  Times are
  nanoseconds since 1970.
\<close>

section \<open>Unpadded URL-safe base64\<close>

text \<open>Go's \<open>base64.RawURLEncoding\<close>.  The decoder skips line breaks and ignores trailing bits.\<close>

definition b64_alphabet :: string where
  "b64_alphabet = ''ABCDEFGHIJKLMNOPQRSTUVWXYZabcdefghijklmnopqrstuvwxyz0123456789-_''"

definition b64_char :: "int \<Rightarrow> char" where
  "b64_char i = b64_alphabet ! nat i"

definition b64_val :: "char \<Rightarrow> int option" where
  "b64_val c = map_of (zip b64_alphabet (map int [0..<64])) c"

definition byte :: "int \<Rightarrow> char" where
  "byte n = char_of n"

abbreviation (input) ord :: "char \<Rightarrow> int" where
  "ord c \<equiv> of_char c"

fun b64_encode :: "string \<Rightarrow> string" where
  "b64_encode [] = []"
| "b64_encode [a] = map b64_char [ord a div 4, ord a mod 4 * 16]"
| "b64_encode [a, b] = map b64_char [ord a div 4, ord a mod 4 * 16 + ord b div 16, ord b mod 16 * 4]"
| "b64_encode (a # b # c # s) = map b64_char [ord a div 4, ord a mod 4 * 16 + ord b div 16,
     ord b mod 16 * 4 + ord c div 64, ord c mod 64] @ b64_encode s"

fun b64_bytes :: "int list \<Rightarrow> string option" where
  "b64_bytes [] = Some []"
| "b64_bytes [p] = None"
| "b64_bytes [p, q] = Some [byte (p * 4 + q div 16)]"
| "b64_bytes [p, q, r] = Some [byte (p * 4 + q div 16), byte (q mod 16 * 16 + r div 4)]"
| "b64_bytes (p # q # r # s # v) = map_option (\<lambda>t. byte (p * 4 + q div 16) # byte (q mod 16 * 16 + r div 4)
     # byte (r mod 4 * 64 + s) # t) (b64_bytes v)"

definition b64_decode :: "string \<Rightarrow> string option" where
  "b64_decode s = (case those (map b64_val (filter (\<lambda>c. c \<noteq> CHR 0x0D \<and> c \<noteq> CHR 0x0A) s)) of
     None \<Rightarrow> None | Some v \<Rightarrow> b64_bytes v)"

section \<open>Session cookies\<close>

text \<open>\<open>binary.BigEndian.PutUint32(buf, uint32(n))\<close> and \<open>binary.BigEndian.Uint32\<close>.\<close>

definition put_uint32 :: "int \<Rightarrow> string" where
  "put_uint32 n = map byte [n div 2 ^ 24 mod 256, n div 2 ^ 16 mod 256, n div 2 ^ 8 mod 256, n mod 256]"

definition get_uint32 :: "string \<Rightarrow> int" where
  "get_uint32 b = ord (b ! 0) * 2 ^ 24 + ord (b ! 1) * 2 ^ 16 + ord (b ! 2) * 2 ^ 8 + ord (b ! 3)"

definition DefaultSessionTTL :: int where
  "DefaultSessionTTL = 7 * day_ns"

definition maxRefreshInterval :: int where
  "maxRefreshInterval = 3600 * second_ns"

definition sessionKeyLabel :: string where
  "sessionKeyLabel = ''ai-usage dashboard session v1''"

record sessions =
  ss_secret :: string
  ss_ttl :: int

text \<open>The message the signing key is derived from: label, then length-prefixed credentials.\<close>

definition key_message :: "string \<Rightarrow> string \<Rightarrow> string" where
  "key_message user password = sessionKeyLabel
     @ concat (map (\<lambda>part. put_uint32 (int (length part)) @ part) [user, password])"

definition NewConfiguredSessions :: "(string \<Rightarrow> string \<Rightarrow> string) \<Rightarrow> string option \<Rightarrow> string \<Rightarrow> int
    \<Rightarrow> string \<Rightarrow> string \<Rightarrow> sessions option" where
  "NewConfiguredSessions mac random secret ttl0 user password = (let
       ttl = (if ttl0 \<le> 0 then DefaultSessionTTL else ttl0) in
     if secret = [] then
       (case random of None \<Rightarrow> None | Some key \<Rightarrow> Some \<lparr>ss_secret = key, ss_ttl = ttl\<rparr>)
     else Some \<lparr>ss_secret = mac secret (key_message user password), ss_ttl = ttl\<rparr>)"

definition NewSessions :: "(string \<Rightarrow> string \<Rightarrow> string) \<Rightarrow> string option \<Rightarrow> sessions option" where
  "NewSessions mac random = NewConfiguredSessions mac random [] DefaultSessionTTL [] []"

text \<open>The cookie a response sets: its value and when it expires, or the removal of the cookie.\<close>

datatype set_cookie = SetSession string int | ClearSession

definition issue :: "(string \<Rightarrow> string \<Rightarrow> string) \<Rightarrow> sessions \<Rightarrow> int \<Rightarrow> set_cookie" where
  "issue mac s now = (let
       payload = (now + ss_ttl s) div second_ns;
       buf = put_uint32 payload in
     SetSession (b64_encode buf @ ''.'' @ b64_encode (mac (ss_secret s) buf)) payload)"

definition cookie_expiry :: "(string \<Rightarrow> string \<Rightarrow> string) \<Rightarrow> sessions \<Rightarrow> int \<Rightarrow> string option \<Rightarrow> int option" where
  "cookie_expiry mac s now cookie = (case cookie of
     None \<Rightarrow> None
   | Some v \<Rightarrow>
       if v = [] then None
       else case cut_at (CHR ''.'') v of
         None \<Rightarrow> None
       | Some (l, r) \<Rightarrow>
           (case b64_decode l of None \<Rightarrow> None
            | Some payload \<Rightarrow>
                if length payload \<noteq> 4 then None
                else case b64_decode r of None \<Rightarrow> None
                | Some got \<Rightarrow>
                    if length got \<noteq> 32 then None
                    else if got \<noteq> mac (ss_secret s) payload then None
                    else let expiry = get_uint32 payload * second_ns in
                      if expiry \<le> now then None else Some expiry))"

definition Valid :: "(string \<Rightarrow> string \<Rightarrow> string) \<Rightarrow> sessions \<Rightarrow> int \<Rightarrow> string option \<Rightarrow> bool" where
  "Valid mac s now cookie \<longleftrightarrow> cookie_expiry mac s now cookie \<noteq> None"

text \<open>\<open>Refresh\<close> reads the clock twice: once for the check, once for the age.\<close>

definition Refresh :: "(string \<Rightarrow> string \<Rightarrow> string) \<Rightarrow> sessions \<Rightarrow> int \<Rightarrow> int \<Rightarrow> string option \<Rightarrow> bool \<times> set_cookie option" where
  "Refresh mac s now now2 cookie = (case cookie_expiry mac s now cookie of
     None \<Rightarrow> (False, None)
   | Some expiry \<Rightarrow> (let left = time_sub expiry now2 in
       (True, if left \<le> ss_ttl s - min (ss_ttl s div 10) maxRefreshInterval \<or> ss_ttl s < left
              then Some (issue mac s now2) else None)))"

section \<open>Public files\<close>

record request =
  rq_method :: string
  rq_path :: string
  rq_host :: string
  rq_cookie :: "string option"

definition reservedSegments :: "string list" where
  "reservedSegments = [''api'', ''static'', ''login'', ''logout'', ''health'', ''ready'', ''trends'',
     ''breakdowns'', ''sessions'', ''events'', ''fragments'', ''settings'']"

text \<open>\<open>fs.ValidPath\<close>; the embedded files are a parameter.\<close>

definition valid_path :: "string \<Rightarrow> bool" where
  "valid_path name \<longleftrightarrow> valid_utf8 name
     \<and> (name = ''.'' \<or> (\<forall>e \<in> set (split_on (CHR ''/'') name). e \<notin> {[], ''.'', ''..''}))"

definition ServePublic :: "(string \<Rightarrow> bool) \<Rightarrow> request \<Rightarrow> bool" where
  "ServePublic files r =
     (if rq_method r \<noteq> ''GET'' \<and> rq_method r \<noteq> ''HEAD'' then False
      else case cut_prefix (rq_path r) ''/'' of
        None \<Rightarrow> False
      | Some name \<Rightarrow>
          if \<not> valid_path name \<or> CHR 0x5C \<in> set name \<or> CHR 0x00 \<in> set name then False
          else if hd (split_on (CHR ''/'') name) \<in> set reservedSegments then False
          else if \<exists>part \<in> set (split_on (CHR ''/'') name). prefix ''.'' part then False
          else files (''web/public/'' @ name))"

section \<open>The login guard\<close>

record dashboard =
  db_user :: string
  db_password :: string
  db_sessions :: sessions

definition Check :: "(string \<Rightarrow> string) \<Rightarrow> dashboard \<Rightarrow> string \<Rightarrow> string \<Rightarrow> bool" where
  "Check H d user password \<longleftrightarrow> equalConst H user (db_user d) \<and> equalConst H password (db_password d)"

definition publicPath :: "string \<Rightarrow> bool" where
  "publicPath p \<longleftrightarrow> p \<in> {''/login'', ''/logout'', ''/health'', ''/ready''} \<or> prefix ''/static/'' p"

text \<open>What a guard does with a request: answer with a public file, pass it on (with a cookie to set),
  or refuse it.\<close>

datatype guarded = PublicFile | Next "set_cookie option" | UnauthorizedJSON | RedirectLogin | Forbidden

definition Middleware :: "(string \<Rightarrow> string \<Rightarrow> string) \<Rightarrow> (string \<Rightarrow> bool) \<Rightarrow> dashboard \<Rightarrow> int \<Rightarrow> int
    \<Rightarrow> bool \<Rightarrow> request \<Rightarrow> guarded" where
  "Middleware mac files d now now2 checked r =
     (if ServePublic files r then PublicFile
      else if publicPath (rq_path r) then Next None
      else if checked then Next None
      else case Refresh mac (db_sessions d) now now2 (rq_cookie r) of
        (True, c) \<Rightarrow> Next c
      | (False, _) \<Rightarrow> if prefix ''/api/'' (rq_path r) then UnauthorizedJSON else RedirectLogin)"

text \<open>The dashboard port nests the guard: the inner one sees the outer one's mark.\<close>

definition nested_guard :: "(string \<Rightarrow> string \<Rightarrow> string) \<Rightarrow> (string \<Rightarrow> bool) \<Rightarrow> dashboard \<Rightarrow> int \<Rightarrow> int
    \<Rightarrow> request \<Rightarrow> guarded" where
  "nested_guard mac files d now now2 r = (case Middleware mac files d now now2 False r of
     Next c \<Rightarrow> (case Middleware mac files d now now2 (\<not> publicPath (rq_path r)) r of
        Next _ \<Rightarrow> Next c | g \<Rightarrow> g)
   | g \<Rightarrow> g)"

section \<open>The loopback guard\<close>

definition LoopbackHost :: "(string \<Rightarrow> bool) \<Rightarrow> request \<Rightarrow> guarded" where
  "LoopbackHost files r =
     (if ServePublic files r then PublicFile
      else if (rq_method r = ''GET'' \<or> rq_method r = ''HEAD'')
        \<and> (rq_path r = ''/health'' \<or> rq_path r = ''/ready'' \<or> prefix ''/static/'' (rq_path r)) then Next None
      else let host = (case split_host_port (rq_host r) of
             Some (name, _) \<Rightarrow> name
           | None \<Rightarrow> if prefix ''['' (rq_host r) \<and> suffix '']'' (rq_host r)
               then drop 1 (take (length (rq_host r) - 1) (rq_host r)) else rq_host r) in
        if \<not> equal_fold (trim_suffix host ''.'') ''localhost'' \<and> \<not> loopback_ip host then Forbidden
        else Next None)"

text \<open>A client that sends requests with the cookie it was last given; a request has the two clock
  readings of \<open>Refresh\<close>.\<close>

fun browse :: "(string \<Rightarrow> string \<Rightarrow> string) \<Rightarrow> sessions \<Rightarrow> (int \<times> int) list \<Rightarrow> string option \<Rightarrow> bool list" where
  "browse mac s [] cookie = []"
| "browse mac s ((t, t2) # ts) cookie = (case Refresh mac s t t2 cookie of (ok, c) \<Rightarrow>
     ok # browse mac s ts (case c of Some (SetSession v _) \<Rightarrow> Some v | _ \<Rightarrow> cookie))"

fun steady :: "int \<Rightarrow> int \<Rightarrow> (int \<times> int) list \<Rightarrow> bool" where
  "steady idle previous [] \<longleftrightarrow> True"
| "steady idle previous ((t, t2) # ts) \<longleftrightarrow>
     previous \<le> t \<and> t \<le> previous + idle \<and> t \<le> t2 \<and> steady idle t2 ts"

definition max_idle :: "sessions \<Rightarrow> int" where
  "max_idle s = ss_ttl s - min (ss_ttl s div 10) maxRefreshInterval - second_ns"

section \<open>Base64 and byte order\<close>

lemma b64_val_char: "0 \<le> i \<Longrightarrow> i < 64 \<Longrightarrow> b64_val (b64_char i) = Some i"
proof -
  have "list_all (\<lambda>i. b64_val (b64_char i) = Some i) (map int [0..<64])" by code_simp
  then have "\<forall>i \<in> int ` {0..<64}. b64_val (b64_char i) = Some i" by (simp add: list_all_iff)
  then show "0 \<le> i \<Longrightarrow> i < 64 \<Longrightarrow> b64_val (b64_char i) = Some i"
    by (metis atLeastLessThan_iff image_eqI nat_0_le nat_less_iff of_nat_numeral zero_le_numeral le0)
qed

lemma b64_char_plain: "0 \<le> i \<Longrightarrow> i < 64 \<Longrightarrow> b64_char i \<noteq> CHR ''.'' \<and> b64_char i \<noteq> CHR 0x0D \<and> b64_char i \<noteq> CHR 0x0A"
proof -
  have "list_all (\<lambda>c. c \<noteq> CHR ''.'' \<and> c \<noteq> CHR 0x0D \<and> c \<noteq> CHR 0x0A) b64_alphabet" by code_simp
  moreover have "length b64_alphabet = 64" by code_simp
  ultimately show "0 \<le> i \<Longrightarrow> i < 64 \<Longrightarrow> b64_char i \<noteq> CHR ''.'' \<and> b64_char i \<noteq> CHR 0x0D \<and> b64_char i \<noteq> CHR 0x0A"
    unfolding b64_char_def list_all_iff by (metis nat_less_iff nth_mem of_nat_numeral)
qed

fun b64_digits :: "string \<Rightarrow> int list" where
  "b64_digits [] = []"
| "b64_digits [a] = [ord a div 4, ord a mod 4 * 16]"
| "b64_digits [a, b] = [ord a div 4, ord a mod 4 * 16 + ord b div 16, ord b mod 16 * 4]"
| "b64_digits (a # b # c # s) = [ord a div 4, ord a mod 4 * 16 + ord b div 16,
     ord b mod 16 * 4 + ord c div 64, ord c mod 64] @ b64_digits s"

lemma ord_range: "0 \<le> ord c" "ord c < 256"
  by (simp_all add: of_char_def) 

lemma b64_encode_digits: "b64_encode s = map b64_char (b64_digits s)"
  by (induction s rule: b64_encode.induct) simp_all

lemma b64_digits_range: "d \<in> set (b64_digits s) \<Longrightarrow> 0 \<le> d \<and> d < 64"
proof (induction s rule: b64_digits.induct)
  case (2 a)
  then show ?case using ord_range [of a] by auto
next
  case (3 a b)
  then show ?case using ord_range [of a] ord_range [of b] by auto
next
  case (4 a b c s)
  then show ?case using ord_range [of a] ord_range [of b] ord_range [of c] by auto
qed simp

lemma byte_ord [simp]: "byte (ord c) = c"
  by (simp add: byte_def)

lemma digit_split:
  assumes "0 \<le> y" "y < (k :: int)"
  shows "(x * k + y) div k = x" "(x * k + y) mod k = y"
  using assms by simp_all

lemma b64_regroup:
  assumes "0 \<le> a" "a < 256" "0 \<le> b" "b < 256" "0 \<le> c" "c < (256 :: int)"
  shows "a div 4 * 4 + (a mod 4 * 16 + b div 16) div 16 = a"
    and "a div 4 * 4 + a mod 4 * 16 div 16 = a"
    and "(a mod 4 * 16 + b div 16) mod 16 * 16 + (b mod 16 * 4 + c div 64) div 4 = b"
    and "(a mod 4 * 16 + b div 16) mod 16 * 16 + b mod 16 * 4 div 4 = b"
    and "(b mod 16 * 4 + c div 64) mod 4 * 64 + c mod 64 = c"
proof -
  have r: "0 \<le> b div 16" "b div 16 < 16" "0 \<le> c div 64" "c div 64 < 4" using assms by simp_all
  note s = digit_split [OF r(1,2), of "a mod 4"] digit_split [OF r(3,4), of "b mod 16"]
  show "a div 4 * 4 + (a mod 4 * 16 + b div 16) div 16 = a"
    and "a div 4 * 4 + a mod 4 * 16 div 16 = a"
    and "(a mod 4 * 16 + b div 16) mod 16 * 16 + (b mod 16 * 4 + c div 64) div 4 = b"
    and "(a mod 4 * 16 + b div 16) mod 16 * 16 + b mod 16 * 4 div 4 = b"
    and "(b mod 16 * 4 + c div 64) mod 4 * 64 + c mod 64 = c"
    unfolding s by simp_all
qed

lemma b64_bytes_digits: "b64_bytes (b64_digits s) = Some s"
proof (induction s rule: b64_digits.induct)
  case (2 a)
  then show ?case using b64_regroup [of "ord a" 0 0] ord_range [of a] by simp
next
  case (3 a b)
  then show ?case using b64_regroup [of "ord a" "ord b" 0] ord_range [of a] ord_range [of b] by simp
next
  case (4 a b c s)
  then show ?case
    using b64_regroup [of "ord a" "ord b" "ord c"] ord_range [of a] ord_range [of b] ord_range [of c] by simp
qed simp

lemma those_map_Some [simp]: "those (map Some xs) = Some xs"
  by (induction xs) simp_all

lemma b64_roundtrip [simp]: "b64_decode (b64_encode s) = Some s"
proof -
  let ?v = "b64_digits s"
  have r: "0 \<le> d \<and> d < 64" if "d \<in> set ?v" for d using b64_digits_range that .
  have "filter (\<lambda>c. c \<noteq> CHR 0x0D \<and> c \<noteq> CHR 0x0A) (b64_encode s) = b64_encode s"
    using r b64_char_plain by (auto simp: b64_encode_digits intro: filter_True)
  moreover have "map b64_val (b64_encode s) = map Some ?v"
    using r b64_val_char by (simp add: b64_encode_digits)
  ultimately show ?thesis by (simp add: b64_decode_def b64_bytes_digits flip: map_map)
qed

lemma b64_no_dot: "CHR ''.'' \<notin> set (b64_encode s)"
  using b64_digits_range b64_char_plain by (fastforce simp: b64_encode_digits)

lemma put_uint32_length [simp]: "length (put_uint32 n) = 4"
  by (simp add: put_uint32_def)

lemma ord_byte: "0 \<le> n \<Longrightarrow> n < 256 \<Longrightarrow> ord (byte n) = n"
  by (simp add: byte_def)

lemma get_put_uint32:
  assumes "0 \<le> n" "n < 2 ^ 32"
  shows "get_uint32 (put_uint32 n) = n"
proof -
  define m where "m = n div 256"
  define k where "k = m div 256"
  have "n div 256 = m" "n div 65536 = k" "n div 16777216 = k div 256"
    using zdiv_zmult2_eq [of 256 n 256] zdiv_zmult2_eq [of 256 n 65536] zdiv_zmult2_eq [of 256 "n div 256" 256]
    by (simp_all add: m_def k_def)
  moreover have "k div 256 mod 256 = k div 256" using assms by (simp add: m_def k_def)
  moreover have "get_uint32 (put_uint32 n) = n div 16777216 mod 256 * 16777216 + n div 65536 mod 256 * 65536
      + n div 256 mod 256 * 256 + n mod 256"
    by (simp add: get_uint32_def put_uint32_def ord_byte)
  ultimately have "get_uint32 (put_uint32 n) = k div 256 * 16777216 + k mod 256 * 65536 + m mod 256 * 256 + n mod 256"
    by (simp only:)
  moreover have "m * 256 + n mod 256 = n" "k * 256 + m mod 256 = m" "k div 256 * 256 + k mod 256 = k"
    by (simp_all add: m_def k_def)
  ultimately show ?thesis by linarith
qed

section \<open>Sessions\<close>

lemma issued_expiry:
  assumes "\<And>k m. length (mac k m) = 32" "issue mac s now = SetSession v e"
    and "0 \<le> now + ss_ttl s" "now + ss_ttl s < 2 ^ 32 * second_ns"
  shows "cookie_expiry mac s t (Some v) = (if e * second_ns \<le> t then None else Some (e * second_ns))"
    and "e = (now + ss_ttl s) div second_ns" "0 \<le> e" "e < 2 ^ 32"
proof -
  show e: "e = (now + ss_ttl s) div second_ns" using assms(2) by (simp add: issue_def Let_def)
  show pos: "0 \<le> e" using assms(3) e by (simp add: pos_imp_zdiv_nonneg_iff)
  show small: "e < 2 ^ 32" unfolding e using assms(4) by linarith
  have v: "v = b64_encode (put_uint32 e) @ ''.'' @ b64_encode (mac (ss_secret s) (put_uint32 e))"
    using assms(2) e by (simp add: issue_def Let_def)
  then have "cut_at (CHR ''.'') v = Some (b64_encode (put_uint32 e), b64_encode (mac (ss_secret s) (put_uint32 e)))"
    by (simp add: b64_no_dot)
  moreover have "v \<noteq> []" using v by simp
  ultimately show "cookie_expiry mac s t (Some v) = (if e * second_ns \<le> t then None else Some (e * second_ns))"
    using assms(1) get_put_uint32 [OF pos small] by (simp add: cookie_expiry_def Let_def)
qed

definition fresh :: "(string \<Rightarrow> string \<Rightarrow> string) \<Rightarrow> sessions \<Rightarrow> int \<Rightarrow> string option \<Rightarrow> bool" where
  "fresh mac s t c \<longleftrightarrow> (\<exists>e. 0 \<le> e \<and> e < 2 ^ 32 \<and> t + max_idle s < e * second_ns
     \<and> (\<forall>t'. cookie_expiry mac s t' c = (if e * second_ns \<le> t' then None else Some (e * second_ns))))"

lemma issue_fresh:
  assumes "\<And>k m. length (mac k m) = 32" "issue mac s now = SetSession v e"
    and "0 \<le> now + ss_ttl s" "now + ss_ttl s < 2 ^ 32 * second_ns" "0 \<le> ss_ttl s"
  shows "fresh mac s now (Some v)"
proof -
  have "now + ss_ttl s - second_ns < e * second_ns"
    using issued_expiry(2) [OF assms(1-4)] by linarith
  moreover have "0 \<le> min (ss_ttl s div 10) maxRefreshInterval" using assms(5) by (simp add: maxRefreshInterval_def)
  ultimately have "now + max_idle s < e * second_ns" unfolding max_idle_def by linarith
  with issued_expiry [OF assms(1-4)] show ?thesis unfolding fresh_def by blast
qed

lemma refresh_keeps_fresh:
  assumes "\<And>k m. length (mac k m) = 32" "fresh mac s p c" "p \<le> t" "t \<le> p + max_idle s" "t \<le> t2"
    and "0 \<le> t2" "t2 + ss_ttl s < 2 ^ 32 * second_ns" "0 < ss_ttl s"
  shows "\<exists>sc. Refresh mac s t t2 c = (True, sc)
    \<and> fresh mac s t2 (case sc of Some (SetSession v _) \<Rightarrow> Some v | _ \<Rightarrow> c)"
proof -
  obtain e where e: "0 \<le> e" "e < 2 ^ 32" "p + max_idle s < e * second_ns"
    "\<And>t'. cookie_expiry mac s t' c = (if e * second_ns \<le> t' then None else Some (e * second_ns))"
    using assms(2) by (auto simp: fresh_def)
  have exp: "cookie_expiry mac s t c = Some (e * second_ns)" using e assms(4) by simp
  have left: "time_sub (e * second_ns) t2 = e * second_ns - t2"
    using e(1,2) assms(6-8) by (simp add: time_sub_def)
  show ?thesis
  proof (cases "e * second_ns - t2 \<le> ss_ttl s - min (ss_ttl s div 10) maxRefreshInterval \<or> ss_ttl s < e * second_ns - t2")
    case True
    obtain v x where v: "issue mac s t2 = SetSession v x" by (simp add: issue_def Let_def)
    with True exp left have "Refresh mac s t t2 c = (True, Some (SetSession v x))" by (simp add: Refresh_def Let_def)
    moreover have "fresh mac s t2 (Some v)" using issue_fresh [OF assms(1) v] assms(6-8) by simp
    ultimately show ?thesis by simp
  next
    case False
    with exp left have "Refresh mac s t t2 c = (True, None)" by (simp add: Refresh_def Let_def)
    moreover have "t2 + max_idle s < e * second_ns" using False by (simp add: max_idle_def)
    with e have "fresh mac s t2 c" unfolding fresh_def by blast
    ultimately show ?thesis by simp
  qed
qed

lemma browse_fresh:
  assumes "\<And>k m. length (mac k m) = 32" "0 < ss_ttl s"
  shows "fresh mac s p c \<Longrightarrow> steady (max_idle s) p ts \<Longrightarrow> 0 \<le> p \<Longrightarrow> \<forall>(t, t2) \<in> set ts. t2 + ss_ttl s < 2 ^ 32 * second_ns
    \<Longrightarrow> False \<notin> set (browse mac s ts c)"
proof (induction ts arbitrary: p c)
  case (Cons r ts)
  obtain t t2 where r: "r = (t, t2)" by (cases r)
  then obtain sc where sc: "Refresh mac s t t2 c = (True, sc)"
      "fresh mac s t2 (case sc of Some (SetSession v _) \<Rightarrow> Some v | _ \<Rightarrow> c)"
    using refresh_keeps_fresh [OF assms(1) Cons.prems(1), of t t2] Cons.prems(2-4) assms(2) by auto
  then show ?case using Cons.IH [OF sc(2)] Cons.prems(2-4) r by simp
qed simp

text \<open>C31: A login in use never lapses: as long as each request follows the previous one within the
  session lifetime less the refresh interval (at most a tenth of it, at most an hour) and a second,
  every request is authenticated, with the cookies the responses set along the way.\<close>

theorem used_login_never_lapses:
  assumes "\<And>k m. length (mac k m) = 32" "0 < ss_ttl s" "issue mac s now = SetSession v e" "0 \<le> now"
    and "steady (max_idle s) now ts" "\<forall>(t, t2) \<in> set ((now, now) # ts). t2 + ss_ttl s < 2 ^ 32 * second_ns"
  shows "False \<notin> set (browse mac s ts (Some v))"
proof (rule browse_fresh [OF assms(1,2) _ assms(5,4)])
  show "fresh mac s now (Some v)" using issue_fresh [OF assms(1,3)] assms(2,4,6) by simp
qed (use assms(6) in simp)

text \<open>A session cookie is accepted exactly until the second it expires, which is the session
  lifetime after it was issued; an active login gets a new one at most once per refresh interval.\<close>

theorem session_cookie_lifetime:
  assumes "\<And>k m. length (mac k m) = 32" "issue mac s now = SetSession v e"
    and "0 \<le> now" "0 < ss_ttl s" "now + ss_ttl s < 2 ^ 32 * second_ns"
  shows "(Valid mac s t (Some v) \<longleftrightarrow> t < e * second_ns)
    \<and> now + ss_ttl s - second_ns < e * second_ns \<and> e * second_ns \<le> now + ss_ttl s
    \<and> (now \<le> t \<and> t \<le> t2 \<and> t2 < now + min (ss_ttl s div 10) maxRefreshInterval - second_ns
      \<longrightarrow> Refresh mac s t t2 (Some v) = (True, None))"
proof -
  have pos: "0 \<le> now + ss_ttl s" using assms(3,4) by simp
  note x = issued_expiry [OF assms(1,2) pos assms(5)]
  have b: "now + ss_ttl s - second_ns < e * second_ns" "e * second_ns \<le> now + ss_ttl s"
    using x(2) by linarith+
  have "Refresh mac s t t2 (Some v) = (True, None)"
    if "now \<le> t" "t \<le> t2" "t2 < now + min (ss_ttl s div 10) maxRefreshInterval - second_ns"
  proof -
    have early: "t < e * second_ns" using that b(1) assms(4) by linarith
    moreover have "time_sub (e * second_ns) t2 = e * second_ns - t2"
      using x(3,4) that(1,2) early assms(3,5) b that(3) by (simp add: time_sub_def)
    ultimately show ?thesis using that b by (simp add: Refresh_def x(1) Let_def)
  qed
  with b show ?thesis by (simp add: Valid_def x(1))
qed

text \<open>The signing key tells credentials apart.\<close>

lemma put_uint32_inj: "put_uint32 m = put_uint32 n \<Longrightarrow> 0 \<le> m \<Longrightarrow> m < 2 ^ 32 \<Longrightarrow> 0 \<le> n \<Longrightarrow> n < 2 ^ 32 \<Longrightarrow> m = n"
  by (metis get_put_uint32)

lemma key_message_inj:
  assumes "key_message u p = key_message u' p'" "\<forall>x \<in> {u, p, u', p'}. length x < 2 ^ 32"
  shows "u = u' \<and> p = p'"
proof -
  from assms(1) have eq: "put_uint32 (int (length u)) @ u @ put_uint32 (int (length p)) @ p
      = put_uint32 (int (length u')) @ u' @ put_uint32 (int (length p')) @ p'"
    by (simp add: key_message_def)
  then have "put_uint32 (int (length u)) = put_uint32 (int (length u'))"
    by (metis append_eq_append_conv put_uint32_length)
  then have u: "length u = length u'" using put_uint32_inj [of "int (length u)" "int (length u')"] assms(2) by simp
  with eq show ?thesis by (simp add: append_eq_append_conv)
qed

text \<open>Changing the secret, the user name or the password ends every session: unless the
  message authentication code collides on the two messages at hand, a cookie issued under the old
  configuration is refused under the new one.\<close>

theorem changed_credentials_end_sessions:
  assumes "\<And>k m. length (mac k m) = 32" "secret \<noteq> []" "secret' \<noteq> []"
    and "NewConfiguredSessions mac random secret ttl user pw = Some s"
    and "NewConfiguredSessions mac random' secret' ttl' user' pw' = Some s'"
    and "\<forall>x \<in> {user, pw, user', pw'}. length x < 2 ^ 32" "(secret, user, pw) \<noteq> (secret', user', pw')"
    and "mac secret (key_message user pw) = mac secret' (key_message user' pw')
      \<longrightarrow> secret = secret' \<and> key_message user pw = key_message user' pw'"
    and "issue mac s now = SetSession v e"
    and "mac (ss_secret s) (put_uint32 e) = mac (ss_secret s') (put_uint32 e) \<longrightarrow> ss_secret s = ss_secret s'"
  shows "\<not> Valid mac s' t (Some v)"
proof -
  have s: "ss_secret s = mac secret (key_message user pw)" "ss_secret s' = mac secret' (key_message user' pw')"
    using assms(2-5) by (auto simp: NewConfiguredSessions_def Let_def)
  have "ss_secret s \<noteq> ss_secret s'"
    using assms(6-8) key_message_inj [of user pw user' pw'] unfolding s by auto
  with assms(10) have ne: "mac (ss_secret s) (put_uint32 e) \<noteq> mac (ss_secret s') (put_uint32 e)" by blast
  have v: "v = b64_encode (put_uint32 e) @ ''.'' @ b64_encode (mac (ss_secret s) (put_uint32 e))"
    using assms(9) by (auto simp: issue_def Let_def)
  then have "cut_at (CHR ''.'') v = Some (b64_encode (put_uint32 e), b64_encode (mac (ss_secret s) (put_uint32 e)))"
    by (simp add: b64_no_dot)
  then show ?thesis using ne by (simp add: Valid_def cookie_expiry_def v)
qed

lemma those_length: "those xs = Some ys \<Longrightarrow> length ys = length xs"
  by (induction xs arbitrary: ys) (auto split: option.splits)

section \<open>What the guards let through\<close>

lemma hd_split_on: "hd (split_on c s) = takeWhile (\<lambda>x. x \<noteq> c) s \<and> split_on c s \<noteq> []"
  by (induction s) (auto split: list.splits)

lemma public_files_shadow_nothing:
  assumes "ServePublic files r"
  shows "\<not> publicPath (rq_path r) \<and> \<not> prefix ''/api/'' (rq_path r)"
proof -
  obtain name where name: "rq_path r = CHR ''/'' # name" "takeWhile (\<lambda>x. x \<noteq> CHR ''/'') name \<notin> set reservedSegments"
    using assms by (auto simp: ServePublic_def cut_prefix_def hd_split_on prefix_def split: if_splits)
  then have "name \<notin> {''login'', ''logout'', ''health'', ''ready''}" "\<not> prefix ''static/'' name" "\<not> prefix ''api/'' name"
    by (auto simp: reservedSegments_def prefix_def)
  with name(1) show ?thesis by (simp add: publicPath_def)
qed

lemma Refresh_valid: "Refresh mac s now now2 c = (b, sc) \<Longrightarrow> b = Valid mac s now c"
  by (auto simp: Refresh_def Valid_def Let_def split: option.splits)

text \<open>Nothing but the public paths and files is served without a valid session: the guard
  passes a request on exactly when its path is public, without touching the cookie, or its session
  is valid; public files never shadow an API route or a public path; and guarding the dashboard port twice
  is guarding it once.\<close>

theorem guard_protects:
  "nested_guard mac files d now now2 r = Middleware mac files d now now2 False r
   \<and> (case Middleware mac files d now now2 False r of
        PublicFile \<Rightarrow> \<not> publicPath (rq_path r) \<and> \<not> prefix ''/api/'' (rq_path r)
      | Next c \<Rightarrow> if publicPath (rq_path r) then c = None else Valid mac (db_sessions d) now (rq_cookie r)
      | UnauthorizedJSON \<Rightarrow> prefix ''/api/'' (rq_path r) \<and> \<not> publicPath (rq_path r)
          \<and> \<not> Valid mac (db_sessions d) now (rq_cookie r)
      | RedirectLogin \<Rightarrow> \<not> publicPath (rq_path r) \<and> \<not> Valid mac (db_sessions d) now (rq_cookie r)
      | Forbidden \<Rightarrow> False)"
proof -
  obtain ok c where r: "Refresh mac (db_sessions d) now now2 (rq_cookie r) = (ok, c)" by fastforce
  from Refresh_valid [OF r] public_files_shadow_nothing [of files r] show ?thesis
    by (auto simp: nested_guard_def Middleware_def r split: bool.splits)
qed

text \<open>A page of another site cannot reach the unauthenticated dashboard by pointing its
  host name at this machine: a host given by name or IPv4 address passes only if it is the word
  localhost or a literal address of the loopback network.\<close>

theorem rebinding_is_refused:
  assumes "LoopbackHost files r = Next c" "rq_host r = name \<or> rq_host r = name @ '':'' @ port"
    and "set name \<inter> {CHR '':'', CHR ''['', CHR '']''} = {}" "set port \<inter> {CHR '':'', CHR ''['', CHR '']''} = {}"
    and "rq_method r \<notin> {''GET'', ''HEAD''} \<or> rq_path r \<notin> {''/health'', ''/ready''} \<and> \<not> prefix ''/static/'' (rq_path r)"
  shows "equal_fold (trim_suffix name ''.'') ''localhost'' \<or> (\<exists>b c d. parse_v4 name = Some [127, b, c, d])"
proof -
  have none: "last_index (CHR '':'') name = None" using assms(3) by (auto simp: last_index_def)
  have "takeWhile (\<lambda>x. x \<noteq> CHR '':'') (rev (name @ '':'' @ port)) = rev port"
    using assms(4) by (simp add: takeWhile_append takeWhile_eq_all_conv)
  then have some: "last_index (CHR '':'') (name @ '':'' @ port) = Some (length name)"
    by (simp add: last_index_def)
  have split: "split_host_port (name @ '':'' @ port) = Some (name, port)"
    unfolding split_host_port_def some option.case using assms(3,4) by (cases name) auto
  have nb: "\<not> prefix ''['' name" using assms(3) by (auto simp: prefix_def)
  have "split_host_port name = None" by (simp add: split_host_port_def none)
  then have "equal_fold (trim_suffix name ''.'') ''localhost'' \<or> loopback_ip name"
    using assms(1,2,5) split nb by (auto simp: LoopbackHost_def Let_def split: if_splits)
  moreover have "\<exists>b c d. parse_v4 name = Some [127, b, c, d]" if loop: "loopback_ip name"
  proof -
    obtain ip where ip: "parse_ip name = Some ip" "is_loopback ip"
      using loop by (auto simp: loopback_ip_def split: option.splits)
    define rest where "rest = dropWhile (\<lambda>c. c \<noteq> CHR ''.'' \<and> c \<noteq> CHR '':'' \<and> c \<noteq> CHR ''%'') name"
    obtain c cs where c: "rest = c # cs" using ip(1) unfolding parse_ip_def rest_def [symmetric] by (cases rest) auto
    then have "c \<in> set name" unfolding rest_def by (metis list.set_intros(1) set_dropWhileD)
    then have colon: "c \<noteq> CHR '':''" using assms(3) by blast
    have "parse_ip name = (if c = CHR ''.'' then map_option (\<lambda>b. replicate 10 0 @ [255, 255] @ b) (parse_v4 name) else None)"
      unfolding parse_ip_def rest_def [symmetric] c using colon by simp
    with ip(1) obtain bs where bs: "parse_v4 name = Some bs" "ip = replicate 10 0 @ [255, 255] @ bs"
      by (auto split: if_splits)
    have "length bs = 4"
      using bs(1) by (auto simp: parse_v4_def Let_def those_length split: if_splits)
    then obtain a b c d where "bs = [a, b, c, d]" by (auto simp: numeral_eq_Suc length_Suc_conv)
    with ip(2) bs show ?thesis by (simp add: is_loopback_def eval_nat_numeral)
  qed
  ultimately show ?thesis by blast
qed

section \<open>Examples\<close>

definition sample_mac :: "string \<Rightarrow> string \<Rightarrow> string" where
  "sample_mac k m = take 32 (rev m @ k @ replicate 32 CHR ''-'')"

lemma sample_mac_length: "length (sample_mac k m) = 32"
  by (simp add: sample_mac_def)

definition sample_sessions :: sessions where
  "sample_sessions = \<lparr>ss_secret = ''k'', ss_ttl = DefaultSessionTTL\<rparr>"

theorem used_login_never_lapses_witness:
  "\<exists>v e. issue sample_mac sample_sessions 0 = SetSession v e
    \<and> False \<notin> set (browse sample_mac sample_sessions [(600000 * second_ns, 600000 * second_ns + 5),
        (1200000 * second_ns, 1200000 * second_ns)] (Some v))"
proof -
  obtain v e where v: "issue sample_mac sample_sessions 0 = SetSession v e" by (simp add: issue_def Let_def)
  have "0 < ss_ttl sample_sessions" "steady (max_idle sample_sessions) 0
      [(600000 * second_ns, 600000 * second_ns + 5), (1200000 * second_ns, 1200000 * second_ns)]"
    by (simp_all add: sample_sessions_def max_idle_def DefaultSessionTTL_def maxRefreshInterval_def)
  from used_login_never_lapses [OF sample_mac_length this(1) v _ this(2)] v show ?thesis
    by (auto simp: sample_sessions_def DefaultSessionTTL_def)
qed

theorem session_cookie_lifetime_witness:
  "\<exists>v e. issue sample_mac sample_sessions 0 = SetSession v e
    \<and> Valid sample_mac sample_sessions (604799 * second_ns) (Some v)
    \<and> \<not> Valid sample_mac sample_sessions (604800 * second_ns) (Some v)"
proof -
  obtain v e where v: "issue sample_mac sample_sessions 0 = SetSession v e" by (simp add: issue_def Let_def)
  have "0 < ss_ttl sample_sessions" "0 + ss_ttl sample_sessions < 2 ^ 32 * second_ns"
    "ss_ttl sample_sessions = 604800 * second_ns"
    by (simp_all add: sample_sessions_def DefaultSessionTTL_def)
  from session_cookie_lifetime [OF sample_mac_length v order_refl this(1,2)] v this(3) show ?thesis
    by (intro exI [of _ v] exI [of _ e]) auto
qed

theorem changed_credentials_end_sessions_witness:
  "\<exists>s s' v e. NewConfiguredSessions sample_mac None ''secret'' 0 ''u'' ''a'' = Some s
    \<and> NewConfiguredSessions sample_mac None ''secret'' 0 ''u'' ''b'' = Some s'
    \<and> issue sample_mac s 0 = SetSession v e \<and> \<not> Valid sample_mac s' 1 (Some v)"
proof -
  let ?K = "\<lambda>pw. sample_mac ''secret'' (key_message ''u'' pw)"
  let ?s = "\<lambda>pw. \<lparr>ss_secret = ?K pw, ss_ttl = DefaultSessionTTL\<rparr>"
  have s: "NewConfiguredSessions sample_mac None ''secret'' 0 ''u'' pw = Some (?s pw)" for pw
    by (simp add: NewConfiguredSessions_def)
  obtain v e where v: "issue sample_mac (?s ''a'') 0 = SetSession v e" by (simp add: issue_def Let_def)
  have key: "\<exists>r. ?K [c] = c # r" for c by (simp add: sample_mac_def key_message_def)
  have "\<exists>r. sample_mac (c # r') (put_uint32 e) = rev (put_uint32 e) @ c # r" for c r'
    by (simp add: sample_mac_def put_uint32_def numeral_eq_Suc)
  then have tag: "\<exists>r. sample_mac (?K [c]) (put_uint32 e) = rev (put_uint32 e) @ c # r" for c
    by (metis key)
  have ne: "?K ''a'' \<noteq> ?K ''b''" "sample_mac (?K ''a'') (put_uint32 e) \<noteq> sample_mac (?K ''b'') (put_uint32 e)"
    using key [of "CHR ''a''"] key [of "CHR ''b''"] tag [of "CHR ''a''"] tag [of "CHR ''b''"] by auto
  have "\<not> Valid sample_mac (?s ''b'') 1 (Some v)"
    by (rule changed_credentials_end_sessions [OF sample_mac_length _ _ s [of "''a''"] s [of "''b''"] _ _ _ v])
       (use ne in simp_all)
  with s v show ?thesis by blast
qed

theorem rebinding_is_refused_witness:
  "LoopbackHost (\<lambda>_. False) \<lparr>rq_method = ''GET'', rq_path = ''/'', rq_host = ''evil.example:8080'', rq_cookie = None\<rparr> \<noteq> Next None
   \<and> LoopbackHost (\<lambda>_. False) \<lparr>rq_method = ''GET'', rq_path = ''/'', rq_host = ''127.0.0.1:8080'', rq_cookie = None\<rparr> = Next None"
proof -
  let ?r = "\<lambda>h. \<lparr>rq_method = ''GET'', rq_path = ''/'', rq_host = h, rq_cookie = None\<rparr>"
  have "LoopbackHost (\<lambda>_. False) (?r ''127.0.0.1:8080'') = Next None" by code_simp
  moreover have "LoopbackHost (\<lambda>_. False) (?r ''evil.example:8080'') \<noteq> Next None"
  proof
    assume "LoopbackHost (\<lambda>_. False) (?r ''evil.example:8080'') = Next None"
    from rebinding_is_refused [OF this, of "''evil.example''" "''8080''"]
    have "equal_fold (trim_suffix ''evil.example'' ''.'') ''localhost''
        \<or> (\<exists>b c d. parse_v4 ''evil.example'' = Some [127, b, c, d])"
      by (simp add: prefix_def)
    moreover have "parse_v4 ''evil.example'' = None" "\<not> equal_fold (trim_suffix ''evil.example'' ''.'') ''localhost''"
      by code_simp+
    ultimately show False by simp
  qed
  ultimately show ?thesis by blast
qed

end
