(* ===== verification/Login.thy ===== *)
theory Login
  imports Sessions
begin

text \<open>
  The login page of the dashboard (\<open>web/auth.go\<close>): the client's address, the limiter of failed
  logins and the three handlers.  The limiter locks itself for each call, and a submission calls it
  twice, so the submissions in progress interleave between the check and the record: the step
  relation \<open>login_step\<close> has a step for each locked section.
\<close>

section \<open>Client address\<close>

text \<open>\<open>X-Forwarded-For\<close> and \<open>RemoteAddr\<close> of the request.\<close>

definition clientIP :: "string \<Rightarrow> string \<Rightarrow> string" where
  "clientIP xff remote = (let fallback = (case split_host_port remote of Some (h, _) \<Rightarrow> h | None \<Rightarrow> remote) in
     if xff \<noteq> [] then
       (let ip = trim_space (last (split_on (CHR '','') xff)) in if ip \<noteq> [] then ip else fallback)
     else fallback)"

section \<open>The limiter\<close>

definition failedLoginWindow :: int where
  "failedLoginWindow = 15 * 60 * second_ns"

definition failedLoginMax :: nat where
  "failedLoginMax = 3"

definition failedLoginMaxGlobal :: nat where
  "failedLoginMaxGlobal = 100"

record loginLimiter =
  lm_ips :: "string \<rightharpoonup> int list"
  lm_global :: "int list"

definition newLoginLimiter :: loginLimiter where
  "newLoginLimiter = \<lparr>lm_ips = (\<lambda>_. None), lm_global = []\<rparr>"

text \<open>The value of the map at an address: the empty slice when absent.\<close>

definition fails_of :: "string \<Rightarrow> loginLimiter \<Rightarrow> int list" where
  "fails_of ip l = (case lm_ips l ip of None \<Rightarrow> [] | Some ts \<Rightarrow> ts)"

definition pruneFails :: "int \<Rightarrow> int list \<Rightarrow> int list" where
  "pruneFails cutoff fails = dropWhile (\<lambda>t. t < cutoff) fails"

definition prune :: "int \<Rightarrow> loginLimiter \<Rightarrow> loginLimiter" where
  "prune now l = (let cutoff = now - failedLoginWindow in
     l\<lparr>lm_global := pruneFails cutoff (lm_global l),
       lm_ips := (\<lambda>ip. case lm_ips l ip of None \<Rightarrow> None
         | Some fails \<Rightarrow> if pruneFails cutoff fails = [] then None else Some (pruneFails cutoff fails))\<rparr>)"

definition blocked :: "int \<Rightarrow> string \<Rightarrow> loginLimiter \<Rightarrow> int option \<times> loginLimiter" where
  "blocked now ip l0 = (let l = prune now l0; fails = fails_of ip l in
     (if failedLoginMax \<le> length fails then Some (failedLoginWindow - time_sub now (hd fails))
      else if failedLoginMaxGlobal \<le> length (lm_global l)
      then Some (failedLoginWindow - time_sub now (hd (lm_global l)))
      else None, l))"

definition recordFailure :: "int \<Rightarrow> string \<Rightarrow> loginLimiter \<Rightarrow> loginLimiter" where
  "recordFailure now ip l0 = (let l = prune now l0 in
     l\<lparr>lm_ips := (lm_ips l)(ip \<mapsto> fails_of ip l @ [now]), lm_global := lm_global l @ [now]\<rparr>)"

definition reset_ip :: "string \<Rightarrow> loginLimiter \<Rightarrow> loginLimiter" where
  "reset_ip ip l = l\<lparr>lm_ips := (lm_ips l)(ip := None)\<rparr>"

section \<open>The handlers\<close>

datatype login_page = NotFound | ToDashboard "set_cookie option" | LoginForm | TooManyRequests int
  | BadForm | WrongCredentials | ToLogin set_cookie

definition loginForm :: "(string \<Rightarrow> string \<Rightarrow> string) \<Rightarrow> dashboard option \<Rightarrow> int \<Rightarrow> string option \<Rightarrow> login_page" where
  "loginForm mac dash now cookie = (case dash of None \<Rightarrow> NotFound
     | Some d \<Rightarrow> if Valid mac (db_sessions d) now cookie then ToDashboard None else LoginForm)"

text \<open>A submission without other submissions in between: the clock at the check, at the record
  of the failure and when the cookie is issued; the form fields, or none when they cannot be parsed.\<close>

definition loginSubmit :: "(string \<Rightarrow> string \<Rightarrow> string) \<Rightarrow> (string \<Rightarrow> string) \<Rightarrow> dashboard option
    \<Rightarrow> int \<Rightarrow> int \<Rightarrow> string \<Rightarrow> (string \<times> string) option \<Rightarrow> loginLimiter \<Rightarrow> login_page \<times> loginLimiter" where
  "loginSubmit mac H dash now now2 ip form l = (case dash of None \<Rightarrow> (NotFound, l)
     | Some d \<Rightarrow> (case blocked now ip l of
         (Some retry, l1) \<Rightarrow> (TooManyRequests retry, l1)
       | (None, l1) \<Rightarrow> (case form of
           None \<Rightarrow> (BadForm, l1)
         | Some (user, password) \<Rightarrow>
             if Check H d user password
             then (ToDashboard (Some (issue mac (db_sessions d) now2)), reset_ip ip l1)
             else (WrongCredentials, recordFailure now2 ip l1))))"

definition logout :: "dashboard option \<Rightarrow> login_page" where
  "logout dash = (case dash of None \<Rightarrow> NotFound | Some _ \<Rightarrow> ToLogin ClearSession)"

section \<open>Submissions in progress\<close>

text \<open>
  The clock, the limiter, the addresses of the submissions that passed the check and are not done,
  and, for the statements, the failures of each address since its last success and all failures.
\<close>

record login_state =
  lg_now :: int
  lg_limiter :: loginLimiter
  lg_busy :: "string list"
  lg_fails :: "string \<Rightarrow> int list"
  lg_all :: "int list"

definition login_init :: login_state where
  "login_init = \<lparr>lg_now = 0, lg_limiter = newLoginLimiter, lg_busy = [], lg_fails = (\<lambda>_. []), lg_all = []\<rparr>"

inductive login_step :: "nat \<Rightarrow> login_state \<Rightarrow> login_state \<Rightarrow> bool" for c where
  pass: "lg_now s \<le> t \<Longrightarrow> blocked t ip (lg_limiter s) = (None, l) \<Longrightarrow> length (lg_busy s) < c
    \<Longrightarrow> login_step c s (s\<lparr>lg_now := t, lg_limiter := l, lg_busy := ip # lg_busy s\<rparr>)"
| refuse: "lg_now s \<le> t \<Longrightarrow> blocked t ip (lg_limiter s) = (Some retry, l)
    \<Longrightarrow> login_step c s (s\<lparr>lg_now := t, lg_limiter := l\<rparr>)"
| failed: "lg_now s \<le> t \<Longrightarrow> ip \<in> set (lg_busy s)
    \<Longrightarrow> login_step c s (s\<lparr>lg_now := t, lg_limiter := recordFailure t ip (lg_limiter s),
      lg_busy := remove1 ip (lg_busy s), lg_fails := (lg_fails s)(ip := lg_fails s ip @ [t]), lg_all := lg_all s @ [t]\<rparr>)"
| passed: "ip \<in> set (lg_busy s)
    \<Longrightarrow> login_step c s (s\<lparr>lg_limiter := reset_ip ip (lg_limiter s),
      lg_busy := remove1 ip (lg_busy s), lg_fails := (lg_fails s)(ip := [])\<rparr>)"
| bad_form: "ip \<in> set (lg_busy s) \<Longrightarrow> login_step c s (s\<lparr>lg_busy := remove1 ip (lg_busy s)\<rparr>)"

inductive_cases login_stepE: "login_step c s s'"

section \<open>What the limiter remembers\<close>

text \<open>The list a limiter keeps for a hist: its end, without failures that left the window.\<close>

definition kept :: "int \<Rightarrow> int list \<Rightarrow> int list \<Rightarrow> bool" where
  "kept now fails hist \<longleftrightarrow> sorted hist \<and> (\<forall>t \<in> set hist. t \<le> now)
     \<and> (\<exists>old. hist = old @ fails \<and> (\<forall>t \<in> set old. t < now - failedLoginWindow))"

text \<open>At most \<open>n\<close> entries in every window.\<close>

definition rationed :: "nat \<Rightarrow> int list \<Rightarrow> bool" where
  "rationed n hist \<longleftrightarrow> (\<forall>x. length (filter (\<lambda>t. x \<le> t \<and> t \<le> x + failedLoginWindow) hist) \<le> n)"

lemma pruneFails_length: "length (pruneFails cutoff fails) \<le> length fails"
  by (simp add: pruneFails_def length_dropWhile_le)

lemma kept_prune:
  assumes "kept now fails hist" "now \<le> t"
  shows "kept t (pruneFails (t - failedLoginWindow) fails) hist"
proof -
  obtain old where old: "hist = old @ fails" "\<forall>x \<in> set old. x < now - failedLoginWindow" "sorted hist" "\<forall>x \<in> set hist. x \<le> now"
    using assms(1) by (auto simp: kept_def)
  let ?P = "\<lambda>x. x < t - failedLoginWindow"
  have "hist = (old @ takeWhile ?P fails) @ dropWhile ?P fails" using old(1) by simp
  moreover have "\<forall>x \<in> set (old @ takeWhile ?P fails). ?P x"
    using old(2) assms(2) set_takeWhileD by fastforce
  ultimately show ?thesis using old(3,4) assms(2) unfolding kept_def pruneFails_def by fastforce
qed

lemma kept_append: "kept t fails hist \<Longrightarrow> kept t (fails @ [t]) (hist @ [t])"
  by (auto simp: kept_def sorted_append)

lemma rationed_append:
  assumes "rationed n hist" "kept t fails hist" "length fails < n"
  shows "rationed n (hist @ [t])"
  unfolding rationed_def
proof
  fix x
  let ?W = "\<lambda>y. x \<le> y \<and> y \<le> x + failedLoginWindow"
  show "length (filter ?W (hist @ [t])) \<le> n"
  proof (cases "?W t")
    case True
    obtain old where old: "hist = old @ fails" "\<forall>y \<in> set old. y < t - failedLoginWindow"
      using assms(2) by (auto simp: kept_def)
    then have "filter ?W old = []" using True by (auto simp: filter_empty_conv)
    then have "length (filter ?W hist) \<le> length fails" using old(1) by simp
    then show ?thesis using True assms(3) by simp
  next
    case False
    then show ?thesis using assms(1) by (auto simp: rationed_def)
  qed
qed

lemma fails_of_prune [simp]: "fails_of ip (prune now l) = pruneFails (now - failedLoginWindow) (fails_of ip l)"
proof -
  have "[] = dropWhile P xs \<longleftrightarrow> (\<forall>x \<in> set xs. P x)" for P and xs :: "int list"
    by (metis dropWhile_eq_Nil_conv)
  then show ?thesis by (auto simp: fails_of_def prune_def Let_def pruneFails_def split: option.splits)
qed

lemma global_prune [simp]: "lm_global (prune now l) = pruneFails (now - failedLoginWindow) (lm_global l)"
  by (simp add: prune_def Let_def)

lemma recordFailure_lists:
  "fails_of ip' (recordFailure t ip l) = pruneFails (t - failedLoginWindow) (fails_of ip' l) @ (if ip' = ip then [t] else [])"
  "lm_global (recordFailure t ip l) = pruneFails (t - failedLoginWindow) (lm_global l) @ [t]"
proof -
  have "fails_of ip' (recordFailure t ip l) = fails_of ip' (prune t l) @ (if ip' = ip then [t] else [])"
    by (auto simp: recordFailure_def Let_def fails_of_def)
  then show "fails_of ip' (recordFailure t ip l)
      = pruneFails (t - failedLoginWindow) (fails_of ip' l) @ (if ip' = ip then [t] else [])" by simp
qed (simp add: recordFailure_def Let_def)

lemma reset_ip_lists:
  "fails_of ip' (reset_ip ip l) = (if ip' = ip then [] else fails_of ip' l)" "lm_global (reset_ip ip l) = lm_global l"
  by (auto simp: reset_ip_def fails_of_def)

lemma blocked_passes:
  assumes "blocked t ip l = (None, l')"
  shows "l' = prune t l" "length (fails_of ip l') < 3" "length (lm_global l') < 100"
  using assms by (auto simp: blocked_def Let_def failedLoginMax_def failedLoginMaxGlobal_def split: if_splits)

lemma blocked_prunes: "blocked t ip l = (r, l') \<Longrightarrow> l' = prune t l"
  by (auto simp: blocked_def Let_def split: if_splits)

section \<open>Failed logins are rationed\<close>

definition limiter_ok :: "nat \<Rightarrow> login_state \<Rightarrow> bool" where
  "limiter_ok c s \<longleftrightarrow> length (lg_busy s) \<le> c
     \<and> (\<forall>ip. kept (lg_now s) (fails_of ip (lg_limiter s)) (lg_fails s ip)
        \<and> length (fails_of ip (lg_limiter s)) + count_list (lg_busy s) ip \<le> 2 + c \<and> rationed (2 + c) (lg_fails s ip))
     \<and> kept (lg_now s) (lm_global (lg_limiter s)) (lg_all s)
     \<and> length (lm_global (lg_limiter s)) + length (lg_busy s) \<le> 99 + c \<and> rationed (99 + c) (lg_all s)"

lemma count_list_length: "count_list xs x \<le> length xs"
  by (induction xs) auto

lemma count_list_remove1: "count_list (remove1 x xs) y = (if x = y then count_list xs y - 1 else count_list xs y)"
  by (induction xs) auto

lemma remove1_shorter: "length (remove1 x xs) \<le> length xs"
  by (induction xs) auto

lemma kept_Nil [simp]: "kept now [] []" and rationed_Nil [simp]: "rationed n []"
  by (simp_all add: kept_def rationed_def)

lemma count_list_pos: "x \<in> set xs \<Longrightarrow> 0 < count_list xs x"
  by (induction xs) auto

lemma limiter_ok_prune:
  assumes "limiter_ok c s" "lg_now s \<le> t"
  shows "limiter_ok c (s\<lparr>lg_now := t, lg_limiter := prune t (lg_limiter s)\<rparr>)"
proof -
  note short = pruneFails_length [of "t - failedLoginWindow"]
  have "length (pruneFails (t - failedLoginWindow) (fails_of ip (lg_limiter s))) + count_list (lg_busy s) ip \<le> 2 + c" for ip
    using assms(1) short [of "fails_of ip (lg_limiter s)"] unfolding limiter_ok_def by (meson add_le_mono1 le_trans)
  moreover have "length (pruneFails (t - failedLoginWindow) (lm_global (lg_limiter s))) + length (lg_busy s) \<le> 99 + c"
    using assms(1) short [of "lm_global (lg_limiter s)"] unfolding limiter_ok_def by (meson add_le_mono1 le_trans)
  ultimately show ?thesis using assms kept_prune [OF _ assms(2)] by (simp add: limiter_ok_def)
qed

lemma limiter_ok_step:
  assumes "login_step c s s'" "limiter_ok c s"
  shows "limiter_ok c s'"
  using assms
proof (cases rule: login_step.cases)
  case (pass t ip l)
  note p = blocked_passes [OF pass(3)]
  have "limiter_ok c (s\<lparr>lg_now := t, lg_limiter := l\<rparr>)" using limiter_ok_prune [OF assms(2) pass(2)] p(1) by simp
  moreover have "count_list (lg_busy s) ip < c" using count_list_length [of "lg_busy s" ip] pass(4) by simp
  ultimately show ?thesis using p(2,3) pass(1,4) by (simp add: limiter_ok_def)
next
  case (refuse t ip retry l)
  then show ?thesis using limiter_ok_prune [OF assms(2) refuse(2)] blocked_prunes [OF refuse(3)] by simp
next
  case (failed t ip)
  define s1 where "s1 = s\<lparr>lg_now := t, lg_limiter := prune t (lg_limiter s)\<rparr>"
  have ok: "limiter_ok c s1" using limiter_ok_prune [OF assms(2) failed(2)] by (simp add: s1_def)
  obtain n where n: "length (lg_busy s) = Suc n" using failed(3) by (cases "lg_busy s") auto
  have busy: "0 < count_list (lg_busy s) ip" "length (remove1 ip (lg_busy s)) = n"
    using failed(3) n by (auto simp: count_list_pos length_remove1)
  let ?L = "\<lambda>ip. pruneFails (t - failedLoginWindow) (fails_of ip (lg_limiter s))"
  let ?G = "pruneFails (t - failedLoginWindow) (lm_global (lg_limiter s))"
  have k: "kept t (?L ip') (lg_fails s ip')" "length (?L ip') + count_list (lg_busy s) ip' \<le> 2 + c"
    "rationed (2 + c) (lg_fails s ip')" for ip'
    using ok by (simp_all add: limiter_ok_def s1_def)
  have g: "kept t ?G (lg_all s)" "length ?G + length (lg_busy s) \<le> 99 + c" "rationed (99 + c) (lg_all s)" "length (lg_busy s) \<le> c"
    using ok by (simp_all add: limiter_ok_def s1_def)
  have "rationed (2 + c) (lg_fails s ip @ [t])" using rationed_append [OF k(3,1)] k(2) [of ip] busy(1) by simp
  moreover have "rationed (99 + c) (lg_all s @ [t])" using rationed_append [OF g(3,1)] g(2) n by simp
  moreover have "length (?L ip) + 1 + (count_list (lg_busy s) ip - 1) \<le> 2 + c" using k(2) [of ip] busy(1) by simp
  moreover have "length ?G + n \<le> 98 + c" "n \<le> c" using g(2,4) n by simp_all
  ultimately show ?thesis
    using failed(1) busy k g(1) kept_append
    by (simp add: limiter_ok_def recordFailure_lists count_list_remove1)
next
  case (passed ip)
  have s: "length (lg_busy s) \<le> c" "kept (lg_now s) (fails_of ip' (lg_limiter s)) (lg_fails s ip')"
    "length (fails_of ip' (lg_limiter s)) + count_list (lg_busy s) ip' \<le> 2 + c" "rationed (2 + c) (lg_fails s ip')"
    "length (lm_global (lg_limiter s)) + length (lg_busy s) \<le> 99 + c" for ip'
    using assms(2) by (simp_all add: limiter_ok_def)
  have r: "count_list (remove1 ip (lg_busy s)) ip' \<le> 2 + c" "length (remove1 ip (lg_busy s)) \<le> c"
    "length (lm_global (lg_limiter s)) + length (remove1 ip (lg_busy s)) \<le> 99 + c" for ip'
    using count_list_length [of "remove1 ip (lg_busy s)" ip'] remove1_shorter [of ip "lg_busy s"] s(1,5) by linarith+
  show ?thesis using assms(2) passed(1) r(2,3) r(1) [of ip] s(2-4) by (auto simp: limiter_ok_def reset_ip_lists count_list_remove1)
next
  case (bad_form ip)
  have s: "length (lg_busy s) \<le> c"
    "length (fails_of ip' (lg_limiter s)) + count_list (lg_busy s) ip' \<le> 2 + c"
    "length (lm_global (lg_limiter s)) + length (lg_busy s) \<le> 99 + c" for ip'
    using assms(2) by (simp_all add: limiter_ok_def)
  have "length (fails_of ip' (lg_limiter s)) + count_list (remove1 ip (lg_busy s)) ip' \<le> 2 + c"
    "length (remove1 ip (lg_busy s)) \<le> c"
    "length (lm_global (lg_limiter s)) + length (remove1 ip (lg_busy s)) \<le> 99 + c" for ip'
    using s(2) [of ip'] remove1_shorter [of ip "lg_busy s"] s(1,3) by (auto simp: count_list_remove1)
  then show ?thesis using assms(2) bad_form(1) by (simp add: limiter_ok_def)
qed

text \<open>C25: Failed logins are rationed: with at most \<open>c\<close> submissions in progress at once, no
  window of fifteen minutes holds more than \<open>2 + c\<close> failures of one address without a success
  between them, nor more than \<open>99 + c\<close> failures of all addresses; one at a time, these are the limits
  of three and a hundred.\<close>

theorem failed_logins_are_rationed:
  assumes "(login_step c)\<^sup>*\<^sup>* login_init s"
  shows "length (filter (\<lambda>t. x \<le> t \<and> t \<le> x + failedLoginWindow) (lg_fails s ip)) \<le> failedLoginMax - 1 + c
    \<and> length (filter (\<lambda>t. x \<le> t \<and> t \<le> x + failedLoginWindow) (lg_all s)) \<le> failedLoginMaxGlobal - 1 + c"
proof -
  have "limiter_ok c login_init"
    by (auto simp: limiter_ok_def login_init_def newLoginLimiter_def kept_def rationed_def fails_of_def)
  with assms have "limiter_ok c s" by (induction rule: rtranclp_induct) (auto intro: limiter_ok_step)
  then show ?thesis by (simp add: limiter_ok_def rationed_def failedLoginMax_def failedLoginMaxGlobal_def)
qed

text \<open>A lock-out ends: the wait announced with a refusal is at most a window, and once a
  window has passed without another failure the limiter is empty and lets any address try.\<close>

theorem lockout_ends:
  assumes "(login_step c)\<^sup>*\<^sup>* login_init s" "lg_now s \<le> t" "blocked t ip (lg_limiter s) = (Some retry, l)"
    and "t + failedLoginWindow < t'"
  shows "retry \<le> failedLoginWindow \<and> 0 \<le> retry \<and> fst (blocked t' ip' l) = None"
proof -
  have "limiter_ok c login_init"
    by (auto simp: limiter_ok_def login_init_def newLoginLimiter_def kept_def rationed_def fails_of_def)
  with assms(1) have "limiter_ok c s" by (induction rule: rtranclp_induct) (auto intro: limiter_ok_step)
  from limiter_ok_prune [OF this assms(2)] blocked_prunes [OF assms(3)]
  have k: "kept t (fails_of ip l) (lg_fails s ip)" "kept t (lm_global l) (lg_all s)" for ip
    by (simp_all add: limiter_ok_def)
  have old: "y \<le> t" if "kept t fails hist" "y \<in> set fails" for y fails hist
    using that by (auto simp: kept_def)
  have young: "t - failedLoginWindow \<le> hd (pruneFails (t - failedLoginWindow) fails)"
    if "pruneFails (t - failedLoginWindow) fails \<noteq> []" for fails
    using that hd_dropWhile [of "\<lambda>y. y < t - failedLoginWindow" fails] by (simp add: pruneFails_def)
  have empty: "pruneFails (t' - failedLoginWindow) fails = []" if "kept t fails hist" for fails hist
    using old [OF that] assms(4) by (fastforce simp: pruneFails_def)
  have l: "l = prune t (lg_limiter s)" by (rule blocked_prunes [OF assms(3)])
  define x where "x = (if failedLoginMax \<le> length (fails_of ip l) then hd (fails_of ip l) else hd (lm_global l))"
  have "t - failedLoginWindow \<le> x \<and> x \<le> t"
  proof (cases "failedLoginMax \<le> length (fails_of ip l)")
    case True
    then have ne: "fails_of ip l \<noteq> []" by (auto simp: failedLoginMax_def)
    then show ?thesis using young [of "fails_of ip (lg_limiter s)"] old [OF k(1) hd_in_set] True
      by (simp add: x_def l)
  next
    case False
    then have ne: "lm_global l \<noteq> []" using assms(3)
      by (auto simp: blocked_def Let_def l failedLoginMaxGlobal_def split: if_splits)
    then show ?thesis using young [of "lm_global (lg_limiter s)"] old [OF k(2) hd_in_set] False
      by (simp add: x_def l)
  qed
  moreover have "retry = failedLoginWindow - time_sub t x"
    using assms(3) by (auto simp: blocked_def Let_def l x_def split: if_splits)
  ultimately have "0 \<le> retry \<and> retry \<le> failedLoginWindow" by (auto simp: time_sub_def failedLoginWindow_def)
  moreover have "fst (blocked t' ip' l) = None"
    using empty [OF k(1)] empty [OF k(2)] by (simp add: blocked_def Let_def failedLoginMax_def failedLoginMaxGlobal_def)
  ultimately show ?thesis by simp
qed

lemma parallel_passes:
  "k \<le> c \<Longrightarrow> \<exists>s. (login_step c)\<^sup>*\<^sup>* login_init s \<and> lg_busy s = replicate k ip \<and> fails_of ip (lg_limiter s) = []
    \<and> lm_global (lg_limiter s) = [] \<and> lg_fails s ip = [] \<and> lg_now s = 0"
proof (induction k)
  case 0
  show ?case by (rule exI [of _ login_init]) (simp add: login_init_def newLoginLimiter_def fails_of_def)
next
  case (Suc k)
  then obtain s where s: "(login_step c)\<^sup>*\<^sup>* login_init s" "lg_busy s = replicate k ip" "fails_of ip (lg_limiter s) = []"
    "lm_global (lg_limiter s) = []" "lg_fails s ip = []" "lg_now s = 0" by auto
  have "blocked 0 ip (lg_limiter s) = (None, prune 0 (lg_limiter s))"
    using s(3,4) by (simp add: blocked_def Let_def failedLoginMax_def failedLoginMaxGlobal_def pruneFails_def)
  from login_step.pass [OF _ this, of c] s(2,6) Suc.prems
  have "login_step c s (s\<lparr>lg_now := 0, lg_limiter := prune 0 (lg_limiter s), lg_busy := ip # lg_busy s\<rparr>)" by simp
  from rtranclp.rtrancl_into_rtrancl [OF s(1) this] s show ?case
    by (intro exI conjI) (assumption, simp_all add: pruneFails_def)
qed

lemma parallel_failures:
  "lg_busy s = replicate k ip \<Longrightarrow> lg_now s = 0 \<Longrightarrow> lg_fails s ip = replicate j 0 \<Longrightarrow> fails_of ip (lg_limiter s) = replicate j 0
    \<Longrightarrow> \<exists>s'. (login_step c)\<^sup>*\<^sup>* s s' \<and> lg_now s' = 0 \<and> lg_fails s' ip = replicate (j + k) 0
      \<and> fails_of ip (lg_limiter s') = replicate (j + k) 0"
proof (induction k arbitrary: s j)
  case 0
  then show ?case by (intro exI [of _ s]) simp
next
  case (Suc k)
  let ?s1 = "s\<lparr>lg_now := 0, lg_limiter := recordFailure 0 ip (lg_limiter s), lg_busy := remove1 ip (lg_busy s),
      lg_fails := (lg_fails s)(ip := lg_fails s ip @ [0]), lg_all := lg_all s @ [0]\<rparr>"
  have "login_step c s ?s1" using Suc.prems(1,2) by (intro login_step.failed) simp_all
  moreover have "\<exists>s'. (login_step c)\<^sup>*\<^sup>* ?s1 s' \<and> lg_now s' = 0 \<and> lg_fails s' ip = replicate (Suc j + k) 0
      \<and> fails_of ip (lg_limiter s') = replicate (Suc j + k) 0"
    using Suc.prems
    by (intro Suc.IH) (simp_all add: recordFailure_lists pruneFails_def failedLoginWindow_def replicate_append_same dropWhile_eq_self_iff)
  ultimately show ?case by (auto intro: converse_rtranclp_into_rtranclp)
qed

lemma parallel_guesses_state:
  "\<exists>s. (login_step c)\<^sup>*\<^sup>* login_init s \<and> lg_now s = 0 \<and> lg_fails s ip = replicate c 0
    \<and> fails_of ip (lg_limiter s) = replicate c 0"
proof -
  obtain s where s: "(login_step c)\<^sup>*\<^sup>* login_init s" "lg_busy s = replicate c ip" "lg_fails s ip = []" "lg_now s = 0"
      "fails_of ip (lg_limiter s) = []"
    using parallel_passes [of c c ip] by auto
  with parallel_failures [OF s(2,4), of 0 c] show ?thesis by (auto intro: rtranclp_trans)
qed

text \<open>The limits hold for submissions one after another only: submissions in progress
  together are all checked before any failure is recorded, so any number of wrong passwords from
  one address can be tried at the same instant.\<close>

theorem parallel_guesses_pass:
  "\<exists>s. (login_step c)\<^sup>*\<^sup>* login_init s \<and> lg_fails s ip = replicate c 0"
  using parallel_guesses_state by blast

theorem failed_logins_are_rationed_witness:
  "\<exists>s :: login_state. lg_fails s ''10.0.0.9'' = [0] \<and> length (filter (\<lambda>t. 0 \<le> t \<and> t \<le> 0 + failedLoginWindow) (lg_all s)) \<le> 100"
proof -
  obtain s where s: "(login_step 1)\<^sup>*\<^sup>* login_init s" "lg_fails s ''10.0.0.9'' = [0]"
    using parallel_guesses_state [of 1 "''10.0.0.9''"] by auto
  from failed_logins_are_rationed [OF s(1), of 0 "''10.0.0.9''"]
  have "length (filter (\<lambda>t. 0 \<le> t \<and> t \<le> 0 + failedLoginWindow) (lg_all s)) \<le> 100"
    by (simp add: failedLoginMaxGlobal_def)
  with s(2) show ?thesis by blast
qed

theorem lockout_ends_witness:
  "\<exists>(s :: login_state) retry l. blocked 7 ''10.0.0.9'' (lg_limiter s) = (Some retry, l) \<and> retry \<le> failedLoginWindow
     \<and> fst (blocked (8 + failedLoginWindow) ''10.0.0.9'' l) = None"
proof -
  obtain s where s: "(login_step 3)\<^sup>*\<^sup>* login_init s" "fails_of ''10.0.0.9'' (lg_limiter s) = replicate 3 0" "lg_now s = 0"
    using parallel_guesses_state [of 3 "''10.0.0.9''"] by auto
  let ?l = "prune 7 (lg_limiter s)"
  have "fails_of ''10.0.0.9'' ?l = [0, 0, 0]"
    using s(2) by (simp add: pruneFails_def failedLoginWindow_def numeral_eq_Suc)
  then have b: "blocked 7 ''10.0.0.9'' (lg_limiter s) = (Some (failedLoginWindow - time_sub 7 0), ?l)"
    by (simp add: blocked_def Let_def failedLoginMax_def del: fails_of_prune)
  from lockout_ends [OF s(1) _ b, of "8 + failedLoginWindow" "''10.0.0.9''"] s(3)
  have "failedLoginWindow - time_sub 7 0 \<le> failedLoginWindow"
    "fst (blocked (8 + failedLoginWindow) ''10.0.0.9'' ?l) = None" by simp_all
  with b show ?thesis by blast
qed

text \<open>The login handler is a run of these steps: a submission checks, then records the
  outcome, and leaves the limiter the steps leave.\<close>

theorem submission_is_a_run:
  assumes "loginSubmit mac H (Some d) t t2 ip form (lg_limiter s) = (page, l')"
    and "lg_now s \<le> t" "t \<le> t2" "length (lg_busy s) < c"
  shows "\<exists>s'. (login_step c)\<^sup>*\<^sup>* s s' \<and> lg_limiter s' = l' \<and> lg_busy s' = lg_busy s
    \<and> lg_all s' = lg_all s @ (if page = WrongCredentials then [t2] else [])"
proof (cases "blocked t ip (lg_limiter s)")
  case (Pair r l)
  show ?thesis
  proof (cases r)
    case (Some retry)
    then have "login_step c s (s\<lparr>lg_now := t, lg_limiter := l\<rparr>)" using login_step.refuse assms(2) Pair by blast
    with assms(1) Pair Some show ?thesis
      by (intro exI [of _ "s\<lparr>lg_now := t, lg_limiter := l\<rparr>"]) (auto simp: loginSubmit_def)
  next
    case None
    define s1 where "s1 = s\<lparr>lg_now := t, lg_limiter := l, lg_busy := ip # lg_busy s\<rparr>"
    have s1: "login_step c s s1" "ip \<in> set (lg_busy s1)" "lg_now s1 \<le> t2"
      using login_step.pass [OF assms(2) _ assms(4)] Pair None assms(3) by (auto simp: s1_def)
    have run: "(login_step c)\<^sup>*\<^sup>* s s'" if "login_step c s1 s'" for s'
      using s1(1) that by (meson converse_rtranclp_into_rtranclp r_into_rtranclp)
    show ?thesis
    proof (cases form)
      case None
      with \<open>r = None\<close> Pair assms(1) have "page = BadForm" "l' = l" by (auto simp: loginSubmit_def)
      with run [OF login_step.bad_form [OF s1(2)]] show ?thesis by (intro exI conjI) (assumption, auto simp: s1_def)
    next
      case (Some f)
      obtain user pw where f: "f = (user, pw)" by (cases f)
      show ?thesis
      proof (cases "Check H d user pw")
        case True
        with \<open>r = None\<close> Pair Some f assms(1) have "page \<noteq> WrongCredentials" "l' = reset_ip ip l"
          by (auto simp: loginSubmit_def)
        with run [OF login_step.passed [OF s1(2)]] show ?thesis by (intro exI conjI) (assumption, auto simp: s1_def)
      next
        case False
        with \<open>r = None\<close> Pair Some f assms(1) have "page = WrongCredentials" "l' = recordFailure t2 ip l"
          by (auto simp: loginSubmit_def)
        with run [OF login_step.failed [OF s1(3,2)]] show ?thesis by (intro exI conjI) (assumption, auto simp: s1_def)
      qed
    qed
  qed
qed

theorem submission_is_a_run_witness:
  "\<exists>s'. (login_step 1)\<^sup>*\<^sup>* login_init s' \<and> lg_all s' = [6]"
proof -
  let ?d = "\<lparr>db_user = ''u'', db_password = ''p'', db_sessions = sample_sessions\<rparr>"
  have "loginSubmit sample_mac (\<lambda>x. x) (Some ?d) 5 6 ''a'' (Some (''u'', ''q'')) newLoginLimiter
    = (WrongCredentials, recordFailure 6 ''a'' (prune 5 newLoginLimiter))"
    by (simp add: loginSubmit_def blocked_def Let_def fails_of_prune pruneFails_def fails_of_def newLoginLimiter_def
        failedLoginMax_def failedLoginMaxGlobal_def Check_def equalConst_def prune_def)
  from submission_is_a_run [of sample_mac "\<lambda>x. x" ?d 5 6 "''a''" "Some (''u'', ''q'')" login_init _ _ 1] this
  show ?thesis by (auto simp: login_init_def)
qed

end
