(* ===== verification/Pricing.thy ===== *)
theory Pricing
  imports Catalog Store "HOL-Library.List_Lexorder" "HOL-Library.Char_ord"
begin

text \<open>
  The pricing worker: \<open>internal/pricing/service.go\<close>, \<open>internal/pricing/backfill.go\<close> and their
  queries (\<open>internal/storage/pricing.go\<close>, \<open>pricing_backfill.go\<close>).  A single worker refreshes the
  catalog at most once a day, prices the pending rows page by page, and once per database prices
  the history.

  \<open>enc\<close> and \<open>dec\<close> write and read a rate set as JSON, \<open>enc_catalog\<close> and \<open>dec_catalog\<close> a catalog;
  \<open>J\<close> turns JSON text into a tree.  A response is its status and body, or nothing when the request
  failed.  The failures of the database are parameters; reads of one run may fail per page and
  updates per row.
\<close>

section \<open>Queries\<close>

definition pricingRows :: "(gen_row \<Rightarrow> bool) \<Rightarrow> string \<Rightarrow> store \<Rightarrow> generation list" where
  "pricingRows P after st = map (scanGeneration (s_snapshots st))
     (take 200 (sort_key r_id (filter (\<lambda>r. P r \<and> after < r_id r) (s_rows st))))"

definition PendingPricing :: "string \<Rightarrow> store \<Rightarrow> generation list" where
  "PendingPricing = pricingRows r_pending"

definition HasPendingPricing :: "store \<Rightarrow> bool" where
  "HasPendingPricing st \<longleftrightarrow> list_ex r_pending (s_rows st)"

definition MissingHistoricalCosts :: "string \<Rightarrow> store \<Rightarrow> generation list" where
  "MissingHistoricalCosts = pricingRows (\<lambda>r. r_cost r = None)"

record pricing_db =
  pd_catalog :: "(string \<times> int) option"
  pd_jobs :: "string list"

definition pricingBackfillJob :: string where
  "pricingBackfillJob = ''historical-costs-v1''"

definition PricingCatalog :: "pricing_db \<Rightarrow> string \<times> int" where
  "PricingCatalog db = (case pd_catalog db of None \<Rightarrow> ([], zero_time)
     | Some (body, stamp) \<Rightarrow> (body, of_unix_milli stamp))"

definition SavePricingCatalog :: "string \<Rightarrow> int \<Rightarrow> pricing_db \<Rightarrow> pricing_db" where
  "SavePricingCatalog body fetched db = db\<lparr>pd_catalog := Some (body, unix_milli fetched)\<rparr>"

definition PricingBackfillComplete :: "pricing_db \<Rightarrow> bool" where
  "PricingBackfillComplete db \<longleftrightarrow> pricingBackfillJob \<in> set (pd_jobs db)"

definition CompletePricingBackfill :: "pricing_db \<Rightarrow> pricing_db" where
  "CompletePricingBackfill db = (if PricingBackfillComplete db then db
     else db\<lparr>pd_jobs := pd_jobs db @ [pricingBackfillJob]\<rparr>)"

section \<open>The catalog\<close>

abbreviation (input) minute_ns :: int where "minute_ns \<equiv> 60 * 1000000000"

definition cacheTTL :: int where "cacheTTL = 24 * 60 * minute_ns"
definition retryDelay :: int where "retryDelay = 5 * minute_ns"
definition maxCatalogBody :: nat where "maxCatalogBody = 16777216"

text \<open>A \<open>time.Time\<close> that was never set is \<open>zero_time\<close>.\<close>

record pricing_service =
  ps_manual :: "(string \<times> manual_price) list"
  ps_catalog :: catalog
  ps_fetched :: int
  ps_retry_at :: int
  ps_loaded :: bool
  ps_backfill_done :: bool

definition New :: "(string \<times> manual_price) list \<Rightarrow> pricing_service" where
  "New manual = \<lparr>ps_manual = manual, ps_catalog = [], ps_fetched = zero_time, ps_retry_at = zero_time,
     ps_loaded = False, ps_backfill_done = False\<rparr>"

datatype refresh_error = CatalogRead | CachedPrices | RequestFailed | HTTPStatus int | CatalogTooLarge
  | CatalogInvalid | CatalogSave

definition load_catalog :: "(string \<Rightarrow> catalog option) \<Rightarrow> bool \<Rightarrow> pricing_db \<Rightarrow> pricing_service
    \<Rightarrow> refresh_error + pricing_service" where
  "load_catalog dec_catalog read_fault db s =
     (if ps_loaded s then Inr s
      else if read_fault then Inl CatalogRead
      else let (body, fetched) = PricingCatalog db in
        if body = [] then Inr (s\<lparr>ps_loaded := True\<rparr>)
        else case dec_catalog body of None \<Rightarrow> Inl CachedPrices
          | Some c \<Rightarrow> Inr (s\<lparr>ps_catalog := c, ps_fetched := fetched, ps_loaded := True\<rparr>))"

text \<open>
  \<open>now\<close> is the clock when the age is checked, \<open>later\<close> when the response was parsed; the second
  result says whether a request was made.
\<close>

definition refresh :: "(string \<Rightarrow> json option) \<Rightarrow> (catalog \<Rightarrow> string) \<Rightarrow> (string \<Rightarrow> catalog option) \<Rightarrow> bool \<Rightarrow> bool
    \<Rightarrow> (int \<times> string) option \<Rightarrow> int \<Rightarrow> int \<Rightarrow> pricing_service \<Rightarrow> pricing_db
    \<Rightarrow> refresh_error option \<times> bool \<times> pricing_service \<times> pricing_db" where
  "refresh J enc_catalog dec_catalog read_fault save_fault response now later s0 db =
     (case load_catalog dec_catalog read_fault db s0 of
        Inl e \<Rightarrow> (Some e, False, s0, db)
      | Inr s \<Rightarrow>
          if (\<not> is_zero_time (ps_fetched s) \<and> now < ps_fetched s + cacheTTL) \<or> now < ps_retry_at s
          then (None, False, s, db)
          else let s1 = s\<lparr>ps_retry_at := now + retryDelay\<rparr> in
            case response of
              None \<Rightarrow> (Some RequestFailed, True, s1, db)
            | Some (status, body) \<Rightarrow>
                if status \<noteq> 200 then (Some (HTTPStatus status), True, s1, db)
                else if maxCatalogBody < length body then (Some CatalogTooLarge, True, s1, db)
                else (case parseCatalog J body of
                    None \<Rightarrow> (Some CatalogInvalid, True, s1, db)
                  | Some prices \<Rightarrow>
                      if save_fault then (Some CatalogSave, True, s1, db)
                      else (None, True, s1\<lparr>ps_catalog := prices, ps_fetched := later, ps_retry_at := zero_time\<rparr>,
                        SavePricingCatalog (enc_catalog prices) later db)))"

section \<open>Enrichment\<close>

definition price_with :: "(rates \<Rightarrow> string) \<Rightarrow> string \<Rightarrow> string \<Rightarrow> rates \<Rightarrow> int \<Rightarrow> generation \<Rightarrow> generation" where
  "price_with enc origin i r stamp g = (let
       g1 = g\<lparr>g_pricing_model_id := i, g_pricing_fetched_at := Some stamp, g_pricing_rates := enc r\<rparr> in
     case estimate g1 r of Some c \<Rightarrow> g1\<lparr>g_cost := Some c, g_cost_source := origin\<rparr> | None \<Rightarrow> g)"

definition enrich :: "(rates \<Rightarrow> string) \<Rightarrow> (string \<Rightarrow> rates option) \<Rightarrow> pricing_service \<Rightarrow> generation \<Rightarrow> generation" where
  "enrich enc dec s g =
     (if g_cost_reported g then g
      else if freeModel (g_model g) then g\<lparr>g_cost := Some (Fin 0), g_cost_source := ''free''\<rparr>
      else if g_pricing_rates g \<noteq> [] then
        (case dec (g_pricing_rates g) of None \<Rightarrow> g
         | Some r \<Rightarrow> (case estimate g r of None \<Rightarrow> g
             | Some c \<Rightarrow> g\<lparr>g_cost := Some c,
                 g_cost_source := (if g_cost_source g = ''manual'' then ''manual'' else ''openrouter'')\<rparr>))
      else case match (ps_catalog s) (g_model g) of
          Some (i, r) \<Rightarrow> price_with enc ''openrouter'' i r (ps_fetched s) g
        | None \<Rightarrow> (case map_of (ps_manual s) (trim_space (g_model g)) of None \<Rightarrow> g
            | Some m \<Rightarrow> price_with enc ''manual'' (trim_space (g_model g)) (m_rates m) (m_updated m) g))"

section \<open>The worker\<close>

text \<open>
  One page: \<open>skip\<close> keeps rows without a price pending (a cold cache).  The result is the error
  that stopped the page, whether a cost was stored, and the id of the last row seen.
\<close>

fun price_rows :: "bool \<Rightarrow> (string \<Rightarrow> db_step \<Rightarrow> bool) \<Rightarrow> (generation \<Rightarrow> generation) \<Rightarrow> generation list
    \<Rightarrow> bool \<Rightarrow> string \<Rightarrow> store \<Rightarrow> db_step option \<times> bool \<times> string \<times> store" where
  "price_rows skip fault enr [] changed after st = (None, changed, after, st)"
| "price_rows skip fault enr (g # gs) changed after st =
     (if skip \<and> g_cost (enr g) = None then price_rows skip fault enr gs changed (g_id g) st
      else case ApplyPricing (fault (g_id g)) (enr g) st of
        (Inl e, st') \<Rightarrow> (Some e, changed, g_id g, st')
      | (Inr updated, st') \<Rightarrow> price_rows skip fault enr gs (changed \<or> updated) (g_id g) st')"

partial_function (option) price_pages :: "(gen_row \<Rightarrow> bool) \<Rightarrow> bool \<Rightarrow> (string \<Rightarrow> bool)
    \<Rightarrow> (string \<Rightarrow> db_step \<Rightarrow> bool) \<Rightarrow> (generation \<Rightarrow> generation) \<Rightarrow> bool \<Rightarrow> string \<Rightarrow> store
    \<Rightarrow> (db_step option \<times> bool \<times> store) option" where
  "price_pages P skip read_fault fault enr changed after st =
     (if read_fault after then Some (Some BeginTx, changed, st)
      else if pricingRows P after st = [] then Some (None, changed, st)
      else case price_rows skip fault enr (pricingRows P after st) changed after st of
        (Some e, changed', after', st') \<Rightarrow> Some (Some e, changed', st')
      | (None, changed', after', st') \<Rightarrow> price_pages P skip read_fault fault enr changed' after' st')"

declare price_pages.simps [code]

record pricing_faults =
  pf_read_catalog :: bool
  pf_save_catalog :: bool
  pf_page :: "string \<Rightarrow> bool"
  pf_update :: "string \<Rightarrow> db_step \<Rightarrow> bool"
  pf_job_read :: bool
  pf_job_write :: bool

text \<open>\<open>None\<close> stands for a run that never ends; the first component of a result is its error.\<close>

definition run_backfill :: "(rates \<Rightarrow> string) \<Rightarrow> (string \<Rightarrow> rates option) \<Rightarrow> pricing_faults \<Rightarrow> pricing_service
    \<Rightarrow> pricing_db \<Rightarrow> store \<Rightarrow> (db_step option \<times> bool \<times> pricing_service \<times> pricing_db \<times> store) option" where
  "run_backfill enc dec fs s db st =
     (if pf_job_read fs then Some (Some BeginTx, False, s, db, st)
      else if PricingBackfillComplete db then Some (None, False, s\<lparr>ps_backfill_done := True\<rparr>, db, st)
      else case price_pages (\<lambda>r. r_cost r = None) False (pf_page fs) (pf_update fs) (enrich enc dec s) False [] st of
        None \<Rightarrow> None
      | Some (Some e, changed, st') \<Rightarrow> Some (Some e, changed, s, db, st')
      | Some (None, changed, st') \<Rightarrow>
          if pf_job_write fs then Some (Some CommitTx, changed, s, db, st')
          else Some (None, changed, s\<lparr>ps_backfill_done := True\<rparr>, CompletePricingBackfill db, st'))"

text \<open>
  \<open>process\<close> after its refresh, which \<open>process\<close> below composes: the pending pages, then the
  history while the catalog is fresh.  The flag says whether the dashboard is notified.
\<close>

definition price_queue :: "(rates \<Rightarrow> string) \<Rightarrow> (string \<Rightarrow> rates option) \<Rightarrow> pricing_faults \<Rightarrow> int \<Rightarrow> pricing_service
    \<Rightarrow> pricing_db \<Rightarrow> store \<Rightarrow> (db_step option \<times> bool \<times> pricing_service \<times> pricing_db \<times> store) option" where
  "price_queue enc dec fs now s db st =
     (case price_pages r_pending (ps_catalog s = []) (pf_page fs) (pf_update fs) (enrich enc dec s) False [] st of
        None \<Rightarrow> None
      | Some (Some e, changed, st') \<Rightarrow> Some (Some e, changed, s, db, st')
      | Some (None, changed, st') \<Rightarrow>
          if \<not> ps_backfill_done s \<and> \<not> is_zero_time (ps_fetched s) \<and> now < ps_fetched s + cacheTTL
          then map_option (\<lambda>(e, updated, r). (e, changed \<or> updated, r)) (run_backfill enc dec fs s db st')
          else Some (None, changed, s, db, st'))"

text \<open>A refresh that fails is only logged, unless the worker is being stopped.\<close>

definition process :: "(string \<Rightarrow> json option) \<Rightarrow> (catalog \<Rightarrow> string) \<Rightarrow> (string \<Rightarrow> catalog option)
    \<Rightarrow> (rates \<Rightarrow> string) \<Rightarrow> (string \<Rightarrow> rates option) \<Rightarrow> pricing_faults \<Rightarrow> bool \<Rightarrow> (int \<times> string) option
    \<Rightarrow> int \<Rightarrow> int \<Rightarrow> pricing_service \<Rightarrow> pricing_db \<Rightarrow> store
    \<Rightarrow> (db_step option \<times> bool \<times> pricing_service \<times> pricing_db \<times> store) option" where
  "process J enc_catalog dec_catalog enc dec fs stopping response now later s db st =
     (case refresh J enc_catalog dec_catalog (pf_read_catalog fs) (pf_save_catalog fs) response now later s db of
        (err, _, s', db') \<Rightarrow>
          if err \<noteq> None \<and> stopping then Some (Some BeginTx, False, s', db', st)
          else price_queue enc dec fs later s' db' st)"

text \<open>The retry timer set after a run (\<open>Run\<close>): a cold cache with pending rows wakes again.\<close>

definition retry_timer :: "int \<Rightarrow> pricing_service \<Rightarrow> store \<Rightarrow> int option" where
  "retry_timer now s st =
     (if ps_catalog s = [] \<and> \<not> is_zero_time (ps_retry_at s) \<and> HasPendingPricing st
      then Some (max 0 (time_sub (ps_retry_at s) now)) else None)"

section \<open>Every run ends\<close>

lemma exec_update_ids: "exec_update i p f st = Some (st', n) \<Longrightarrow> (\<And>r. r_id (f r) = r_id r) \<Longrightarrow> ids st' = ids st"
  by (drule exec_update_Some) (auto simp: ids_def)

lemma price_row_id [simp]: "r_id (price_row g snapshot r) = r_id r"
  by (simp add: price_row_def)

lemma ids_snapshots [simp]: "ids (st\<lparr>s_snapshots := t\<rparr>) = ids st"
  by (simp add: ids_def)

lemma ApplyPricing_ids: "ApplyPricing fault g st = (res, st') \<Longrightarrow> ids st' = ids st"
  by (drule ApplyPricing_cases) (auto dest: exec_update_ids)

lemma price_rows_ids: "price_rows skip fault enr gs changed after st = (e, changed', after', st') \<Longrightarrow> ids st' = ids st"
  by (induction gs arbitrary: changed after st)
     (auto split: if_splits prod.splits sum.splits dest: ApplyPricing_ids)

lemma price_rows_after: "price_rows skip fault enr gs changed after st = (None, changed', after', st') \<Longrightarrow>
    after' = (if gs = [] then after else g_id (last gs))"
  by (induction gs arbitrary: changed after st) (auto split: if_splits prod.splits sum.splits)

lemma scan_id [simp]: "g_id (scanGeneration snaps r) = r_id r"
  by (simp add: scanGeneration_def)

lemma pricingRows_ids: "g \<in> set (pricingRows P after st) \<Longrightarrow> after < g_id g \<and> g_id g \<in> set (ids st)"
  by (auto simp: pricingRows_def ids_def dest!: in_set_takeD)

text \<open>Induction along the pages: the ids behind the last one seen shrink.\<close>

lemma price_pages_induct:
  assumes step: "\<And>changed after st.
    (\<And>changed' after' st'. pricingRows P after st \<noteq> [] \<Longrightarrow>
        price_rows skip fault enr (pricingRows P after st) changed after st = (None, changed', after', st') \<Longrightarrow>
        I changed' after' st')
    \<Longrightarrow> I changed after st"
  shows "I changed after st"
proof (induction "card {i \<in> set (ids st). after < i}" arbitrary: changed after st rule: less_induct)
  case less
  show ?case
  proof (rule step)
    fix changed' after' st'
    assume ne: "pricingRows P after st \<noteq> []"
      and page: "price_rows skip fault enr (pricingRows P after st) changed after st = (None, changed', after', st')"
    define i where "i = g_id (last (pricingRows P after st))"
    have i: "after < i" "i \<in> set (ids st)"
      using pricingRows_ids [of "last (pricingRows P after st)" P after st] ne by (simp_all add: i_def)
    have "after' = i" using price_rows_after [OF page] ne by (simp add: i_def)
    moreover have "ids st' = ids st" using price_rows_ids [OF page] .
    moreover have "{j \<in> set (ids st). i < j} \<subset> {j \<in> set (ids st). after < j}"
      using i by force
    ultimately have "card {j \<in> set (ids st'). after' < j} < card {j \<in> set (ids st). after < j}"
      by (simp add: psubset_card_mono)
    from less [OF this] show "I changed' after' st'" .
  qed
qed

lemma price_pages_ends: "\<exists>res. price_pages P skip read_fault fault enr changed after st = Some res"
proof (induction changed after st rule: price_pages_induct [where P = P and skip = skip and fault = fault and enr = enr])
  case (1 changed after st)
  obtain e changed' after' st' where page:
    "price_rows skip fault enr (pricingRows P after st) changed after st = (e, changed', after', st')"
    by (metis prod_cases4)
  show ?case
    using 1 [of changed' after' st'] page
    by (subst price_pages.simps) (cases e; auto)
qed

section \<open>What a run does to the rows\<close>

text \<open>The columns a price update leaves alone; a reported cost is left alone entirely.\<close>

definition telemetry_of :: "gen_row \<Rightarrow> gen_row" where
  "telemetry_of r = r\<lparr>r_cost := None, r_cost_source := [], r_pricing_model_id := None,
     r_pricing_fetched_at := None, r_snapshot := None, r_pending := False\<rparr>"

definition repriced :: "gen_row \<Rightarrow> gen_row \<Rightarrow> bool" where
  "repriced r r' \<longleftrightarrow> telemetry_of r' = telemetry_of r \<and> (r_reported r \<longrightarrow> r' = r) \<and> (r_pending r' \<longrightarrow> r_pending r)"

lemma telemetry_cols: "telemetry_of r' = telemetry_of r \<Longrightarrow>
    r_id r' = r_id r \<and> r_revision r' = r_revision r \<and> r_reported r' = r_reported r"
  unfolding telemetry_of_def by (cases r; cases r') simp

lemma repriced_refl [simp]: "repriced r r"
  by (simp add: repriced_def)

lemma repriced_trans: "repriced a b \<Longrightarrow> repriced b c \<Longrightarrow> repriced a c"
  unfolding repriced_def using telemetry_cols [of b a] by auto

lemma price_row_repriced: "priceable g r \<Longrightarrow> repriced r (price_row g snapshot r)"
  by (cases r) (simp add: repriced_def price_row_def telemetry_of_def priceable_def)

lemma exec_price_rows:
  assumes "exec_update i p f st = Some (st', n)" "\<And>r. p r \<Longrightarrow> repriced r (f r)"
  shows "list_all2 repriced (s_rows st) (s_rows st')"
  using exec_update_Some [OF assms(1)] assms(2) by (auto simp: list_all2_append list.rel_refl)

lemma ApplyPricing_repriced:
  assumes "ApplyPricing fault g st = (res, st')"
  shows "list_all2 repriced (s_rows st) (s_rows st')"
  using ApplyPricing_cases [OF assms]
proof (elim disjE conjE exE)
  fix n assume "exec_update (g_id g) (priceable g) (price_row g (fst (snapshot_for g (s_snapshots st))))
      (st\<lparr>s_snapshots := snd (snapshot_for g (s_snapshots st))\<rparr>) = Some (st', n)"
  from exec_price_rows [OF this price_row_repriced] show ?thesis by simp
qed (simp add: list.rel_refl)

lemma price_rows_repriced:
  "price_rows skip fault enr gs changed after st = (e, changed', after', st') \<Longrightarrow>
    list_all2 repriced (s_rows st) (s_rows st') \<and> writes\<^sup>*\<^sup>* st st'"
proof (induction gs arbitrary: changed after st)
  case Nil
  then show ?case by (simp add: list.rel_refl)
next
  case (Cons g gs)
  show ?case
  proof (cases "skip \<and> g_cost (enr g) = None")
    case True
    then show ?thesis using Cons by simp
  next
    case False
    obtain r st1 where one: "ApplyPricing (fault (g_id g)) (enr g) st = (r, st1)" by fastforce
    have w: "list_all2 repriced (s_rows st) (s_rows st1)" "writes st st1"
      using ApplyPricing_repriced [OF one] writes.price [of st "fault (g_id g)" "enr g"] one by simp_all
    show ?thesis
    proof (cases r)
      case (Inl x)
      then show ?thesis using Cons.prems False one w by auto
    next
      case (Inr u)
      then have "list_all2 repriced (s_rows st1) (s_rows st') \<and> writes\<^sup>*\<^sup>* st1 st'"
        using Cons.IH Cons.prems False one by auto
      then show ?thesis
        using w(2) list_all2_trans [of repriced repriced repriced, OF repriced_trans w(1)]
        by (simp add: converse_rtranclp_into_rtranclp)
    qed
  qed
qed

lemma price_pages_repriced:
  "price_pages P skip read_fault fault enr changed after st = Some (e, changed2, st2) \<Longrightarrow>
    list_all2 repriced (s_rows st) (s_rows st2) \<and> writes\<^sup>*\<^sup>* st st2"
proof (induction changed after st rule: price_pages_induct [where P = P and skip = skip and fault = fault and enr = enr])
  case (1 changed after st)
  obtain x changed' after' st' where page:
    "price_rows skip fault enr (pricingRows P after st) changed after st = (x, changed', after', st')"
    by (metis prod_cases4)
  note first = price_rows_repriced [OF page]
  show ?case
  proof (cases "read_fault after \<or> pricingRows P after st = [] \<or> x \<noteq> None")
    case True
    with 1(2) page have "st2 = st \<or> st2 = st'"
      by (subst (asm) price_pages.simps) (cases x; auto split: if_splits)
    with first show ?thesis by (auto simp: list.rel_refl)
  next
    case False
    with 1(2) page have "price_pages P skip read_fault fault enr changed' after' st' = Some (e, changed2, st2)"
      by (subst (asm) price_pages.simps) simp
    with 1(1) page False have "list_all2 repriced (s_rows st') (s_rows st2) \<and> writes\<^sup>*\<^sup>* st' st2" by simp
    with first show ?thesis
      using list_all2_trans [of repriced repriced repriced, OF repriced_trans] by (meson rtranclp_trans)
  qed
qed

section \<open>The queue is drained\<close>

definition pending_ids :: "store \<Rightarrow> string set" where
  "pending_ids st = r_id ` {r \<in> set (s_rows st). r_pending r}"

definition current :: "store \<Rightarrow> generation \<Rightarrow> bool" where
  "current st g \<longleftrightarrow> (\<exists>r \<in> set (s_rows st). r_id r = g_id g \<and> r_revision r = g_pricing_revision g \<and> \<not> r_reported r)
     \<and> g_cost_source g \<in> set cost_sources"

lemma current_repriced: "list_all2 repriced (s_rows st) (s_rows st') \<Longrightarrow> current st g \<Longrightarrow> current st' g"
proof -
  assume all: "list_all2 repriced (s_rows st) (s_rows st')" and cur: "current st g"
  then obtain r where r: "r \<in> set (s_rows st)" "r_id r = g_id g" "r_revision r = g_pricing_revision g" "\<not> r_reported r"
    by (auto simp: current_def)
  from list_all2_member [OF all r(1)] obtain r' where r': "r' \<in> set (s_rows st')" "repriced r r'" by blast
  then have "r_id r' = r_id r \<and> r_revision r' = r_revision r \<and> r_reported r' = r_reported r"
    using telemetry_cols [of r' r] by (simp add: repriced_def)
  with r r'(1) cur show ?thesis unfolding current_def by (intro conjI bexI [of _ r']) simp_all
qed

lemma ApplyPricing_current:
  assumes "current st g" "store_ok st" "dated st" "\<And>x. \<not> fault x"
  shows "\<exists>u st'. ApplyPricing fault g st = (Inr u, st') \<and> pending_ids st' = pending_ids st - {g_id g}"
proof -
  obtain r where r: "r \<in> set (s_rows st)" "r_id r = g_id g" "priceable g r"
    using assms(1) by (auto simp: current_def priceable_def)
  have dist: "distinct (map r_id (s_rows st))" using assms(2) by (simp add: store_ok_def ids_def)
  obtain snapshot snaps where snap: "snapshot_for g (s_snapshots st) = (snapshot, snaps)" by fastforce
  have "exec_update (g_id g) (priceable g) (price_row g snapshot) (st\<lparr>s_snapshots := snaps\<rparr>) \<noteq> None"
    using assms(2,3) by (intro exec_update_total) (simp_all add: price_row_def)
  then obtain st' n where u: "exec_update (g_id g) (priceable g) (price_row g snapshot) (st\<lparr>s_snapshots := snaps\<rparr>) = Some (st', n)"
    by auto
  from exec_update_Some [OF u] r obtain xs old ys where rows: "n = 1" "s_rows st = xs @ old # ys" "r_id old = g_id g"
    "s_rows st' = xs @ price_row g snapshot old # ys"
    by auto
  have p: "(\<lambda>r. r_revision r = g_pricing_revision g \<and> \<not> r_reported r) = priceable g"
    by (simp add: priceable_def fun_eq_iff)
  have res: "ApplyPricing fault g st = (Inr (g_cost g \<noteq> None), st')"
    using assms(1,4) u rows(1) unfolding ApplyPricing_def p snapshot_for_def [symmetric] snap
    by (simp add: current_def)
  have "r_id x \<noteq> g_id g" if "x \<in> set xs \<union> set ys" for x
    using distinct_key_split [of r_id xs old ys x] dist that rows(2,3) by simp
  then have "pending_ids st' = pending_ids st - {g_id g}"
    using rows unfolding pending_ids_def by (auto simp: price_row_def)
  with res show ?thesis by blast
qed

lemma price_with_keeps: "g_id (price_with enc origin i r stamp g) = g_id g"
  "g_pricing_revision (price_with enc origin i r stamp g) = g_pricing_revision g"
  "origin \<in> set cost_sources \<Longrightarrow> g_cost_source g \<in> set cost_sources \<Longrightarrow>
    g_cost_source (price_with enc origin i r stamp g) \<in> set cost_sources"
  by (simp_all add: price_with_def Let_def split: option.splits)

lemma enrich_keeps: "g_id (enrich enc dec s g) = g_id g"
  "g_pricing_revision (enrich enc dec s g) = g_pricing_revision g"
  "g_cost_source g \<in> set cost_sources \<Longrightarrow> g_cost_source (enrich enc dec s g) \<in> set cost_sources"
proof -
  have src: "''openrouter'' \<in> set cost_sources" "''manual'' \<in> set cost_sources" "''free'' \<in> set cost_sources"
    by (simp_all add: cost_sources_def)
  show "g_id (enrich enc dec s g) = g_id g" "g_pricing_revision (enrich enc dec s g) = g_pricing_revision g"
    by (simp_all add: enrich_def price_with_keeps split: option.splits)
  show "g_cost_source g \<in> set cost_sources \<Longrightarrow> g_cost_source (enrich enc dec s g) \<in> set cost_sources"
    by (auto simp: enrich_def price_with_keeps(3) src split: option.splits)
qed

lemma current_enrich: "current st g \<Longrightarrow> current st (enrich enc dec s g)"
  by (simp add: current_def enrich_keeps)

lemma price_rows_drain:
  assumes "store_ok st" "dated st" "\<forall>g \<in> set gs. current st g" "\<And>i x. \<not> fault i x"
  shows "\<exists>changed' after' st'. price_rows False fault (enrich enc dec s) gs changed after st = (None, changed', after', st')
    \<and> pending_ids st' = pending_ids st - g_id ` set gs \<and> store_ok st' \<and> dated st'"
  using assms(1-3)
proof (induction gs arbitrary: changed after st)
  case (Cons g gs)
  have "current st (enrich enc dec s g)" using Cons.prems(3) current_enrich by simp
  from ApplyPricing_current [OF this Cons.prems(1,2), of "fault (g_id g)"] assms(4)
  obtain u st1 where one: "ApplyPricing (fault (g_id g)) (enrich enc dec s g) st = (Inr u, st1)"
    "pending_ids st1 = pending_ids st - {g_id g}"
    by (auto simp: enrich_keeps)
  have ok: "store_ok st1 \<and> dated st1" using ApplyPricing_ok [OF one(1) Cons.prems(1,2)] .
  have "\<forall>h \<in> set gs. current st1 h"
    using Cons.prems(3) current_repriced [OF ApplyPricing_repriced [OF one(1)]] by simp
  from Cons.IH [OF conjunct1 [OF ok] conjunct2 [OF ok] this, of "changed \<or> u" "g_id g"]
  show ?case using one by auto
qed simp

lemma pricingRows_current:
  assumes "store_ok st"
  shows "\<forall>g \<in> set (pricingRows r_pending after st). current st g"
proof
  fix g assume "g \<in> set (pricingRows r_pending after st)"
  then obtain r where r: "r \<in> set (s_rows st)" "r_pending r" "g = scanGeneration (s_snapshots st) r"
    by (auto simp: pricingRows_def dest!: in_set_takeD)
  then have "row_ok r" using assms(1) by (simp add: store_ok_def)
  with r show "current st g"
    by (auto simp: current_def row_ok_def scanGeneration_def cost_sources_def intro!: bexI [of _ r])
qed

text \<open>A page takes the smallest ids: what it leaves is behind its last one.\<close>

lemma sorted_take_rest:
  assumes "sorted (map f xs)" "distinct (map f xs)" "0 < n" "xs \<noteq> []" "x \<in> set xs" "x \<notin> set (take n xs)"
  shows "f (last (take n xs)) < f x"
proof -
  have "x \<in> set (drop n xs)" using assms(5,6) by (metis Un_iff append_take_drop_id set_append)
  moreover have "last (take n xs) \<in> set (take n xs)" using assms(3,4) by (intro last_in_set) simp
  moreover have "sorted (map f (take n xs) @ map f (drop n xs))" "distinct (map f (take n xs) @ map f (drop n xs))"
    using assms(1,2) by (simp_all flip: map_append)
  then have "\<forall>a \<in> set (take n xs). \<forall>b \<in> set (drop n xs). f a \<le> f b"
    "f ` set (take n xs) \<inter> f ` set (drop n xs) = {}"
    by (simp_all add: sorted_append)
  ultimately show ?thesis by (metis disjoint_iff imageI order_less_le)
qed

lemma price_pages_drain:
  assumes "\<And>i. \<not> read_fault i" "\<And>i x. \<not> fault i x"
  shows "store_ok st \<Longrightarrow> dated st \<Longrightarrow> \<forall>i \<in> pending_ids st. after < i \<Longrightarrow>
    \<exists>changed' st'. price_pages r_pending False read_fault fault (enrich enc dec s) changed after st = Some (None, changed', st')
      \<and> pending_ids st' = {}"
proof (induction changed after st rule: price_pages_induct
    [where P = r_pending and skip = False and fault = fault and enr = "enrich enc dec s"])
  case (1 changed after st)
  define rows where "rows = sort_key r_id (filter (\<lambda>r. r_pending r \<and> after < r_id r) (s_rows st))"
  have page: "pricingRows r_pending after st = map (scanGeneration (s_snapshots st)) (take 200 rows)"
    by (simp add: pricingRows_def rows_def)
  have in_rows: "r \<in> set rows \<longleftrightarrow> r \<in> set (s_rows st) \<and> r_pending r" for r
    using 1(4) by (auto simp: rows_def pending_ids_def)
  show ?case
  proof (cases "rows = []")
    case True
    then have "pending_ids st = {}" using in_rows by (auto simp: pending_ids_def)
    with True page show ?thesis by (subst price_pages.simps) (simp add: assms)
  next
    case False
    note drained = price_rows_drain [OF 1(2,3) pricingRows_current [OF 1(2)], of fault, OF assms(2)]
    obtain changed' after' st' where p: "price_rows False fault (enrich enc dec s) (pricingRows r_pending after st) changed after st
        = (None, changed', after', st')" "pending_ids st' = pending_ids st - g_id ` set (pricingRows r_pending after st)"
      "store_ok st'" "dated st'" using drained by blast
    have ne: "pricingRows r_pending after st \<noteq> []" using False page by simp
    have after': "after' = r_id (last (take 200 rows))"
      using price_rows_after [OF p(1)] False by (simp add: page last_map)
    have dist: "distinct (map r_id rows)" "sorted (map r_id rows)"
      using 1(2) by (auto simp: rows_def store_ok_def ids_def distinct_map intro: inj_on_subset)
    have "\<forall>i \<in> pending_ids st'. after' < i"
    proof
      fix i assume "i \<in> pending_ids st'"
      then have i: "i \<in> pending_ids st" "i \<notin> r_id ` set (take 200 rows)"
        by (simp_all add: p(2) page image_image)
      then obtain r where "r \<in> set rows" "i = r_id r" "r \<notin> set (take 200 rows)"
        by (auto simp: pending_ids_def in_rows)
      with sorted_take_rest [OF dist(2,1), of 200 r] False show "after' < i" by (simp add: after')
    qed
    from 1(1) [OF ne p(1,3,4) this] show ?thesis
      using assms(1) [of after] ne p(1) by (subst price_pages.simps) simp
  qed
qed

section \<open>Properties\<close>

definition no_pricing_faults :: pricing_faults where
  "no_pricing_faults = \<lparr>pf_read_catalog = False, pf_save_catalog = False, pf_page = (\<lambda>_. False),
     pf_update = (\<lambda>_ _. False), pf_job_read = False, pf_job_write = False\<rparr>"

definition sample_service :: pricing_service where
  "sample_service = (New [])\<lparr>ps_catalog := [(''acme/m1'', sample_rates)], ps_loaded := True, ps_backfill_done := True\<rparr>"

lemma process_ends:
  "\<exists>res. process J enc_catalog dec_catalog enc dec fs stopping response now later s db st = Some res"
proof -
  have backfill: "\<exists>res. run_backfill enc dec fs s' db' st' = Some res" for s' db' st'
    using price_pages_ends [of "\<lambda>r. r_cost r = None" False "pf_page fs" "pf_update fs" "enrich enc dec s'" False "[]" st']
    by (auto simp: run_backfill_def split: option.splits)
  have queue: "\<exists>res. price_queue enc dec fs later s' db' st = Some res" for s' db'
    using price_pages_ends [of r_pending "ps_catalog s' = []" "pf_page fs" "pf_update fs" "enrich enc dec s'" False "[]" st]
      backfill by (auto simp: price_queue_def split: option.splits) (metis option.simps(9))
  show ?thesis using queue
    by (auto simp: process_def split: prod.splits)
qed

text \<open>C12: a run of the pricing worker always ends, whatever rows are queued, whichever prices are
  known and whatever fails on the way: each page moves past the ids it has seen.\<close>

theorem pricing_run_terminates:
  "\<exists>res. process J enc_catalog dec_catalog enc dec fs stopping response now later s db st = Some res"
  by (rule process_ends)

text \<open>C19: a run changes nothing but the price columns, never touches a row whose cost the
  harness reported, never queues a row, and keeps the rollups equal to a grouping of the rows.\<close>

theorem pricing_run_is_safe:
  assumes "process J enc_catalog dec_catalog enc dec fs stopping response now later s db st = Some (e, changed, s', db', st')"
  shows "list_all2 repriced (s_rows st) (s_rows st')
    \<and> (store_ok st \<and> dated st \<longrightarrow> store_ok st' \<and> dated st')"
proof -
  have trans: "list_all2 repriced a b \<Longrightarrow> list_all2 repriced b c \<Longrightarrow> list_all2 repriced a c" for a b c
    by (rule list_all2_trans [OF repriced_trans])
  have backfill: "list_all2 repriced (s_rows t) (s_rows t') \<and> writes\<^sup>*\<^sup>* t t'"
    if "run_backfill enc dec fs s1 db1 t = Some (e1, ch, s2, db2, t')" for s1 db1 t e1 ch s2 db2 t'
    using that price_pages_repriced
    by (fastforce simp: run_backfill_def list.rel_refl split: if_splits option.splits)
  have queue: "list_all2 repriced (s_rows st) (s_rows t') \<and> writes\<^sup>*\<^sup>* st t'"
    if q: "price_queue enc dec fs later s1 db1 st = Some (e1, ch, s2, db2, t')" for s1 db1 e1 ch s2 db2 t'
  proof -
    obtain x ch1 t1 where pages: "price_pages r_pending (ps_catalog s1 = []) (pf_page fs) (pf_update fs) (enrich enc dec s1) False [] st
        = Some (x, ch1, t1)"
      using q by (auto simp: price_queue_def split: option.splits)
    note first = price_pages_repriced [OF pages]
    show ?thesis
    proof (cases "t' = t1")
      case True
      with first show ?thesis by simp
    next
      case False
      then obtain e2 ch2 where "run_backfill enc dec fs s1 db1 t1 = Some (e2, ch2, s2, db2, t')"
        using q pages by (auto simp: price_queue_def split: option.splits if_splits)
      from backfill [OF this] first trans show ?thesis by (meson rtranclp_trans)
    qed
  qed
  have "list_all2 repriced (s_rows st) (s_rows st') \<and> writes\<^sup>*\<^sup>* st st'"
    using assms queue by (auto simp: process_def list.rel_refl split: prod.splits if_splits)
  moreover have "store_ok st' \<and> dated st'" if "writes\<^sup>*\<^sup>* st st'" "store_ok st \<and> dated st"
    using that by (induction rule: rtranclp_induct) (auto dest: writes_ok)
  ultimately show ?thesis by blast
qed

theorem pricing_run_is_safe_witness:
  "\<exists>e changed s' db' st'. process (\<lambda>_. None) (\<lambda>_. []) (\<lambda>_. None) (\<lambda>_. []) (\<lambda>_. None) no_pricing_faults False
     (Some (500, ''x'')) 1 2 sample_service \<lparr>pd_catalog = None, pd_jobs = []\<rparr> sample_store = Some (e, changed, s', db', st')
     \<and> list_all2 repriced (s_rows sample_store) (s_rows st')"
proof -
  obtain e changed s' db' st' where "process (\<lambda>_. None) (\<lambda>_. []) (\<lambda>_. None) (\<lambda>_. []) (\<lambda>_. None) no_pricing_faults False
     (Some (500, ''x'')) 1 2 sample_service \<lparr>pd_catalog = None, pd_jobs = []\<rparr> sample_store = Some (e, changed, s', db', st')"
    using process_ends by (metis prod_cases5)
  with pricing_run_is_safe [OF this] show ?thesis by blast
qed



text \<open>The worker asks for the catalog at most once per cool-down: after a request that
  failed none is made for five minutes, after one that succeeded none for a day, whatever the
  responses.\<close>

theorem refresh_backs_off:
  assumes "refresh J ec dc rf sf response now later s db = (err, True, s', db')"
    and "now \<le> later" "0 \<le> now" "now2 < (if err = None then later + cacheTTL else now + retryDelay)"
  shows "refresh J ec dc rf2 sf2 response2 now2 later2 s' db' = (None, False, s', db')"
proof -
  have "ps_loaded s'"
    using assms(1) by (auto simp: refresh_def load_catalog_def Let_def split: if_splits sum.splits option.splits prod.splits)
  moreover have "if err = None then ps_fetched s' = later else ps_retry_at s' = now + retryDelay"
    using assms(1) by (auto simp: refresh_def Let_def split: if_splits sum.splits option.splits prod.splits)
  moreover have "\<not> is_zero_time later" using assms(2,3) by (simp add: is_zero_time_def zero_time_def)
  ultimately show ?thesis using assms(4) by (auto simp: refresh_def load_catalog_def split: if_splits)
qed

theorem refresh_backs_off_witness:
  "fst (snd (refresh (\<lambda>_. None) (\<lambda>_. []) (\<lambda>_. None) False False (Some (200, ''y'')) 8 9
     (fst (snd (snd (refresh (\<lambda>_. None) (\<lambda>_. []) (\<lambda>_. None) False False (Some (500, ''x'')) 5 6 (New [])
        \<lparr>pd_catalog = None, pd_jobs = []\<rparr>)))) \<lparr>pd_catalog = None, pd_jobs = []\<rparr>)) = False"
proof -
  have first: "refresh (\<lambda>_. None) (\<lambda>_. []) (\<lambda>_. None) False False (Some (500, ''x'')) 5 6 (New [])
      \<lparr>pd_catalog = None, pd_jobs = []\<rparr>
      = (Some (HTTPStatus 500), True, (New [])\<lparr>ps_loaded := True, ps_retry_at := 5 + retryDelay\<rparr>, \<lparr>pd_catalog = None, pd_jobs = []\<rparr>)"
    by (simp add: refresh_def load_catalog_def New_def PricingCatalog_def is_zero_time_def zero_time_def Let_def)
  show ?thesis
    unfolding first snd_conv fst_conv
    by (subst refresh_backs_off [OF first]) (simp_all add: retryDelay_def)
qed

text \<open>An estimate keeps the rates it was made with: a row that already has a rate set is
  never matched against a newer catalog, and a price reported by the harness is never replaced.\<close>

theorem estimates_keep_their_rates:
  assumes "g_pricing_rates g \<noteq> []"
  shows "g_pricing_rates (enrich enc dec s g) = g_pricing_rates g
    \<and> g_pricing_model_id (enrich enc dec s g) = g_pricing_model_id g
    \<and> g_pricing_fetched_at (enrich enc dec s g) = g_pricing_fetched_at g
    \<and> enrich enc dec s g = enrich enc dec s2 g
    \<and> (g_cost_reported g \<longrightarrow> enrich enc dec s g = g)"
  using assms by (simp add: enrich_def split: option.splits)

theorem estimates_keep_their_rates_witness:
  "g_pricing_rates (enrich (\<lambda>_. []) (\<lambda>_. None) sample_service (sample_gen\<lparr>g_pricing_rates := ''r''\<rparr>)) = ''r''"
  using estimates_keep_their_rates [of "sample_gen\<lparr>g_pricing_rates := ''r''\<rparr>"] by simp

end
