(* ===== verification/Config.thy ===== *)
theory Config
  imports Float64 Sessions
begin

text \<open>
  The configuration (\<open>internal/config/config.go\<close>): command line flags and environment variables as
  one record, the checks that refuse it, and the durations and paths it is parsed from.

  What the source uses of \<open>flag\<close>, \<open>time.ParseDuration\<close> and \<open>path/filepath\<close> (of a Unix host) is
  modelled from their documentation and code.  Parameters: \<open>lookup\<close> is the environment, \<open>url\<close> is
  \<open>url.Parse\<close>, \<open>mkdir\<close> says whether \<open>os.MkdirAll\<close> succeeds on a path.
\<close>

section \<open>Flags\<close>

datatype flag_error = BadFlagSyntax string | FlagHelp | UndefinedFlag string | FlagNeedsArgument string

text \<open>A flag's name and the value behind the first equals sign, which is not looked for in front.\<close>

definition cut_flag :: "string \<Rightarrow> string \<times> string option" where
  "cut_flag s = (case cut_at (CHR ''='') (tl s) of
     None \<Rightarrow> (s, None) | Some (a, v) \<Rightarrow> (hd s # a, Some v))"

text \<open>
  \<open>FlagSet.Parse\<close> for string flags: the assignments in order.  Parsing stops at \<open>--\<close>, at a lone
  dash and at the first argument that is no flag.
\<close>

fun parse_flags :: "string list \<Rightarrow> string list \<Rightarrow> flag_error + (string \<times> string) list" where
  "parse_flags names [] = Inr []"
| "parse_flags names (s # args) =
     (if length s < 2 \<or> hd s \<noteq> CHR ''-'' \<or> s = ''--'' then Inr []
      else let body = (if s ! 1 = CHR ''-'' then drop 2 s else drop 1 s) in
        if hd body = CHR ''-'' \<or> hd body = CHR ''='' then Inl (BadFlagSyntax s)
        else case cut_flag body of (name, val) \<Rightarrow>
          if name \<notin> set names then
            Inl (if name = ''help'' \<or> name = ''h'' then FlagHelp else UndefinedFlag name)
          else case val of
            Some v \<Rightarrow> ebind (parse_flags names args) (\<lambda>fs. Inr ((name, v) # fs))
          | None \<Rightarrow> (case args of
              [] \<Rightarrow> Inl (FlagNeedsArgument name)
            | v # rest \<Rightarrow> ebind (parse_flags names rest) (\<lambda>fs. Inr ((name, v) # fs))))"

definition envNames :: "(string \<times> string) list" where
  "envNames = [
     (''backup-s3-session-token'', ''AI_USAGE_BACKUP_S3_SESSION_TOKEN''),
     (''backup-s3-secret-access-key'', ''AI_USAGE_BACKUP_S3_SECRET_ACCESS_KEY''),
     (''backup-s3-access-key-id'', ''AI_USAGE_BACKUP_S3_ACCESS_KEY_ID''),
     (''backup-s3-bucket'', ''AI_USAGE_BACKUP_S3_BUCKET''),
     (''backup-s3-region'', ''AI_USAGE_BACKUP_S3_REGION''),
     (''backup-s3-prefix'', ''AI_USAGE_BACKUP_S3_PREFIX''),
     (''backup-s3-endpoint'', ''AI_USAGE_BACKUP_S3_ENDPOINT''),
     (''http'', ''AI_USAGE_HTTP_ADDR''),
     (''otlp-http'', ''AI_USAGE_OTLP_HTTP_ADDR''),
     (''otlp-grpc'', ''AI_USAGE_OTLP_GRPC_ADDR''),
     (''data-dir'', ''AI_USAGE_DATA_DIR''),
     (''database'', ''AI_USAGE_DATABASE''),
     (''pricing-file'', ''AI_USAGE_PRICING_FILE''),
     (''log-level'', ''AI_USAGE_LOG_LEVEL''),
     (''dashboard-user'', ''AI_USAGE_DASHBOARD_USER''),
     (''dashboard-password'', ''AI_USAGE_DASHBOARD_PASSWORD''),
     (''otlp-token'', ''AI_USAGE_OTLP_TOKEN''),
     (''session-secret'', ''AI_USAGE_SESSION_SECRET''),
     (''session-ttl'', ''AI_USAGE_SESSION_TTL'')]"

definition env_name :: "string \<Rightarrow> string" where
  "env_name name = (case map_of envNames name of Some e \<Rightarrow> e | None \<Rightarrow> [])"

text \<open>The names of the flags defined are those with an environment variable.\<close>

definition flag_names :: "string list" where
  "flag_names = map fst envNames"

text \<open>The last assignment of a flag wins, then the environment.\<close>

definition flagOrEnv :: "(string \<times> string) list \<Rightarrow> (string \<Rightarrow> string option) \<Rightarrow> string \<Rightarrow> string option" where
  "flagOrEnv flags lookup name = (case map_of (rev flags) name of
     Some v \<Rightarrow> Some v | None \<Rightarrow> lookup (env_name name))"

definition resolve :: "(string \<times> string) list \<Rightarrow> (string \<Rightarrow> string option) \<Rightarrow> string \<Rightarrow> string \<Rightarrow> string" where
  "resolve flags lookup name def = (case flagOrEnv flags lookup name of Some v \<Rightarrow> v | None \<Rightarrow> def)"

section \<open>Durations\<close>

text \<open>
  \<open>time.ParseDuration\<close>: \<open>leadingInt\<close> refuses what exceeds \<open>2^63\<close>; \<open>leadingFraction\<close> drops the digits that
  would, and returns the fraction with its scale.
\<close>

fun leadingInt :: "int \<Rightarrow> string \<Rightarrow> (int \<times> string) option" where
  "leadingInt x [] = Some (x, [])"
| "leadingInt x (c # cs) = (if \<not> is_digit c then Some (x, c # cs)
     else if 2 ^ 63 div 10 < x then None
     else if 2 ^ 63 < x * 10 + digit_val c then None
     else leadingInt (x * 10 + digit_val c) cs)"

fun leadingFraction :: "int \<Rightarrow> nat \<Rightarrow> bool \<Rightarrow> string \<Rightarrow> int \<times> nat \<times> string" where
  "leadingFraction x k over [] = (x, k, [])"
| "leadingFraction x k over (c # cs) = (if \<not> is_digit c then (x, k, c # cs)
     else if over \<or> (2 ^ 63 - 1) div 10 < x \<or> 2 ^ 63 < x * 10 + digit_val c then leadingFraction x k True cs
     else leadingFraction (x * 10 + digit_val c) (k + 1) False cs)"

definition unitMap :: "(string \<times> int) list" where
  "unitMap = [(''ns'', 1), (''us'', 1000), ([CHR 0xC2, CHR 0xB5, CHR ''s''], 1000),
     ([CHR 0xCE, CHR 0xBC, CHR ''s''], 1000), (''ms'', 1000000), (''s'', 1000000000),
     (''m'', 60 * 1000000000), (''h'', 3600 * 1000000000)]"

definition unit_char :: "char \<Rightarrow> bool" where
  "unit_char c \<longleftrightarrow> c \<noteq> CHR ''.'' \<and> \<not> is_digit c"

text \<open>One number with its unit: the nanoseconds and the rest of the string.\<close>

definition take_term :: "string \<Rightarrow> (int \<times> string) option" where
  "take_term s = (if s = [] \<or> (hd s \<noteq> CHR ''.'' \<and> \<not> is_digit (hd s)) then None
     else case leadingInt 0 s of None \<Rightarrow> None
     | Some (v, s1) \<Rightarrow> (let
         pre = (length s \<noteq> length s1);
         (f, k, s2) = (if s1 \<noteq> [] \<and> hd s1 = CHR ''.'' then leadingFraction 0 0 False (tl s1) else (0, 0, s1));
         post = (s1 \<noteq> [] \<and> hd s1 = CHR ''.'' \<and> length (tl s1) \<noteq> length s2);
         u = takeWhile unit_char s2 in
       if (\<not> pre \<and> \<not> post) \<or> u = [] then None
       else case map_of unitMap u of None \<Rightarrow> None
       | Some unit \<Rightarrow>
           if 2 ^ 63 div unit < v then None
           else let w = v * unit + (if 0 < f
               then trunc_rat (fin_val (f_mul (f_of_int f) (f_div (f_of_int unit) (10 ^ k)))) else 0) in
             if 0 < f \<and> 2 ^ 63 < w then None else Some (w, dropWhile unit_char s2)))"

lemma leadingInt_length: "leadingInt x s = Some (y, r) \<Longrightarrow> length r \<le> length s"
  by (induction x s rule: leadingInt.induct) (auto split: if_splits)

lemma leadingFraction_length: "leadingFraction x k b s = (y, j, r) \<Longrightarrow> length r \<le> length s"
  by (induction x k b s rule: leadingFraction.induct) (auto split: if_splits)

lemma take_term_shorter: "take_term s = Some (w, r) \<Longrightarrow> length r < length s"
proof -
  assume t: "take_term s = Some (w, r)"
  then obtain v s1 where v: "leadingInt 0 s = Some (v, s1)" by (auto simp: take_term_def split: if_splits option.splits)
  define q where "q = (if s1 \<noteq> [] \<and> hd s1 = CHR ''.'' then leadingFraction 0 0 False (tl s1) else (0, 0, s1))"
  obtain f k s2 where q2: "q = (f, k, s2)" by (cases q) auto
  have "length s2 \<le> length s1"
    using q2 leadingFraction_length [of 0 0 False "tl s1"] by (fastforce simp: q_def split: if_splits)
  moreover have "takeWhile unit_char s2 \<noteq> [] \<and> r = dropWhile unit_char s2"
    using t v q2 by (auto simp: take_term_def Let_def q_def split: if_splits option.splits)
  moreover have "length (takeWhile unit_char s2) + length (dropWhile unit_char s2) = length s2"
    by (metis length_append takeWhile_dropWhile_id)
  ultimately show ?thesis using leadingInt_length [OF v] by (cases "takeWhile unit_char s2") auto
qed

function duration_loop :: "int \<Rightarrow> string \<Rightarrow> int option" where
  "duration_loop d s = (if s = [] then Some d
     else case take_term s of None \<Rightarrow> None
     | Some (v, r) \<Rightarrow> (let d' = (d + v) mod 2 ^ 64 in if 2 ^ 63 < d' then None else duration_loop d' r))"
  by pat_completeness auto
termination
  by (relation "measure (\<lambda>(d, s). length s)") (auto dest: take_term_shorter)

declare duration_loop.simps [simp del]

definition ParseDuration :: "string \<Rightarrow> int option" where
  "ParseDuration s0 = (let (neg, s) = split_sign s0 in
     if s = ''0'' then Some 0
     else if s = [] then None
     else case duration_loop 0 s of None \<Rightarrow> None
     | Some d \<Rightarrow> if neg then Some (wrap64 (- d)) else if 2 ^ 63 - 1 < d then None else Some d)"

section \<open>Paths\<close>

text \<open>\<open>filepath.Join\<close> and \<open>Clean\<close>: \<open>..\<close> drops the element before it, or is kept where there is none.\<close>

fun clean_parts :: "bool \<Rightarrow> string list \<Rightarrow> string list \<Rightarrow> string list" where
  "clean_parts rooted done [] = rev done"
| "clean_parts rooted done (e # es) =
     (if e = [] \<or> e = ''.'' then clean_parts rooted done es
      else if e \<noteq> ''..'' then clean_parts rooted (e # done) es
      else case done of
        d # ds \<Rightarrow> if d = ''..'' then clean_parts rooted (e # done) es else clean_parts rooted ds es
      | [] \<Rightarrow> if rooted then clean_parts rooted [] es else clean_parts rooted [e] es)"

fun join_with :: "char \<Rightarrow> string list \<Rightarrow> string" where
  "join_with c [] = []"
| "join_with c [e] = e"
| "join_with c (e # es) = e @ c # join_with c es"

definition is_abs :: "string \<Rightarrow> bool" where
  "is_abs p \<longleftrightarrow> p \<noteq> [] \<and> hd p = CHR ''/''"

definition clean_path :: "string \<Rightarrow> string" where
  "clean_path p = (let body = join_with (CHR ''/'') (clean_parts (is_abs p) [] (split_on (CHR ''/'') p)) in
     if is_abs p then CHR ''/'' # body else if body = [] then ''.'' else body)"

definition join_path :: "string list \<Rightarrow> string" where
  "join_path es = (case dropWhile (\<lambda>e. e = []) es of [] \<Rightarrow> []
     | es' \<Rightarrow> clean_path (join_with (CHR ''/'') es'))"

definition userDataDir :: "string \<Rightarrow> string \<Rightarrow> (string \<Rightarrow> string option) \<Rightarrow> string" where
  "userDataDir goos homeDir lookup =
     (if goos = ''windows'' then (case lookup ''LOCALAPPDATA'' of
        Some v \<Rightarrow> if v \<noteq> [] then v else join_path [homeDir, ''AppData'', ''Local'']
      | None \<Rightarrow> join_path [homeDir, ''AppData'', ''Local''])
      else if goos = ''darwin'' then join_path [homeDir, ''Library'', ''Application Support'']
      else case lookup ''XDG_DATA_HOME'' of
        Some v \<Rightarrow> if v \<noteq> [] \<and> is_abs v then v else join_path [homeDir, ''.local'', ''share'']
      | None \<Rightarrow> join_path [homeDir, ''.local'', ''share''])"

section \<open>The configuration\<close>

record config =
  PricingFile :: string
  BackupS3SessionToken :: string
  BackupS3SecretAccessKey :: string
  BackupS3AccessKeyID :: string
  BackupS3Bucket :: string
  BackupS3Region :: string
  BackupS3Prefix :: string
  BackupS3Endpoint :: string
  HTTPAddr :: string
  OTLPHTTPAddr :: string
  OTLPGRPCAddr :: string
  DataDir :: string
  DatabasePath :: string
  LogLevel :: string
  DashboardUser :: string
  DashboardPassword :: string
  OTLPToken :: string
  SessionSecret :: string
  SessionTTL :: int

definition MinSessionSecretLen :: nat where "MinSessionSecretLen = 32"
definition MaxSessionTTL :: int where "MaxSessionTTL = 365 * day_ns"

datatype config_error = FlagError flag_error | BackupNeedsBucket | InvalidBackupBucket | InvalidBackupPrefix
  | InvalidBackupEndpoint | InvalidSessionTTL string | DataDirError | InvalidLogLevel string
  | CredentialsTogether | SecretNeedsCredentials | SecretTooShort | SecretWhitespace
  | TTLNeedsCredentials | InvalidAddress string string | PublicWithoutCredentials string

definition parseSessionTTL :: "string \<Rightarrow> config_error + int" where
  "parseSessionTTL v = ebind
     (if suffix ''d'' v then
        (case parse_int64 (trim_suffix v ''d'') of None \<Rightarrow> Inl (InvalidSessionTTL v)
         | Some n \<Rightarrow> if n \<le> 0 \<or> MaxSessionTTL div day_ns < n then Inl (InvalidSessionTTL v) else Inr (n * day_ns))
      else case ParseDuration v of None \<Rightarrow> Inl (InvalidSessionTTL v) | Some d \<Rightarrow> Inr d)
     (\<lambda>d. if d < 60 * second_ns \<or> MaxSessionTTL < d then Inl (InvalidSessionTTL v) else Inr d)"

definition DashboardAuthEnabled :: "config \<Rightarrow> bool" where
  "DashboardAuthEnabled c \<longleftrightarrow> DashboardUser c \<noteq> [] \<and> DashboardPassword c \<noteq> []"

definition isLoopbackAddr :: "string \<Rightarrow> bool option" where
  "isLoopbackAddr addr = (case split_host_port addr of None \<Rightarrow> None
     | Some (host, _) \<Rightarrow>
         if host = [] then Some False
         else if equal_fold host ''localhost'' then Some True
         else case parse_ip host of Some ip \<Rightarrow> Some (is_loopback ip) | None \<Rightarrow> Some False)"

definition PublicAddr :: "string \<Rightarrow> bool" where
  "PublicAddr addr \<longleftrightarrow> isLoopbackAddr addr \<noteq> Some True"

definition requireLoopback :: "string \<Rightarrow> string \<Rightarrow> config_error + unit" where
  "requireLoopback addr flagName = (case isLoopbackAddr addr of
     None \<Rightarrow> Inl (InvalidAddress flagName addr)
   | Some loop \<Rightarrow> if \<not> loop then Inl (PublicWithoutCredentials addr) else Inr ())"

text \<open>
  The two OTLP addresses are visited in an order Go leaves open; it decides only which of two
  invalid addresses the error names.
\<close>

definition validateAuth :: "config \<Rightarrow> config_error + unit" where
  "validateAuth c =
     (if (DashboardUser c = []) \<noteq> (DashboardPassword c = []) then Inl CredentialsTogether
      else if SessionSecret c \<noteq> [] \<and> \<not> DashboardAuthEnabled c then Inl SecretNeedsCredentials
      else if SessionSecret c \<noteq> [] \<and> length (SessionSecret c) < MinSessionSecretLen then Inl SecretTooShort
      else if SessionSecret c \<noteq> [] \<and> trim_space (SessionSecret c) \<noteq> SessionSecret c then Inl SecretWhitespace
      else if SessionTTL c \<noteq> 0 \<and> \<not> DashboardAuthEnabled c then Inl TTLNeedsCredentials
      else ebind (if HTTPAddr c \<noteq> [] \<and> \<not> DashboardAuthEnabled c then requireLoopback (HTTPAddr c) ''--http'' else Inr ())
        (\<lambda>_. if OTLPHTTPAddr c \<noteq> [] \<and> isLoopbackAddr (OTLPHTTPAddr c) = None
               then Inl (InvalidAddress ''--otlp-http'' (OTLPHTTPAddr c))
             else if OTLPGRPCAddr c \<noteq> [] \<and> isLoopbackAddr (OTLPGRPCAddr c) = None
               then Inl (InvalidAddress ''--otlp-grpc'' (OTLPGRPCAddr c))
             else Inr ()))"

text \<open>What \<open>url.Parse\<close> tells about the endpoint.\<close>

record url_parts =
  u_scheme :: string
  u_hostname :: string
  u_user :: bool
  u_query :: string
  u_fragment :: string
  u_path :: string

definition contains_any :: "string \<Rightarrow> string \<Rightarrow> bool" where
  "contains_any s chars \<longleftrightarrow> list_ex (\<lambda>c. c \<in> set chars) s"

definition valid_endpoint :: "url_parts \<Rightarrow> bool" where
  "valid_endpoint u \<longleftrightarrow> u_hostname u \<noteq> [] \<and> (u_scheme u = ''https'' \<or> u_scheme u = ''http'') \<and> \<not> u_user u
     \<and> u_query u = [] \<and> u_fragment u = [] \<and> (u_path u = [] \<or> u_path u = ''/'')"

definition backup_companions :: "string list" where
  "backup_companions = [''backup-s3-region'', ''backup-s3-prefix'', ''backup-s3-endpoint'',
     ''backup-s3-access-key-id'', ''backup-s3-secret-access-key'', ''backup-s3-session-token'']"

text \<open>The checks of the backup options; which of several companions the first error names is left open.\<close>

definition validateBackup :: "(string \<Rightarrow> url_parts option) \<Rightarrow> (string \<Rightarrow> string option) \<Rightarrow> config \<Rightarrow> config_error + unit" where
  "validateBackup url supplied c =
     (if BackupS3Bucket c = [] then
        (if list_ex (\<lambda>name. supplied name \<noteq> None) backup_companions then Inl BackupNeedsBucket else Inr ())
      else if trim_space (BackupS3Bucket c) \<noteq> BackupS3Bucket c
          \<or> contains_any (BackupS3Bucket c) (''/'' @ [CHR 0x5C] @ '':@?#'') then Inl InvalidBackupBucket
      else let p = BackupS3Prefix c in
        if trim_space p \<noteq> p \<or> p = [] \<or> p = ''/'' \<or> prefix ''/'' p \<or> \<not> suffix ''/'' p
            \<or> contains_any p [CHR 0x0D, CHR 0x0A, CHR 0x5C] then Inl InvalidBackupPrefix
        else if BackupS3Endpoint c \<noteq> [] \<and> (case url (BackupS3Endpoint c) of None \<Rightarrow> True | Some u \<Rightarrow> \<not> valid_endpoint u)
          then Inl InvalidBackupEndpoint
        else Inr ())"

text \<open>\<open>Load\<close> first reads the options, \<open>read_options\<close>; the session lifetime and the paths follow.\<close>

definition read_options :: "(string \<times> string) list \<Rightarrow> (string \<Rightarrow> string option) \<Rightarrow> config" where
  "read_options flags lookup = (let v = (\<lambda>name. resolve flags lookup name []) in
     \<lparr>PricingFile = v ''pricing-file'', BackupS3SessionToken = v ''backup-s3-session-token'',
      BackupS3SecretAccessKey = v ''backup-s3-secret-access-key'', BackupS3AccessKeyID = v ''backup-s3-access-key-id'',
      BackupS3Bucket = v ''backup-s3-bucket'', BackupS3Region = v ''backup-s3-region'',
      BackupS3Prefix = v ''backup-s3-prefix'', BackupS3Endpoint = v ''backup-s3-endpoint'',
      HTTPAddr = resolve flags lookup ''http'' ''127.0.0.1:8080'', OTLPHTTPAddr = v ''otlp-http'',
      OTLPGRPCAddr = v ''otlp-grpc'', DataDir = [], DatabasePath = [],
      LogLevel = resolve flags lookup ''log-level'' ''info'', DashboardUser = v ''dashboard-user'',
      DashboardPassword = v ''dashboard-password'', OTLPToken = v ''otlp-token'',
      SessionSecret = v ''session-secret'', SessionTTL = 0\<rparr>)"

definition Load :: "(string \<Rightarrow> url_parts option) \<Rightarrow> (string \<Rightarrow> bool) \<Rightarrow> string list \<Rightarrow> (string \<Rightarrow> string option)
    \<Rightarrow> string \<Rightarrow> string \<Rightarrow> config_error + config" where
  "Load url mkdir args lookup goos homeDir = (case parse_flags flag_names args of
     Inl e \<Rightarrow> Inl (FlagError e)
   | Inr flags \<Rightarrow> (let c = read_options flags lookup; ttl = resolve flags lookup ''session-ttl'' [] in
       ebind (validateBackup url (flagOrEnv flags lookup) c) (\<lambda>_.
       ebind (if ttl = [] then Inr 0 else parseSessionTTL ttl) (\<lambda>d.
       let dir = (case flagOrEnv flags lookup ''data-dir'' of Some dir \<Rightarrow> dir
           | None \<Rightarrow> join_path [userDataDir goos homeDir lookup, ''ai-usage'']) in
       if \<not> mkdir dir then Inl DataDirError
       else let c' = c\<lparr>SessionTTL := d, DataDir := dir,
             DatabasePath := (case flagOrEnv flags lookup ''database'' of Some p \<Rightarrow> p
               | None \<Rightarrow> join_path [dir, ''usage.db''])\<rparr> in
         if LogLevel c' \<notin> {''debug'', ''info'', ''warn'', ''error''} then Inl (InvalidLogLevel (LogLevel c'))
         else ebind (validateAuth c') (\<lambda>_. Inr c')))))"

section \<open>What a loaded configuration satisfies\<close>

lemma guard_Inr_iff: "(if b then Inl e else x) = Inr y \<longleftrightarrow> \<not> b \<and> x = Inr y"
  by simp

lemma requireLoopback_Inr: "requireLoopback addr name = Inr u \<longleftrightarrow> isLoopbackAddr addr = Some True"
  by (auto simp: requireLoopback_def guard_Inr_iff split: option.splits)

lemma isLoopbackAddr_None: "isLoopbackAddr addr = None \<longleftrightarrow> split_host_port addr = None"
  by (auto simp: isLoopbackAddr_def split: option.splits)

lemma parseSessionTTL_range: "parseSessionTTL v = Inr d \<Longrightarrow> 60 * second_ns \<le> d \<and> d \<le> MaxSessionTTL"
  by (auto simp: parseSessionTTL_def ebind_Inr split: if_splits)

lemma validateAuth_Inr:
  "validateAuth c = Inr () \<Longrightarrow>
    (DashboardUser c = [] \<longleftrightarrow> DashboardPassword c = [])
    \<and> (SessionSecret c \<noteq> [] \<longrightarrow> DashboardAuthEnabled c \<and> MinSessionSecretLen \<le> length (SessionSecret c)
        \<and> trim_space (SessionSecret c) = SessionSecret c)
    \<and> (SessionTTL c \<noteq> 0 \<longrightarrow> DashboardAuthEnabled c)
    \<and> (HTTPAddr c \<noteq> [] \<and> PublicAddr (HTTPAddr c) \<longrightarrow> DashboardAuthEnabled c)
    \<and> (\<forall>a \<in> {OTLPHTTPAddr c, OTLPGRPCAddr c}. a \<noteq> [] \<longrightarrow> split_host_port a \<noteq> None)"
  unfolding validateAuth_def guard_Inr_iff ebind_Inr
  by (cases "HTTPAddr c \<noteq> [] \<and> \<not> DashboardAuthEnabled c")
     (auto simp: requireLoopback_Inr PublicAddr_def isLoopbackAddr_None)

lemma Load_Inr:
  assumes "Load url mkdir args lookup goos homeDir = Inr c"
  obtains flags where "parse_flags flag_names args = Inr flags"
    and "validateBackup url (flagOrEnv flags lookup) (read_options flags lookup) = Inr ()"
    and "SessionTTL c = 0 \<or> (\<exists>v. parseSessionTTL v = Inr (SessionTTL c))" "mkdir (DataDir c)" "validateAuth c = Inr ()"
    and "c\<lparr>SessionTTL := 0, DataDir := [], DatabasePath := []\<rparr> = read_options flags lookup"
    and "LogLevel c \<in> {''debug'', ''info'', ''warn'', ''error''}"
proof -
  obtain flags where flags: "parse_flags flag_names args = Inr flags"
    using assms by (auto simp: Load_def split: sum.splits)
  define opts where "opts = read_options flags lookup"
  from assms flags obtain d dir db where backup: "validateBackup url (flagOrEnv flags lookup) opts = Inr ()"
    and d: "d = 0 \<or> (\<exists>v. parseSessionTTL v = Inr d)"
    and c: "c = opts\<lparr>SessionTTL := d, DataDir := dir, DatabasePath := db\<rparr>" "mkdir dir"
      "LogLevel c \<in> {''debug'', ''info'', ''warn'', ''error''}" "validateAuth c = Inr ()"
    unfolding Load_def opts_def Let_def ebind_Inr sum.case by (auto split: if_splits simp: ebind_Inr)
  show thesis
    by (rule that [OF flags]) (use backup d c in \<open>simp_all add: opts_def read_options_def\<close>)
qed

lemma resolve_absent: "flagOrEnv flags lookup name = None \<Longrightarrow> resolve flags lookup name d = d"
  by (simp add: resolve_def)

lemma dedicated_prefix: "suffix ''/'' p \<Longrightarrow> p \<noteq> ''/'' \<Longrightarrow> \<not> prefix ''/'' p \<Longrightarrow> \<exists>q. p = q @ ''/'' \<and> q \<noteq> [] \<and> hd q \<noteq> CHR ''/''"
  by (auto simp: suffix_def prefix_def) (metis append_Cons append_Nil hd_Cons_tl)

lemma validateBackup_Inr:
  assumes "validateBackup url (flagOrEnv flags lookup) opts = Inr ()" "opts = read_options flags lookup"
  shows "if BackupS3Bucket opts = [] then BackupS3Region opts = [] \<and> BackupS3Prefix opts = [] \<and> BackupS3Endpoint opts = []
       else \<exists>p. BackupS3Prefix opts = p @ ''/'' \<and> p \<noteq> [] \<and> hd p \<noteq> CHR ''/''"
proof (cases "BackupS3Bucket opts = []")
  case True
  then have "\<forall>name \<in> set backup_companions. flagOrEnv flags lookup name = None"
    using assms(1) by (simp add: validateBackup_def guard_Inr_iff list_ex_iff)
  then show ?thesis using True by (simp add: backup_companions_def assms(2) read_options_def Let_def resolve_absent)
next
  case False
  then show ?thesis using assms(1)
    by (simp add: validateBackup_def Let_def guard_Inr_iff dedicated_prefix)
qed

section \<open>Properties\<close>

definition sample_args :: "string list" where
  "sample_args = [''--http'', ''0.0.0.0:80'', ''--otlp-http=:4318'', ''-dashboard-user=u'', ''--dashboard-password=p=q'',
     ''--session-ttl'', ''12h'', ''rest'', ''--http=:1'']"

definition sample_flags :: "(string \<times> string) list" where
  "sample_flags = [(''http'', ''0.0.0.0:80''), (''otlp-http'', '':4318''), (''dashboard-user'', ''u''),
     (''dashboard-password'', ''p=q''), (''session-ttl'', ''12h'')]"

definition sample_config :: config where
  "sample_config = (read_options sample_flags (\<lambda>_. None))
    \<lparr>SessionTTL := 43200 * second_ns, DataDir := ''/home/u/.local/share/ai-usage'',
     DatabasePath := ''/home/u/.local/share/ai-usage/usage.db''\<rparr>"

lemma sample_config_fields:
  "HTTPAddr sample_config = ''0.0.0.0:80''" "DashboardUser sample_config = ''u''"
  "DashboardPassword sample_config = ''p=q''" "LogLevel sample_config = ''info''" "PublicAddr ''0.0.0.0:80''"
  "OTLPHTTPAddr sample_config = '':4318''" "PublicAddr '':4318''"
  by (code_simp, code_simp, code_simp, code_simp, code_simp, code_simp, code_simp)

lemma sample_loaded: "Load (\<lambda>_. None) (\<lambda>_. True) sample_args (\<lambda>_. None) ''linux'' ''/home/u'' = Inr sample_config"
proof -
  have parts: "parse_flags flag_names sample_args = Inr sample_flags"
    "validateBackup (\<lambda>_. None) (flagOrEnv sample_flags (\<lambda>_. None)) (read_options sample_flags (\<lambda>_. None)) = Inr ()"
    "resolve sample_flags (\<lambda>_. None) ''session-ttl'' [] = ''12h''" "parseSessionTTL ''12h'' = Inr (43200 * second_ns)"
    "flagOrEnv sample_flags (\<lambda>_. None) ''data-dir'' = None" "flagOrEnv sample_flags (\<lambda>_. None) ''database'' = None"
    "join_path [userDataDir ''linux'' ''/home/u'' (\<lambda>_. None), ''ai-usage''] = ''/home/u/.local/share/ai-usage''"
    "join_path [''/home/u/.local/share/ai-usage'', ''usage.db''] = ''/home/u/.local/share/ai-usage/usage.db''"
    "validateAuth sample_config = Inr ()"
    by (code_simp, code_simp, code_simp, code_simp, code_simp, code_simp, code_simp, code_simp, code_simp)
  show ?thesis
    unfolding Load_def parts(1) sum.case Let_def parts(2-8) option.case
    by (simp add: ebind_def parts(8) parts(9) [unfolded sample_config_def, simplified] sample_config_def
        sample_config_fields(4) [unfolded sample_config_def, simplified])
qed

text \<open>A process that starts never serves the dashboard beyond this machine without credentials:
  whatever flags and environment it was given, a loaded configuration with a public dashboard
  address has a user and a password.  A session secret or lifetime is only accepted with
  credentials and within its bounds, listener addresses have a host and a port, and backup options
  come with a bucket and a dedicated prefix.\<close>

theorem loaded_configuration_is_guarded:
  assumes "Load url mkdir args lookup goos homeDir = Inr c"
  shows "(HTTPAddr c \<noteq> [] \<and> PublicAddr (HTTPAddr c) \<longrightarrow> DashboardUser c \<noteq> [] \<and> DashboardPassword c \<noteq> [])
    \<and> (SessionSecret c \<noteq> [] \<longrightarrow> DashboardAuthEnabled c \<and> 32 \<le> length (SessionSecret c))
    \<and> (SessionTTL c = 0 \<or> DashboardAuthEnabled c \<and> 60 * second_ns \<le> SessionTTL c \<and> SessionTTL c \<le> 365 * day_ns)
    \<and> (\<forall>a \<in> {OTLPHTTPAddr c, OTLPGRPCAddr c}. a = [] \<or> split_host_port a \<noteq> None)
    \<and> (if BackupS3Bucket c = [] then BackupS3Region c = [] \<and> BackupS3Prefix c = [] \<and> BackupS3Endpoint c = []
       else \<exists>p. BackupS3Prefix c = p @ ''/'' \<and> p \<noteq> [] \<and> hd p \<noteq> CHR ''/'')"
  using assms
proof (rule Load_Inr)
  fix flags
  assume backup: "validateBackup url (flagOrEnv flags lookup) (read_options flags lookup) = Inr ()"
    and ttl: "SessionTTL c = 0 \<or> (\<exists>v. parseSessionTTL v = Inr (SessionTTL c))"
    and auth: "validateAuth c = Inr ()"
    and opts: "c\<lparr>SessionTTL := 0, DataDir := [], DatabasePath := []\<rparr> = read_options flags lookup"
  define opts where "opts = read_options flags lookup"
  have same: "BackupS3Bucket c = BackupS3Bucket opts" "BackupS3Prefix c = BackupS3Prefix opts"
    "BackupS3Region c = BackupS3Region opts" "BackupS3Endpoint c = BackupS3Endpoint opts"
    unfolding opts_def opts [symmetric] by simp_all
  have "SessionTTL c = 0 \<or> DashboardAuthEnabled c \<and> 60 * second_ns \<le> SessionTTL c \<and> SessionTTL c \<le> 365 * day_ns"
    using ttl validateAuth_Inr [OF auth] parseSessionTTL_range by (auto simp: MaxSessionTTL_def)
  moreover have "if BackupS3Bucket c = [] then BackupS3Region c = [] \<and> BackupS3Prefix c = [] \<and> BackupS3Endpoint c = []
       else \<exists>p. BackupS3Prefix c = p @ ''/'' \<and> p \<noteq> [] \<and> hd p \<noteq> CHR ''/''"
    using backup unfolding same opts_def [symmetric] by (rule validateBackup_Inr [OF _ opts_def])
  ultimately show ?thesis
    using validateAuth_Inr [OF auth] unfolding DashboardAuthEnabled_def MinSessionSecretLen_def by blast
qed

theorem loaded_configuration_is_guarded_witness:
  "PublicAddr (HTTPAddr sample_config) \<and> DashboardUser sample_config \<noteq> [] \<and> DashboardPassword sample_config \<noteq> []"
  using loaded_configuration_is_guarded [OF sample_loaded] sample_config_fields by simp

end
