(* ===== verification/Receivers.thy ===== *)
theory Receivers
  imports Pipeline Tokens
begin

text \<open>
  The OTLP receivers: \<open>internal/ingest/http.go\<close> and \<open>internal/ingest/grpc.go\<close> behind the gates of
  \<open>internal/auth\<close>, as \<open>cmd/ai-usage/main.go\<close> puts them together.  An export is answered from the
  request, the token store, the pipeline and the database, and changes the last three.

  Parameters (\<open>codecs\<close>): the gzip reader and the OTLP and protobuf codecs of the libraries.
\<close>

section \<open>Requests and parameters\<close>

definition ReasonUnauthorized :: string where "ReasonUnauthorized = ''unauthorized''"
definition ReasonGRPCUnauthorized :: string where "ReasonGRPCUnauthorized = ''grpc_unauthenticated''"
definition ReasonBadContentType :: string where "ReasonBadContentType = ''bad_content_type''"
definition ReasonBadEncoding :: string where "ReasonBadEncoding = ''bad_content_encoding''"
definition ReasonBodyTooLarge :: string where "ReasonBodyTooLarge = ''body_too_large''"
definition ReasonBodyReadError :: string where "ReasonBodyReadError = ''body_read_error''"
definition ReasonBadGzip :: string where "ReasonBadGzip = ''bad_gzip''"
definition ReasonDecodeFailed :: string where "ReasonDecodeFailed = ''decode_failed''"

lemmas transport_reasons = ReasonUnauthorized_def ReasonGRPCUnauthorized_def ReasonBadContentType_def
  ReasonBadEncoding_def ReasonBodyTooLarge_def ReasonBodyReadError_def ReasonBadGzip_def ReasonDecodeFailed_def

text \<open>
  \<open>gz_open\<close>: \<open>gzip.NewReader\<close> accepts the header; \<open>gz_read n\<close>: what reading at most \<open>n\<close> bytes yields,
  or \<open>None\<close> for an error.  The decoders of the three signals read JSON, protobuf, and the bytes of
  an export request; \<open>marshal\<close> is \<open>proto.Marshal\<close> of a gRPC message.
\<close>

record 'm codecs =
  gz_open :: "string \<Rightarrow> bool"
  gz_read :: "nat \<Rightarrow> string \<Rightarrow> string option"
  traces_json :: "string \<Rightarrow> otel_span batch option"
  traces_proto :: "string \<Rightarrow> otel_span batch option"
  traces_export :: "string \<Rightarrow> otel_span batch option"
  metrics_json :: "string \<Rightarrow> string batch option"
  metrics_proto :: "string \<Rightarrow> string batch option"
  metrics_export :: "string \<Rightarrow> string batch option"
  logs_json :: "string \<Rightarrow> log_record batch option"
  logs_proto :: "string \<Rightarrow> log_record batch option"
  logs_export :: "string \<Rightarrow> log_record batch option"
  marshal :: "'m \<Rightarrow> string option"

text \<open>
  What the pipeline is built with, and the faults and clock readings of one request: \<open>en_digest\<close> is
  SHA-256 of a secret, \<open>en_hex\<close> its hexadecimal form for record identities, \<open>en_json\<close> the JSON reader.
\<close>

record 'm env =
  en_digest :: "string \<Rightarrow> string"
  en_hex :: "string \<Rightarrow> string"
  en_json :: "string \<Rightarrow> json option"
  en_worker :: bool
  en_hub :: bool
  en_fault :: "db_step \<Rightarrow> bool"
  en_clock :: "nat \<Rightarrow> int"
  en_codecs :: "'m codecs"

text \<open>A request as the server reads it: the body's bytes, and whether reading fails behind them.\<close>

record otlp_request =
  or_method :: string
  or_path :: string
  or_auth :: string
  or_ctype :: string
  or_cencoding :: string
  or_body :: string
  or_broken :: bool

record answer =
  a_status :: int
  a_text :: string

datatype signal = Traces | Metrics | Logs

section \<open>Reading and decoding\<close>

definition maxBodyBytes :: nat where "maxBodyBytes = 32 * 2 ^ 20"

definition encodingOf :: "string \<Rightarrow> string option" where
  "encodingOf contentType = (if contentType = ''application/x-protobuf'' then Some ''protobuf''
     else if contentType = ''application/json'' then Some ''json'' else None)"

definition unmarshalTraces :: "'m codecs \<Rightarrow> string \<Rightarrow> string \<Rightarrow> otel_span batch option" where
  "unmarshalTraces cs b encoding = (if encoding = ''json'' then traces_json cs b else traces_proto cs b)"

definition unmarshalMetrics :: "'m codecs \<Rightarrow> string \<Rightarrow> string \<Rightarrow> string batch option" where
  "unmarshalMetrics cs b encoding = (if encoding = ''json'' then metrics_json cs b else metrics_proto cs b)"

definition unmarshalLogs :: "'m codecs \<Rightarrow> string \<Rightarrow> string \<Rightarrow> log_record batch option" where
  "unmarshalLogs cs b encoding = (if encoding = ''json'' then logs_json cs b else logs_proto cs b)"

text \<open>The first part of \<open>handle\<close>: the encoding and the body to decode, or status, message and reason.\<close>

definition read_request :: "'m codecs \<Rightarrow> otlp_request \<Rightarrow> (int \<times> string \<times> string) + string \<times> string" where
  "read_request cs rq =
     (if or_ctype rq = [] then Inl (400, ''missing content type'', ReasonBadContentType)
      else case encodingOf (or_ctype rq) of
        None \<Rightarrow> Inl (415, ''unsupported content type'', ReasonBadContentType)
      | Some encoding \<Rightarrow>
          if maxBodyBytes < length (or_body rq) then Inl (413, ''request body too large'', ReasonBodyTooLarge)
          else if or_broken rq then Inl (400, ''read body'', ReasonBodyReadError)
          else if or_cencoding rq = [] \<or> or_cencoding rq = ''identity'' then Inr (encoding, or_body rq)
          else if or_cencoding rq = ''gzip'' then
            (if \<not> gz_open cs (or_body rq) then Inl (400, ''bad gzip body'', ReasonBadGzip)
             else case gz_read cs (maxBodyBytes + 1) (or_body rq) of
               None \<Rightarrow> Inl (400, ''bad gzip body'', ReasonBadGzip)
             | Some body \<Rightarrow> if maxBodyBytes < length body
                 then Inl (413, ''request body too large'', ReasonBodyTooLarge) else Inr (encoding, body))
          else Inl (415, ''unsupported content encoding'', ReasonBadEncoding))"

section \<open>Consuming\<close>

text \<open>
  What \<open>process\<close> returns: the number of records, a malformed payload, or a failure of the pipeline;
  with it the effects on the other workers (\<open>outcome\<close>), the pipeline and the database.
\<close>

datatype processed = Processed int | Malformed | Failed

definition no_effect :: outcome where
  "no_effect = \<lparr>o_error = None, o_wake = False, o_notify = False\<rparr>"

definition record_count :: "'a batch \<Rightarrow> int" where
  "record_count td = each_record (\<lambda>_ _ n. n + 1) td 0"

definition finished :: "int \<Rightarrow> outcome \<times> pipeline \<times> store \<Rightarrow> processed \<times> outcome \<times> pipeline \<times> store" where
  "finished n r = (case r of (out, s) \<Rightarrow> (if o_error out \<noteq> None then Failed else Processed n, out, s))"

definition consume_traces :: "'m env \<Rightarrow> int \<Rightarrow> otel_span batch option \<Rightarrow> pipeline \<Rightarrow> store
    \<Rightarrow> processed \<times> outcome \<times> pipeline \<times> store" where
  "consume_traces env token decoded p st = (case decoded of
     None \<Rightarrow> (Malformed, no_effect, p, st)
   | Some td \<Rightarrow> finished (record_count td) (ConsumeTraces (en_hex env) (en_json env) (en_worker env) (en_hub env)
       token (en_fault env) (en_clock env) td p st))"

definition consume_metrics :: "string batch option \<Rightarrow> pipeline \<Rightarrow> store
    \<Rightarrow> processed \<times> outcome \<times> pipeline \<times> store" where
  "consume_metrics decoded p st = (case decoded of
     None \<Rightarrow> (Malformed, no_effect, p, st)
   | Some md \<Rightarrow> finished (record_count md) (no_effect, ConsumeMetrics md p, st))"

definition consume_logs :: "'m env \<Rightarrow> int \<Rightarrow> log_record batch option \<Rightarrow> pipeline \<Rightarrow> store
    \<Rightarrow> processed \<times> outcome \<times> pipeline \<times> store" where
  "consume_logs env token decoded p st = (case decoded of
     None \<Rightarrow> (Malformed, no_effect, p, st)
   | Some ld \<Rightarrow> finished (record_count ld) (ConsumeLogs (en_hex env) (en_worker env) (en_hub env)
       token (en_fault env) (en_clock env) ld p st))"

definition process_http :: "'m env \<Rightarrow> signal \<Rightarrow> int \<Rightarrow> string \<Rightarrow> string \<Rightarrow> pipeline \<Rightarrow> store
    \<Rightarrow> processed \<times> outcome \<times> pipeline \<times> store" where
  "process_http env sig token body encoding = (case sig of
     Traces \<Rightarrow> consume_traces env token (unmarshalTraces (en_codecs env) body encoding)
   | Metrics \<Rightarrow> consume_metrics (unmarshalMetrics (en_codecs env) body encoding)
   | Logs \<Rightarrow> consume_logs env token (unmarshalLogs (en_codecs env) body encoding))"

section \<open>OTLP over HTTP\<close>

definition handle :: "'m env \<Rightarrow> signal \<Rightarrow> int \<Rightarrow> otlp_request \<Rightarrow> pipeline \<Rightarrow> store
    \<Rightarrow> answer \<times> outcome \<times> pipeline \<times> store" where
  "handle env sig token rq p st = (case read_request (en_codecs env) rq of
     Inl (status, msg, reason) \<Rightarrow> (\<lparr>a_status = status, a_text = msg\<rparr>, no_effect, BumpHTTPReject reason p, st)
   | Inr (encoding, body) \<Rightarrow> (case process_http env sig token body encoding p st of
       (Processed n, out, p', st') \<Rightarrow> (\<lparr>a_status = 200, a_text = []\<rparr>, out, p', st')
     | (Failed, out, p', st') \<Rightarrow> (\<lparr>a_status = 503, a_text = ''ingestion unavailable''\<rparr>, out, p', st')
     | (Malformed, out, p', st') \<Rightarrow>
         (\<lparr>a_status = 400, a_text = ''decode failed''\<rparr>, out, BumpHTTPReject ReasonDecodeFailed p', st')))"

text \<open>The routes; the path is the cleaned one, as the multiplexer of \<open>net/http\<close> compares it.\<close>

definition signal_of_path :: "string \<Rightarrow> signal option" where
  "signal_of_path path = (if path = ''/v1/traces'' then Some Traces
     else if path = ''/v1/metrics'' then Some Metrics else if path = ''/v1/logs'' then Some Logs else None)"

definition Handler :: "'m env \<Rightarrow> int \<Rightarrow> otlp_request \<Rightarrow> pipeline \<Rightarrow> store
    \<Rightarrow> answer \<times> outcome \<times> pipeline \<times> store" where
  "Handler env token rq p st = (case signal_of_path (or_path rq) of
     None \<Rightarrow> (\<lparr>a_status = 404, a_text = ''404 page not found''\<rparr>, no_effect, p, st)
   | Some sig \<Rightarrow> if or_method rq = ''POST'' then handle env sig token rq p st
       else (\<lparr>a_status = 405, a_text = ''Method Not Allowed''\<rparr>, no_effect, p, st))"

text \<open>The listener: the gate, which counts what it refuses, in front of the handler.\<close>

type_synonym otlp_state = "token_store \<times> pipeline \<times> store"

definition token_of :: "int option \<Rightarrow> int" where
  "token_of t = (case t of Some i \<Rightarrow> i | None \<Rightarrow> 0)"

definition otlp_http :: "'m env \<Rightarrow> bool \<Rightarrow> int \<Rightarrow> otlp_request \<Rightarrow> otlp_state \<Rightarrow> answer \<times> outcome \<times> otlp_state" where
  "otlp_http env public now rq s = (case s of (ts, p, st) \<Rightarrow>
     (case BearerWithHook (Verify (en_digest env) now) (listener_Required public) (or_auth rq) ts of
        (Served t, ts') \<Rightarrow> (case Handler env (token_of t) rq p st of (a, out, p', st') \<Rightarrow> (a, out, ts', p', st'))
      | (Refused, ts') \<Rightarrow> (\<lparr>a_status = 401, a_text = ''unauthorized''\<rparr>, no_effect, ts',
          BumpHTTPReject ReasonUnauthorized p, st)))"

section \<open>OTLP over gRPC\<close>

datatype code = OK | Unauthenticated | InvalidArgument | Unavailable

record 'm grpc_request =
  gr_service :: signal
  gr_auth :: "string list"
  gr_msg :: 'm

definition tracesFromProto :: "'m codecs \<Rightarrow> 'm \<Rightarrow> otel_span batch option" where
  "tracesFromProto cs m = Option.bind (marshal cs m) (traces_export cs)"

definition metricsFromProto :: "'m codecs \<Rightarrow> 'm \<Rightarrow> string batch option" where
  "metricsFromProto cs m = Option.bind (marshal cs m) (metrics_export cs)"

definition logsFromProto :: "'m codecs \<Rightarrow> 'm \<Rightarrow> log_record batch option" where
  "logsFromProto cs m = Option.bind (marshal cs m) (logs_export cs)"

definition process_grpc :: "'m env \<Rightarrow> signal \<Rightarrow> int \<Rightarrow> 'm \<Rightarrow> pipeline \<Rightarrow> store
    \<Rightarrow> processed \<times> outcome \<times> pipeline \<times> store" where
  "process_grpc env sig token m = (case sig of
     Traces \<Rightarrow> consume_traces env token (tracesFromProto (en_codecs env) m)
   | Metrics \<Rightarrow> consume_metrics (metricsFromProto (en_codecs env) m)
   | Logs \<Rightarrow> consume_logs env token (logsFromProto (en_codecs env) m))"

text \<open>The method \<open>Export\<close> of the three services.\<close>

definition Export :: "'m env \<Rightarrow> signal \<Rightarrow> int \<Rightarrow> 'm \<Rightarrow> pipeline \<Rightarrow> store
    \<Rightarrow> code \<times> outcome \<times> pipeline \<times> store" where
  "Export env sig token m p st = (case process_grpc env sig token m p st of
     (Processed n, out, p', st') \<Rightarrow> (OK, out, p', st')
   | (Failed, out, p', st') \<Rightarrow> (Unavailable, out, p', st')
   | (Malformed, out, p', st') \<Rightarrow> (InvalidArgument, out, BumpHTTPReject ReasonDecodeFailed p', st'))"

definition otlp_grpc :: "'m env \<Rightarrow> bool \<Rightarrow> int \<Rightarrow> 'm grpc_request \<Rightarrow> otlp_state \<Rightarrow> code \<times> outcome \<times> otlp_state" where
  "otlp_grpc env public now rq s = (case s of (ts, p, st) \<Rightarrow>
     (case GRPCUnaryInterceptorWithHook (Verify (en_digest env) now) (listener_Required public) (gr_auth rq) ts of
        (Served t, ts') \<Rightarrow> (case Export env (gr_service rq) (token_of t) (gr_msg rq) p st of
            (c, out, p', st') \<Rightarrow> (c, out, ts', p', st'))
      | (Refused, ts') \<Rightarrow> (Unauthenticated, no_effect, ts', BumpHTTPReject ReasonGRPCUnauthorized p, st)))"

section \<open>Exports in a row\<close>

text \<open>Exports at either listener, each with its own environment, clock and exposure.\<close>

datatype 'm export = OverHTTP "'m env" bool int otlp_request | OverGRPC "'m env" bool int "'m grpc_request"

text \<open>How an export ended, for the client and for the counters.\<close>

datatype ending = Stored | Rejected | Unrouted | Down

definition http_ending :: "int \<Rightarrow> ending" where
  "http_ending status = (if status = 200 then Stored else if status = 503 then Down
     else if status = 404 \<or> status = 405 then Unrouted else Rejected)"

definition grpc_ending :: "code \<Rightarrow> ending" where
  "grpc_ending c = (case c of OK \<Rightarrow> Stored | Unavailable \<Rightarrow> Down | Unauthenticated \<Rightarrow> Rejected | InvalidArgument \<Rightarrow> Rejected)"

fun serve :: "'m export \<Rightarrow> otlp_state \<Rightarrow> ending \<times> otlp_state" where
  "serve (OverHTTP env public now rq) s = (case otlp_http env public now rq s of (a, _, s') \<Rightarrow> (http_ending (a_status a), s'))"
| "serve (OverGRPC env public now rq) s = (case otlp_grpc env public now rq s of (c, _, s') \<Rightarrow> (grpc_ending c, s'))"

fun serve_all :: "'m export list \<Rightarrow> otlp_state \<Rightarrow> ending list \<times> otlp_state" where
  "serve_all [] s = ([], s)"
| "serve_all (x # xs) s = (case serve x s of (e, s1) \<Rightarrow> (case serve_all xs s1 of (es, s2) \<Rightarrow> (e # es, s2)))"

section \<open>What a request can come to\<close>

lemma read_request_Inl:
  "read_request cs rq = Inl (status, msg, reason) \<Longrightarrow> (status, reason) \<in>
     {(400, ReasonBadContentType), (415, ReasonBadContentType), (413, ReasonBodyTooLarge),
      (400, ReasonBodyReadError), (400, ReasonBadGzip), (415, ReasonBadEncoding)}"
  by (auto simp: read_request_def split: if_splits option.splits)

lemma read_request_Inr:
  "read_request cs rq = Inr (encoding, body) \<Longrightarrow> encodingOf (or_ctype rq) = Some encoding \<and> length body \<le> maxBodyBytes"
  by (auto simp: read_request_def split: if_splits option.splits)

lemma transport_reason_listed [simp]:
  "r \<in> {ReasonUnauthorized, ReasonGRPCUnauthorized, ReasonBadContentType, ReasonBadEncoding, ReasonBodyTooLarge,
     ReasonBodyReadError, ReasonBadGzip, ReasonDecodeFailed} \<Longrightarrow> BumpHTTPReject r p = bumpReason ReasonKindHTTPReject r 1 p"
  by (auto simp: BumpHTTPReject_def HTTPRejectReasons_def transport_reasons)

text \<open>The records of a batch never touch the breakdown of transport rejections.\<close>

definition http_rejects :: "pipeline \<Rightarrow> u64" where
  "http_rejects p = kind_sum ReasonKindHTTPReject (p_reasons p)"

lemma http_rejects_bump [simp]:
  "http_rejects (bumpReason kind r n p) = http_rejects p + (if kind = ReasonKindHTTPReject then n else 0)"
  "http_rejects (live f p) = http_rejects p"
  by (simp_all add: http_rejects_def)

lemma http_rejects_add [simp]:
  "http_rejects (add_received n p) = http_rejects p" "http_rejects (add_normalized n p) = http_rejects p"
  "http_rejects (add_stored n p) = http_rejects p" "http_rejects (add_dedup n p) = http_rejects p"
  "http_rejects (add_rejected n p) = http_rejects p" "http_rejects (add_ignored n p) = http_rejects p"
  "http_rejects (add_norm_errors n p) = http_rejects p" "http_rejects (add_ing_errors n p) = http_rejects p"
  by (simp_all add: http_rejects_def add_defs)

lemma kind_neq_http [simp]:
  "ReasonKindRejected \<noteq> ReasonKindHTTPReject" "ReasonKindIgnored \<noteq> ReasonKindHTTPReject"
  "ReasonKindNormError \<noteq> ReasonKindHTTPReject" "ReasonKindDedup \<noteq> ReasonKindHTTPReject"
  by (metis kind_neq)+

lemma consume_span_rejects: "http_rejects (fst (consume_span H J resource sp (p, gens))) = http_rejects p"
  by (auto simp: consume_span_def Let_def split: sum.splits option.splits)

lemma consume_log_rejects: "http_rejects (fst (consume_log H resource lr (p, gens))) = http_rejects p"
  by (auto simp: consume_log_def Let_def split: sum.splits option.splits)

lemma storeGenerations_rejects:
  assumes "storeGenerations worker hub token fault now gens p st = (out, p', st')"
  shows "http_rejects p' = http_rejects p \<and> (o_error out \<noteq> None \<longrightarrow> st' = st)"
proof -
  have "http_rejects (dedup_breakdown gs stored q) = http_rejects q" for gs stored q
    by (simp add: http_rejects_def)
  then show ?thesis using assms
    by (auto simp: storeGenerations_def Let_def split: prod.splits sum.splits if_splits dest: InsertGenerations_Inl)
qed

lemma ConsumeTraces_rejects:
  assumes "ConsumeTraces H J worker hub token fault now td p st = (out, p', st')"
  shows "http_rejects p' = http_rejects p \<and> (o_error out \<noteq> None \<longrightarrow> st' = st)"
proof -
  have "http_rejects (fst (each_record (consume_span H J) td (p, []))) = http_rejects p"
    by (rule each_record_invariant [where I = "\<lambda>s. http_rejects (fst s) = http_rejects p"])
       (auto simp: consume_span_rejects)
  then show ?thesis using assms storeGenerations_rejects
    by (fastforce simp: ConsumeTraces_def split: prod.splits)
qed

lemma ConsumeLogs_rejects:
  assumes "ConsumeLogs H worker hub token fault now ld p st = (out, p', st')"
  shows "http_rejects p' = http_rejects p \<and> (o_error out \<noteq> None \<longrightarrow> st' = st)"
proof -
  have "http_rejects (fst (each_record (consume_log H) ld (p, []))) = http_rejects p"
    by (rule each_record_invariant [where I = "\<lambda>s. http_rejects (fst s) = http_rejects p"])
       (auto simp: consume_log_rejects)
  then show ?thesis using assms storeGenerations_rejects
    by (fastforce simp: ConsumeLogs_def split: prod.splits)
qed

text \<open>A processed batch is one step of the service; a malformed one is none.\<close>

definition sound_processing :: "pipeline \<Rightarrow> store \<Rightarrow> processed \<times> outcome \<times> pipeline \<times> store \<Rightarrow> bool" where
  "sound_processing p st r = (case r of (result, out, p', st') \<Rightarrow>
     http_rejects p' = http_rejects p
     \<and> (if result = Malformed then out = no_effect \<and> p' = p \<and> st' = st
        else (\<forall>db. service_step (p, st, db) (p', st', db)) \<and> (result = Failed \<longleftrightarrow> o_error out \<noteq> None)
          \<and> (result = Failed \<longrightarrow> st' = st)))"

lemma ConsumeMetrics_rejects: "http_rejects (ConsumeMetrics md p) = http_rejects p"
  by (simp add: ConsumeMetrics_def Let_def)

lemma consume_traces_sound: "sound_processing p st (consume_traces env token decoded p st)"
  using ConsumeTraces_rejects
  by (auto simp: sound_processing_def consume_traces_def finished_def split: option.splits prod.splits
      intro: service_step.traces)

lemma consume_logs_sound: "sound_processing p st (consume_logs env token decoded p st)"
  using ConsumeLogs_rejects
  by (auto simp: sound_processing_def consume_logs_def finished_def split: option.splits prod.splits
      intro: service_step.logs)

lemma consume_metrics_sound: "sound_processing p st (consume_metrics decoded p st)"
  by (auto simp: sound_processing_def consume_metrics_def finished_def no_effect_def ConsumeMetrics_rejects service_step.metrics split: option.splits)

lemma process_sound:
  "sound_processing p st (process_http env sig token body encoding p st)"
  "sound_processing p st (process_grpc env sig token m p st)"
  by (cases sig; simp add: process_http_def process_grpc_def consume_traces_sound consume_logs_sound consume_metrics_sound)+

section \<open>Attribution\<close>

text \<open>
  The rows of \<open>st'\<close> as an export with token \<open>token\<close> may leave them: identities stay, and the token of
  a row is the one it had, or the export's on a row that is new or had none.
\<close>

definition attributed :: "int \<Rightarrow> store \<Rightarrow> store \<Rightarrow> bool" where
  "attributed token st st' \<longleftrightarrow> set (ids st) \<subseteq> set (ids st') \<and>
     (\<forall>r' \<in> set (s_rows st'). (\<exists>r \<in> set (s_rows st). r_id r = r_id r' \<and> r_token r = r_token r')
       \<or> r_token r' = nullableID token
         \<and> (r_id r' \<notin> set (ids st) \<or> (\<exists>r \<in> set (s_rows st). r_id r = r_id r' \<and> r_token r = None)))"

lemma attributed_refl [simp]: "attributed token st st"
  by (auto simp: attributed_def)

lemma attributed_trans:
  assumes "attributed token st st1" "attributed token st1 st2"
  shows "attributed token st st2"
  unfolding attributed_def
proof (intro conjI ballI)
  show "set (ids st) \<subseteq> set (ids st2)" using assms by (auto simp: attributed_def)
  fix r2 assume "r2 \<in> set (s_rows st2)"
  with assms(2) consider r1 where "r1 \<in> set (s_rows st1)" "r_id r1 = r_id r2" "r_token r1 = r_token r2"
    | "r_token r2 = nullableID token" "r_id r2 \<notin> set (ids st1)"
    | r1 where "r_token r2 = nullableID token" "r1 \<in> set (s_rows st1)" "r_id r1 = r_id r2" "r_token r1 = None"
    by (auto simp: attributed_def)
  then show "(\<exists>r \<in> set (s_rows st). r_id r = r_id r2 \<and> r_token r = r_token r2) \<or> r_token r2 = nullableID token
      \<and> (r_id r2 \<notin> set (ids st) \<or> (\<exists>r \<in> set (s_rows st). r_id r = r_id r2 \<and> r_token r = None))"
    using assms(1) unfolding attributed_def by cases (metis, blast, metis)
qed

lemma insertGeneration_attributed:
  assumes "insertGeneration fault i now g st = Inr (ins, st')" "g_token_id g = token"
  shows "attributed token st st'"
proof (cases ins)
  case True
  with insertGeneration_rows [OF assms(1)] assms(2) show ?thesis
    by (auto simp: attributed_def ids_def insertArgs_def)
next
  case False
  with insertGeneration_rows [OF assms(1)] obtain xs old ys where rows: "s_rows st = xs @ old # ys"
    "s_rows st' = xs @ merge_row g old # ys" by auto
  have "r_id (merge_row g old) = r_id old" "r_token (merge_row g old) = coalesce (r_token old) (nullableID token)"
    using assms(2) by (simp_all add: merge_row_def Let_def)
  with rows show ?thesis by (auto simp: attributed_def ids_def coalesce_def split: option.splits)
qed

lemma insert_all_attributed:
  "insert_all fault now i gens st stored = Inr (stored', st') \<Longrightarrow> \<forall>g \<in> set gens. g_token_id g = token
   \<Longrightarrow> attributed token st st'"
proof (induction gens arbitrary: i st stored)
  case (Cons g gens)
  from Cons.prems(1) show ?case
    by (rule insert_all_Cons) (use Cons in \<open>auto intro: attributed_trans insertGeneration_attributed\<close>)
qed simp

lemma storeGenerations_attributed:
  assumes "storeGenerations worker hub token fault now gens p st = (out, p', st')" "\<forall>g \<in> set gens. g_token_id g = 0"
  shows "attributed token st st'"
proof -
  define gs where "gs = (if token \<noteq> 0 then map (\<lambda>g. g\<lparr>g_token_id := token\<rparr>) gens else gens)"
  have tok: "\<forall>g \<in> set gs. g_token_id g = token" using assms(2) by (auto simp: gs_def)
  obtain r where ins: "InsertGenerations fault now gs st = (r, st')"
    using assms(1) by (auto simp: storeGenerations_def Let_def gs_def split: prod.splits sum.splits)
  show ?thesis
  proof (cases r)
    case (Inl e)
    with ins InsertGenerations_Inl show ?thesis by fastforce
  next
    case (Inr stored)
    with ins have "InsertGenerations fault now gs st = (Inr stored, st')" by simp
    then show ?thesis by (rule InsertGenerations_Inr) (use tok in \<open>auto intro: insert_all_attributed\<close>)
  qed
qed

lemma fresh_span_unattributed: "FromSpan H J source resource sp = Inr (Some g) \<Longrightarrow> g_token_id g = 0"
  using yieldsD [OF FromCopilotSpan_ok, of H J resource sp g] yieldsD [OF FromOpenCodeSpan_ok, of H resource sp g]
  by (auto simp: FromSpan_def gen_ok_def unpriced_def split: if_splits)

lemma fresh_log_unattributed: "FromLog H source resource lr = Inr (Some g) \<Longrightarrow> g_token_id g = 0"
  using yieldsD [OF FromCodexLog_ok, of H resource lr g] yieldsD [OF FromMakiLog_ok, of H resource lr g]
    yieldsD [OF FromClaudeCodeLog_ok, of H resource lr g]
  by (auto simp: FromLog_def gen_ok_def unpriced_def split: if_splits)

lemma traces_unattributed: "\<forall>g \<in> set (snd (each_record (consume_span H J) td (p, []))). g_token_id g = 0"
  by (rule each_record_invariant [where I = "\<lambda>s. \<forall>g \<in> set (snd s). g_token_id g = 0"])
     (auto simp: consume_span_def Let_def dest: fresh_span_unattributed split: sum.splits option.splits)

lemma logs_unattributed: "\<forall>g \<in> set (snd (each_record (consume_log H) ld (p, []))). g_token_id g = 0"
  by (rule each_record_invariant [where I = "\<lambda>s. \<forall>g \<in> set (snd s). g_token_id g = 0"])
     (auto simp: consume_log_def Let_def dest: fresh_log_unattributed split: sum.splits option.splits)

lemma consume_traces_attributed:
  assumes "consume_traces env token decoded p st = (r, out, p', st')"
  shows "attributed token st st'"
proof (cases decoded)
  case None
  then show ?thesis using assms by (simp add: consume_traces_def)
next
  case (Some td)
  obtain q gens where rec: "each_record (consume_span (en_hex env) (en_json env)) td (p, []) = (q, gens)" by fastforce
  with traces_unattributed have "\<forall>g \<in> set gens. g_token_id g = 0" by (metis snd_conv)
  moreover have "storeGenerations (en_worker env) (en_hub env) token (en_fault env) (en_clock env) gens q st = (out, p', st')"
    using assms Some rec by (auto simp: consume_traces_def finished_def ConsumeTraces_def split: prod.splits)
  ultimately show ?thesis by (blast intro: storeGenerations_attributed)
qed

lemma consume_logs_attributed:
  assumes "consume_logs env token decoded p st = (r, out, p', st')"
  shows "attributed token st st'"
proof (cases decoded)
  case None
  then show ?thesis using assms by (simp add: consume_logs_def)
next
  case (Some ld)
  obtain q gens where rec: "each_record (consume_log (en_hex env)) ld (p, []) = (q, gens)" by fastforce
  with logs_unattributed have "\<forall>g \<in> set gens. g_token_id g = 0" by (metis snd_conv)
  moreover have "storeGenerations (en_worker env) (en_hub env) token (en_fault env) (en_clock env) gens q st = (out, p', st')"
    using assms Some rec by (auto simp: consume_logs_def finished_def ConsumeLogs_def split: prod.splits)
  ultimately show ?thesis by (blast intro: storeGenerations_attributed)
qed

lemma consume_metrics_attributed:
  "consume_metrics decoded p st = (r, out, p', st') \<Longrightarrow> attributed token st st'"
  by (auto simp: consume_metrics_def finished_def split: option.splits)

lemma process_attributed:
  "process_http env sig token body encoding p st = (r, out, p', st') \<Longrightarrow> attributed token st st'"
  "process_grpc env sig token m p st = (r, out, p', st') \<Longrightarrow> attributed token st st'"
  by (cases sig; auto simp: process_http_def process_grpc_def
      intro: consume_traces_attributed consume_logs_attributed consume_metrics_attributed)+

section \<open>Endings\<close>

definition reject_answers :: "(int \<times> string) set" where
  "reject_answers = {(401, ReasonUnauthorized), (400, ReasonBadContentType), (415, ReasonBadContentType),
     (413, ReasonBodyTooLarge), (400, ReasonBodyReadError), (400, ReasonBadGzip), (415, ReasonBadEncoding),
     (400, ReasonDecodeFailed)}"

text \<open>How an export may end: with its batch processed, refused and counted, or not at all.\<close>

definition processed_as :: "ending \<Rightarrow> outcome \<Rightarrow> pipeline \<Rightarrow> store \<Rightarrow> pipeline \<Rightarrow> store \<Rightarrow> bool" where
  "processed_as e out p st p' st' \<longleftrightarrow> (\<forall>db. service_step (p, st, db) (p', st', db)) \<and> http_rejects p' = http_rejects p
     \<and> (if e = Down then o_error out \<noteq> None \<and> st' = st else o_error out = None)"

lemma handle_classified:
  assumes "handle env sig token rq p st = (a, out, p', st')"
  shows "a_status a \<in> {200, 503} \<and> processed_as (http_ending (a_status a)) out p st p' st'
    \<or> (\<exists>r. (a_status a, r) \<in> reject_answers \<and> out = no_effect \<and> st' = st \<and> p' = bumpReason ReasonKindHTTPReject r 1 p)"
proof (cases "read_request (en_codecs env) rq")
  case (Inl x)
  obtain status msg reason where x: "x = (status, msg, reason)" by (cases x) auto
  from read_request_Inl [OF Inl [unfolded x]] show ?thesis
    using assms unfolding Inl x handle_def by (auto simp: reject_answers_def)
next
  case (Inr y)
  obtain encoding body where y: "y = (encoding, body)" by (cases y) auto
  obtain r out' q st1 where r: "process_http env sig token body encoding p st = (r, out', q, st1)"
    by (metis prod_cases4)
  from process_sound(1) [of p st env sig token body encoding] assms show ?thesis
    unfolding handle_def Inr y
    by (cases r) (auto simp: r sound_processing_def processed_as_def http_ending_def reject_answers_def)
qed

lemma Handler_classified:
  assumes "Handler env token rq p st = (a, out, p', st')"
  shows "a_status a \<in> {200, 503} \<and> processed_as (http_ending (a_status a)) out p st p' st'
    \<or> (\<exists>r. (a_status a, r) \<in> reject_answers \<and> out = no_effect \<and> st' = st \<and> p' = bumpReason ReasonKindHTTPReject r 1 p)
    \<or> a_status a \<in> {404, 405} \<and> out = no_effect \<and> p' = p \<and> st' = st"
proof (cases "signal_of_path (or_path rq)")
  case None
  then show ?thesis using assms by (auto simp: Handler_def)
next
  case (Some sig)
  show ?thesis
  proof (cases "or_method rq = ''POST''")
    case True
    then have "handle env sig token rq p st = (a, out, p', st')" using assms Some by (simp add: Handler_def)
    from handle_classified [OF this] show ?thesis by blast
  next
    case False
    then show ?thesis using assms Some by (auto simp: Handler_def)
  qed
qed

lemma otlp_http_classified:
  assumes "otlp_http env public now rq (ts, p, st) = (a, out, ts', p', st')"
  shows "a_status a \<in> {200, 503} \<and> processed_as (http_ending (a_status a)) out p st p' st'
    \<or> (\<exists>r. (a_status a, r) \<in> reject_answers \<and> out = no_effect \<and> st' = st \<and> p' = bumpReason ReasonKindHTTPReject r 1 p)
    \<or> a_status a \<in> {404, 405} \<and> out = no_effect \<and> p' = p \<and> st' = st"
proof -
  obtain g ts1 where g: "BearerWithHook (Verify (en_digest env) now) (listener_Required public) (or_auth rq) ts = (g, ts1)"
    by fastforce
  show ?thesis
  proof (cases g)
    case (Served t)
    then have "Handler env (token_of t) rq p st = (a, out, p', st')"
      using assms g by (auto simp: otlp_http_def split: prod.splits)
    from Handler_classified [OF this] show ?thesis .
  next
    case Refused
    then show ?thesis using assms g by (auto simp: otlp_http_def reject_answers_def)
  qed
qed

lemma otlp_grpc_classified:
  assumes "otlp_grpc env public now rq (ts, p, st) = (c, out, ts', p', st')"
  shows "if c \<in> {OK, Unavailable} then processed_as (grpc_ending c) out p st p' st'
    else out = no_effect \<and> st' = st \<and> p' = bumpReason ReasonKindHTTPReject
      (if c = Unauthenticated then ReasonGRPCUnauthorized else ReasonDecodeFailed) 1 p"
proof -
  obtain g ts1 where g: "GRPCUnaryInterceptorWithHook (Verify (en_digest env) now) (listener_Required public) (gr_auth rq) ts = (g, ts1)"
    by fastforce
  show ?thesis
  proof (cases g)
    case (Served t)
    obtain r out' q st1 where r: "process_grpc env (gr_service rq) (token_of t) (gr_msg rq) p st = (r, out', q, st1)"
      by (metis prod_cases4)
    from process_sound(2) [of p st env "gr_service rq" "token_of t" "gr_msg rq"] assms show ?thesis
      by (cases r) (auto simp: otlp_grpc_def g Served Export_def r sound_processing_def processed_as_def grpc_ending_def)
  next
    case Refused
    then show ?thesis using assms g by (auto simp: otlp_grpc_def)
  qed
qed

lemma reject_answers_ending: "(status, r) \<in> reject_answers \<Longrightarrow> http_ending status = Rejected"
  by (auto simp: reject_answers_def http_ending_def)

lemma serve_classified:
  assumes "serve x (ts, p, st) = (e, ts', p', st')"
  shows "(p' = p \<and> st' = st \<or> (\<forall>db. service_step (p, st, db) (p', st', db)))
    \<and> http_rejects p' = http_rejects p + (if e = Rejected then 1 else 0) \<and> (e \<noteq> Stored \<longrightarrow> st' = st)"
proof -
  have reject: "\<forall>db. service_step (p, st, db) (bumpReason ReasonKindHTTPReject r 1 p, st, db)"
    if "r \<in> {ReasonUnauthorized, ReasonGRPCUnauthorized, ReasonBadContentType, ReasonBadEncoding, ReasonBodyTooLarge,
     ReasonBodyReadError, ReasonBadGzip, ReasonDecodeFailed}" for r
    using service_step.http_reject [of p st _ r] transport_reason_listed [OF that] by simp
  show ?thesis
  proof (cases x)
    case (OverHTTP env public now rq)
    obtain a out where a: "otlp_http env public now rq (ts, p, st) = (a, out, ts', p', st')" "e = http_ending (a_status a)"
      using assms OverHTTP by (auto split: prod.splits)
    from otlp_http_classified [OF a(1)] show ?thesis
    proof (elim disjE)
      assume "a_status a \<in> {200, 503} \<and> processed_as (http_ending (a_status a)) out p st p' st'"
      then show ?thesis using a(2) by (auto simp: processed_as_def http_ending_def)
    next
      assume "\<exists>r. (a_status a, r) \<in> reject_answers \<and> out = no_effect \<and> st' = st \<and> p' = bumpReason ReasonKindHTTPReject r 1 p"
      then obtain r where r: "(a_status a, r) \<in> reject_answers" "st' = st" "p' = bumpReason ReasonKindHTTPReject r 1 p" by blast
      then have "e = Rejected" using a(2) reject_answers_ending by simp
      moreover have "\<forall>db. service_step (p, st, db) (p', st', db)"
        unfolding r(2,3) by (rule reject) (use r(1) in \<open>auto simp: reject_answers_def\<close>)
      ultimately show ?thesis using r(2,3) by simp
    next
      assume "a_status a \<in> {404, 405} \<and> out = no_effect \<and> p' = p \<and> st' = st"
      then show ?thesis using a(2) by (auto simp: http_ending_def)
    qed
  next
    case (OverGRPC env public now rq)
    obtain c out where c: "otlp_grpc env public now rq (ts, p, st) = (c, out, ts', p', st')" "e = grpc_ending c"
      using assms OverGRPC by (auto split: prod.splits)
    from otlp_grpc_classified [OF c(1)] show ?thesis
      using c(2) reject [of ReasonGRPCUnauthorized] reject [of ReasonDecodeFailed]
      by (cases c) (auto simp: processed_as_def grpc_ending_def)
  qed
qed

lemma serve_all_classified:
  "serve_all xs (ts, p, st) = (es, ts', p', st') \<Longrightarrow> (\<forall>db. service_step\<^sup>*\<^sup>* (p, st, db) (p', st', db))
    \<and> http_rejects p' = http_rejects p + of_nat (count_list es Rejected) \<and> (Stored \<notin> set es \<longrightarrow> st' = st)
    \<and> length es = length xs"
proof (induction xs arbitrary: ts p st es)
  case (Cons x xs)
  obtain e ts1 p1 st1 where one: "serve x (ts, p, st) = (e, ts1, p1, st1)" by (metis prod_cases4)
  obtain es1 where rest: "serve_all xs (ts1, p1, st1) = (es1, ts', p', st')" "es = e # es1"
    using Cons.prems one by (auto split: prod.splits)
  from serve_classified [OF one] Cons.IH [OF rest(1)] rest(2) show ?case
    by (auto simp: algebra_simps intro: converse_rtranclp_into_rtranclp)
qed simp

section \<open>The token of an export\<close>

fun export_digest :: "'m export \<Rightarrow> string \<Rightarrow> string" where
  "export_digest (OverHTTP env public now rq) = en_digest env"
| "export_digest (OverGRPC env public now rq) = en_digest env"

fun exposed :: "'m export \<Rightarrow> bool" where
  "exposed (OverHTTP env public now rq) = public"
| "exposed (OverGRPC env public now rq) = public"

fun presented :: "'m export \<Rightarrow> string \<Rightarrow> bool" where
  "presented (OverHTTP env public now rq) secret \<longleftrightarrow> or_auth rq = ''Bearer '' @ secret"
| "presented (OverGRPC env public now rq) secret \<longleftrightarrow> ''Bearer '' @ secret \<in> set (gr_auth rq)"

fun gate_of :: "'m export \<Rightarrow> token_store \<Rightarrow> gate" where
  "gate_of (OverHTTP env public now rq) ts =
     fst (BearerWithHook (Verify (en_digest env) now) (listener_Required public) (or_auth rq) ts)"
| "gate_of (OverGRPC env public now rq) ts =
     fst (GRPCUnaryInterceptorWithHook (Verify (en_digest env) now) (listener_Required public) (gr_auth rq) ts)"

lemma gate_of_open: "gate_of x ts = Served None \<longleftrightarrow> \<not> listener_Required (exposed x) ts"
  by (cases x) (simp_all add: listener.http_open listener.grpc_open)

lemma gate_of_served: "gate_of x ts = Served (Some i) \<Longrightarrow>
    \<exists>secret. presented x secret \<and> listener_accepts (export_digest x) ts secret i"
  by (cases x) (simp_all only: gate_of.simps presented.simps export_digest.simps listener.http_served,
     use listener.grpc_served in blast)

lemma gate_of_refused: "gate_of x ts = Refused \<longleftrightarrow> listener_Required (exposed x) ts
    \<and> \<not> (\<exists>secret i. presented x secret \<and> listener_accepts (export_digest x) ts secret i)"
  by (cases x) (simp_all add: listener.http_refused listener.grpc_refused)

lemma handle_attributed:
  "handle env sig token rq p st = (a, out, p', st') \<Longrightarrow> attributed token st st'"
  by (auto simp: handle_def split: sum.splits prod.splits processed.splits dest: process_attributed)

lemma Handler_attributed:
  "Handler env token rq p st = (a, out, p', st') \<Longrightarrow> attributed token st st'"
  by (auto simp: Handler_def split: option.splits if_splits dest: handle_attributed)

lemma Export_attributed:
  "Export env sig token m p st = (c, out, p', st') \<Longrightarrow> attributed token st st'"
  by (auto simp: Export_def split: prod.splits processed.splits dest: process_attributed)

lemma serve_attributed:
  assumes "serve x (ts, p, st) = (e, ts', p', st')"
  shows "case gate_of x ts of Served t \<Rightarrow> attributed (token_of t) st st' | Refused \<Rightarrow> e = Rejected \<and> st' = st"
proof (cases x)
  case (OverHTTP env public now rq)
  then show ?thesis using assms
    by (cases "BearerWithHook (Verify (en_digest env) now) (listener_Required public) (or_auth rq) ts")
       (auto simp: otlp_http_def http_ending_def split: gate.splits prod.splits dest: Handler_attributed)
next
  case (OverGRPC env public now rq)
  then show ?thesis using assms
    by (cases "GRPCUnaryInterceptorWithHook (Verify (en_digest env) now) (listener_Required public) (gr_auth rq) ts")
       (auto simp: otlp_grpc_def grpc_ending_def split: gate.splits prod.splits dest: Export_attributed)
qed

lemma reachable_gate:
  assumes "(token_step H)\<^sup>*\<^sup>* token_init (db, st0, ts)" "\<And>t. length (H t) = 32"
  shows "listener_accepts H ts secret i \<longleftrightarrow> db_Verify H secret db = Some i"
    and "listener_Required public ts \<longleftrightarrow> public \<or> td_tokens db \<noteq> []"
    and "db_Verify H secret db = Some i \<Longrightarrow> 0 < i"
proof -
  from tokens_reachable_ok [OF assms] have ok: "token_db_ok db" "cache_ok db ts" by (simp_all add: token_service_ok_def)
  show "listener_accepts H ts secret i \<longleftrightarrow> db_Verify H secret db = Some i"
    using cache_Verify [OF ok, of H 0 secret]
    by (auto simp: listener_accepts_def Verify_def split: option.splits if_splits)
  show "listener_Required public ts \<longleftrightarrow> public \<or> td_tokens db \<noteq> []"
    using ok(2) by (simp add: listener_Required_def HasTokens_def cache_ok_def)
  show "db_Verify H secret db = Some i \<Longrightarrow> 0 < i"
    using ok(1) by (auto simp: db_Verify_def token_db_ok_def find_Some_iff split: if_splits)
qed

section \<open>Properties\<close>

definition sample_traces :: "otel_span batch" where
  "sample_traces = [([(''service.name'', AStr ''opencode'')], [[\<lparr>sp_name = ''opencode.llm'', sp_trace_id = ''a1'',
     sp_span_id = ''b1'', sp_start = 1700000000000000000, sp_end = 1700000001000000000,
     sp_attrs = [(''openinference.span.kind'', AStr ''LLM'')]\<rparr>]])]"

definition sample_codecs :: "string codecs" where
  "sample_codecs = \<lparr>gz_open = (\<lambda>_. False), gz_read = (\<lambda>_ _. None), traces_json = (\<lambda>_. Some sample_traces),
     traces_proto = (\<lambda>_. Some sample_traces), traces_export = (\<lambda>_. Some sample_traces), metrics_json = (\<lambda>b. Some [([], [[b]])]),
     metrics_proto = (\<lambda>b. Some [([], [[b]])]), metrics_export = (\<lambda>b. Some [([], [[b]])]),
     logs_json = (\<lambda>_. None), logs_proto = (\<lambda>_. None), logs_export = (\<lambda>_. None), marshal = Some\<rparr>"

definition sample_env :: "string env" where
  "sample_env = \<lparr>en_digest = sample_hash, en_hex = (\<lambda>x. x), en_json = (\<lambda>_. None), en_worker = True,
     en_hub = True, en_fault = no_fault, en_clock = (\<lambda>_. 0), en_codecs = sample_codecs\<rparr>"

definition sample_request :: "string \<Rightarrow> string \<Rightarrow> otlp_request" where
  "sample_request auth path = \<lparr>or_method = ''POST'', or_path = path, or_auth = auth,
     or_ctype = ''application/json'', or_cencoding = [], or_body = ''m'', or_broken = False\<rparr>"

definition sample_exports :: "string export list" where
  "sample_exports = [OverHTTP sample_env True 5 (sample_request [] ''/v1/metrics''),
     OverHTTP sample_env False 6 (sample_request [] ''/v1/metrics''),
     OverGRPC sample_env False 7 \<lparr>gr_service = Logs, gr_auth = [], gr_msg = []\<rparr>]"

definition no_tokens :: token_store where
  "no_tokens = \<lparr>ts_hashes = [], ts_total = 0, ts_used = []\<rparr>"

text \<open>C9: Every refused export is counted exactly once under a transport reason, whichever listener it
  came to, and nothing else is: over any sequence of exports the breakdown of rejections grows by
  the number of requests refused.  A sequence in which no export was accepted leaves the database
  as it was, and whatever was answered the counters still balance.\<close>

theorem rejections_are_counted:
  assumes "service_step\<^sup>*\<^sup>* init_service (p, st, db)" "serve_all xs (ts, p, st) = (es, ts', p', st')"
  shows "http_rejects p' = http_rejects p + of_nat (count_list es Rejected)
    \<and> (Stored \<notin> set es \<longrightarrow> st' = st) \<and> length es = length xs
    \<and> balanced (Stats now p') (ReasonCounts now p')"
proof -
  note c = serve_all_classified [OF assms(2)]
  then have "service_step\<^sup>*\<^sup>* (p, st, db) (p', st', db)" by blast
  with assms(1) have "service_step\<^sup>*\<^sup>* init_service (p', st', db)" by (rule rtranclp_trans)
  from service_reachable_ok [OF this] have "balanced (Stats now p') (ReasonCounts now p')"
    unfolding Stats_def ReasonCounts_def by (intro balanced_add) (simp_all add: pipeline_ok_def service_ok_def)
  with c show ?thesis by blast
qed

lemma sample_served: "fst (serve_all sample_exports (no_tokens, NewPipeline, empty_store)) = [Rejected, Stored, Rejected]"
  by (simp add: sample_exports_def sample_request_def sample_env_def sample_codecs_def otlp_http_def otlp_grpc_def
      BearerWithHook_def GRPCUnaryInterceptorWithHook_def listener_Required_def HasTokens_def no_tokens_def
      bearerValid_def cut_prefix_def Handler_def signal_of_path_def handle_def read_request_def encodingOf_def
      maxBodyBytes_def process_http_def unmarshalMetrics_def consume_metrics_def finished_def no_effect_def
      token_of_def http_ending_def grpc_ending_def Export_def process_grpc_def logsFromProto_def consume_logs_def)

theorem rejections_are_counted_witness:
  "\<exists>ts p st. serve_all sample_exports (no_tokens, NewPipeline, empty_store) = ([Rejected, Stored, Rejected], ts, p, st)
    \<and> http_rejects p = 2 \<and> balanced (Stats 9 p) (ReasonCounts 9 p)"
proof -
  obtain ts p st where r: "serve_all sample_exports (no_tokens, NewPipeline, empty_store) = ([Rejected, Stored, Rejected], ts, p, st)"
    using sample_served by (cases "serve_all sample_exports (no_tokens, NewPipeline, empty_store)") auto
  have "service_step\<^sup>*\<^sup>* init_service (NewPipeline, empty_store, empty_stats_db)" by (simp add: init_service_def)
  from rejections_are_counted [OF this r, of 9] r show ?thesis
    by (simp add: http_rejects_def NewPipeline_def)
qed

text \<open>C5: Usage is attributed to the token that brought it and never to another: after an export, at
  either listener, every row is one that was there with the token it had, or it is new or had no
  token, and its token now is that of an active row whose secret the export presented; it stays
  without one only where authentication is not required, on a loopback listener before the first
  token exists.\<close>

theorem usage_is_attributed:
  assumes "(token_step (export_digest x))\<^sup>*\<^sup>* token_init (db, st0, ts)" "\<And>t. length (export_digest x t) = 32"
    and "serve x (ts, p, st) = (e, ts', p', st')" "r' \<in> set (s_rows st')"
  shows "(\<exists>r \<in> set (s_rows st). r_id r = r_id r' \<and> r_token r = r_token r')
    \<or> (r_id r' \<notin> set (ids st) \<or> (\<exists>r \<in> set (s_rows st). r_id r = r_id r' \<and> r_token r = None))
      \<and> (case r_token r' of
           None \<Rightarrow> \<not> exposed x \<and> td_tokens db = []
         | Some i \<Rightarrow> \<exists>secret. presented x secret \<and> db_Verify (export_digest x) secret db = Some i)"
proof (cases "gate_of x ts")
  case (Served t)
  have "case r_token r' of None \<Rightarrow> \<not> exposed x \<and> td_tokens db = []
      | Some i \<Rightarrow> \<exists>secret. presented x secret \<and> db_Verify (export_digest x) secret db = Some i"
    if "r_token r' = nullableID (token_of t)"
  proof (cases t)
    case None
    then have "\<not> listener_Required (exposed x) ts" using Served gate_of_open [of x ts] by simp
    with that None show ?thesis
      using reachable_gate(2) [OF assms(1,2)] by (simp add: nullableID_def token_of_def)
  next
    case (Some i)
    then obtain secret where s: "presented x secret" "listener_accepts (export_digest x) ts secret i"
      using Served gate_of_served by blast
    with reachable_gate [OF assms(1,2)] have "db_Verify (export_digest x) secret db = Some i" "0 < i" by blast+
    with that Some s(1) show ?thesis by (auto simp: nullableID_def token_of_def)
  qed
  with serve_attributed [OF assms(3)] Served assms(4) show ?thesis
    by (auto simp: attributed_def)
next
  case Refused
  with serve_attributed [OF assms(3)] assms(4) show ?thesis by auto
qed

lemma sample_consumed: "map (\<lambda>r. (r_id r, r_token r)) (s_rows (snd (snd (ConsumeTraces (\<lambda>x. x) (\<lambda>_. None) True True 1
    no_fault (\<lambda>_. 0) sample_traces NewPipeline empty_store)))) = [(''opencode|a1|b1'', Some 1)]"
  by code_simp

lemma sample_consumed_error: "o_error (fst (ConsumeTraces (\<lambda>x. x) (\<lambda>_. None) True True 1
    no_fault (\<lambda>_. 0) sample_traces NewPipeline empty_store)) = None"
  by code_simp

lemma sample_gate: "BearerWithHook (Verify sample_hash 9) (listener_Required True) ''Bearer aiu_key'' sample_cache
    = (Served (Some 1), sample_cache\<lparr>ts_used := [(1, 9)]\<rparr>)"
  by code_simp

theorem usage_is_attributed_witness:
  "\<exists>e ts p st r. serve (OverHTTP sample_env True 9 (sample_request ''Bearer aiu_key'' ''/v1/traces''))
       (sample_cache, NewPipeline, empty_store) = (e, ts, p, st)
     \<and> r \<in> set (s_rows st) \<and> r_token r = Some 1
     \<and> (\<exists>secret. ''Bearer aiu_key'' = ''Bearer '' @ secret \<and> db_Verify sample_hash secret sample_token_db = Some 1)"
proof -
  let ?x = "OverHTTP sample_env True 9 (sample_request ''Bearer aiu_key'' ''/v1/traces'')"
  obtain out p st where c: "ConsumeTraces (\<lambda>x. x) (\<lambda>_. None) True True 1 no_fault (\<lambda>_. 0) sample_traces NewPipeline empty_store
      = (out, p, st)" by (metis prod_cases3)
  then have out: "o_error out = None" using sample_consumed_error by simp
  obtain e ts p' where s: "serve ?x (sample_cache, NewPipeline, empty_store) = (e, ts, p', st)"
    by (auto simp: out otlp_http_def sample_env_def sample_request_def sample_gate Handler_def signal_of_path_def handle_def
        read_request_def encodingOf_def maxBodyBytes_def process_http_def unmarshalTraces_def sample_codecs_def
        consume_traces_def token_of_def c finished_def)
  from sample_consumed c have "map (\<lambda>r. (r_id r, r_token r)) (s_rows st) = [(''opencode|a1|b1'', Some 1)]" by simp
  then obtain r where r: "r \<in> set (s_rows st)" "r_token r = Some 1" by auto
  have "export_digest ?x = sample_hash" by (simp add: sample_env_def)
  with usage_is_attributed [of ?x sample_token_db empty_store sample_cache, OF _ _ s r(1)] sample_tokens_reachable sample_hash_length
  have "\<exists>secret. presented ?x secret \<and> db_Verify sample_hash secret sample_token_db = Some 1"
    using r(2) by (simp add: empty_store_def)
  with s r show ?thesis by (force simp: sample_request_def)
qed

lemma one_header_gate: "GRPCUnaryInterceptorWithHook verify required [h] s = BearerWithHook verify required h s"
  by (auto simp: GRPCUnaryInterceptorWithHook_def BearerWithHook_def bearerValid_def split: option.splits prod.splits)

definition same_batch :: "'m codecs \<Rightarrow> signal \<Rightarrow> string \<Rightarrow> 'm \<Rightarrow> bool" where
  "same_batch cs sig body m = (case sig of
     Traces \<Rightarrow> tracesFromProto cs m = traces_proto cs body
   | Metrics \<Rightarrow> metricsFromProto cs m = metrics_proto cs body
   | Logs \<Rightarrow> logsFromProto cs m = logs_proto cs body)"

lemma same_processing: "same_batch (en_codecs env) sig body m \<Longrightarrow>
    process_grpc env sig token m = process_http env sig token body ''protobuf''"
  by (cases sig) (simp_all add: same_batch_def process_grpc_def process_http_def unmarshalTraces_def
      unmarshalMetrics_def unmarshalLogs_def)



end
