(* ===== verification/Service.thy ===== *)
theory Service
  imports Config Receivers
begin

text \<open>
  The process: what \<open>run\<close> of \<open>cmd/ai-usage/main.go\<close> builds from a configuration - the token store,
  the dashboard's guard (\<open>NewWithAuth\<close> of \<open>internal/api/api.go\<close>) and the two OTLP listeners.
\<close>

section \<open>Startup\<close>

datatype startup_error = TokensNotLoaded | SeedFailed token_error | SessionsFailed

text \<open>The token store is loaded, then the configured token imported.\<close>

definition start_tokens :: "(string \<Rightarrow> string) \<Rightarrow> bool \<Rightarrow> bool \<Rightarrow> int \<Rightarrow> config \<Rightarrow> token_db \<Rightarrow> store
    \<Rightarrow> startup_error + token_db \<times> store \<times> token_store" where
  "start_tokens H load_fault seed_fault now cfg db st = (case NewTokenStore load_fault db of
     None \<Rightarrow> Inl TokensNotLoaded
   | Some ts \<Rightarrow> (case Seed H seed_fault now (OTLPToken cfg) db st ts of
       (Inl e, _) \<Rightarrow> Inl (SeedFailed e)
     | (Inr _, s) \<Rightarrow> Inr s))"

text \<open>The login guard, when there are credentials; creating the sessions may fail.\<close>

definition start_dashboard :: "(string \<Rightarrow> string \<Rightarrow> string) \<Rightarrow> string option \<Rightarrow> config \<Rightarrow> startup_error + dashboard option" where
  "start_dashboard mac random cfg = (if \<not> DashboardAuthEnabled cfg then Inr None
     else case NewConfiguredSessions mac random (SessionSecret cfg) (SessionTTL cfg) (DashboardUser cfg) (DashboardPassword cfg) of
       None \<Rightarrow> Inl SessionsFailed
     | Some s \<Rightarrow> Inr (Some \<lparr>db_user = DashboardUser cfg, db_password = DashboardPassword cfg, db_sessions = s\<rparr>))"

text \<open>The guard in front of every route of the dashboard port.\<close>

definition dashboard_port :: "(string \<Rightarrow> string \<Rightarrow> string) \<Rightarrow> (string \<Rightarrow> bool) \<Rightarrow> dashboard option \<Rightarrow> int \<Rightarrow> int
    \<Rightarrow> request \<Rightarrow> guarded" where
  "dashboard_port mac files dash now now2 r = (case dash of
     Some d \<Rightarrow> Middleware mac files d now now2 False r
   | None \<Rightarrow> LoopbackHost files r)"

text \<open>The OTLP listeners; an empty address disables one.\<close>

definition http_port :: "'m env \<Rightarrow> config \<Rightarrow> int \<Rightarrow> otlp_request \<Rightarrow> otlp_state \<Rightarrow> (answer \<times> outcome \<times> otlp_state) option" where
  "http_port env cfg now rq s = (if OTLPHTTPAddr cfg = [] then None
     else Some (otlp_http env (PublicAddr (OTLPHTTPAddr cfg)) now rq s))"

definition grpc_port :: "'m env \<Rightarrow> config \<Rightarrow> int \<Rightarrow> 'm grpc_request \<Rightarrow> otlp_state \<Rightarrow> (code \<times> outcome \<times> otlp_state) option" where
  "grpc_port env cfg now rq s = (if OTLPGRPCAddr cfg = [] then None
     else Some (otlp_grpc env (PublicAddr (OTLPGRPCAddr cfg)) now rq s))"

section \<open>Properties\<close>

lemma no_active_accepts_nothing:
  assumes "(token_step H)\<^sup>*\<^sup>* token_init (db, st0, ts)" "\<And>t. length (H t) = 32" "\<forall>t \<in> set (td_tokens db). \<not> Active t"
  shows "\<not> listener_accepts H ts secret i"
  using reachable_gate(1) [OF assms(1,2), of secret i] assms(3)
  by (auto simp: db_Verify_def find_Some_iff split: if_splits)

lemma start_dashboard_sessions:
  assumes "start_dashboard mac random cfg = Inr dash" "DashboardAuthEnabled cfg"
  obtains s where "dash = Some \<lparr>db_user = DashboardUser cfg, db_password = DashboardPassword cfg, db_sessions = s\<rparr>"
    and "ss_ttl s = (if SessionTTL cfg \<le> 0 then DefaultSessionTTL else SessionTTL cfg)"
  using assms by (auto simp: start_dashboard_def NewConfiguredSessions_def Let_def split: if_splits option.splits)



end
