(* ===== verification/Settings.thy ===== *)
theory Settings
  imports Json Calendar "HOL-Library.AList"
begin

text \<open>
  The dashboard's preferences (\<open>storage/settings.go\<close>): sections decoded from JSON, checked and
  brought to a canonical form, stored one row per section and read back with defaults for what is
  missing or no longer valid.

  Parameters: \<open>J\<close> reads a text that is one JSON value, \<open>enc\<close> is \<open>json.Marshal\<close> of a section, \<open>url\<close> is
  \<open>url.Parse\<close> with scheme, host name and whether the URL carries credentials, \<open>zones\<close> is the time
  zone database.  A nil slice is the empty list: \<open>normalize\<close> leaves no nil slice behind.
\<close>

section \<open>Sections\<close>

definition Themes :: "string list" where
  "Themes = [''light'', ''dark'', ''system'']"

definition AccentColors :: "string list" where
  "AccentColors = [''blue'', ''green'', ''violet'', ''rose'', ''orange'']"

definition BreakdownIDs :: "string list" where
  "BreakdownIDs = [''provider'', ''model'', ''source'', ''group'', ''token'']"

record AppearanceSettings =
  ap_theme :: string
  ap_color :: string

record BreakdownSettings =
  bd_order :: "string list"
  bd_hidden :: "string list"

record SetupSettings =
  su_endpoint :: string
  su_auth :: bool

record BackupSettings =
  bk_time :: string
  bk_timezone :: string

record DashboardSettings =
  ds_appearance :: AppearanceSettings
  ds_breakdowns :: BreakdownSettings
  ds_setup :: SetupSettings
  ds_backup :: BackupSettings

definition DefaultDashboardSettings :: DashboardSettings where
  "DefaultDashboardSettings = \<lparr>ds_appearance = \<lparr>ap_theme = ''system'', ap_color = ''blue''\<rparr>,
     ds_breakdowns = \<lparr>bd_order = BreakdownIDs, bd_hidden = []\<rparr>,
     ds_setup = \<lparr>su_endpoint = [], su_auth = False\<rparr>, ds_backup = \<lparr>bk_time = [], bk_timezone = []\<rparr>\<rparr>"

datatype settingsSection = Appearance AppearanceSettings | Breakdowns BreakdownSettings
  | Setup SetupSettings | Backup BackupSettings

definition newSection :: "string \<Rightarrow> settingsSection option" where
  "newSection name =
     (if name = ''appearance'' then Some (Appearance \<lparr>ap_theme = [], ap_color = []\<rparr>)
      else if name = ''breakdowns'' then Some (Breakdowns \<lparr>bd_order = [], bd_hidden = []\<rparr>)
      else if name = ''setup'' then Some (Setup \<lparr>su_endpoint = [], su_auth = False\<rparr>)
      else if name = ''backup'' then Some (Backup \<lparr>bk_time = [], bk_timezone = []\<rparr>)
      else None)"

fun apply_section :: "settingsSection \<Rightarrow> DashboardSettings \<Rightarrow> DashboardSettings" where
  "apply_section (Appearance a) d = d\<lparr>ds_appearance := a\<rparr>"
| "apply_section (Breakdowns b) d = d\<lparr>ds_breakdowns := b\<rparr>"
| "apply_section (Setup s) d = d\<lparr>ds_setup := s\<rparr>"
| "apply_section (Backup b) d = d\<lparr>ds_backup := b\<rparr>"

section \<open>Normalizing\<close>

definition normalize_appearance :: "AppearanceSettings \<Rightarrow> AppearanceSettings option" where
  "normalize_appearance a = (if ap_theme a \<in> set Themes \<and> ap_color a \<in> set AccentColors then Some a else None)"

fun isSubset_from :: "string list \<Rightarrow> string list \<Rightarrow> bool" where
  "isSubset_from seen [] = True"
| "isSubset_from seen (x # xs) = (if x \<notin> set BreakdownIDs \<or> x \<in> set seen then False else isSubset_from (x # seen) xs)"

definition isSubset :: "string list \<Rightarrow> bool" where
  "isSubset xs = isSubset_from [] xs"

definition normalize_breakdowns :: "BreakdownSettings \<Rightarrow> BreakdownSettings option" where
  "normalize_breakdowns b = (if \<not> isSubset (bd_order b) \<or> \<not> isSubset (bd_hidden b) then None
     else Some (b\<lparr>bd_order := fold (\<lambda>x order. if x \<notin> set order then order @ [x] else order) BreakdownIDs (bd_order b)\<rparr>))"

type_synonym parsed_url = "string \<times> string \<times> bool"

definition plain_endpoint :: "string \<Rightarrow> bool" where
  "plain_endpoint e \<longleftrightarrow> length e \<le> 2048
     \<and> list_all (\<lambda>c. c \<noteq> CHR 0x22 \<and> c \<noteq> CHR 0x5C \<and> 32 < (of_char c :: int) \<and> (of_char c :: int) \<noteq> 127) e"

definition normalize_setup :: "(string \<Rightarrow> parsed_url option) \<Rightarrow> SetupSettings \<Rightarrow> SetupSettings option" where
  "normalize_setup url s = (let e = trim_space (su_endpoint s); s' = s\<lparr>su_endpoint := e\<rparr> in
     if e = [] then Some s'
     else if \<not> plain_endpoint e then None
     else case url e of
       None \<Rightarrow> None
     | Some (scheme, hostname, user) \<Rightarrow>
         if (scheme = ''http'' \<or> scheme = ''https'') \<and> hostname \<noteq> [] \<and> \<not> user then Some s' else None)"

text \<open>Layout \<open>15:04\<close>: reading takes one- and two-digit hours, printing writes two digits.\<close>

definition parse_clock :: "string \<Rightarrow> (int \<times> int) option" where
  "parse_clock s = Option.bind (take1_2 s) (\<lambda>(h, r1). Option.bind (expect (CHR '':'') r1) (\<lambda>r2.
     Option.bind (take2 r2) (\<lambda>(m, r3). if h < 24 \<and> m < 60 \<and> r3 = [] then Some (h, m) else None)))"

definition show_clock :: "int \<Rightarrow> int \<Rightarrow> string" where
  "show_clock h m = pad 2 h @ '':'' @ pad 2 m"

text \<open>\<open>time.LoadLocation\<close>: a zone is its UTC offset in seconds at each second since 1970.\<close>

type_synonym zone = "int \<Rightarrow> int"

fun dot_dot :: "string \<Rightarrow> bool" where
  "dot_dot (a # b # s) \<longleftrightarrow> a = CHR ''.'' \<and> b = CHR ''.'' \<or> dot_dot (b # s)"
| "dot_dot _ \<longleftrightarrow> False"

definition load_location :: "(string \<Rightarrow> zone option) \<Rightarrow> string \<Rightarrow> zone option" where
  "load_location zones name = (if name = [] \<or> name = ''UTC'' then Some (\<lambda>_. 0)
     else if dot_dot name \<or> hd name = CHR ''/'' \<or> hd name = CHR 0x5C then None
     else zones name)"

definition Location :: "(string \<Rightarrow> zone option) \<Rightarrow> BackupSettings \<Rightarrow> zone option" where
  "Location zones b = (if bk_timezone b = ''Local'' \<or> 64 < length (bk_timezone b) then None
     else load_location zones (bk_timezone b))"

definition normalize_backup :: "(string \<Rightarrow> zone option) \<Rightarrow> BackupSettings \<Rightarrow> BackupSettings option" where
  "normalize_backup zones b = (let z = trim_space (bk_timezone b) in
     case parse_clock (trim_space (bk_time b)) of
       None \<Rightarrow> None
     | Some (h, m) \<Rightarrow>
         (let b' = \<lparr>bk_time = show_clock h m, bk_timezone = (if z = [] then ''UTC'' else z)\<rparr> in
          if Location zones b' = None then None else Some b'))"

fun normalize_section :: "(string \<Rightarrow> parsed_url option) \<Rightarrow> (string \<Rightarrow> zone option) \<Rightarrow> settingsSection
    \<Rightarrow> settingsSection option" where
  "normalize_section url zones (Appearance a) = map_option Appearance (normalize_appearance a)"
| "normalize_section url zones (Breakdowns b) = map_option Breakdowns (normalize_breakdowns b)"
| "normalize_section url zones (Setup s) = map_option Setup (normalize_setup url s)"
| "normalize_section url zones (Backup b) = map_option Backup (normalize_backup zones b)"

section \<open>Decoding\<close>

fun decode_bool :: "bool \<Rightarrow> json \<Rightarrow> bool option" where
  "decode_bool old JNull = Some old"
| "decode_bool old (JBool b) = Some b"
| "decode_bool old _ = None"

fun section_fields :: "settingsSection \<Rightarrow> string list" where
  "section_fields (Appearance _) = [''theme'', ''color'']"
| "section_fields (Breakdowns _) = [''order'', ''hidden'']"
| "section_fields (Setup _) = [''endpoint'', ''auth'']"
| "section_fields (Backup _) = [''time'', ''timezone'']"

fun decode_members :: "(string \<times> json) list \<Rightarrow> settingsSection \<Rightarrow> settingsSection option" where
  "decode_members kvs (Appearance a) = Option.bind (decode_field decode_string ''theme'' kvs (ap_theme a)) (\<lambda>t.
     Option.bind (decode_field decode_string ''color'' kvs (ap_color a)) (\<lambda>c.
     Some (Appearance \<lparr>ap_theme = t, ap_color = c\<rparr>)))"
| "decode_members kvs (Breakdowns b) = Option.bind (decode_field (\<lambda>_. decode_strings) ''order'' kvs (bd_order b)) (\<lambda>x.
     Option.bind (decode_field (\<lambda>_. decode_strings) ''hidden'' kvs (bd_hidden b)) (\<lambda>y.
     Some (Breakdowns \<lparr>bd_order = x, bd_hidden = y\<rparr>)))"
| "decode_members kvs (Setup s) = Option.bind (decode_field decode_string ''endpoint'' kvs (su_endpoint s)) (\<lambda>e.
     Option.bind (decode_field decode_bool ''auth'' kvs (su_auth s)) (\<lambda>a.
     Some (Setup \<lparr>su_endpoint = e, su_auth = a\<rparr>)))"
| "decode_members kvs (Backup b) = Option.bind (decode_field decode_string ''time'' kvs (bk_time b)) (\<lambda>t.
     Option.bind (decode_field decode_string ''timezone'' kvs (bk_timezone b)) (\<lambda>z.
     Some (Backup \<lparr>bk_time = t, bk_timezone = z\<rparr>)))"

definition decodeSection :: "(string \<Rightarrow> json option) \<Rightarrow> (string \<Rightarrow> parsed_url option) \<Rightarrow> (string \<Rightarrow> zone option)
    \<Rightarrow> string \<Rightarrow> settingsSection \<Rightarrow> bool \<Rightarrow> settingsSection option" where
  "decodeSection J url zones data dest strict =
     (if trim_space data = ''null'' then None
      else case J data of None \<Rightarrow> None
      | Some v \<Rightarrow> (case struct_members v of None \<Rightarrow> None
        | Some kvs \<Rightarrow>
            if strict \<and> \<not> list_all (\<lambda>(k, _). \<exists>f \<in> set (section_fields dest). equal_fold k f) kvs then None
            else Option.bind (decode_members kvs dest) (normalize_section url zones)))"

section \<open>Reading and saving\<close>

text \<open>The table \<open>dashboard_settings\<close>: section names with their texts.\<close>

type_synonym settings_table = "(string \<times> string) list"

definition read_row :: "(string \<Rightarrow> json option) \<Rightarrow> (string \<Rightarrow> parsed_url option) \<Rightarrow> (string \<Rightarrow> zone option)
    \<Rightarrow> string \<times> string \<Rightarrow> DashboardSettings \<Rightarrow> DashboardSettings" where
  "read_row J url zones row out = (case row of (name, value) \<Rightarrow>
     (case newSection name of None \<Rightarrow> out
      | Some dest \<Rightarrow> (case decodeSection J url zones value dest False of None \<Rightarrow> out
          | Some s \<Rightarrow> apply_section s out)))"

text \<open>With a read error the defaults come back beside the error.\<close>

definition ReadDashboardSettings :: "(string \<Rightarrow> json option) \<Rightarrow> (string \<Rightarrow> parsed_url option)
    \<Rightarrow> (string \<Rightarrow> zone option) \<Rightarrow> bool \<Rightarrow> settings_table \<Rightarrow> DashboardSettings \<times> bool" where
  "ReadDashboardSettings J url zones fault t =
     (if fault then (DefaultDashboardSettings, True) else (fold (read_row J url zones) t DefaultDashboardSettings, False))"

datatype settings_error = UnknownSettingsSection | InvalidSettings | SettingsDatabase

definition SaveDashboardSettings :: "(string \<Rightarrow> json option) \<Rightarrow> (settingsSection \<Rightarrow> string)
    \<Rightarrow> (string \<Rightarrow> parsed_url option) \<Rightarrow> (string \<Rightarrow> zone option) \<Rightarrow> bool \<Rightarrow> string \<Rightarrow> string
    \<Rightarrow> settings_table \<Rightarrow> settings_error option \<times> settings_table" where
  "SaveDashboardSettings J enc url zones fault name data t = (case newSection name of
     None \<Rightarrow> (Some UnknownSettingsSection, t)
   | Some dest \<Rightarrow> (case decodeSection J url zones data dest True of
       None \<Rightarrow> (Some InvalidSettings, t)
     | Some s \<Rightarrow> if fault then (Some SettingsDatabase, t) else (None, AList.update name (enc s) t)))"

section \<open>Sections are canonical\<close>

text \<open>What pages rely on.\<close>

fun renderable :: "(string \<Rightarrow> zone option) \<Rightarrow> settingsSection \<Rightarrow> bool" where
  "renderable zones (Appearance a) \<longleftrightarrow> ap_theme a \<in> set Themes \<and> ap_color a \<in> set AccentColors"
| "renderable zones (Breakdowns b) \<longleftrightarrow> distinct (bd_order b) \<and> set (bd_order b) = set BreakdownIDs
     \<and> distinct (bd_hidden b) \<and> set (bd_hidden b) \<subseteq> set BreakdownIDs"
| "renderable zones (Setup s) \<longleftrightarrow> plain_endpoint (su_endpoint s)"
| "renderable zones (Backup b) \<longleftrightarrow> bk_time b = [] \<and> bk_timezone b = []
     \<or> (\<exists>h m. 0 \<le> h \<and> h < 24 \<and> 0 \<le> m \<and> m < 60 \<and> bk_time b = show_clock h m) \<and> bk_timezone b \<noteq> [] \<and> Location zones b \<noteq> None"

lemma isSubset_from_iff: "isSubset_from seen xs \<longleftrightarrow> distinct xs \<and> set xs \<subseteq> set BreakdownIDs \<and> set xs \<inter> set seen = {}"
  by (induction xs arbitrary: seen) auto

lemma isSubset_iff: "isSubset xs \<longleftrightarrow> distinct xs \<and> set xs \<subseteq> set BreakdownIDs"
  by (simp add: isSubset_def isSubset_from_iff)

lemma append_missing:
  "distinct order \<Longrightarrow> distinct (fold (\<lambda>x order. if x \<notin> set order then order @ [x] else order) ids order)
    \<and> set (fold (\<lambda>x order. if x \<notin> set order then order @ [x] else order) ids order) = set order \<union> set ids"
  by (induction ids arbitrary: order) auto

lemma append_none: "set ids \<subseteq> set order \<Longrightarrow> fold (\<lambda>x order. if x \<notin> set order then order @ [x] else order) ids order = order"
  by (induction ids) auto

lemma normalized_order:
  assumes "normalize_breakdowns b = Some b'"
  shows "distinct (bd_order b') \<and> set (bd_order b') = set BreakdownIDs" "bd_hidden b' = bd_hidden b"
    "distinct (bd_hidden b)" "set (bd_hidden b) \<subseteq> set BreakdownIDs"
proof -
  have n: "isSubset (bd_order b)" "isSubset (bd_hidden b)"
    "b' = b\<lparr>bd_order := fold (\<lambda>x order. if x \<notin> set order then order @ [x] else order) BreakdownIDs (bd_order b)\<rparr>"
    using assms by (auto simp: normalize_breakdowns_def split: if_splits)
  show "bd_hidden b' = bd_hidden b" "distinct (bd_hidden b)" "set (bd_hidden b) \<subseteq> set BreakdownIDs"
    using n by (simp_all add: isSubset_iff)
  show "distinct (bd_order b') \<and> set (bd_order b') = set BreakdownIDs"
    using append_missing [of "bd_order b" BreakdownIDs] n by (auto simp: isSubset_iff)
qed

lemma digit_val_range: "is_digit c \<Longrightarrow> 0 \<le> digit_val c \<and> digit_val c \<le> 9"
  by (auto simp: is_digit_def byte_in_def digit_val_def)

lemma parse_clock_range:
  assumes "parse_clock s = Some (h, m)"
  shows "0 \<le> h" "h < 24" "0 \<le> m" "m < 60"
  using assms digit_val_range
  by (auto simp: parse_clock_def take1_2_def take2_def expect_def split: bind_splits list.splits if_splits
      intro!: add_nonneg_nonneg mult_nonneg_nonneg)

lemma two_digits: "0 \<le> n \<Longrightarrow> n < 100 \<Longrightarrow> \<exists>a b. pad 2 n = [a, b] \<and> is_digit a \<and> is_digit b \<and> digit_val a * 10 + digit_val b = n"
proof -
  assume n: "0 \<le> n" "n < 100"
  then obtain a b where ab: "pad 2 n = [a, b]"
    using length_pad_2 [of n] by (auto simp: length_Suc_conv numeral_2_eq_2)
  moreover have "is_digit a" "is_digit b" using pad_digits [of _ 2 n] ab by auto
  moreover have "digits_val 0 [a, b] = Some n" using ab n(1) by (metis digits_val_pad)
  ultimately show ?thesis by (simp add: digit_val_def split: if_splits)
qed

lemma parse_show_clock [simp]:
  assumes "0 \<le> h" "h < 24" "0 \<le> m" "m < 60"
  shows "parse_clock (show_clock h m) = Some (h, m)"
proof -
  obtain a b where h: "pad 2 h = [a, b]" "is_digit a" "is_digit b" "digit_val a * 10 + digit_val b = h"
    using two_digits [of h] assms by auto
  obtain c d where m: "pad 2 m = [c, d]" "is_digit c" "is_digit d" "digit_val c * 10 + digit_val d = m"
    using two_digits [of m] assms by auto
  show ?thesis using h m assms by (simp add: show_clock_def parse_clock_def take1_2_def take2_def expect_def)
qed

lemma trim_space_plain: "(\<And>c. c \<in> set s \<Longrightarrow> \<not> is_space c) \<Longrightarrow> trim_space s = s"
  using dropWhile_id [of s is_space] dropWhile_id [of "rev s" is_space] by (simp add: trim_space_def)

lemma pad_no_space: "c \<in> set (pad k n) \<Longrightarrow> \<not> is_space c"
  using pad_digits [of c k n] by (auto simp: is_digit_def is_space_def byte_in_def)

lemma trim_show_clock [simp]: "trim_space (show_clock h m) = show_clock h m"
  by (rule trim_space_plain) (auto simp: show_clock_def dest: pad_no_space, simp add: is_space_def byte_in_def)

lemma normalize_renderable: "normalize_section url zones s = Some s' \<Longrightarrow> renderable zones s'"
proof (cases s)
  case (Breakdowns b)
  then show "normalize_section url zones s = Some s' \<Longrightarrow> renderable zones s'" using normalized_order by fastforce
next
  case (Backup b)
  then show "normalize_section url zones s = Some s' \<Longrightarrow> renderable zones s'"
    using parse_clock_range by (fastforce simp: normalize_backup_def Let_def split: option.splits if_splits)
qed (auto simp: normalize_appearance_def normalize_setup_def plain_endpoint_def Let_def split: if_splits option.splits)

lemma normalize_idem:
  assumes "normalize_section url zones s = Some s'"
  shows "normalize_section url zones s' = Some s'"
proof (cases s)
  case (Breakdowns b)
  then obtain b' where b: "s' = Breakdowns b'" "normalize_breakdowns b = Some b'" using assms by auto
  note o = normalized_order [OF b(2)]
  have "isSubset (bd_order b')" "isSubset (bd_hidden b')" using o by (simp_all add: isSubset_iff)
  moreover have "fold (\<lambda>x order. if x \<notin> set order then order @ [x] else order) BreakdownIDs (bd_order b') = bd_order b'"
    using o(1) by (intro append_none) simp
  ultimately show ?thesis using b(1) by (simp add: normalize_breakdowns_def)
next
  case (Backup b)
  then obtain b' where b: "s' = Backup b'" "normalize_backup zones b = Some b'" using assms by auto
  then obtain h m where c: "parse_clock (trim_space (bk_time b)) = Some (h, m)"
    "b' = \<lparr>bk_time = show_clock h m, bk_timezone = (if trim_space (bk_timezone b) = [] then ''UTC'' else trim_space (bk_timezone b))\<rparr>"
    "Location zones b' \<noteq> None"
    by (auto simp: normalize_backup_def Let_def split: option.splits if_splits)
  have "trim_space ''UTC'' = ''UTC''" by code_simp
  then have z: "trim_space (bk_timezone b') = bk_timezone b'" "bk_timezone b' \<noteq> []" using c(2) by auto
  have "parse_clock (trim_space (bk_time b')) = Some (h, m)" using c(2) parse_clock_range [OF c(1)] by simp
  moreover have "\<lparr>bk_time = show_clock h m, bk_timezone = bk_timezone b'\<rparr> = b'" using c(2) by simp
  ultimately have "normalize_backup zones b' = Some b'" using z c(3) by (simp add: normalize_backup_def Let_def)
  then show ?thesis using b(1) by simp
qed (use assms in \<open>auto simp: normalize_appearance_def normalize_setup_def Let_def split: if_splits option.splits\<close>)

section \<open>Reading\<close>

fun kind :: "settingsSection \<Rightarrow> string" where
  "kind (Appearance _) = ''appearance''"
| "kind (Breakdowns _) = ''breakdowns''"
| "kind (Setup _) = ''setup''"
| "kind (Backup _) = ''backup''"

definition get_section :: "string \<Rightarrow> DashboardSettings \<Rightarrow> settingsSection option" where
  "get_section name d = map_option (\<lambda>s. case s of Appearance _ \<Rightarrow> Appearance (ds_appearance d)
     | Breakdowns _ \<Rightarrow> Breakdowns (ds_breakdowns d) | Setup _ \<Rightarrow> Setup (ds_setup d) | Backup _ \<Rightarrow> Backup (ds_backup d)) (newSection name)"

lemma kind_newSection: "newSection name = Some s \<Longrightarrow> kind s = name"
  by (auto simp: newSection_def split: if_splits)

lemma kind_decode_members: "decode_members kvs s = Some s' \<Longrightarrow> kind s' = kind s"
  by (cases s) (auto split: bind_splits)

lemma kind_normalize: "normalize_section url zones s = Some s' \<Longrightarrow> kind s' = kind s"
  by (cases s) auto

lemma decodeSection_facts:
  assumes "decodeSection J url zones data dest strict = Some s"
  shows "kind s = kind dest" "renderable zones s" "normalize_section url zones s = Some s"
proof -
  obtain kvs s0 where s: "decode_members kvs dest = Some s0" "normalize_section url zones s0 = Some s"
    using assms by (auto simp: decodeSection_def split: if_splits option.splits bind_splits)
  show "kind s = kind dest" using kind_decode_members [OF s(1)] kind_normalize [OF s(2)] by simp
  show "renderable zones s" "normalize_section url zones s = Some s"
    using normalize_renderable [OF s(2)] normalize_idem [OF s(2)] by simp_all
qed

lemma get_apply_section: "newSection n \<noteq> None \<Longrightarrow>
    get_section n (apply_section s d) = (if kind s = n then Some s else get_section n d)"
  by (cases s) (auto simp: get_section_def newSection_def)

lemma get_read_row:
  assumes "newSection n = Some dest"
  shows "get_section n (read_row J url zones (n', v) d) = (if n' = n then
      (case decodeSection J url zones v dest False of None \<Rightarrow> get_section n d | Some s \<Rightarrow> Some s) else get_section n d)"
proof (cases "newSection n'")
  case None
  then show ?thesis using assms by (auto simp: read_row_def)
next
  case (Some dest')
  then show ?thesis
    using assms get_apply_section [of n] kind_newSection decodeSection_facts(1)
    by (fastforce simp: read_row_def split: option.splits)
qed

lemma get_read:
  assumes "newSection n = Some dest"
  shows "distinct (map fst t) \<Longrightarrow> get_section n (fold (read_row J url zones) t d) = (case map_of t n of
      None \<Rightarrow> get_section n d
    | Some v \<Rightarrow> (case decodeSection J url zones v dest False of None \<Rightarrow> get_section n d | Some s \<Rightarrow> Some s))"
proof (induction t arbitrary: d)
  case (Cons r t)
  obtain n' v where r: "r = (n', v)" by (cases r)
  have "map_of t n = None" if "n' = n" using Cons.prems that r by (auto simp: map_of_eq_None_iff)
  then show ?case using Cons get_read_row [OF assms] r by (auto split: option.splits)
qed simp

definition settings_ok :: "(string \<Rightarrow> zone option) \<Rightarrow> DashboardSettings \<Rightarrow> bool" where
  "settings_ok zones d \<longleftrightarrow> renderable zones (Appearance (ds_appearance d)) \<and> renderable zones (Breakdowns (ds_breakdowns d))
     \<and> renderable zones (Setup (ds_setup d)) \<and> renderable zones (Backup (ds_backup d))"

lemma settings_ok_default: "settings_ok zones DefaultDashboardSettings"
proof -
  have "''system'' \<in> set Themes" "''blue'' \<in> set AccentColors" "distinct BreakdownIDs" "plain_endpoint []" by code_simp+
  then show ?thesis by (simp add: settings_ok_def DefaultDashboardSettings_def)
qed

lemma settings_ok_apply: "settings_ok zones d \<Longrightarrow> renderable zones s \<Longrightarrow> settings_ok zones (apply_section s d)"
  by (cases s) (simp_all add: settings_ok_def)

lemma settings_ok_read_row: "settings_ok zones d \<Longrightarrow> settings_ok zones (read_row J url zones r d)"
  using decodeSection_facts(2) by (auto simp: read_row_def settings_ok_apply split: prod.splits option.splits)


section \<open>Saving\<close>

fun section_json :: "settingsSection \<Rightarrow> json" where
  "section_json (Appearance a) = JObj [(''theme'', JStr (ap_theme a)), (''color'', JStr (ap_color a))]"
| "section_json (Breakdowns b) = JObj [(''order'', JArr (map JStr (bd_order b))), (''hidden'', JArr (map JStr (bd_hidden b)))]"
| "section_json (Setup s) = JObj [(''endpoint'', JStr (su_endpoint s)), (''auth'', JBool (su_auth s))]"
| "section_json (Backup b) = JObj [(''time'', JStr (bk_time b)), (''timezone'', JStr (bk_timezone b))]"

lemma those_strings: "those (map (decode_string [] \<circ> JStr) xs) = Some xs"
  by (induction xs) simp_all

lemma decode_saved:
  assumes "J data = Some (section_json s)" "trim_space data \<noteq> ''null''" "normalize_section url zones s = Some s" "kind dest = kind s"
  shows "decodeSection J url zones data dest False = Some s"
proof -
  have f: "field_values k kvs = map snd (filter (\<lambda>(j, _). equal_fold j k) kvs)" for k and kvs :: "(string \<times> json) list"
    by (simp add: field_values_def)
  have e: "equal_fold ''theme'' ''theme''" "equal_fold ''color'' ''color''" "\<not> equal_fold ''theme'' ''color''" "\<not> equal_fold ''color'' ''theme''"
    "equal_fold ''order'' ''order''" "equal_fold ''hidden'' ''hidden''" "\<not> equal_fold ''order'' ''hidden''" "\<not> equal_fold ''hidden'' ''order''"
    "equal_fold ''endpoint'' ''endpoint''" "equal_fold ''auth'' ''auth''" "\<not> equal_fold ''endpoint'' ''auth''" "\<not> equal_fold ''auth'' ''endpoint''"
    "equal_fold ''time'' ''time''" "equal_fold ''timezone'' ''timezone''" "\<not> equal_fold ''time'' ''timezone''" "\<not> equal_fold ''timezone'' ''time''"
    by code_simp+
  have "\<exists>kvs. struct_members (section_json s) = Some kvs \<and> decode_members kvs dest = Some s"
    using assms(4) by (cases s; cases dest) (simp_all add: decode_field_def f e those_strings)
  then show ?thesis using assms(1-3) by (auto simp: decodeSection_def)
qed

text \<open>C32: Saving a section and reading it back gives the section as it was normalized, and no
  other section changes; what is refused leaves the table as it was.\<close>

theorem settings_roundtrip:
  assumes "distinct (map fst t)" "SaveDashboardSettings J enc url zones fault name data t = (err, t')"
    and "\<And>dest s. newSection name = Some dest \<Longrightarrow> decodeSection J url zones data dest True = Some s
      \<Longrightarrow> J (enc s) = Some (section_json s) \<and> trim_space (enc s) \<noteq> ''null''"
  shows "case err of Some e \<Rightarrow> t' = t
    | None \<Rightarrow> (\<exists>dest s. newSection name = Some dest \<and> decodeSection J url zones data dest True = Some s
        \<and> get_section name (fst (ReadDashboardSettings J url zones False t')) = Some s)
      \<and> (\<forall>other. other \<noteq> name \<longrightarrow> get_section other (fst (ReadDashboardSettings J url zones False t'))
          = get_section other (fst (ReadDashboardSettings J url zones False t)))"
proof (cases err)
  case None
  then obtain dest s where s: "newSection name = Some dest" "decodeSection J url zones data dest True = Some s"
    "t' = AList.update name (enc s) t"
    using assms(2) by (auto simp: SaveDashboardSettings_def split: option.splits if_splits)
  note fact = decodeSection_facts [OF s(2)]
  have d: "distinct (map fst t')" using s(3) assms(1) by (simp add: distinct_update)
  have "map_of t' name = Some (enc s)" using s(3) by (simp add: update_conv')
  moreover have "decodeSection J url zones (enc s) dest False = Some s"
    using decode_saved [of J "enc s" s url zones dest] assms(3) [OF s(1,2)] fact by simp
  ultimately have "get_section name (fst (ReadDashboardSettings J url zones False t')) = Some s"
    using get_read [OF s(1) d] by (simp add: ReadDashboardSettings_def)
  moreover have "get_section other (fst (ReadDashboardSettings J url zones False t'))
      = get_section other (fst (ReadDashboardSettings J url zones False t))" if "other \<noteq> name" for other
  proof (cases "newSection other")
    case None
    then show ?thesis by (simp add: get_section_def)
  next
    case (Some dest')
    have "map_of t' other = map_of t other" using s(3) that by (simp add: update_conv')
    then show ?thesis using get_read [OF Some d] get_read [OF Some assms(1)] by (simp add: ReadDashboardSettings_def)
  qed
  ultimately show ?thesis using None s(1,2) by auto
next
  case (Some e)
  then show ?thesis using assms(2) by (auto simp: SaveDashboardSettings_def split: option.splits if_splits)
qed

definition sample_appearance :: settingsSection where
  "sample_appearance = Appearance \<lparr>ap_theme = ''dark'', ap_color = ''green''\<rparr>"

theorem settings_roundtrip_witness:
  "ds_appearance (fst (ReadDashboardSettings (\<lambda>_. Some (section_json sample_appearance)) (\<lambda>_. None) (\<lambda>_. None) False
     (snd (SaveDashboardSettings (\<lambda>_. Some (section_json sample_appearance)) (\<lambda>_. ''x'') (\<lambda>_. None) (\<lambda>_. None) False
        ''appearance'' ''{}'' [])))) = \<lparr>ap_theme = ''dark'', ap_color = ''green''\<rparr>"
proof -
  let ?J = "\<lambda>_ :: string. Some (section_json sample_appearance)"
  have d: "newSection ''appearance'' = Some (Appearance \<lparr>ap_theme = [], ap_color = []\<rparr>)"
    "decodeSection ?J (\<lambda>_. None) (\<lambda>_. None) ''{}'' (Appearance \<lparr>ap_theme = [], ap_color = []\<rparr>) True = Some sample_appearance"
    "trim_space ''x'' \<noteq> ''null''"
    by code_simp+
  have save: "SaveDashboardSettings ?J (\<lambda>_. ''x'') (\<lambda>_. None) (\<lambda>_. None) False ''appearance'' ''{}'' []
      = (None, [(''appearance'', ''x'')])"
    by (simp add: SaveDashboardSettings_def d)
  have enc: "?J ''x'' = Some (section_json s) \<and> trim_space ''x'' \<noteq> ''null''"
    if "newSection ''appearance'' = Some dest" "decodeSection ?J (\<lambda>_. None) (\<lambda>_. None) ''{}'' dest True = Some s" for dest s
  proof -
    have "dest = Appearance \<lparr>ap_theme = [], ap_color = []\<rparr>" using that(1) d(1) by (metis option.inject)
    then have "s = sample_appearance" using that(2) d(2) by (metis option.inject)
    then show ?thesis using d(3) by (simp only: simp_thms)
  qed
  have none: "distinct (map fst ([] :: settings_table))" by simp
  have saved: "\<exists>dest s. newSection ''appearance'' = Some dest
      \<and> decodeSection ?J (\<lambda>_. None) (\<lambda>_. None) ''{}'' dest True = Some s
      \<and> get_section ''appearance'' (fst (ReadDashboardSettings ?J (\<lambda>_. None) (\<lambda>_. None) False [(''appearance'', ''x'')])) = Some s"
    by (rule settings_roundtrip [OF none save, unfolded option.case, THEN conjunct1]) (rule enc)
  obtain dest s where s: "newSection ''appearance'' = Some dest"
    "decodeSection ?J (\<lambda>_. None) (\<lambda>_. None) ''{}'' dest True = Some s"
    "get_section ''appearance'' (fst (ReadDashboardSettings ?J (\<lambda>_. None) (\<lambda>_. None) False [(''appearance'', ''x'')])) = Some s"
    using saved by (elim exE conjE)
  have "dest = Appearance \<lparr>ap_theme = [], ap_color = []\<rparr>" using s(1) d(1) by (metis option.inject)
  then have "s = sample_appearance" using s(2) d(2) by (metis option.inject)
  with s(3) have "get_section ''appearance'' (fst (ReadDashboardSettings ?J (\<lambda>_. None) (\<lambda>_. None) False [(''appearance'', ''x'')]))
      = Some sample_appearance" by (simp only:)
  then show ?thesis unfolding save snd_conv by (simp add: get_section_def d(1)) (simp add: sample_appearance_def)
qed

end
