(* ===== verification/BackupWorker.thy ===== *)
theory BackupWorker
  imports Settings "HOL-Library.List_Lexorder" "HOL-Library.Char_ord"
begin

text \<open>
  Off-site backups (\<open>backup/backup.go\<close>): the daily schedule, one attempt, the worker's loop with its
  retries, the requests from the dashboard that wake it, and the listing of the bucket.

  The worker's goroutine and its callers interleave, so the worker is a step relation whose steps are
  the sections between two points where another goroutine can run.  Every step takes the wall
  clock as it reads it, which may have been set back.  Parameters: as in theory \<open>Settings\<close>, the
  random part of a delay and of a key, and what the file system and the object store answer.
\<close>

section \<open>Status\<close>

record success =
  sc_snapshot :: int
  sc_completion :: int
  sc_key :: string

definition no_success :: success where
  "no_success = \<lparr>sc_snapshot = zero_time, sc_completion = zero_time, sc_key = []\<rparr>"

record bstatus =
  st_enabled :: bool
  st_running :: bool
  st_requested :: bool
  st_last_success :: int
  st_next_run :: int
  st_failed_at :: int
  st_failure_stage :: string

definition no_status :: bstatus where
  "no_status = \<lparr>st_enabled = False, st_running = False, st_requested = False, st_last_success = zero_time,
     st_next_run = zero_time, st_failed_at = zero_time, st_failure_stage = []\<rparr>"

text \<open>\<open>Worker.Status\<close>; no worker means backups are off.\<close>

definition Status :: "bstatus option \<Rightarrow> bstatus" where
  "Status w = (case w of None \<Rightarrow> no_status | Some s \<Rightarrow> s\<lparr>st_enabled := True\<rparr>)"

text \<open>The states the API and the health probe show (\<open>api/api.go\<close>).\<close>

definition backupStates :: "bstatus \<Rightarrow> string \<times> string" where
  "backupStates s =
     (if \<not> st_enabled s then (''disabled'', ''disabled'')
      else if \<not> is_zero_time (st_failed_at s) then (''failed'', ''unhealthy'')
      else if st_running s then (''running'', ''healthy'')
      else if is_zero_time (st_last_success s) then (''pending'', ''healthy'')
      else (''ok'', ''healthy''))"

section \<open>The schedule\<close>

record daily =
  dl_hour :: int
  dl_minute :: int
  dl_loc :: zone

definition parseDaily :: "(string \<Rightarrow> zone option) \<Rightarrow> BackupSettings \<Rightarrow> daily option" where
  "parseDaily zones b = (case parse_clock (bk_time b) of None \<Rightarrow> None
     | Some (h, m) \<Rightarrow> (case Location zones b of None \<Rightarrow> None
         | Some loc \<Rightarrow> Some \<lparr>dl_hour = h, dl_minute = m, dl_loc = loc\<rparr>))"

text \<open>The time of day of an instant in UTC, layout \<open>15:04\<close>.\<close>

definition format_time_of_day :: "int \<Rightarrow> string" where
  "format_time_of_day t = show_clock (t div (3600 * second_ns) mod 24) (t div (60 * second_ns) mod 60)"

definition schedule :: "(string \<Rightarrow> json option) \<Rightarrow> (settingsSection \<Rightarrow> string) \<Rightarrow> (string \<Rightarrow> parsed_url option)
    \<Rightarrow> (string \<Rightarrow> zone option) \<Rightarrow> bool \<Rightarrow> bool \<Rightarrow> int \<Rightarrow> success \<Rightarrow> settings_table \<Rightarrow> daily \<times> settings_table" where
  "schedule J enc url zones read_fault save_fault now prev t = (let
       (settings, err) = ReadDashboardSettings J url zones read_fault t;
       first = (if is_zero_time (sc_snapshot prev) then now else sc_snapshot prev);
       chosen = \<lparr>bk_time = format_time_of_day first, bk_timezone = ''UTC''\<rparr>;
       fallback = (case parseDaily zones chosen of Some d \<Rightarrow> d | None \<Rightarrow> \<lparr>dl_hour = 0, dl_minute = 0, dl_loc = (\<lambda>_. 0)\<rparr>) in
     if err then (fallback, t)
     else case parseDaily zones (ds_backup settings) of
       Some d \<Rightarrow> (d, t)
     | None \<Rightarrow> (fallback, snd (SaveDashboardSettings J enc url zones save_fault ''backup'' (enc (Backup chosen)) t)))"

text \<open>
  \<open>time.Date\<close> in a zone for a day counted from 1970 and a time of day: the offset in force at the
  clock reading taken as UTC, corrected once.
\<close>

definition time_date :: "zone \<Rightarrow> int \<Rightarrow> int \<Rightarrow> int \<Rightarrow> int" where
  "time_date loc days h m = (let unix = days * 86400 + h * 3600 + m * 60 in
     (unix - loc (unix - loc unix)) * second_ns)"

text \<open>The day of an instant in a zone.\<close>

definition local_day :: "zone \<Rightarrow> int \<Rightarrow> int" where
  "local_day loc t = (let s = t div second_ns in (s + loc s) div 86400)"

partial_function (option) next_at :: "daily \<Rightarrow> int \<Rightarrow> int \<Rightarrow> int \<Rightarrow> int option" where
  "next_at d from local day = (let due = time_date (dl_loc d) (local + day) (dl_hour d) (dl_minute d) in
     if from < due then Some due else next_at d from local (day + 1))"

definition nextRun :: "success \<Rightarrow> daily \<Rightarrow> int \<Rightarrow> int \<Rightarrow> int option" where
  "nextRun s d rescheduled now =
     (if is_zero_time (sc_snapshot s) then Some now
      else let from = (if sc_snapshot s < rescheduled then rescheduled else sc_snapshot s) in
        next_at d from (local_day (dl_loc d) from) 0)"

section \<open>State files\<close>

text \<open>The decoded \<open>success.json\<close> and \<open>schedule.json\<close>, or none when missing or not readable.\<close>

definition loadState :: "string \<Rightarrow> int \<Rightarrow> success option \<Rightarrow> success" where
  "loadState pre now body = (case body of None \<Rightarrow> no_success
     | Some s \<Rightarrow>
         if is_zero_time (sc_snapshot s) \<or> now < sc_snapshot s \<or> sc_completion s < sc_snapshot s
           \<or> now < sc_completion s \<or> \<not> prefix pre (sc_key s) \<or> \<not> suffix ''.sqlite.gz'' (sc_key s)
         then no_success else s)"

definition loadRescheduled :: "int \<Rightarrow> int option \<Rightarrow> int \<Rightarrow> int" where
  "loadRescheduled now body rescheduled = (case body of None \<Rightarrow> rescheduled
     | Some changed \<Rightarrow> if now < changed then rescheduled else max rescheduled changed)"

section \<open>One attempt\<close>

definition maxObjectBytes :: int where
  "maxObjectBytes = 5000000000"

text \<open>Layout \<open>20060102T150405.000000000Z\<close> of an instant in UTC.\<close>

definition format_stamp :: "int \<Rightarrow> string" where
  "format_stamp t = (let r = t mod day_ns; s = r div second_ns in
     (case civil_of_days (t div day_ns) of (y, m, d) \<Rightarrow>
       format_year y @ pad 2 m @ pad 2 d @ ''T'' @ pad 2 (s div 3600) @ pad 2 (s mod 3600 div 60) @ pad 2 (s mod 60)
       @ ''.'' @ pad 9 (r mod second_ns) @ ''Z''))"

definition hex_digit :: "int \<Rightarrow> char" where
  "hex_digit n = ''0123456789abcdef'' ! nat n"

definition hex_encode :: "string \<Rightarrow> string" where
  "hex_encode s = concat (map (\<lambda>c. [hex_digit (of_char c div 16), hex_digit (of_char c mod 16)]) s)"

definition backup_key :: "string \<Rightarrow> int \<Rightarrow> string \<Rightarrow> string" where
  "backup_key pre t random = pre @ format_stamp t @ ''-'' @ hex_encode random @ ''.sqlite.gz''"

text \<open>
  What happens to an attempt: the clock at its start and end, the failures of its stages, the bytes of
  the compressed snapshot, and whether the upload is confirmed (an unconfirmed one may have been stored).
\<close>

record world =
  aw_start :: int
  aw_end :: int
  aw_temp :: bool
  aw_snapshot :: bool
  aw_random :: "string option"
  aw_body :: "string option"
  aw_open :: bool
  aw_stored :: bool
  aw_confirmed :: bool
  aw_cancelled :: bool
  aw_save :: bool

type_synonym bucket = "(string \<times> string) list"

definition attempt :: "string \<Rightarrow> world \<Rightarrow> bucket \<times> success option \<Rightarrow> (string + success) \<times> bucket \<times> success option" where
  "attempt pre w bf = (case bf of (b, file) \<Rightarrow>
     if aw_temp w then (Inl ''temp'', b, file)
     else if aw_snapshot w then (Inl ''snapshot'', b, file)
     else case aw_random w of None \<Rightarrow> (Inl ''key'', b, file)
     | Some random \<Rightarrow>
       (let key = backup_key pre (aw_start w) random in
        case aw_body w of None \<Rightarrow> (Inl ''compression'', b, file)
        | Some body \<Rightarrow>
          if maxObjectBytes < int (length body) then (Inl ''size_limit'', b, file)
          else if aw_open w then (Inl ''upload_file'', b, file)
          else let b' = (if aw_stored w \<or> aw_confirmed w then AList.update key body b else b) in
            if \<not> aw_confirmed w then (Inl ''upload'', b', file)
            else if aw_cancelled w then (Inl ''cancelled'', b', file)
            else let result = \<lparr>sc_snapshot = aw_start w, sc_completion = aw_end w, sc_key = key\<rparr> in
              if aw_save w then (Inl ''state'', b', file) else (Inr result, b', Some result)))"

section \<open>The worker\<close>

definition min_retry :: int where "min_retry = 60 * second_ns"
definition max_retry :: int where "max_retry = 3600 * second_ns"

text \<open>\<open>retryDelay\<close>: half the base and a random part of the other half.\<close>

definition retryDelay :: "int \<Rightarrow> int \<Rightarrow> int" where
  "retryDelay base random = base div 2 + random mod (base div 2 + 1)"

text \<open>Where the goroutine is: at the head of \<open>Run\<close>'s loop; at the head of \<open>waitDue\<close>'s loop; waiting for a
  scheduled time; about to begin; in an attempt; waiting for a retry; returned.\<close>

datatype phase = Top | Checking | Waiting int | Due | Attempting | Backing int | Stopped

record worker =
  wk_phase :: phase
  wk_status :: bstatus
  wk_prepared :: bool
  wk_last :: success
  wk_retry :: int
  wk_rescheduled :: int
  wk_wake :: bool
  wk_sends :: nat
  wk_file :: "success option"
  wk_schedule_file :: "int option"
  wk_bucket :: bucket
  wk_settings :: settings_table

definition set_status :: "(bstatus \<Rightarrow> bstatus) \<Rightarrow> worker \<Rightarrow> worker" where
  "set_status f w = w\<lparr>wk_status := f (wk_status w)\<rparr>"

definition fail_status :: "int \<Rightarrow> string \<Rightarrow> bstatus \<Rightarrow> bstatus" where
  "fail_status now stage s = s\<lparr>st_failed_at := now, st_failure_stage := stage\<rparr>"

text \<open>\<open>prepare\<close> failed: the request is dropped and the worker backs off.\<close>

definition prepare_failed :: "int \<Rightarrow> int \<Rightarrow> int \<Rightarrow> worker \<Rightarrow> worker" where
  "prepare_failed now later random w = (let deadline = later + retryDelay (wk_retry w) random in
     set_status (\<lambda>s. (fail_status now ''prepare'' (s\<lparr>st_requested := False\<rparr>))\<lparr>st_next_run := deadline\<rparr>)
       (w\<lparr>wk_phase := Backing deadline\<rparr>))"

definition prepared :: "string \<Rightarrow> int \<Rightarrow> int \<Rightarrow> worker \<Rightarrow> worker" where
  "prepared pre now later w = (let prev = loadState pre now (wk_file w) in
     set_status (\<lambda>s. s\<lparr>st_last_success := sc_completion prev, st_failure_stage := [], st_failed_at := zero_time\<rparr>)
       (w\<lparr>wk_phase := Checking, wk_prepared := True, wk_last := prev,
          wk_rescheduled := loadRescheduled later (wk_schedule_file w) (wk_rescheduled w)\<rparr>))"

text \<open>A round of \<open>waitDue\<close>: the next run is computed, then a request is honoured or the wait begins.\<close>

definition check_due :: "daily \<times> settings_table \<Rightarrow> int \<Rightarrow> worker \<Rightarrow> worker option" where
  "check_due dt now w = map_option (\<lambda>next.
     if st_requested (wk_status w) then w\<lparr>wk_settings := snd dt, wk_phase := Due\<rparr>
     else set_status (\<lambda>s. s\<lparr>st_next_run := next\<rparr>) (w\<lparr>wk_settings := snd dt, wk_phase := Waiting next\<rparr>))
   (nextRun (wk_last w) (fst dt) (wk_rescheduled w) now)"

definition begin_attempt :: "worker \<Rightarrow> worker" where
  "begin_attempt w = set_status (\<lambda>s. s\<lparr>st_running := True, st_requested := False, st_next_run := zero_time\<rparr>)
     (w\<lparr>wk_phase := Attempting\<rparr>)"

definition end_attempt :: "string \<Rightarrow> world \<Rightarrow> int \<Rightarrow> int \<Rightarrow> int \<Rightarrow> worker \<Rightarrow> worker" where
  "end_attempt pre aw now later random w = (case attempt pre aw (wk_bucket w, wk_file w) of
     (Inl stage, b, file) \<Rightarrow> (let deadline = later + retryDelay (wk_retry w) random in
        set_status (\<lambda>s. (fail_status now stage (s\<lparr>st_running := False\<rparr>))\<lparr>st_next_run := deadline\<rparr>)
          (w\<lparr>wk_bucket := b, wk_file := file, wk_phase := Backing deadline\<rparr>))
   | (Inr result, b, file) \<Rightarrow>
        set_status (\<lambda>s. s\<lparr>st_running := False, st_last_success := sc_completion result,
            st_failed_at := zero_time, st_failure_stage := []\<rparr>)
          (w\<lparr>wk_bucket := b, wk_file := file, wk_last := result, wk_retry := min_retry, wk_phase := Top\<rparr>))"

text \<open>The context ended during the attempt: whatever it did is done, nothing is recorded in memory.\<close>

definition stop_attempt :: "string \<Rightarrow> world \<Rightarrow> worker \<Rightarrow> worker" where
  "stop_attempt pre aw w = (case attempt pre aw (wk_bucket w, wk_file w) of (_, b, file) \<Rightarrow>
     set_status (\<lambda>s. s\<lparr>st_running := False\<rparr>) (w\<lparr>wk_bucket := b, wk_file := file, wk_phase := Stopped\<rparr>))"

definition retry_now :: "worker \<Rightarrow> worker" where
  "retry_now w = w\<lparr>wk_phase := Top, wk_retry := min (wk_retry w * 2) max_retry\<rparr>"

text \<open>\<open>Start\<close> marks the request; the send that wakes the goroutine follows.\<close>

definition Start :: "worker \<Rightarrow> bool \<times> worker" where
  "Start w = (if st_running (wk_status w) \<or> st_requested (wk_status w) then (False, w)
     else (True, set_status (\<lambda>s. s\<lparr>st_requested := True\<rparr>) (w\<lparr>wk_sends := wk_sends w + 1\<rparr>)))"

definition Reschedule :: "int \<Rightarrow> bool \<Rightarrow> worker \<Rightarrow> worker" where
  "Reschedule now fault w = w\<lparr>wk_rescheduled := now, wk_sends := wk_sends w + 1,
     wk_schedule_file := (if fault then wk_schedule_file w else Some now)\<rparr>"

text \<open>\<open>wakeUp\<close>: the channel holds one token.\<close>

definition wakeUp :: "worker \<Rightarrow> worker" where
  "wakeUp w = w\<lparr>wk_wake := True, wk_sends := wk_sends w - 1\<rparr>"

text \<open>A new process finds the files, the bucket and the settings.\<close>

definition NewWorker :: "worker \<Rightarrow> worker" where
  "NewWorker w = \<lparr>wk_phase = Top, wk_status = no_status, wk_prepared = False, wk_last = no_success, wk_retry = min_retry,
     wk_rescheduled = zero_time, wk_wake = False, wk_sends = 0, wk_file = wk_file w,
     wk_schedule_file = wk_schedule_file w, wk_bucket = wk_bucket w, wk_settings = wk_settings w\<rparr>"

inductive worker_step :: "string \<Rightarrow> (int \<Rightarrow> success \<Rightarrow> settings_table \<Rightarrow> daily \<times> settings_table) \<Rightarrow> worker \<Rightarrow> worker \<Rightarrow> bool"
  for pre sched where
  prepare_fails: "wk_phase w = Top \<Longrightarrow> \<not> wk_prepared w \<Longrightarrow> worker_step pre sched w (prepare_failed now later random w)"
| prepare: "wk_phase w = Top \<Longrightarrow> \<not> wk_prepared w \<Longrightarrow> worker_step pre sched w (prepared pre now later w)"
| again: "wk_phase w = Top \<Longrightarrow> wk_prepared w \<Longrightarrow> worker_step pre sched w (w\<lparr>wk_phase := Checking\<rparr>)"
| check: "wk_phase w = Checking \<Longrightarrow> check_due (sched now (wk_last w) (wk_settings w)) now w = Some w' \<Longrightarrow> worker_step pre sched w w'"
| woken: "wk_phase w = Waiting next \<Longrightarrow> wk_wake w \<Longrightarrow> worker_step pre sched w (w\<lparr>wk_wake := False, wk_phase := Checking\<rparr>)"
| timer: "wk_phase w = Waiting next \<Longrightarrow> worker_step pre sched w (w\<lparr>wk_phase := (if now < next then Checking else Due)\<rparr>)"
| begins: "wk_phase w = Due \<Longrightarrow> worker_step pre sched w (begin_attempt w)"
| ends: "wk_phase w = Attempting \<Longrightarrow> worker_step pre sched w (end_attempt pre aw now later random w)"
| retry_timer: "wk_phase w = Backing deadline \<Longrightarrow> worker_step pre sched w (retry_now w)"
| retry_woken: "wk_phase w = Backing deadline \<Longrightarrow> wk_wake w \<Longrightarrow> worker_step pre sched w
    (if deadline \<le> now \<or> st_requested (wk_status w) then retry_now (w\<lparr>wk_wake := False\<rparr>) else w\<lparr>wk_wake := False\<rparr>)"
| stops: "wk_phase w \<noteq> Attempting \<Longrightarrow> worker_step pre sched w (w\<lparr>wk_phase := Stopped\<rparr>)"
| stops_attempting: "wk_phase w = Attempting \<Longrightarrow> worker_step pre sched w (stop_attempt pre aw w)"
| starts: "worker_step pre sched w (snd (Start w))"
| reschedules: "worker_step pre sched w (Reschedule now fault w)"
| wakes: "0 < wk_sends w \<Longrightarrow> worker_step pre sched w (wakeUp w)"
| saves: "worker_step pre sched w (w\<lparr>wk_settings := snd (SaveDashboardSettings J enc url zones fault name data (wk_settings w))\<rparr>)"
| restarts: "wk_phase w = Stopped \<Longrightarrow> worker_step pre sched w (NewWorker w)"

inductive_cases worker_stepE: "worker_step pre sched w w'"

definition no_worker :: worker where
  "no_worker = NewWorker \<lparr>wk_phase = Stopped, wk_status = no_status, wk_prepared = False, wk_last = no_success, wk_retry = 0,
     wk_rescheduled = 0, wk_wake = False, wk_sends = 0, wk_file = None, wk_schedule_file = None, wk_bucket = [],
     wk_settings = []\<rparr>"

section \<open>The next run\<close>

lemma next_at_first:
  "(\<forall>k. 0 \<le> k \<and> k < int n \<longrightarrow> time_date (dl_loc d) (local + day + k) (dl_hour d) (dl_minute d) \<le> from)
    \<Longrightarrow> from < time_date (dl_loc d) (local + day + int n) (dl_hour d) (dl_minute d)
    \<Longrightarrow> next_at d from local day = Some (time_date (dl_loc d) (local + day + int n) (dl_hour d) (dl_minute d))"
proof (induction n arbitrary: day)
  case 0
  then show ?case by (subst next_at.simps) (simp add: Let_def)
next
  case (Suc n)
  have now: "time_date (dl_loc d) (local + day) (dl_hour d) (dl_minute d) \<le> from" using Suc.prems(1) by force
  have "next_at d from local (day + 1) = Some (time_date (dl_loc d) (local + (day + 1) + int n) (dl_hour d) (dl_minute d))"
  proof (rule Suc.IH)
    show "\<forall>k. 0 \<le> k \<and> k < int n \<longrightarrow> time_date (dl_loc d) (local + (day + 1) + k) (dl_hour d) (dl_minute d) \<le> from"
    proof (intro allI impI)
      fix k assume "0 \<le> k \<and> k < int n"
      then show "time_date (dl_loc d) (local + (day + 1) + k) (dl_hour d) (dl_minute d) \<le> from"
        using Suc.prems(1) [rule_format, of "k + 1"] by (simp add: algebra_simps)
    qed
    show "from < time_date (dl_loc d) (local + (day + 1) + int n) (dl_hour d) (dl_minute d)"
      using Suc.prems(2) by (simp add: algebra_simps)
  qed
  with now show ?case by (subst next_at.simps) (simp add: Let_def algebra_simps)
qed

lemma time_date_bounds:
  assumes "\<And>t. \<bar>loc t\<bar> < 86400" "0 \<le> h" "h < 24" "0 \<le> m" "m < 60"
  shows "(days * 86400 - 86400) * second_ns < time_date loc days h m"
proof -
  define x where "x = loc (days * 86400 + h * 3600 + m * 60 - loc (days * 86400 + h * 3600 + m * 60))"
  have "x < 86400" unfolding x_def by (rule order_le_less_trans [OF abs_ge_self assms(1)])
  then show ?thesis using assms(2,4) by (simp add: time_date_def Let_def flip: x_def)
qed

text \<open>C37: The search for the next run always ends, and backups neither repeat nor skip a day: the
  next run is the first scheduled time after the last snapshot and the last change of the schedule,
  and at most a day away plus what the zone's offset can change.\<close>

theorem next_run_is_the_first:
  fixes v :: int
  assumes "\<And>t. \<bar>dl_loc d t\<bar> < 86400" "\<And>t u. dl_loc d t - dl_loc d u \<le> v"
    and "0 \<le> dl_hour d" "dl_hour d < 24" "0 \<le> dl_minute d" "dl_minute d < 60"
    and "\<not> is_zero_time (sc_snapshot s)" "from = max (sc_snapshot s) rescheduled"
  shows "\<exists>n. nextRun s d rescheduled now = Some (time_date (dl_loc d) (local_day (dl_loc d) from + int n) (dl_hour d) (dl_minute d))
    \<and> from < time_date (dl_loc d) (local_day (dl_loc d) from + int n) (dl_hour d) (dl_minute d)
    \<and> time_date (dl_loc d) (local_day (dl_loc d) from + int n) (dl_hour d) (dl_minute d) \<le> from + day_ns + v * second_ns
    \<and> (\<forall>k. 0 \<le> k \<and> k < int n \<longrightarrow> time_date (dl_loc d) (local_day (dl_loc d) from + k) (dl_hour d) (dl_minute d) \<le> from)"
proof -
  let ?td = "\<lambda>k. time_date (dl_loc d) (local_day (dl_loc d) from + k) (dl_hour d) (dl_minute d)"
  define c where "c = dl_hour d * 3600 + dl_minute d * 60"
  define off where "off k = (let unix = (local_day (dl_loc d) from + k) * 86400 + c in dl_loc d (unix - dl_loc d unix))" for k
  have td: "?td k = ((local_day (dl_loc d) from + k) * 86400 + c - off k) * second_ns" for k
    by (simp add: time_date_def Let_def c_def off_def add.assoc)
  have c: "0 \<le> c" "c \<le> 86340" using assms(3-6) by (simp_all add: c_def)
  have off: "\<bar>off k\<bar> < 86400" "off j - off k \<le> v" for j k
    using assms(1,2) by (simp_all add: off_def Let_def)
  define sec where "sec = from div second_ns"
  define lo where "lo = dl_loc d sec"
  have sec: "sec * second_ns \<le> from" "from < (sec + 1) * second_ns"
    unfolding sec_def by presburger+
  have ld: "local_day (dl_loc d) from = (sec + lo) div 86400" by (simp add: local_day_def Let_def sec_def lo_def)
  have lo: "\<bar>lo\<bar> < 86400" "lo - off k \<le> v" for k using assms(1,2) by (simp_all add: lo_def off_def Let_def)
  have day: "local_day (dl_loc d) from * 86400 \<le> sec + lo" "sec + lo < local_day (dl_loc d) from * 86400 + 86400"
    unfolding ld by linarith+
  have "from < ?td (int 3)"
    unfolding td using day(2) lo(1) off(1) [of "int 3"] c(1) sec(2) by simp
  then obtain n where n: "from < ?td (int n)" "\<forall>k < n. \<not> from < ?td (int k)"
    using exists_least_iff [of "\<lambda>n. from < ?td (int n)"] by blast
  have least: "\<forall>k. 0 \<le> k \<and> k < int n \<longrightarrow> ?td k \<le> from"
  proof (intro allI impI)
    fix k assume "0 \<le> k \<and> k < int n"
    then obtain j where "k = int j" "j < n" by (metis nonneg_int_cases of_nat_less_iff)
    then show "?td k \<le> from" using n(2) by (simp add: not_less)
  qed
  have "next_at d from (local_day (dl_loc d) from) 0 = Some (?td (int n))"
    using next_at_first [of n d "local_day (dl_loc d) from" 0 "from"] least n(1) by simp
  moreover have "nextRun s d rescheduled now = next_at d from (local_day (dl_loc d) from) 0"
    using assms(7,8) by (simp add: nextRun_def Let_def max_def)
  moreover have "?td (int n) \<le> from + day_ns + v * second_ns"
  proof (cases n)
    case 0
    show ?thesis unfolding td using 0 day(1) lo(2) [of "int n"] c(2) sec(1) by simp
  next
    case (Suc j)
    then have "?td (int j) \<le> from" using least by simp
    then show ?thesis unfolding td using Suc off(2) [of "int j" "int n"] by simp
  qed
  ultimately show ?thesis using n(1) least by metis
qed

section \<open>The worker's invariant\<close>

definition recorded :: "bucket \<Rightarrow> success option \<Rightarrow> bool" where
  "recorded b f \<longleftrightarrow> (\<forall>s. f = Some s \<longrightarrow> map_of b (sc_key s) \<noteq> None)"

definition worker_ok :: "worker \<Rightarrow> bool" where
  "worker_ok w \<longleftrightarrow> (st_running (wk_status w) \<longleftrightarrow> wk_phase w = Attempting)
     \<and> (wk_phase w = Attempting \<longrightarrow> \<not> st_requested (wk_status w))
     \<and> (\<forall>t. wk_phase w = Waiting t \<or> wk_phase w = Backing t \<longrightarrow> st_requested (wk_status w) \<longrightarrow> wk_wake w \<or> 0 < wk_sends w)
     \<and> min_retry \<le> wk_retry w \<and> wk_retry w \<le> max_retry
     \<and> recorded (wk_bucket w) (wk_file w)
     \<and> (wk_phase w \<noteq> Stopped \<and> wk_prepared w \<longrightarrow> st_last_success (wk_status w) = sc_completion (wk_last w)
        \<and> (wk_last w = no_success \<or> wk_file w = Some (wk_last w)))
     \<and> (\<not> wk_prepared w \<longrightarrow> wk_phase w \<in> {Top, Stopped} \<or> (\<exists>t. wk_phase w = Backing t))"

lemma attempt_facts:
  assumes "attempt pre aw (b, f) = (r, b', f')"
  shows "map_of b k \<noteq> None \<Longrightarrow> map_of b' k \<noteq> None"
    and "r = Inl stage \<Longrightarrow> f' = f" and "r = Inr s \<Longrightarrow> f' = Some s \<and> map_of b' (sc_key s) = aw_body aw \<and> aw_body aw \<noteq> None"
    and "recorded b f \<Longrightarrow> recorded b' f'"
  using assms
  by (auto simp: attempt_def recorded_def Let_def update_conv' split: if_splits option.splits)

lemma loadState_cases: "loadState pre now file = no_success \<or> file = Some (loadState pre now file)"
  by (auto simp: loadState_def split: option.splits)

lemma retry_bounds: "min_retry \<le> r \<Longrightarrow> r \<le> max_retry \<Longrightarrow> min_retry \<le> min (r * 2) max_retry \<and> min (r * 2) max_retry \<le> max_retry"
  by (simp add: min_retry_def max_retry_def)

lemmas worker_ops = set_status_def fail_status_def prepare_failed_def prepared_def begin_attempt_def retry_now_def
  Start_def Reschedule_def wakeUp_def NewWorker_def no_status_def

lemma worker_ok_attempt:
  assumes "worker_ok w" "wk_phase w = Attempting"
  shows "worker_ok (end_attempt pre aw now later random w)" "worker_ok (stop_attempt pre aw w)"
proof -
  obtain r b f where a: "attempt pre aw (wk_bucket w, wk_file w) = (r, b, f)" by (cases "attempt pre aw (wk_bucket w, wk_file w)")
  note af = attempt_facts [OF a]
  have rec: "recorded b f"
    using af(4) assms(1) by (simp add: worker_ok_def)
  show "worker_ok (stop_attempt pre aw w)" using assms rec by (simp add: stop_attempt_def a worker_ok_def set_status_def)
  show "worker_ok (end_attempt pre aw now later random w)"
  proof (cases r)
    case (Inl stage)
    then show ?thesis using assms rec af(2) by (simp add: end_attempt_def a worker_ok_def set_status_def fail_status_def Let_def)
  next
    case (Inr s)
    then show ?thesis using assms rec af(3)
      by (simp add: end_attempt_def a worker_ok_def set_status_def min_retry_def max_retry_def)
  qed
qed

lemma worker_ok_step:
  assumes "worker_step pre sched w w'" "worker_ok w"
  shows "worker_ok w'"
  using assms
proof (cases rule: worker_step.cases)
  case (prepare now later)
  then show ?thesis using assms(2) loadState_cases [of pre now "wk_file w"]
    by (auto simp: worker_ok_def worker_ops Let_def)
next
  case (check now)
  then obtain t where "w' = (if st_requested (wk_status w) then w\<lparr>wk_settings := snd (sched now (wk_last w) (wk_settings w)), wk_phase := Due\<rparr>
      else set_status (\<lambda>s. s\<lparr>st_next_run := t\<rparr>) (w\<lparr>wk_settings := snd (sched now (wk_last w) (wk_settings w)), wk_phase := Waiting t\<rparr>))"
    by (auto simp: check_due_def)
  with check(1) show ?thesis using assms(2) by (cases "st_requested (wk_status w)") (auto simp: worker_ok_def set_status_def)
next
  case (ends aw now later random)
  then show ?thesis using worker_ok_attempt(1) [OF assms(2)] by simp
next
  case (stops_attempting aw)
  then show ?thesis using worker_ok_attempt(2) [OF assms(2)] by simp
next
  case (retry_timer deadline)
  then show ?thesis using assms(2) retry_bounds [of "wk_retry w"] by (auto simp: worker_ok_def worker_ops)
next
  case (retry_woken deadline now)
  then show ?thesis using assms(2) retry_bounds [of "wk_retry w"] by (auto simp: worker_ok_def worker_ops)
qed (use assms(2) in \<open>auto simp: worker_ok_def worker_ops Let_def min_retry_def max_retry_def split: if_splits\<close>)


text \<open>C23: What is recorded as a success is in the bucket, whatever failed before or after and
  however often the process restarted, and a running worker shows the completion time of exactly
  that backup.\<close>

theorem recorded_backups_exist:
  assumes "(worker_step pre sched)\<^sup>*\<^sup>* no_worker w"
  shows "(case wk_file w of None \<Rightarrow> True | Some s \<Rightarrow> map_of (wk_bucket w) (sc_key s) \<noteq> None)
    \<and> (wk_prepared w \<and> wk_phase w \<noteq> Stopped \<longrightarrow> st_last_success (wk_status w) = sc_completion (wk_last w)
      \<and> (wk_last w = no_success \<or> wk_file w = Some (wk_last w)))"
proof -
  have "worker_ok no_worker"
    by (simp add: worker_ok_def no_worker_def NewWorker_def no_status_def recorded_def min_retry_def max_retry_def)
  with assms have "worker_ok w" by (induction rule: rtranclp_induct) (auto intro: worker_ok_step)
  then show ?thesis by (auto simp: worker_ok_def recorded_def split: option.splits)
qed

section \<open>Keys sort by time\<close>

lemma less_append_same: "(p @ x < p @ (y :: string)) \<longleftrightarrow> x < y"
  by (induction p) simp_all

lemma less_append: "length x = length y \<Longrightarrow> x < (y :: string) \<Longrightarrow> x @ r < y @ r'"
proof (induction x y rule: list_induct2)
  case (Cons a x b y)
  then show ?case by (auto simp: Cons_less_Cons)
qed simp

lemma digits_less:
  "length x = length y \<Longrightarrow> \<forall>c \<in> set x. is_digit c \<Longrightarrow> \<forall>c \<in> set y. is_digit c \<Longrightarrow> 0 \<le> a \<Longrightarrow> 0 \<le> b
    \<Longrightarrow> a < b \<or> a = b \<and> x < y \<Longrightarrow> the (digits_val a x) < the (digits_val b y)"
proof (induction x y arbitrary: a b rule: list_induct2)
  case (Cons c x d y)
  have c: "0 \<le> digit_val c" "digit_val c \<le> 9" "0 \<le> digit_val d" "digit_val d \<le> 9"
    using Cons.prems(1,2) digit_val_range by auto
  have ord: "c < d \<longleftrightarrow> digit_val c < digit_val d"
  proof -
    have "(of_char c :: int) = int (of_char c)" "(of_char d :: int) = int (of_char d)"
      by (rule of_nat_of_char [symmetric])+
    then show ?thesis unfolding digit_val_def less_char_def by linarith
  qed
  have "a * 10 + digit_val c < b * 10 + digit_val d \<or> a * 10 + digit_val c = b * 10 + digit_val d \<and> x < y"
    using Cons.prems(5) c by (auto simp: Cons_less_Cons ord)
  with Cons.IH [of "a * 10 + digit_val c" "b * 10 + digit_val d"] Cons.prems c show ?case by simp
qed simp

lemma pad_less:
  assumes "0 \<le> a" "a < b" "b < 10 ^ k" "0 < k"
  shows "pad k a < pad k b"
proof (rule ccontr)
  assume "\<not> pad k a < pad k b"
  then have "pad k b < pad k a" using pad_inject [of a b k] assms by (auto simp: not_less order.order_iff_strict)
  moreover have "length (pad k b) = length (pad k a)" using assms by (simp add: length_pad)
  moreover have "\<forall>c \<in> set (pad k a). is_digit c" "\<forall>c \<in> set (pad k b). is_digit c" using pad_digits by blast+
  ultimately have "the (digits_val 0 (pad k b)) < the (digits_val 0 (pad k a))" by (intro digits_less) auto
  then show False using assms by simp
qed

definition year_days :: "int \<Rightarrow> int" where
  "year_days y = y div 400 * 146097 + 365 * (y mod 400) + y mod 400 div 4 - y mod 400 div 100"

lemma year_days_succ: "year_days y + 365 \<le> year_days (y + 1)"
proof -
  define r where "r = y mod 400"
  have r: "0 \<le> r" "r < 400" by (simp_all add: r_def)
  show ?thesis
  proof (cases "r = 399")
    case True
    then have "(y + 1) mod 400 = 0" "(y + 1) div 400 = y div 400 + 1"
      using div_succ [of 400 y] pos_mod_bound [of 400 "y + 1"] unfolding r_def by auto
    then show ?thesis using True by (simp add: year_days_def flip: r_def)
  next
    case False
    have "(y + 1) mod 400 = r + 1 \<and> (y + 1) div 400 = y div 400"
      using div_succ [of 400 y, OF zero_less_numeral]
    proof (elim disjE conjE)
      assume "(y + 1) div 400 = y div 400 + 1" "(y + 1) mod 400 = 0"
      then have "y mod 400 = 399" using div_mult_mod_eq [of "y + 1" 400] div_mult_mod_eq [of y 400] by linarith
      with False show ?thesis by (simp add: r_def)
    qed (simp_all add: r_def)
    moreover have "r div 4 - r div 100 \<le> (r + 1) div 4 - (r + 1) div 100"
      using div_succ [of 100 r, OF zero_less_numeral]
    proof (elim disjE conjE)
      assume "(r + 1) div 100 = r div 100" "(r + 1) mod 100 = r mod 100 + 1"
      moreover have "r div 4 \<le> (r + 1) div 4" by (simp add: zdiv_mono1)
      ultimately show ?thesis by simp
    next
      assume h: "(r + 1) div 100 = r div 100 + 1" "(r + 1) mod 100 = 0"
      have "(r + 1) mod 4 = (r + 1) mod 100 mod 4" by (simp add: mod_mod_cancel)
      then have "(r + 1) mod 4 = 0" using h(2) by simp
      then have "(r + 1) div 4 = r div 4 + 1" using div_succ [of 4 r] pos_mod_sign [of 4 r] by auto
      with h(1) show ?thesis by simp
    qed
    ultimately show ?thesis by (simp add: year_days_def flip: r_def)
  qed
qed

lemma year_days_mono: "y \<le> z \<Longrightarrow> year_days y + 365 * (z - y) \<le> year_days z"
proof (induction rule: int_ge_induct)
  case (step z)
  then show ?case using year_days_succ [of z] by (simp add: algebra_simps)
qed simp

lemma month_order:
  assumes "1 \<le> m" "m \<le> 12" "1 \<le> m'" "m' \<le> 12" "y < y' \<or> y = y' \<and> m < m'"
  shows "days_of_civil y m 1 < days_of_civil y' m' 1"
proof -
  define q where "q = (if m \<le> 2 then y - 1 else y)"
  define q' where "q' = (if m' \<le> 2 then y' - 1 else y')"
  define p where "p = (if 2 < m then m - 3 else m + 9)"
  define p' where "p' = (if 2 < m' then m' - 3 else m' + 9)"
  have d: "days_of_civil y m 1 = year_days q + (153 * p + 2) div 5 - 719468"
    "days_of_civil y' m' 1 = year_days q' + (153 * p' + 2) div 5 - 719468"
    by (simp_all add: days_of_civil_def Let_def year_days_def q_def q'_def p_def p'_def)
  have b: "0 \<le> p" "p \<le> 11" "0 \<le> p'" "p' \<le> 11" using assms(1-4) by (auto simp: p_def p'_def)
  have "q < q' \<or> q = q' \<and> p < p'" using assms by (auto simp: q_def q'_def p_def p'_def)
  then show ?thesis
  proof
    assume "q < q'"
    then have le: "q \<le> q'" "1 \<le> q' - q" by simp_all
    have "365 * 1 \<le> 365 * (q' - q)" using le(2) by (intro mult_left_mono) simp_all
    with year_days_mono [OF le(1)] have "year_days q + 365 \<le> year_days q'" by simp
    moreover have "(153 * p + 2) div 5 < 365" "0 \<le> (153 * p' + 2) div 5" using b by linarith+
    ultimately show ?thesis unfolding d by linarith
  next
    assume "q = q' \<and> p < p'"
    moreover from this have "(153 * p + 2) div 5 < (153 * p' + 2) div 5" by linarith
    ultimately show ?thesis unfolding d by simp
  qed
qed

lemma date_order:
  assumes "d < e" "civil_of_days d = (y, m, a)" "civil_of_days e = (y', m', b)"
  shows "y < y' \<or> y = y' \<and> (m < m' \<or> m = m' \<and> a < b)"
proof -
  note bd = civil_of_days_bounds [OF assms(2)] civil_of_days_bounds [OF assms(3)]
  have ms: "month_start d = days_of_civil y m 1" "month_start e = days_of_civil y' m' 1"
    using assms(2,3) by (simp_all add: month_start_def)
  have day: "d = month_start d + (a - 1)" "e = month_start e + (b - 1)"
    using month_start_eq [OF assms(2)] month_start_eq [OF assms(3)] by simp_all
  show ?thesis
  proof (cases "y = y' \<and> m = m'")
    case True
    then show ?thesis using day ms assms(1) by simp
  next
    case False
    moreover have "\<not> (y' < y \<or> y' = y \<and> m' < m)"
    proof
      assume "y' < y \<or> y' = y \<and> m' < m"
      then have "month_start e < month_start d" using month_order [of m' m y' y] bd ms by simp
      moreover have "month_start d \<le> month_start e" using month_start_mono assms(1) by simp
      ultimately show False by simp
    qed
    ultimately show ?thesis by auto
  qed
qed

lemma year_bounds:
  assumes "civil_of_days d = (y, m, a)" "0 \<le> d" "d < 2932897"
  shows "0 \<le> y" "y < 10000"
proof -
  have b: "civil_of_days 0 = (1970, 1, 1)" "civil_of_days 2932896 = (9999, 12, 31)" by code_simp+
  show "0 \<le> y" using date_order [OF _ b(1) assms(1)] assms(1,2) b(1) by (cases "d = 0") auto
  show "y < 10000" using date_order [OF _ assms(1) b(2)] assms(1,3) b(2) by (cases "d = 2932896") auto
qed

text \<open>A field of fixed width decides, or leaves the decision to the rest.\<close>

lemma field_less:
  assumes "a < b \<or> a = b \<and> x < (y :: string)" "0 \<le> a" "0 \<le> b" "a < 10 ^ k" "b < 10 ^ k" "0 < k"
  shows "pad k a @ x < pad k b @ y"
  using assms(1)
proof
  assume "a < b"
  then show ?thesis using less_append [of "pad k a" "pad k b" x y] pad_less [of a b k] assms(2-6) by (simp add: length_pad)
next
  assume "a = b \<and> x < y"
  then show ?thesis by (simp add: less_append_same)
qed

lemma less_append_tail: "x < (y :: string) \<Longrightarrow> length x = length y \<Longrightarrow> x @ r < y @ r'"
  by (rule less_append)

lemma clock_split: "(s :: int) = s div 3600 * 3600 + (s mod 3600 div 60 * 60 + s mod 60)"
proof -
  have "s mod 3600 mod 60 = s mod 60" by (simp add: mod_mod_cancel)
  then show ?thesis using div_mult_mod_eq [of "s mod 3600" 60] div_mult_mod_eq [of s 3600] by linarith
qed

lemma length_format_stamp:
  assumes "0 \<le> t" "t < 2932897 * day_ns"
  shows "length (format_stamp t) = 26"
proof -
  obtain y m a where c: "civil_of_days (t div day_ns) = (y, m, a)" by (cases "civil_of_days (t div day_ns)")
  have "0 \<le> t div day_ns" "t div day_ns < 2932897" using assms by (simp_all add: pos_imp_zdiv_nonneg_iff, (linarith+)?)
  note b = year_bounds [OF c this] civil_of_days_bounds [OF c]
  define s where "s = t mod day_ns div second_ns"
  have s: "0 \<le> s" "s < 86400" unfolding s_def by (simp_all add: pos_imp_zdiv_nonneg_iff, (linarith+)?)
  have "0 \<le> s div 3600" "s div 3600 < 100" "0 \<le> s mod 3600 div 60" "s mod 3600 div 60 < 100" "0 \<le> s mod 60" "s mod 60 < 100"
    using s by (simp_all add: pos_imp_zdiv_nonneg_iff, (linarith+)?)
  note length_pad_2 [OF this(1,2)] length_pad_2 [OF this(3,4)] length_pad_2 [OF this(5,6)]
  moreover have "length (pad 9 (t mod day_ns mod second_ns)) = 9" by (rule length_pad) simp_all
  moreover have "length (format_year y) = 4" using b(1,2) by (simp add: format_year_def length_pad)
  moreover have "length (pad 2 m) = 2" "length (pad 2 a) = 2" using b(3) by simp_all
  ultimately show ?thesis unfolding format_stamp_def Let_def c prod.case s_def [symmetric] length_append by simp
qed

lemma format_stamp_less:
  assumes "0 \<le> t" "t < u" "u < 2932897 * day_ns"
  shows "format_stamp t < format_stamp u"
proof -
  obtain y m a where c: "civil_of_days (t div day_ns) = (y, m, a)" by (cases "civil_of_days (t div day_ns)")
  obtain y' m' b where e: "civil_of_days (u div day_ns) = (y', m', b)" by (cases "civil_of_days (u div day_ns)")
  have days: "0 \<le> t div day_ns" "t div day_ns < 2932897" "0 \<le> u div day_ns" "u div day_ns < 2932897" "t div day_ns \<le> u div day_ns"
    using assms by (simp_all add: pos_imp_zdiv_nonneg_iff zdiv_mono1, (linarith+)?)
  note yt = year_bounds [OF c days(1,2)] and yu = year_bounds [OF e days(3,4)]
  note bt = civil_of_days_bounds [OF c] and bu = civil_of_days_bounds [OF e]
  define s where "s = t mod day_ns div second_ns"
  define s' where "s' = u mod day_ns div second_ns"
  define n where "n = t mod day_ns mod second_ns"
  define n' where "n' = u mod day_ns mod second_ns"
  have s: "0 \<le> s" "s < 86400" "0 \<le> s'" "s' < 86400" unfolding s_def s'_def by (simp_all add: pos_imp_zdiv_nonneg_iff, (linarith+)?)
  have n: "0 \<le> n" "n < 10 ^ 9" "0 \<le> n'" "n' < 10 ^ 9" unfolding n_def n'_def by simp_all
  have parts: "t = t div day_ns * day_ns + (s * second_ns + n)" "u = u div day_ns * day_ns + (s' * second_ns + n')"
    unfolding s_def s'_def n_def n'_def by simp_all
  define h where "h = s div 3600" define h' where "h' = s' div 3600"
  define i where "i = s mod 3600 div 60" define i' where "i' = s' mod 3600 div 60"
  define j where "j = s mod 60" define j' where "j' = s' mod 60"
  have clock: "0 \<le> h" "h < 100" "0 \<le> i" "i < 60" "0 \<le> j" "j < 60" "0 \<le> h'" "h' < 100" "0 \<le> i'" "i' < 60" "0 \<le> j'" "j' < 60"
    unfolding h_def h'_def i_def i'_def j_def j'_def using s by (simp_all add: pos_imp_zdiv_nonneg_iff, (linarith+)?)
  have sec: "s = h * 3600 + (i * 60 + j)" "s' = h' * 3600 + (i' * 60 + j')"
    unfolding h_def h'_def i_def i'_def j_def j'_def by (rule clock_split)+
  have same: "t div day_ns = u div day_ns \<Longrightarrow> s * second_ns + n < s' * second_ns + n'" using parts assms(2) by linarith
  have order: "t div day_ns < u div day_ns \<or> t div day_ns = u div day_ns \<and>
      (h < h' \<or> h = h' \<and> (i < i' \<or> i = i' \<and> (j < j' \<or> j = j' \<and> n < n')))"
  proof (cases "t div day_ns < u div day_ns")
    case False
    with days(5) have eq: "t div day_ns = u div day_ns" by simp
    have "n < second_ns" "n' < second_ns" using n by simp_all
    with same [OF eq] n(1,3) have "s < s' \<or> s = s' \<and> n < n'" by linarith
    then have "h < h' \<or> h = h' \<and> (i < i' \<or> i = i' \<and> (j < j' \<or> j = j' \<and> n < n'))"
      using clock unfolding sec by linarith
    with eq show ?thesis by simp
  qed simp
  have date: "t div day_ns < u div day_ns \<Longrightarrow> y < y' \<or> y = y' \<and> (m < m' \<or> m = m' \<and> a < b)"
    using date_order [OF _ c e] by simp
  have same_date: "t div day_ns = u div day_ns \<Longrightarrow> y = y' \<and> m = m' \<and> a = b" using c e by simp
  have fields: "y < y' \<or> y = y' \<and> (m < m' \<or> m = m' \<and> (a < b \<or> a = b \<and>
      (h < h' \<or> h = h' \<and> (i < i' \<or> i = i' \<and> (j < j' \<or> j = j' \<and> n < n')))))"
    using order date same_date by blast
  have f: "format_stamp t = pad 4 y @ pad 2 m @ pad 2 a @ ''T'' @ pad 2 h @ pad 2 i @ pad 2 j @ ''.'' @ pad 9 n @ ''Z''"
    "format_stamp u = pad 4 y' @ pad 2 m' @ pad 2 b @ ''T'' @ pad 2 h' @ pad 2 i' @ pad 2 j' @ ''.'' @ pad 9 n' @ ''Z''"
    using yt(1) yu(1) by (simp_all add: format_stamp_def Let_def c e format_year_def h_def h'_def i_def i'_def j_def j'_def
        s_def s'_def n_def n'_def)
  let ?z = "pad 9 n @ ''Z''" and ?z' = "pad 9 n' @ ''Z''"
  let ?j = "pad 2 j @ ''.'' @ ?z" and ?j' = "pad 2 j' @ ''.'' @ ?z'"
  let ?i = "pad 2 i @ ?j" and ?i' = "pad 2 i' @ ?j'"
  let ?h = "pad 2 h @ ?i" and ?h' = "pad 2 h' @ ?i'"
  let ?a = "pad 2 a @ ''T'' @ ?h" and ?a' = "pad 2 b @ ''T'' @ ?h'"
  let ?m = "pad 2 m @ ?a" and ?m' = "pad 2 m' @ ?a'"
  have b: "0 \<le> m" "m < 10 ^ 2" "0 \<le> m'" "m' < 10 ^ 2" "0 \<le> a" "a < 10 ^ 2" "0 \<le> b" "b < 10 ^ 2"
    "y < 10 ^ 4" "y' < 10 ^ 4" "h < 10 ^ 2" "h' < 10 ^ 2" "i < 10 ^ 2" "i' < 10 ^ 2" "j < 10 ^ 2" "j' < 10 ^ 2"
    using yt yu bt bu clock by simp_all
  have z: "n < n' \<Longrightarrow> ?z < ?z'" by (rule field_less) (use n in auto)
  have j: "j < j' \<or> j = j' \<and> n < n' \<Longrightarrow> ?j < ?j'"
    by (rule field_less) (use z clock b in \<open>auto simp: less_append_same\<close>)
  have i: "i < i' \<or> i = i' \<and> (j < j' \<or> j = j' \<and> n < n') \<Longrightarrow> ?i < ?i'"
    by (rule field_less) (use j clock b in \<open>(blast | simp)+\<close>)
  have h: "h < h' \<or> h = h' \<and> (i < i' \<or> i = i' \<and> (j < j' \<or> j = j' \<and> n < n')) \<Longrightarrow> ?h < ?h'"
    by (rule field_less) (use i clock b in \<open>(blast | simp)+\<close>)
  have a: "a < b \<or> a = b \<and> (h < h' \<or> h = h' \<and> (i < i' \<or> i = i' \<and> (j < j' \<or> j = j' \<and> n < n'))) \<Longrightarrow> ?a < ?a'"
    by (rule field_less) (use h b in \<open>(blast intro: less_append_same [THEN iffD2] | simp)+\<close>)
  have m: "m < m' \<or> m = m' \<and> (a < b \<or> a = b \<and> (h < h' \<or> h = h' \<and> (i < i' \<or> i = i' \<and> (j < j' \<or> j = j' \<and> n < n')))) \<Longrightarrow> ?m < ?m'"
    by (rule field_less) (use a b in \<open>(blast | simp)+\<close>)
  show ?thesis unfolding f by (rule field_less) (use fields m yt yu b in \<open>(blast | simp)+\<close>)
qed

text \<open>The keys of a prefix sort as their snapshots were taken, so listing them by name lists
  them by time, for every instant up to the year 9999.\<close>

theorem keys_sort_by_time:
  assumes "0 \<le> t" "t < u" "u < 2932897 * day_ns"
  shows "backup_key pre t random < backup_key pre u random'"
proof -
  have "length (format_stamp t) = length (format_stamp u)" using length_format_stamp assms by simp
  then show ?thesis
    using less_append [OF _ format_stamp_less [OF assms]] by (simp add: backup_key_def less_append_same)
qed

theorem keys_sort_by_time_witness: "backup_key ''db/'' 0 ''ab'' < backup_key ''db/'' 1 ''aa''"
  by (rule keys_sort_by_time) simp_all

section \<open>Listing and downloading\<close>

record backup_object =
  ob_name :: string
  ob_size :: int
  ob_modified :: int

definition isBackupName :: "string \<Rightarrow> bool" where
  "isBackupName name \<longleftrightarrow> suffix ''.sqlite.gz'' name \<and> CHR ''/'' \<notin> set name"

text \<open>\<open>list\<close>: the pages of the listing, each its keys with size and time, or an error.\<close>

fun list_pages :: "string \<Rightarrow> ('e + (string \<times> int \<times> int) list) list \<Rightarrow> 'e + backup_object list" where
  "list_pages pre [] = Inr []"
| "list_pages pre (Inl e # pages) = Inl e"
| "list_pages pre (Inr page # pages) = (case list_pages pre pages of Inl e \<Rightarrow> Inl e
     | Inr out \<Rightarrow> Inr (concat (map (\<lambda>(key, size, modified). (let name = (case cut_prefix key pre of Some r \<Rightarrow> r | None \<Rightarrow> key) in
          if isBackupName name then [\<lparr>ob_name = name, ob_size = size, ob_modified = modified\<rparr>] else [])) page) @ out))"

definition list_backups :: "string \<Rightarrow> ('e + (string \<times> int \<times> int) list) list \<Rightarrow> 'e + backup_object list" where
  "list_backups pre pages = (case list_pages pre pages of Inl e \<Rightarrow> Inl e
     | Inr out \<Rightarrow> Inr (rev (sort_key ob_name out)))"

datatype list_error = ListDenied | ListFailed

record listing =
  ls_objects :: "backup_object list"
  ls_err :: "list_error option"
  ls_at :: int
  ls_last_success :: int

definition listTTL :: int where "listTTL = 300 * second_ns"
definition listErrorTTL :: int where "listErrorTTL = 60 * second_ns"

text \<open>\<open>Backups\<close> serves the finished listing while it is young and no backup was completed since.\<close>

definition listing_fresh :: "int \<Rightarrow> int \<Rightarrow> listing \<Rightarrow> bool" where
  "listing_fresh now lastSuccess l \<longleftrightarrow> \<not> is_zero_time (ls_at l) \<and> ls_last_success l = lastSuccess
     \<and> time_sub now (ls_at l) < (if ls_err l \<noteq> None then listErrorTTL else listTTL) \<and> ls_at l \<le> now"

definition refresh_listing :: "string \<Rightarrow> (list_error + (string \<times> int \<times> int) list) list \<Rightarrow> int \<Rightarrow> int \<Rightarrow> listing" where
  "refresh_listing pre pages start lastSuccess = (case list_backups pre pages of
     Inl e \<Rightarrow> \<lparr>ls_objects = [], ls_err = Some e, ls_at = start, ls_last_success = lastSuccess\<rparr>
   | Inr objects \<Rightarrow> \<lparr>ls_objects = objects, ls_err = None, ls_at = start, ls_last_success = lastSuccess\<rparr>)"

definition Backups :: "string \<Rightarrow> (list_error + (string \<times> int \<times> int) list) list \<Rightarrow> int \<Rightarrow> int \<Rightarrow> listing
    \<Rightarrow> (backup_object list \<times> list_error option) \<times> listing" where
  "Backups pre pages now lastSuccess l = (let l' = (if listing_fresh now lastSuccess l then l
       else refresh_listing pre pages now lastSuccess) in ((ls_objects l', ls_err l'), l'))"

datatype download_error = NotFoundBackup | DownloadDenied | DownloadCancelled | DownloadFailed

text \<open>What the store answers: a body and its length if known, or an error code; \<open>cancelled\<close> is a
  request that went away.\<close>

definition Download :: "string \<Rightarrow> (string \<Rightarrow> string + string \<times> int option) \<Rightarrow> bool \<Rightarrow> string \<Rightarrow> download_error + string \<times> int" where
  "Download pre get cancelled name = (if \<not> isBackupName name then Inl NotFoundBackup
     else case get (pre @ name) of
       Inl code \<Rightarrow> if cancelled then Inl DownloadCancelled
         else if code = ''AccessDenied'' then Inl DownloadDenied
         else if code = ''NoSuchKey'' then Inl NotFoundBackup else Inl DownloadFailed
     | Inr (body, len) \<Rightarrow> Inr (body, case len of Some n \<Rightarrow> n | None \<Rightarrow> - 1))"

text \<open>The settings handler of the dashboard (\<open>web/settings.go\<close>): the response status, the table,
  and whether the worker is told that the schedule changed.\<close>

definition saveSettings :: "(string \<Rightarrow> json option) \<Rightarrow> (settingsSection \<Rightarrow> string) \<Rightarrow> (string \<Rightarrow> parsed_url option)
    \<Rightarrow> (string \<Rightarrow> zone option) \<Rightarrow> bool \<Rightarrow> bool \<Rightarrow> string \<Rightarrow> string \<Rightarrow> settings_table \<Rightarrow> int \<times> settings_table \<times> bool" where
  "saveSettings J enc url zones fault worker name body t = (if 8192 < length body then (400, t, False)
     else case SaveDashboardSettings J enc url zones fault name body t of
       (Some UnknownSettingsSection, t') \<Rightarrow> (404, t', False)
     | (Some InvalidSettings, t') \<Rightarrow> (400, t', False)
     | (Some SettingsDatabase, t') \<Rightarrow> (500, t', False)
     | (None, t') \<Rightarrow> (204, t', worker \<and> name = ''backup''))"

lemma list_pages_names: "list_pages pre pages = Inr out \<Longrightarrow> ob \<in> set out \<Longrightarrow> isBackupName (ob_name ob)"
  by (induction pre pages arbitrary: out rule: list_pages.induct)
     (auto simp: Let_def split: sum.splits if_splits option.splits)

text \<open>The list of backups shows only objects named like backups directly under the prefix, the
  newest first, and what it shows can be asked for: a download never reads outside the prefix.\<close>

theorem backups_newest_first:
  "case list_backups pre pages of Inl _ \<Rightarrow> True
   | Inr obs \<Rightarrow> sorted_wrt (\<lambda>a b. ob_name b \<le> ob_name a) obs
      \<and> list_all (\<lambda>ob. isBackupName (ob_name ob) \<and> (\<forall>get. Download pre get False (ob_name ob) =
          (case get (pre @ ob_name ob) of Inr (body, len) \<Rightarrow> Inr (body, case len of Some n \<Rightarrow> n | None \<Rightarrow> - 1)
           | Inl code \<Rightarrow> Inl (if code = ''AccessDenied'' then DownloadDenied
               else if code = ''NoSuchKey'' then NotFoundBackup else DownloadFailed)))) obs"
proof (cases "list_pages pre pages")
  case (Inr out)
  have "sorted_wrt (\<lambda>a b. ob_name a \<le> ob_name b) (sort_key ob_name out)"
    using sorted_sort_key [of ob_name out] by (simp add: sorted_wrt_map)
  then show ?thesis using Inr list_pages_names [OF Inr]
    by (auto simp: list_backups_def sorted_wrt_rev list_all_iff Download_def split: sum.splits)
qed (simp add: list_backups_def)

section \<open>Examples\<close>

definition sample_daily :: daily where
  "sample_daily = \<lparr>dl_hour = 3, dl_minute = 30, dl_loc = (\<lambda>_. 0)\<rparr>"

theorem next_run_is_the_first_witness:
  "\<exists>x. nextRun \<lparr>sc_snapshot = 5 * day_ns, sc_completion = 5 * day_ns, sc_key = []\<rparr> sample_daily zero_time 0 = Some x
     \<and> 5 * day_ns < x \<and> x \<le> 6 * day_ns"
proof -
  have "\<bar>dl_loc sample_daily t\<bar> < 86400" "dl_loc sample_daily t - dl_loc sample_daily u \<le> 0" for t u
    by (simp_all add: sample_daily_def)
  moreover have "0 \<le> dl_hour sample_daily" "dl_hour sample_daily < 24" "0 \<le> dl_minute sample_daily" "dl_minute sample_daily < 60"
    by (simp_all add: sample_daily_def)
  moreover have "\<not> is_zero_time (sc_snapshot \<lparr>sc_snapshot = 5 * day_ns, sc_completion = 5 * day_ns, sc_key = []\<rparr>)"
    "5 * day_ns = max (sc_snapshot \<lparr>sc_snapshot = 5 * day_ns, sc_completion = 5 * day_ns, sc_key = []\<rparr>) zero_time"
    by (simp_all add: is_zero_time_def zero_time_def)
  ultimately show ?thesis
    using next_run_is_the_first [of sample_daily 0 "\<lparr>sc_snapshot = 5 * day_ns, sc_completion = 5 * day_ns, sc_key = []\<rparr>" "5 * day_ns" zero_time 0]
    by auto
qed

abbreviation sample_sched :: "int \<Rightarrow> success \<Rightarrow> settings_table \<Rightarrow> daily \<times> settings_table" where
  "sample_sched \<equiv> (\<lambda>_ _ t. (sample_daily, t))"

definition waiting_worker :: worker where
  "waiting_worker = set_status (\<lambda>s. s\<lparr>st_next_run := 9\<rparr>) ((prepared ''db/'' 8 8 no_worker)\<lparr>wk_phase := Waiting 9\<rparr>)"

lemma waiting_worker: "(worker_step ''db/'' sample_sched)\<^sup>*\<^sup>* no_worker waiting_worker"
proof -
  have "worker_step ''db/'' sample_sched no_worker (prepared ''db/'' 8 8 no_worker)"
    by (rule worker_step.prepare) (simp_all add: no_worker_def NewWorker_def)
  moreover have "worker_step ''db/'' sample_sched (prepared ''db/'' 8 8 no_worker) waiting_worker"
    by (rule worker_step.check [where now = 9])
       (simp_all add: check_due_def nextRun_def waiting_worker_def worker_ops no_worker_def loadState_def no_success_def
         is_zero_time_def Let_def)
  ultimately show ?thesis by (meson r_into_rtranclp rtranclp.rtrancl_into_rtrancl)
qed


definition sample_world :: world where
  "sample_world = \<lparr>aw_start = 9, aw_end = 10, aw_temp = False, aw_snapshot = False, aw_random = Some ''r'', aw_body = Some ''gz'',
     aw_open = False, aw_stored = True, aw_confirmed = True, aw_cancelled = False, aw_save = False\<rparr>"

theorem recorded_backups_exist_witness:
  "\<exists>(w :: worker) s. wk_file w = Some s \<and> sc_key s = backup_key ''db/'' 9 ''r'' \<and> map_of (wk_bucket w) (sc_key s) \<noteq> None"
proof -
  let ?d = "waiting_worker\<lparr>wk_phase := Due\<rparr>"
  let ?w = "end_attempt ''db/'' sample_world 10 10 0 (begin_attempt ?d)"
  have "worker_step ''db/'' sample_sched waiting_worker ?d"
    using worker_step.timer [of waiting_worker 9 "''db/''" sample_sched 9] by (simp add: waiting_worker_def set_status_def)
  moreover have "worker_step ''db/'' sample_sched ?d (begin_attempt ?d)" by (rule worker_step.begins) simp
  moreover have "worker_step ''db/'' sample_sched (begin_attempt ?d) ?w"
    by (rule worker_step.ends) (simp add: begin_attempt_def set_status_def)
  ultimately have "(worker_step ''db/'' sample_sched)\<^sup>*\<^sup>* no_worker ?w"
    using waiting_worker by (meson rtranclp.rtrancl_into_rtrancl)
  note rec = recorded_backups_exist [OF this, THEN conjunct1]
  let ?s = "\<lparr>sc_snapshot = 9, sc_completion = 10, sc_key = backup_key ''db/'' 9 ''r''\<rparr>"
  have f: "wk_file ?w = Some ?s"
    by (simp add: end_attempt_def attempt_def sample_world_def maxObjectBytes_def set_status_def Let_def)
  from rec have "map_of (wk_bucket ?w) (sc_key ?s) \<noteq> None" unfolding f by simp
  with f show ?thesis by (metis success.select_convs(3))
qed

end
