(* ===== verification/Routes.thy ===== *)
theory Routes
  imports Service BackupWorker
begin

text \<open>
  The dashboard port as a whole: \<open>NewWithAuth\<close> and \<open>apiRoutes\<close> of \<open>internal/api\<close>, \<open>newMux\<close> of
  \<open>internal/web/web.go\<close>, and the handlers of \<open>internal/web/settings.go\<close>.

  What the sources use of \<open>net/http\<close> is modelled from its documentation: the multiplexer's patterns
  with their precedence, and the protection against cross-origin requests.  Paths are those the
  multiplexer compares, decoded and cleaned; an unclean path is redirected before any handler.
\<close>

section \<open>Patterns\<close>

text \<open>A segment of a pattern: a word, a wildcard, or the rest of the path.\<close>

datatype segment = Word string | Wild | Rest

fun pat_match :: "segment list \<Rightarrow> string list \<Rightarrow> bool" where
  "pat_match [] ss \<longleftrightarrow> ss = []"
| "pat_match (Rest # ps) ss \<longleftrightarrow> ss \<noteq> []"
| "pat_match (Word w # ps) ss \<longleftrightarrow> (case ss of [] \<Rightarrow> False | s # ss' \<Rightarrow> s = w \<and> pat_match ps ss')"
| "pat_match (Wild # ps) ss \<longleftrightarrow> (case ss of [] \<Rightarrow> False | s # ss' \<Rightarrow> s \<noteq> [] \<and> pat_match ps ss')"

fun captures :: "segment list \<Rightarrow> string list \<Rightarrow> string list" where
  "captures (Word w # ps) (s # ss) = captures ps ss"
| "captures (Wild # ps) (s # ss) = s # captures ps ss"
| "captures ps ss = []"

definition segments :: "string \<Rightarrow> string list" where
  "segments path = split_on (CHR ''/'') (drop 1 path)"

text \<open>A pattern that ends in the rest of the path matches exactly only the path that ends where it begins.\<close>

definition exact_match :: "segment list \<Rightarrow> string list \<Rightarrow> bool" where
  "exact_match ps ss \<longleftrightarrow> (if ps \<noteq> [] \<and> last ps = Rest then length ss = length ps \<and> last ss = [] else True)"

type_synonym 'h routes = "(string \<times> segment list \<times> 'h) list"

datatype 'h routed = Found 'h "string list" | MovedPermanently | NotAllowed | NoRoute

text \<open>
  The first matching pattern: of the request's method, for HEAD then of GET, then of patterns
  without a method.  Tables list the more specific pattern first.
\<close>

definition candidates :: "'h routes \<Rightarrow> string \<Rightarrow> 'h routes" where
  "candidates rs meth = filter (\<lambda>r. fst r = meth) rs @ (if meth = ''HEAD'' then filter (\<lambda>r. fst r = ''GET'') rs else [])
     @ filter (\<lambda>r. fst r = []) rs"

definition lookup_route :: "'h routes \<Rightarrow> string \<Rightarrow> string list \<Rightarrow> (segment list \<times> 'h) option" where
  "lookup_route rs meth ss = map_option snd (List.find (\<lambda>(m, ps, h). pat_match ps ss) (candidates rs meth))"

definition route :: "'h routes \<Rightarrow> string \<Rightarrow> string \<Rightarrow> 'h routed" where
  "route rs meth path = (let
       ss = segments path;
       hit = lookup_route rs meth ss;
       exact = (case hit of None \<Rightarrow> False | Some (ps, _) \<Rightarrow> exact_match ps ss) in
     if \<not> exact \<and> last ss \<noteq> []
       \<and> (case lookup_route rs meth (ss @ [[]]) of None \<Rightarrow> False | Some (ps, _) \<Rightarrow> exact_match ps (ss @ [[]]))
       then MovedPermanently
     else case hit of
       Some (ps, h) \<Rightarrow> Found h (captures ps ss)
     | None \<Rightarrow> if list_ex (\<lambda>(m, ps, h). pat_match ps ss) rs then NotAllowed else NoRoute)"

section \<open>The tables\<close>

datatype endpoint = Dashboard | FragBackupBanner | FragBackupSettings | FragBackupList | Trends | Breakdowns
  | Sessions | StatsPage | SetupPage | SettingsPage | ReadSettings | SaveSettings | StartBackup | DownloadBackup
  | TokensPage | TokenCreate | TokenUpdate | TokenRevoke | TokenRegenerate | Detail | ServeEvents
  | FragDashboardStats | FragPeriodDetail | FragTrends | FragBreakdowns | FragSessionList | FragStats
  | FragStatsReasons | PublicOr404 | Static | LoginForm | LoginSubmit | Logout
  | ApiBackup | Health | Ready
  | ApiSummary | ApiTimeseries | ApiSources | ApiProviders | ApiModels | ApiGroups | ApiTokensUsage | ApiTokens
  | ApiGenerations | ApiGeneration | ApiStats | ApiStatsDaily | ApiStatsReasons

text \<open>\<open>newMux\<close>; the last three only with a login guard.\<close>

definition login_routes :: "endpoint routes" where
  "login_routes = [(''GET'', [Word ''login''], LoginForm), (''POST'', [Word ''login''], LoginSubmit),
     (''POST'', [Word ''logout''], Logout)]"

definition web_routes :: "bool \<Rightarrow> endpoint routes" where
  "web_routes dash = (if dash then login_routes else []) @ [
     (''GET'', [Word ''''], Dashboard),
     (''GET'', [Word ''fragments'', Word ''backup-banner''], FragBackupBanner),
     (''GET'', [Word ''fragments'', Word ''backup-settings''], FragBackupSettings),
     (''GET'', [Word ''fragments'', Word ''backup-list''], FragBackupList),
     (''GET'', [Word ''trends''], Trends),
     (''GET'', [Word ''breakdowns''], Breakdowns),
     (''GET'', [Word ''sessions''], Sessions),
     (''GET'', [Word ''settings'', Word ''stats''], StatsPage),
     (''GET'', [Word ''settings'', Word ''setup''], SetupPage),
     (''GET'', [Word ''settings''], SettingsPage),
     (''GET'', [Word ''settings'', Word ''preferences''], ReadSettings),
     (''PUT'', [Word ''settings'', Word ''preferences'', Wild], SaveSettings),
     (''POST'', [Word ''settings'', Word ''backup''], StartBackup),
     (''GET'', [Word ''settings'', Word ''backups'', Wild], DownloadBackup),
     (''GET'', [Word ''settings'', Word ''tokens''], TokensPage),
     (''POST'', [Word ''settings'', Word ''tokens''], TokenCreate),
     (''POST'', [Word ''settings'', Word ''tokens'', Wild], TokenUpdate),
     (''POST'', [Word ''settings'', Word ''tokens'', Wild, Word ''revoke''], TokenRevoke),
     (''POST'', [Word ''settings'', Word ''tokens'', Wild, Word ''regenerate''], TokenRegenerate),
     (''GET'', [Word ''sessions'', Word ''generation-details'', Wild], Detail),
     (''GET'', [Word ''events''], ServeEvents),
     (''GET'', [Word ''fragments'', Word ''dashboard-stats''], FragDashboardStats),
     (''GET'', [Word ''fragments'', Word ''period-detail''], FragPeriodDetail),
     (''GET'', [Word ''fragments'', Word ''trends''], FragTrends),
     (''GET'', [Word ''fragments'', Word ''breakdowns''], FragBreakdowns),
     (''GET'', [Word ''fragments'', Word ''session-list''], FragSessionList),
     (''GET'', [Word ''fragments'', Word ''stats''], FragStats),
     (''GET'', [Word ''fragments'', Word ''stats-reasons''], FragStatsReasons),
     (''GET'', [Word ''static'', Rest], Static),
     (''GET'', [Rest], PublicOr404)]"

definition api_table :: "endpoint routes" where
  "api_table = map (\<lambda>(path, h). (''GET'', Word ''api'' # path, h)) [
     ([Word ''summary''], ApiSummary), ([Word ''timeseries''], ApiTimeseries), ([Word ''sources''], ApiSources),
     ([Word ''providers''], ApiProviders), ([Word ''models''], ApiModels), ([Word ''groups''], ApiGroups),
     ([Word ''tokens'', Word ''usage''], ApiTokensUsage), ([Word ''tokens''], ApiTokens),
     ([Word ''generations''], ApiGenerations), ([Word ''generations'', Wild], ApiGeneration),
     ([Word ''stats''], ApiStats), ([Word ''stats'', Word ''daily''], ApiStatsDaily),
     ([Word ''stats'', Word ''reasons''], ApiStatsReasons)]"

text \<open>\<open>NewWithAuth\<close>: probes, the API's multiplexer and the dashboard's.\<close>

datatype port_target = Probe endpoint | ApiMux | WebMux

definition port_routes :: "port_target routes" where
  "port_routes = [(''GET'', [Word ''api'', Word ''backup''], Probe ApiBackup), (''GET'', [Word ''health''], Probe Health),
     (''GET'', [Word ''ready''], Probe Ready), ([], [Word ''api'', Rest], ApiMux), ([], [Rest], WebMux)]"

section \<open>Cross-origin requests\<close>

text \<open>\<open>http.CrossOriginProtection\<close>; \<open>origin_host\<close> is the host of a parsed \<open>Origin\<close> header.\<close>

record browser_headers =
  bh_fetch_site :: string
  bh_origin :: string

definition same_site :: "(string \<Rightarrow> string option) \<Rightarrow> string \<Rightarrow> browser_headers \<Rightarrow> bool" where
  "same_site origin_host host b \<longleftrightarrow>
     (if bh_fetch_site b \<noteq> [] then bh_fetch_site b \<in> {''same-origin'', ''none''}
      else bh_origin b = [] \<or> origin_host (bh_origin b) = Some host)"

definition cross_origin_ok :: "(string \<Rightarrow> string option) \<Rightarrow> request \<Rightarrow> browser_headers \<Rightarrow> bool" where
  "cross_origin_ok origin_host r b \<longleftrightarrow> rq_method r \<in> {''GET'', ''HEAD'', ''OPTIONS''} \<or> same_site origin_host (rq_host r) b"

section \<open>The port\<close>

datatype reply = Run endpoint "string list" "set_cookie option" | ServeFile | ToLoginPage | Answered int

definition of_guard :: "guarded \<Rightarrow> (set_cookie option \<Rightarrow> reply) \<Rightarrow> reply" where
  "of_guard g next = (case g of PublicFile \<Rightarrow> ServeFile | UnauthorizedJSON \<Rightarrow> Answered 401
     | RedirectLogin \<Rightarrow> ToLoginPage | Forbidden \<Rightarrow> Answered 403 | Next c \<Rightarrow> next c)"

definition of_route :: "endpoint routed \<Rightarrow> set_cookie option \<Rightarrow> reply" where
  "of_route x c = (case x of Found e caps \<Rightarrow> Run e caps c | MovedPermanently \<Rightarrow> Answered 301
     | NotAllowed \<Rightarrow> Answered 405 | NoRoute \<Rightarrow> Answered 404)"

text \<open>The dashboard's multiplexer is guarded once more; the guard sees the mark of the outer one.\<close>

definition web_handler :: "(string \<Rightarrow> string \<Rightarrow> string) \<Rightarrow> (string \<Rightarrow> bool) \<Rightarrow> (string \<Rightarrow> string option) \<Rightarrow> dashboard option
    \<Rightarrow> int \<Rightarrow> int \<Rightarrow> request \<Rightarrow> browser_headers \<Rightarrow> set_cookie option \<Rightarrow> reply" where
  "web_handler mac files origin_host dash now now2 r b c = (let
       guard = (case dash of
           Some d \<Rightarrow> Middleware mac files d now now2 (\<not> publicPath (rq_path r)) r
         | None \<Rightarrow> LoopbackHost files r) in
     of_guard guard (\<lambda>_. if \<not> cross_origin_ok origin_host r b then Answered 403
       else of_route (route (web_routes (dash \<noteq> None)) (rq_method r) (rq_path r)) c))"

definition port_reply :: "(string \<Rightarrow> string \<Rightarrow> string) \<Rightarrow> (string \<Rightarrow> bool) \<Rightarrow> (string \<Rightarrow> string option) \<Rightarrow> dashboard option
    \<Rightarrow> int \<Rightarrow> int \<Rightarrow> request \<Rightarrow> browser_headers \<Rightarrow> reply" where
  "port_reply mac files origin_host dash now now2 r b =
     of_guard (dashboard_port mac files dash now now2 r) (\<lambda>c.
       case route port_routes (rq_method r) (rq_path r) of
         Found (Probe e) caps \<Rightarrow> Run e caps c
       | Found ApiMux caps \<Rightarrow> of_route (route api_table (rq_method r) (rq_path r)) c
       | Found WebMux caps \<Rightarrow> web_handler mac files origin_host dash now now2 r b c
       | MovedPermanently \<Rightarrow> Answered 301 | NotAllowed \<Rightarrow> Answered 405 | NoRoute \<Rightarrow> Answered 404)"

text \<open>\<open>PublicOr404\<close> serves a public file or answers 404.\<close>

definition public_or_404 :: "(string \<Rightarrow> bool) \<Rightarrow> request \<Rightarrow> reply" where
  "public_or_404 files r = (if ServePublic files r then ServeFile else Answered 404)"

section \<open>What a path leads to\<close>

lemma find_member: "List.find P xs = Some x \<Longrightarrow> x \<in> set xs \<and> P x"
  by (induction xs) (auto split: if_splits)

lemma lookup_route_Some: "lookup_route rs meth ss = Some (ps, h) \<Longrightarrow>
    \<exists>m. (m, ps, h) \<in> set rs \<and> pat_match ps ss \<and> (m = meth \<or> m = ''GET'' \<and> meth = ''HEAD'' \<or> m = [])"
proof -
  assume "lookup_route rs meth ss = Some (ps, h)"
  then obtain m where f: "List.find (\<lambda>(m, ps, h). pat_match ps ss) (candidates rs meth) = Some (m, ps, h)"
    by (auto simp: lookup_route_def)
  from find_member [OF f] have "(m, ps, h) \<in> set (candidates rs meth)" "pat_match ps ss" by auto
  then show ?thesis by (auto simp: candidates_def split: if_splits)
qed

lemma route_Found: "route rs meth path = Found h caps \<Longrightarrow> \<exists>m ps. (m, ps, h) \<in> set rs \<and> pat_match ps (segments path)
    \<and> (m = meth \<or> m = ''GET'' \<and> meth = ''HEAD'' \<or> m = [])"
  using lookup_route_Some [of rs meth "segments path"]
  by (auto simp: route_def Let_def split: if_splits option.splits) blast+

definition write_endpoints :: "endpoint list" where
  "write_endpoints = [SaveSettings, StartBackup, TokenCreate, TokenUpdate, TokenRevoke, TokenRegenerate, LoginSubmit, Logout]"

definition open_endpoints :: "endpoint list" where
  "open_endpoints = [LoginForm, LoginSubmit, Logout, Health, Ready, Static, PublicOr404]"

lemma route_list_all:
  assumes "route rs meth path = Found h caps" "list_all (\<lambda>(m, ps, h). pat_match ps (segments path) \<longrightarrow> P m h) rs"
  shows "\<exists>m. P m h \<and> (m = meth \<or> m = ''GET'' \<and> meth = ''HEAD'' \<or> m = [])"
  using route_Found [OF assms(1)] assms(2) by (fastforce simp: list_all_iff)

lemma web_writes: "route (web_routes dash) meth path = Found e caps \<Longrightarrow> e \<in> set write_endpoints \<Longrightarrow> meth \<in> {''POST'', ''PUT''}"
proof -
  assume r: "route (web_routes dash) meth path = Found e caps" and e: "e \<in> set write_endpoints"
  have "list_all (\<lambda>(m, ps, e). pat_match ps (segments path) \<longrightarrow> e \<in> set write_endpoints \<longrightarrow> m \<in> {''POST'', ''PUT''}) (web_routes dash)"
    by (cases dash) (simp_all add: web_routes_def login_routes_def write_endpoints_def)
  from route_list_all [OF r this] e show ?thesis by auto
qed

lemma api_reads: "route api_table meth path = Found e caps \<Longrightarrow> e \<notin> set write_endpoints"
proof -
  assume r: "route api_table meth path = Found e caps"
  have "list_all (\<lambda>(m, ps, e). pat_match ps (segments path) \<longrightarrow> e \<notin> set write_endpoints) api_table"
    by (simp add: api_table_def write_endpoints_def)
  from route_list_all [OF r this] show ?thesis by auto
qed

lemma probes_read: "route port_routes meth path = Found (Probe e) caps \<Longrightarrow> e \<notin> set write_endpoints"
proof -
  assume r: "route port_routes meth path = Found (Probe e) caps"
  have "list_all (\<lambda>(m, ps, t). pat_match ps (segments path) \<longrightarrow> (\<forall>e. t = Probe e \<longrightarrow> e \<notin> set write_endpoints)) port_routes"
    by (simp add: port_routes_def write_endpoints_def)
  from route_list_all [OF r this] show ?thesis by auto
qed

lemma public_segments: "publicPath p \<Longrightarrow> segments p = [''login''] \<or> segments p = [''logout''] \<or> segments p = [''health'']
    \<or> segments p = [''ready''] \<or> (\<exists>s ss. segments p = ''static'' # s # ss)"
proof -
  assume "publicPath p"
  then consider "p \<in> {''/login'', ''/logout'', ''/health'', ''/ready''}" | z where "p = ''/static/'' @ z"
    unfolding publicPath_def using prefixE by metis
  then show ?thesis
  proof cases
    case 1
    then show ?thesis by (elim insertE) (simp_all add: segments_def)
  next
    case 2
    then have "segments p = ''static'' # split_on (CHR ''/'') z" by (simp add: segments_def)
    then show ?thesis by (cases "split_on (CHR ''/'') z") (simp_all add: hd_split_on)
  qed
qed

lemma public_web:
  assumes "publicPath path" "route (web_routes dash) meth path = Found e caps"
  shows "e \<in> set open_endpoints"
proof -
  from public_segments [OF assms(1)]
  have "list_all (\<lambda>(m, ps, e). pat_match ps (segments path) \<longrightarrow> e \<in> set open_endpoints) (web_routes dash)"
    by (cases dash; elim disjE exE) (simp_all add: web_routes_def login_routes_def open_endpoints_def)
  from route_list_all [OF assms(2) this] show ?thesis by auto
qed

lemma public_port:
  assumes "publicPath path" "route port_routes meth path = Found t caps"
  shows "t \<in> {WebMux, Probe Health, Probe Ready}"
proof -
  from public_segments [OF assms(1)]
  have "list_all (\<lambda>(m, ps, t). pat_match ps (segments path) \<longrightarrow> t \<in> {WebMux, Probe Health, Probe Ready}) port_routes"
    by (elim disjE exE) (simp_all add: port_routes_def)
  from route_list_all [OF assms(2) this] show ?thesis by auto
qed

text \<open>The guard's verdict on a request that is not for a public path: a valid session, or a local name.\<close>

definition local_host :: "request \<Rightarrow> bool" where
  "local_host r \<longleftrightarrow> (let host = (case split_host_port (rq_host r) of
       Some (name, _) \<Rightarrow> name
     | None \<Rightarrow> if prefix ''['' (rq_host r) \<and> suffix '']'' (rq_host r)
         then drop 1 (take (length (rq_host r) - 1) (rq_host r)) else rq_host r) in
     equal_fold (trim_suffix host ''.'') ''localhost'' \<or> loopback_ip host)"

definition admitted :: "(string \<Rightarrow> string \<Rightarrow> string) \<Rightarrow> dashboard option \<Rightarrow> int \<Rightarrow> request \<Rightarrow> bool" where
  "admitted mac dash now r \<longleftrightarrow> (case dash of
     Some d \<Rightarrow> Valid mac (db_sessions d) now (rq_cookie r)
   | None \<Rightarrow> local_host r)"

lemma dashboard_port_admits:
  "dashboard_port mac files dash now now2 r = Next c \<Longrightarrow> \<not> publicPath (rq_path r) \<Longrightarrow> admitted mac dash now r"
  using Refresh_valid
  by (fastforce simp: dashboard_port_def admitted_def Middleware_def LoopbackHost_def local_host_def Let_def publicPath_def
      split: option.splits if_splits prod.splits bool.splits)

lemma of_route_Run: "of_route x c = Run e caps c' \<longleftrightarrow> x = Found e caps \<and> c' = c"
  by (cases x) (auto simp: of_route_def)

lemma of_guard_Run: "of_guard g next = Run e caps c \<longleftrightarrow> (\<exists>k. g = Next k \<and> next k = Run e caps c)"
  by (cases g) (auto simp: of_guard_def)

lemma web_handler_Run:
  assumes "web_handler mac files origin_host dash now now2 r b c = Run e caps c'"
  shows "cross_origin_ok origin_host r b" "\<exists>dash caps. route (web_routes dash) (rq_method r) (rq_path r) = Found e caps"
  using assms by (auto simp: web_handler_def Let_def of_guard_Run of_route_Run split: if_splits)

lemma cross_origin_ok_writes: "cross_origin_ok origin_host r b \<Longrightarrow> rq_method r \<in> {''POST'', ''PUT''} \<Longrightarrow> same_site origin_host (rq_host r) b"
  by (auto simp: cross_origin_ok_def)

lemma port_reply_Run:
  assumes "port_reply mac files origin_host dash now now2 r b = Run e caps c"
  obtains k t x where "dashboard_port mac files dash now now2 r = Next k"
    and "route port_routes (rq_method r) (rq_path r) = Found t x"
    and "case t of Probe e' \<Rightarrow> e' = e | ApiMux \<Rightarrow> \<exists>caps. route api_table (rq_method r) (rq_path r) = Found e caps
      | WebMux \<Rightarrow> web_handler mac files origin_host dash now now2 r b k = Run e caps c"
proof -
  from assms obtain k where k: "dashboard_port mac files dash now now2 r = Next k"
    "(case route port_routes (rq_method r) (rq_path r) of
         Found (Probe e) caps \<Rightarrow> Run e caps k
       | Found ApiMux caps \<Rightarrow> of_route (route api_table (rq_method r) (rq_path r)) k
       | Found WebMux caps \<Rightarrow> web_handler mac files origin_host dash now now2 r b k
       | MovedPermanently \<Rightarrow> Answered 301 | NotAllowed \<Rightarrow> Answered 405 | NoRoute \<Rightarrow> Answered 404) = Run e caps c"
    by (auto simp: port_reply_def of_guard_Run)
  then obtain t x where t: "route port_routes (rq_method r) (rq_path r) = Found t x"
    by (cases "route port_routes (rq_method r) (rq_path r)") auto
  show thesis
    by (rule that [OF k(1) t]) (use k(2) t in \<open>cases t; auto simp: of_route_Run\<close>)
qed

text \<open>C7: No write without a guard.  Whatever endpoint the dashboard port runs for a request: an
  endpoint that changes something was called with POST or PUT and not from another origin; and any
  endpoint but the login, the probes and the public files was called with a valid session, or under
  a local host name when no login is configured.\<close>

theorem writes_are_protected:
  assumes "port_reply mac files origin_host dash now now2 r b = Run e caps c"
  shows "(e \<in> set write_endpoints \<longrightarrow> rq_method r \<in> {''POST'', ''PUT''} \<and> same_site origin_host (rq_host r) b)
    \<and> (e \<notin> set open_endpoints \<longrightarrow> admitted mac dash now r)"
proof -
  from assms obtain k t x where k: "dashboard_port mac files dash now now2 r = Next k"
    and t: "route port_routes (rq_method r) (rq_path r) = Found t x"
    and e: "case t of Probe e' \<Rightarrow> e' = e | ApiMux \<Rightarrow> \<exists>caps. route api_table (rq_method r) (rq_path r) = Found e caps
      | WebMux \<Rightarrow> web_handler mac files origin_host dash now now2 r b k = Run e caps c"
    by (rule port_reply_Run)
  have "rq_method r \<in> {''POST'', ''PUT''} \<and> same_site origin_host (rq_host r) b" if w: "e \<in> set write_endpoints"
  proof (cases t)
    case (Probe e')
    with e t w probes_read show ?thesis by simp
  next
    case ApiMux
    with e w api_reads show ?thesis by fastforce
  next
    case WebMux
    with e have run: "web_handler mac files origin_host dash now now2 r b k = Run e caps c" by simp
    from web_handler_Run(2) [OF run] obtain dash' caps' where
      rt: "route (web_routes dash') (rq_method r) (rq_path r) = Found e caps'" by blast
    note m = web_writes [OF rt w]
    from m cross_origin_ok_writes [OF web_handler_Run(1) [OF run] m] show ?thesis by (rule conjI)
  qed
  moreover have "e \<in> set open_endpoints" if p: "publicPath (rq_path r)"
  proof (cases t)
    case (Probe e')
    with e public_port [OF p t] show ?thesis by (auto simp: open_endpoints_def)
  next
    case ApiMux
    with public_port [OF p t] show ?thesis by simp
  next
    case WebMux
    with e have run: "web_handler mac files origin_host dash now now2 r b k = Run e caps c" by simp
    from web_handler_Run(2) [OF run] obtain dash' caps' where
      rt: "route (web_routes dash') (rq_method r) (rq_path r) = Found e caps'" by blast
    show ?thesis by (rule public_web [OF p rt])
  qed
  ultimately show ?thesis using dashboard_port_admits [OF k] by blast
qed

theorem writes_are_protected_witness:
  "port_reply (\<lambda>k m. k) (\<lambda>_. False) (\<lambda>_. None) None 0 0
      \<lparr>rq_method = ''POST'', rq_path = ''/settings/tokens/7/revoke'', rq_host = ''localhost:8080'', rq_cookie = None\<rparr>
      \<lparr>bh_fetch_site = ''same-origin'', bh_origin = []\<rparr> = Run TokenRevoke [''7''] None
   \<and> local_host \<lparr>rq_method = ''POST'', rq_path = ''/settings/tokens/7/revoke'', rq_host = ''localhost:8080'', rq_cookie = None\<rparr>"
  (is "?run \<and> ?local")
proof
  show run: ?run by code_simp
  from writes_are_protected [OF run] show ?local by (simp add: open_endpoints_def admitted_def)
qed

end
