(* ===== verification/LiveFeed.thy ===== *)
theory LiveFeed
  imports Prelude
begin

text \<open>
  The live feed of the dashboard: the hub (\<open>internal/live/live.go\<close>) and the handlers of the event
  stream (\<open>internal/web/sse.go\<close>), which run concurrently.  A handler is a state machine whose steps
  are its calls on the hub, under the hub's lock, and its writes; the scheduler, the clients, the
  ticker and the outcome of every write are the choice of the next action.
\<close>

section \<open>The hub\<close>

text \<open>
  A subscriber is its channel, here the number of its handler, with the one signal the channel
  buffers; a tracked stream is a handle, the number of its handler too.
\<close>

record hub =
  h_subs :: "(nat \<times> bool) list"
  h_streams :: "nat list"

definition NewHub :: hub where
  "NewHub = \<lparr>h_subs = [], h_streams = []\<rparr>"

definition Subscribe :: "nat \<Rightarrow> hub \<Rightarrow> hub" where
  "Subscribe ch h = h\<lparr>h_subs := (ch, False) # filter (\<lambda>s. fst s \<noteq> ch) (h_subs h)\<rparr>"

definition Unsubscribe :: "nat \<Rightarrow> hub \<Rightarrow> hub" where
  "Unsubscribe ch h = h\<lparr>h_subs := filter (\<lambda>s. fst s \<noteq> ch) (h_subs h)\<rparr>"

text \<open>A full buffer drops the signal.\<close>

definition Notify :: "hub \<Rightarrow> hub" where
  "Notify h = h\<lparr>h_subs := map (\<lambda>(ch, _). (ch, True)) (h_subs h)\<rparr>"

definition TrackStream :: "nat \<Rightarrow> hub \<Rightarrow> hub" where
  "TrackStream k h = h\<lparr>h_streams := k # filter (\<lambda>j. j \<noteq> k) (h_streams h)\<rparr>"

definition Untrack :: "nat \<Rightarrow> hub \<Rightarrow> hub" where
  "Untrack k h = h\<lparr>h_streams := filter (\<lambda>j. j \<noteq> k) (h_streams h)\<rparr>"

text \<open>The handles are taken out under the lock; the caller cancels them one by one afterwards.\<close>

definition InterruptStreams :: "hub \<Rightarrow> nat list \<times> hub" where
  "InterruptStreams h = (h_streams h, h\<lparr>h_streams := []\<rparr>)"

text \<open>Receiving from a channel: possible while it holds a signal, which it then no longer does.\<close>

definition signalled :: "nat \<Rightarrow> hub \<Rightarrow> bool" where
  "signalled ch h \<longleftrightarrow> (ch, True) \<in> set (h_subs h)"

definition receive :: "nat \<Rightarrow> hub \<Rightarrow> hub" where
  "receive ch h = h\<lparr>h_subs := map (\<lambda>(c, b). (c, if c = ch then False else b)) (h_subs h)\<rparr>"

section \<open>The handlers\<close>

definition newline :: char where "newline = CHR 0x0A"

definition sseEventFrame :: string where
  "sseEventFrame = ''event: data-changed'' @ [newline] @ ''data: 1'' @ [newline, newline]"

definition ssePingFrame :: string where
  "ssePingFrame = '': keepalive'' @ [newline, newline]"

definition sseHelloPadding :: nat where "sseHelloPadding = 2 * 1024"

definition sseHelloFrame :: string where
  "sseHelloFrame = '':'' @ replicate sseHelloPadding (CHR '' '') @ [newline, newline]"

datatype phase = Connected | Tracked | Subscribed | Streaming | Leaving | Unsubscribed | Closed

text \<open>\<open>s_cancelled\<close>: the context is done, because the client went or the stream was cancelled.\<close>

record stream =
  s_phase :: phase
  s_cancelled :: bool
  s_out :: "string list"

record feed =
  f_hub :: hub
  f_streams :: "nat \<Rightarrow> stream option"
  f_cancels :: "nat list"

definition init_feed :: feed where
  "init_feed = \<lparr>f_hub = NewHub, f_streams = (\<lambda>_. None), f_cancels = []\<rparr>"

datatype action = Connect nat | Deadline nat bool | Attach nat | Greet nat bool bool
  | ContextDone nat | Wake nat bool | Keepalive nat bool | Detach nat | Leave nat
  | ClientGone nat | NotifyAll | Interrupt | CancelNext

definition set_stream :: "nat \<Rightarrow> stream \<Rightarrow> feed \<Rightarrow> feed" where
  "set_stream i s f = f\<lparr>f_streams := (f_streams f)(i \<mapsto> s)\<rparr>"

definition on_hub :: "(hub \<Rightarrow> hub) \<Rightarrow> feed \<Rightarrow> feed" where
  "on_hub g f = f\<lparr>f_hub := g (f_hub f)\<rparr>"

definition in_phase :: "phase \<Rightarrow> nat \<Rightarrow> feed \<Rightarrow> (stream \<Rightarrow> feed option) \<Rightarrow> feed option" where
  "in_phase ph i f k = (case f_streams f i of None \<Rightarrow> None
     | Some s \<Rightarrow> if s_phase s = ph then k s else None)"

definition wrote :: "string \<Rightarrow> stream \<Rightarrow> stream" where
  "wrote frame s = s\<lparr>s_out := s_out s @ [frame]\<rparr>"

definition goto :: "phase \<Rightarrow> stream \<Rightarrow> stream" where
  "goto ph s = s\<lparr>s_phase := ph\<rparr>"

text \<open>
  \<open>serveEvents\<close>, one action per call on the hub or write.  A handler that cannot clear its write
  deadline answers 500; every way out of the rest runs the deferred calls, which unsubscribe, untrack
  and cancel.  The flag of \<open>Greet\<close>, \<open>Wake\<close> and \<open>Keepalive\<close> is whether the write succeeds (for
  \<open>Greet\<close> also the flush).
\<close>

fun act :: "action \<Rightarrow> feed \<Rightarrow> feed option" where
  "act (Connect i) f = (if f_streams f i = None
     then Some (set_stream i \<lparr>s_phase = Connected, s_cancelled = False, s_out = []\<rparr> f) else None)"
| "act (Deadline i ok) f = in_phase Connected i f (\<lambda>s.
     if ok then Some (on_hub (TrackStream i) (set_stream i (goto Tracked s) f))
     else Some (set_stream i (goto Closed (wrote ''internal error'' s)) f))"
| "act (Attach i) f = in_phase Tracked i f (\<lambda>s. Some (on_hub (Subscribe i) (set_stream i (goto Subscribed s) f)))"
| "act (Greet i written flushed) f = in_phase Subscribed i f (\<lambda>s.
     if \<not> written then Some (set_stream i (goto Leaving s) f)
     else Some (set_stream i (goto (if flushed then Streaming else Leaving) (wrote sseHelloFrame s)) f))"
| "act (ContextDone i) f = in_phase Streaming i f (\<lambda>s.
     if s_cancelled s then Some (set_stream i (goto Leaving s) f) else None)"
| "act (Wake i ok) f = in_phase Streaming i f (\<lambda>s.
     if \<not> signalled i (f_hub f) then None
     else Some (on_hub (receive i) (set_stream i (if ok then wrote sseEventFrame s else goto Leaving s) f)))"
| "act (Keepalive i ok) f = in_phase Streaming i f (\<lambda>s.
     Some (set_stream i (if ok then wrote ssePingFrame s else goto Leaving s) f))"
| "act (Detach i) f = in_phase Leaving i f (\<lambda>s. Some (on_hub (Unsubscribe i) (set_stream i (goto Unsubscribed s) f)))"
| "act (Leave i) f = in_phase Unsubscribed i f (\<lambda>s.
     Some (on_hub (Untrack i) (set_stream i (goto Closed (s\<lparr>s_cancelled := True\<rparr>)) f)))"
| "act (ClientGone i) f = (case f_streams f i of None \<Rightarrow> None
     | Some s \<Rightarrow> Some (set_stream i (s\<lparr>s_cancelled := True\<rparr>) f))"
| "act NotifyAll f = Some (on_hub Notify f)"
| "act Interrupt f = (case InterruptStreams (f_hub f) of (handles, h) \<Rightarrow>
     Some (f\<lparr>f_hub := h, f_cancels := f_cancels f @ handles\<rparr>))"
| "act CancelNext f = (case f_cancels f of [] \<Rightarrow> None
     | k # ks \<Rightarrow> (case f_streams f k of None \<Rightarrow> None
        | Some s \<Rightarrow> Some (set_stream k (s\<lparr>s_cancelled := True\<rparr>) (f\<lparr>f_cancels := ks\<rparr>))))"

fun acts :: "action list \<Rightarrow> feed \<Rightarrow> feed option" where
  "acts [] f = Some f"
| "acts (a # as) f = Option.bind (act a f) (acts as)"

section \<open>The registrations of the hub\<close>

definition subscribed_phase :: "phase \<Rightarrow> bool" where
  "subscribed_phase ph \<longleftrightarrow> ph \<in> {Subscribed, Streaming, Leaving}"

definition tracked_phase :: "phase \<Rightarrow> bool" where
  "tracked_phase ph \<longleftrightarrow> ph \<in> {Tracked, Subscribed, Streaming, Leaving, Unsubscribed}"

text \<open>
  The hub knows exactly the handlers that subscribed and did not leave; a handler it no longer
  tracks has been cancelled or is about to be.
\<close>

definition subs_of :: "hub \<Rightarrow> nat set" where
  "subs_of h = fst ` set (h_subs h)"

definition reg_ok :: "feed \<Rightarrow> nat \<Rightarrow> bool" where
  "reg_ok f i \<longleftrightarrow> (case f_streams f i of
     None \<Rightarrow> i \<notin> subs_of (f_hub f) \<and> i \<notin> set (h_streams (f_hub f)) \<and> i \<notin> set (f_cancels f)
   | Some s \<Rightarrow> (i \<in> subs_of (f_hub f) \<longleftrightarrow> subscribed_phase (s_phase s))
       \<and> (i \<in> set (h_streams (f_hub f)) \<longrightarrow> tracked_phase (s_phase s))
       \<and> (tracked_phase (s_phase s) \<longrightarrow> i \<in> set (h_streams (f_hub f)) \<or> i \<in> set (f_cancels f) \<or> s_cancelled s))"

definition feed_ok :: "feed \<Rightarrow> bool" where
  "feed_ok f \<longleftrightarrow> distinct (map fst (h_subs (f_hub f))) \<and> (\<forall>i. reg_ok f i)"

lemma hub_simps [simp]:
  "subs_of (Subscribe ch h) = insert ch (subs_of h)"
  "subs_of (Unsubscribe ch h) = subs_of h - {ch}"
  "map fst (h_subs (Notify h)) = map fst (h_subs h)"
  "map fst (h_subs (receive ch h)) = map fst (h_subs h)"
  "h_streams (Subscribe ch h) = h_streams h" "h_streams (Unsubscribe ch h) = h_streams h"
  "h_streams (Notify h) = h_streams h" "h_streams (receive ch h) = h_streams h"
  "h_subs (TrackStream k h) = h_subs h" "h_subs (Untrack k h) = h_subs h"
  "set (h_streams (TrackStream k h)) = insert k (set (h_streams h))"
  "set (h_streams (Untrack k h)) = set (h_streams h) - {k}"
  by (auto simp: subs_of_def Subscribe_def Unsubscribe_def Notify_def receive_def TrackStream_def Untrack_def)

lemma subs_of_keys [simp]: "subs_of (Notify h) = subs_of h" "subs_of (receive ch h) = subs_of h"
  "subs_of (TrackStream k h) = subs_of h" "subs_of (Untrack k h) = subs_of h" "subs_of (h\<lparr>h_streams := x\<rparr>) = subs_of h"
  by (simp_all add: subs_of_def flip: set_map)

lemma hub_distinct [simp]:
  "distinct (map fst (h_subs h)) \<Longrightarrow> distinct (map fst (h_subs (Subscribe ch h)))"
  "distinct (map fst (h_subs h)) \<Longrightarrow> distinct (map fst (h_subs (Unsubscribe ch h)))"
  by (auto simp: Subscribe_def Unsubscribe_def distinct_map_filter)

lemma feed_simps [simp]:
  "f_hub (set_stream i s f) = f_hub f" "f_hub (on_hub g f) = g (f_hub f)"
  "f_streams (set_stream i s f) = (f_streams f)(i \<mapsto> s)" "f_streams (on_hub g f) = f_streams f"
  "f_cancels (set_stream i s f) = f_cancels f" "f_cancels (on_hub g f) = f_cancels f"
  "s_phase (goto ph s) = ph" "s_cancelled (goto ph s) = s_cancelled s" "s_out (goto ph s) = s_out s"
  "s_phase (wrote x s) = s_phase s" "s_cancelled (wrote x s) = s_cancelled s" "s_out (wrote x s) = s_out s @ [x]"
  by (simp_all add: set_stream_def on_hub_def goto_def wrote_def)

lemma in_phase_Some [simp]:
  "in_phase ph i f k = Some f' \<longleftrightarrow> (\<exists>s. f_streams f i = Some s \<and> s_phase s = ph \<and> k s = Some f')"
  by (auto simp: in_phase_def split: option.splits)

lemma phase_simps [simp]:
  "\<not> subscribed_phase Connected" "\<not> subscribed_phase Tracked" "subscribed_phase Subscribed"
  "subscribed_phase Streaming" "subscribed_phase Leaving" "\<not> subscribed_phase Unsubscribed" "\<not> subscribed_phase Closed"
  "\<not> tracked_phase Connected" "tracked_phase Tracked" "tracked_phase Subscribed"
  "tracked_phase Streaming" "tracked_phase Leaving" "tracked_phase Unsubscribed" "\<not> tracked_phase Closed"
  by (simp_all add: subscribed_phase_def tracked_phase_def)

lemma reg_ok_set_stream:
  assumes "reg_ok f j" "f_streams f i = Some s" "s_cancelled s' = s_cancelled s"
    and "subscribed_phase (s_phase s') = subscribed_phase (s_phase s)" "tracked_phase (s_phase s') = tracked_phase (s_phase s)"
  shows "reg_ok (set_stream i s' f) j"
  using assms by (cases "j = i"; cases "f_streams f j") (simp_all add: reg_ok_def)

lemma act_reg_ok:
  assumes "act a f = Some f'" "reg_ok f j"
  shows "reg_ok f' j"
proof (cases a)
  case (Connect i)
  with assms show ?thesis
    by (cases "j = i") (auto simp: reg_ok_def InterruptStreams_def split: option.splits if_splits list.splits)
next
  case (Deadline i ok)
  with assms show ?thesis
    by (cases "j = i") (auto simp: reg_ok_def InterruptStreams_def split: option.splits if_splits list.splits)
next
  case (Attach i)
  with assms show ?thesis
    by (cases "j = i") (auto simp: reg_ok_def InterruptStreams_def split: option.splits if_splits list.splits)
next
  case (Greet i written flushed)
  with assms show ?thesis by (auto intro!: reg_ok_set_stream split: if_splits)
next
  case (ContextDone i)
  with assms show ?thesis by (auto intro!: reg_ok_set_stream split: if_splits)
next
  case (Wake i ok)
  with assms show ?thesis
    by (cases "j = i") (auto simp: reg_ok_def InterruptStreams_def split: option.splits if_splits list.splits)
next
  case (Keepalive i ok)
  with assms show ?thesis by (auto intro!: reg_ok_set_stream split: if_splits)
next
  case (Detach i)
  with assms show ?thesis
    by (cases "j = i") (auto simp: reg_ok_def InterruptStreams_def split: option.splits if_splits list.splits)
next
  case (Leave i)
  with assms show ?thesis
    by (cases "j = i") (auto simp: reg_ok_def InterruptStreams_def split: option.splits if_splits list.splits)
next
  case (ClientGone i)
  with assms show ?thesis
    by (cases "j = i") (auto simp: reg_ok_def InterruptStreams_def split: option.splits if_splits list.splits)
next
  case NotifyAll
  with assms show ?thesis
    by (auto simp: reg_ok_def InterruptStreams_def split: option.splits if_splits list.splits)
next
  case Interrupt
  with assms show ?thesis
    by (auto simp: reg_ok_def InterruptStreams_def split: option.splits if_splits list.splits)
next
  case CancelNext
  with assms show ?thesis
    by (auto simp: reg_ok_def InterruptStreams_def split: option.splits if_splits list.splits)
qed

lemma act_distinct: "act a f = Some f' \<Longrightarrow> distinct (map fst (h_subs (f_hub f))) \<Longrightarrow> distinct (map fst (h_subs (f_hub f')))"
  by (cases a) (fastforce simp: InterruptStreams_def split: option.splits if_splits list.splits)+

lemma act_ok: "act a f = Some f' \<Longrightarrow> feed_ok f \<Longrightarrow> feed_ok f'"
  using act_reg_ok act_distinct by (simp add: feed_ok_def)

lemma init_feed_ok: "feed_ok init_feed"
  by (simp add: feed_ok_def reg_ok_def init_feed_def NewHub_def subs_of_def)

lemma acts_invariant:
  "acts as f = Some f' \<Longrightarrow> (\<And>a g g'. act a g = Some g' \<Longrightarrow> I g \<Longrightarrow> I g') \<Longrightarrow> I f \<Longrightarrow> I f'"
  by (induction as arbitrary: f) (auto simp: bind_eq_Some_conv)

lemma reachable_feed_ok: "acts as init_feed = Some f \<Longrightarrow> feed_ok f"
  by (erule acts_invariant) (blast intro: act_ok init_feed_ok)+

section \<open>Signals and cancellations\<close>

lemma signalled_hub [simp]:
  "signalled i (Notify h) \<longleftrightarrow> i \<in> subs_of h" "signalled i (TrackStream k h) \<longleftrightarrow> signalled i h"
  "signalled i (Untrack k h) \<longleftrightarrow> signalled i h" "signalled i (h\<lparr>h_streams := x\<rparr>) \<longleftrightarrow> signalled i h"
  "i \<noteq> ch \<Longrightarrow> signalled i (Subscribe ch h) \<longleftrightarrow> signalled i h"
  "i \<noteq> ch \<Longrightarrow> signalled i (Unsubscribe ch h) \<longleftrightarrow> signalled i h"
  "i \<noteq> ch \<Longrightarrow> signalled i (receive ch h) \<longleftrightarrow> signalled i h"
  by (force simp: signalled_def subs_of_def Notify_def TrackStream_def Untrack_def Subscribe_def Unsubscribe_def receive_def)+

lemma signalled_subscribed: "signalled i h \<Longrightarrow> i \<in> subs_of h"
  by (force simp: signalled_def subs_of_def)

text \<open>Since \<open>out0\<close> was written the handler has announced the change, is about to, or has left.\<close>

definition announces :: "string list \<Rightarrow> nat \<Rightarrow> feed \<Rightarrow> bool" where
  "announces out0 i f \<longleftrightarrow> (case f_streams f i of None \<Rightarrow> False
     | Some s \<Rightarrow> \<exists>out. s_out s = out0 @ out \<and> s_phase s \<notin> {Connected, Tracked}
         \<and> (sseEventFrame \<in> set out \<or> signalled i (f_hub f) \<or> \<not> s_phase s \<in> {Subscribed, Streaming}))"

lemma announces_act:
  assumes "act a f = Some f'" "announces out0 i f"
  shows "announces out0 i f'"
proof (cases a)
  case (Wake j ok)
  then show ?thesis using assms by (cases "i = j"; cases ok) (auto simp: announces_def split: option.splits if_splits)
next
  case (Greet j written flushed)
  then show ?thesis using assms by (cases "i = j"; cases written; cases flushed) (auto simp: announces_def split: option.splits if_splits)
next
  case NotifyAll
  then show ?thesis using assms by (auto simp: announces_def dest: signalled_subscribed split: option.splits)
next
  case Interrupt
  then show ?thesis using assms by (cases "f_streams f i") (auto simp: announces_def InterruptStreams_def)
next
  case CancelNext
  then show ?thesis using assms by (cases "f_cancels f") (auto simp: announces_def split: option.splits if_splits)
qed (use assms in \<open>auto simp: announces_def split: option.splits if_splits\<close>)

definition doomed :: "nat \<Rightarrow> feed \<Rightarrow> bool" where
  "doomed i f \<longleftrightarrow> (case f_streams f i of None \<Rightarrow> False | Some s \<Rightarrow> i \<in> set (f_cancels f) \<or> s_cancelled s)"

lemma doomed_act: "act a f = Some f' \<Longrightarrow> doomed i f \<Longrightarrow> doomed i f'"
  by (cases a) (auto simp: doomed_def InterruptStreams_def split: option.splits if_splits list.splits)

section \<open>Properties\<close>

lemma acts_announces: "acts as f = Some f' \<Longrightarrow> announces out0 i f \<Longrightarrow> announces out0 i f'"
  by (erule acts_invariant) (blast intro: announces_act)+

lemma acts_doomed: "acts as f = Some f' \<Longrightarrow> doomed i f \<Longrightarrow> doomed i f'"
  by (erule acts_invariant) (blast intro: doomed_act)+

lemma acts_append: "acts (as @ bs) f = Option.bind (acts as f) (acts bs)"
  by (induction as arbitrary: f) (auto intro!: Option.bind_cong)

lemma in_phase_at: "f_streams f i = Some s \<Longrightarrow> s_phase s = ph \<Longrightarrow> in_phase ph i f k = k s"
  by (simp add: in_phase_def)

text \<open>C11: No change is lost.  Once a handler has subscribed, after every notification it has sent an event
  frame since, or its channel holds the signal, so that the frame can be sent at once, whatever the
  other handlers, the clients and the shutdown did in between; notifying never waits for a
  subscriber.\<close>

theorem no_change_is_lost:
  assumes "acts history init_feed = Some f" "f_streams f i = Some s" "s_phase s \<in> {Subscribed, Streaming}"
    and "acts (NotifyAll # as) f = Some f'" "f_streams f' i = Some s'" "s_phase s' \<in> {Subscribed, Streaming}"
  shows "(\<exists>out. s_out s' = s_out s @ out \<and> sseEventFrame \<in> set out)
    \<or> signalled i (f_hub f') \<and> (s_phase s' = Streaming \<longrightarrow>
        (\<exists>g. act (Wake i True) f' = Some g \<and> f_streams g i = Some (wrote sseEventFrame s')))"
proof -
  have "i \<in> subs_of (f_hub f)"
    using reachable_feed_ok [OF assms(1)] assms(2,3) by (auto simp: feed_ok_def reg_ok_def dest!: spec [of _ i])
  then have "announces (s_out s) i (on_hub Notify f)"
    using assms(2,3) by (auto simp: announces_def)
  moreover have "acts as (on_hub Notify f) = Some f'" using assms(4) by simp
  ultimately have "announces (s_out s) i f'" by (blast intro: acts_announces)
  then show ?thesis using assms(5,6) by (auto simp: announces_def in_phase_at)
qed

text \<open>C26: A shutdown ends every open stream and leaves nothing registered.  Once the hub has been
  interrupted and the handles it collected are cancelled, every stream that was open then can leave
  by its own next steps, and a handler that has returned is neither subscribed nor tracked, in every
  reachable state.\<close>

theorem shutdown_ends_the_streams:
  assumes "acts history init_feed = Some f" "f_streams f i = Some s" "tracked_phase (s_phase s)"
    and "acts (Interrupt # as) f = Some f'" "f_cancels f' = []"
  shows "\<exists>s'. f_streams f' i = Some s' \<and> s_cancelled s'
    \<and> (s_phase s' = Streaming \<longrightarrow> (\<exists>g. acts [ContextDone i, Detach i, Leave i] f' = Some g
        \<and> f_streams g i = Some (goto Closed s') \<and> i \<notin> subs_of (f_hub g) \<and> i \<notin> set (h_streams (f_hub g))))
    \<and> (s_phase s' = Closed \<longrightarrow> i \<notin> subs_of (f_hub f') \<and> i \<notin> set (h_streams (f_hub f')))"
proof -
  obtain f1 where f1: "act Interrupt f = Some f1" "acts as f1 = Some f'"
    using assms(4) by (auto simp: bind_eq_Some_conv simp del: act.simps)
  have "reg_ok f i" using reachable_feed_ok [OF assms(1)] by (simp add: feed_ok_def)
  then have "doomed i f1"
    using f1(1) assms(2,3) by (auto simp: reg_ok_def doomed_def InterruptStreams_def)
  with f1(2) have "doomed i f'" by (blast intro: acts_doomed)
  then obtain s' where s': "f_streams f' i = Some s'" "s_cancelled s'"
    using assms(5) by (auto simp: doomed_def split: option.splits)
  have "acts (history @ Interrupt # as) init_feed = Some f'"
    using assms(1,4) by (simp add: acts_append del: acts.simps)
  then have ok: "reg_ok f' i" using reachable_feed_ok by (simp add: feed_ok_def)
  have leave: "\<exists>g. acts [ContextDone i, Detach i, Leave i] f' = Some g \<and> f_streams g i = Some (goto Closed s')
      \<and> i \<notin> subs_of (f_hub g) \<and> i \<notin> set (h_streams (f_hub g))" if "s_phase s' = Streaming"
    using that s' by (simp add: in_phase_at goto_def)
  show ?thesis using s' leave ok by (auto simp: reg_ok_def)
qed

definition sample_history :: "action list" where
  "sample_history = [Connect 1, Deadline 1 True, Attach 1, Greet 1 True True, Connect 2, Deadline 2 True]"

lemma sample_run:
  "\<exists>f. acts sample_history init_feed = Some f \<and> f_streams f 1 = Some \<lparr>s_phase = Streaming, s_cancelled = False, s_out = [sseHelloFrame]\<rparr>
     \<and> h_streams (f_hub f) = [2, 1] \<and> f_cancels f = [] \<and> f_streams f 2 \<noteq> None"
  by (simp add: sample_history_def init_feed_def NewHub_def in_phase_def set_stream_def on_hub_def goto_def wrote_def
      TrackStream_def Subscribe_def)

theorem no_change_is_lost_witness:
  "\<exists>f f' g. acts sample_history init_feed = Some f \<and> acts [NotifyAll, Keepalive 1 True, ClientGone 2] f = Some f'
     \<and> act (Wake 1 True) f' = Some g \<and> (\<exists>s. f_streams g 1 = Some s \<and> s_out s = [sseHelloFrame, ssePingFrame, sseEventFrame])"
proof -
  from sample_run obtain f where f: "acts sample_history init_feed = Some f"
    "f_streams f 1 = Some \<lparr>s_phase = Streaming, s_cancelled = False, s_out = [sseHelloFrame]\<rparr>" "f_streams f 2 \<noteq> None" by blast
  then obtain f' where f': "acts [NotifyAll, Keepalive 1 True, ClientGone 2] f = Some f'"
    "f_streams f' 1 = Some \<lparr>s_phase = Streaming, s_cancelled = False, s_out = [sseHelloFrame, ssePingFrame]\<rparr>"
    using f(2,3) by (auto simp: in_phase_def set_stream_def on_hub_def goto_def wrote_def)
  have "ssePingFrame \<noteq> sseEventFrame" by (simp add: ssePingFrame_def sseEventFrame_def)
  with no_change_is_lost [OF f(1,2) _ f'] have "\<exists>g. act (Wake 1 True) f' = Some g \<and> f_streams g 1
      = Some (wrote sseEventFrame \<lparr>s_phase = Streaming, s_cancelled = False, s_out = [sseHelloFrame, ssePingFrame]\<rparr>)" by auto
  then obtain g where "act (Wake 1 True) f' = Some g" "f_streams g 1
      = Some (wrote sseEventFrame \<lparr>s_phase = Streaming, s_cancelled = False, s_out = [sseHelloFrame, ssePingFrame]\<rparr>)" by blast
  moreover have "s_out (wrote sseEventFrame \<lparr>s_phase = Streaming, s_cancelled = False, s_out = [sseHelloFrame, ssePingFrame]\<rparr>)
      = [sseHelloFrame, ssePingFrame, sseEventFrame]" by simp
  ultimately show ?thesis using f(1) f'(1) by blast
qed

theorem shutdown_ends_the_streams_witness:
  "\<exists>f f' g. acts sample_history init_feed = Some f \<and> acts [Interrupt, CancelNext, CancelNext] f = Some f'
     \<and> acts [ContextDone 1, Detach 1, Leave 1] f' = Some g \<and> 1 \<notin> subs_of (f_hub g)"
proof -
  from sample_run obtain f where f: "acts sample_history init_feed = Some f"
    "f_streams f 1 = Some \<lparr>s_phase = Streaming, s_cancelled = False, s_out = [sseHelloFrame]\<rparr>"
    "h_streams (f_hub f) = [2, 1]" "f_cancels f = []" "f_streams f 2 \<noteq> None" by blast
  then obtain f' where f': "acts [Interrupt, CancelNext, CancelNext] f = Some f'" "f_cancels f' = []"
    "f_streams f' 1 = Some \<lparr>s_phase = Streaming, s_cancelled = True, s_out = [sseHelloFrame]\<rparr>"
    using f(2-5) by (auto simp: InterruptStreams_def set_stream_def)
  have "\<exists>g. acts [ContextDone 1, Detach 1, Leave 1] f' = Some g \<and> 1 \<notin> subs_of (f_hub g)"
    using shutdown_ends_the_streams [OF f(1,2) _ f'(1,2)] f'(3) by (auto simp del: acts.simps)
  with f(1) f'(1) show ?thesis by blast
qed

end
