(* ===== verification/Sanitize.thy ===== *)
theory Sanitize
  imports Prelude
begin

text \<open>
  Redaction of captured telemetry (\<open>internal/sanitizeotel/sanitize.go\<close>) and the decoding of captures
  by \<open>cmd/sanitize\<close>.  A payload keeps its structure: everything the code does not look at is the
  field \<open>rest\<close> of a record, of any type.

  An attribute map is a list of entries with distinct keys, as OTLP requires; the order in which
  replaced entries are appended is the one of the map, where Go leaves it open.
\<close>

section \<open>Attributes\<close>

datatype otel_value = VEmpty | VStr string | VBool bool | VInt int | VDouble rat | VBytes string
  | VSlice "otel_value list" | VMap "(string \<times> otel_value) list"

type_synonym vmap = "(string \<times> otel_value) list"

definition Redacted :: string where "Redacted = ''[REDACTED]''"

definition sensitiveKeys :: "string list" where
  "sensitiveKeys = [''arguments'', ''body'', ''body_ref'', ''call_id'', ''code.file.path'', ''content'',
     ''conversation.id'', ''copilot_chat.reasoning_content'', ''copilot_chat.user_request'', ''cwd'',
     ''exception.message'', ''exception.stacktrace'', ''gen_ai.input.messages'', ''gen_ai.output.messages'',
     ''gen_ai.system_instructions'', ''gen_ai.tool.call.arguments'', ''gen_ai.tool.call.result'',
     ''gen_ai.tool.definitions'', ''host.name'', ''input.value'', ''llm.input_messages'',
     ''llm.output_messages'', ''organization.id'', ''output'', ''output.value'', ''prompt'', ''response'',
     ''session.id'', ''thread.id'', ''tool_input'', ''tool_parameters'', ''turn.id'', ''user.account_id'',
     ''user.account_uuid'', ''user.email'', ''user.id'']"

text \<open>\<open>Map.Remove\<close> and \<open>Map.PutStr\<close>.\<close>

definition remove_key :: "string \<Rightarrow> vmap \<Rightarrow> vmap" where
  "remove_key k m = filter (\<lambda>e. fst e \<noteq> k) m"

definition put_str :: "string \<Rightarrow> string \<Rightarrow> vmap \<Rightarrow> vmap" where
  "put_str k v m = (if k \<in> fst ` set m then map (\<lambda>e. if fst e = k then (k, VStr v) else e) m else m @ [(k, VStr v)])"

definition attributes :: "vmap \<Rightarrow> vmap" where
  "attributes m = fold (\<lambda>k m. put_str k Redacted (remove_key k m))
     (filter (\<lambda>k. k \<in> set sensitiveKeys) (map fst m)) m"

section \<open>Traces\<close>

record 'r redacted_span =
  rs_attrs :: vmap
  rs_events :: "(vmap \<times> 'r) list"
  rs_links :: "(vmap \<times> 'r) list"
  rs_status :: string
  rs_rest :: 'r

text \<open>A resource or a scope: its attributes, the rest, and what it holds.\<close>

type_synonym ('r, 'a) scoped = "(vmap \<times> 'r \<times> 'a) list"
type_synonym ('r, 'a) payload = "('r, ('r, 'a list) scoped) scoped"

definition sanitize_span :: "'r redacted_span \<Rightarrow> 'r redacted_span" where
  "sanitize_span s = s\<lparr>rs_attrs := attributes (rs_attrs s),
     rs_events := map (map_prod attributes id) (rs_events s),
     rs_links := map (map_prod attributes id) (rs_links s),
     rs_status := (if rs_status s \<noteq> [] then Redacted else rs_status s)\<rparr>"

definition sanitize_payload :: "('a \<Rightarrow> 'a) \<Rightarrow> ('r, 'a) payload \<Rightarrow> ('r, 'a) payload" where
  "sanitize_payload f = map (\<lambda>(attrs, rest, scopes). (attributes attrs, rest,
     map (\<lambda>(sattrs, srest, items). (attributes sattrs, srest, map f items)) scopes))"

definition sanitize_traces :: "('r, 'r redacted_span) payload \<Rightarrow> ('r, 'r redacted_span) payload" where
  "sanitize_traces = sanitize_payload sanitize_span"

section \<open>Logs\<close>

record 'r redacted_log =
  rl_attrs :: vmap
  rl_body :: otel_value
  rl_rest :: 'r

definition event_name :: "vmap \<Rightarrow> string" where
  "event_name m = (case map_of m ''event.name'' of Some (VStr n) \<Rightarrow> n | _ \<Rightarrow> [])"

definition sanitize_log :: "'r redacted_log \<Rightarrow> 'r redacted_log" where
  "sanitize_log r = (let
       name = event_name (rl_attrs r);
       attrs = attributes (rl_attrs r) in
     r\<lparr>rl_attrs := (if prefix ''maki.'' name \<and> map_of attrs ''error'' \<noteq> None then put_str ''error'' Redacted attrs else attrs),
       rl_body := (if name \<in> {''codex.user_prompt'', ''codex.tool_result'', ''maki.user_prompt'', ''maki.tool_result''}
           \<and> rl_body r \<noteq> VEmpty then VStr Redacted else rl_body r)\<rparr>)"

definition sanitize_logs :: "('r, 'r redacted_log) payload \<Rightarrow> ('r, 'r redacted_log) payload" where
  "sanitize_logs = sanitize_payload sanitize_log"

section \<open>Metrics\<close>

text \<open>A data point with its exemplars; a summary's points have none, and a metric may be of no type.\<close>

record 'r redacted_point =
  rp_attrs :: vmap
  rp_exemplars :: "(vmap \<times> 'r) list"
  rp_rest :: 'r

datatype 'r redacted_metric = Gauge 'r "'r redacted_point list" | Sum 'r "'r redacted_point list"
  | Histogram 'r "'r redacted_point list" | ExponentialHistogram 'r "'r redacted_point list"
  | Summary 'r "(vmap \<times> 'r) list" | NoMetric 'r

definition sanitize_point :: "'r redacted_point \<Rightarrow> 'r redacted_point" where
  "sanitize_point p = p\<lparr>rp_attrs := attributes (rp_attrs p),
     rp_exemplars := map (map_prod attributes id) (rp_exemplars p)\<rparr>"

fun sanitize_metric :: "'r redacted_metric \<Rightarrow> 'r redacted_metric" where
  "sanitize_metric (Gauge r ps) = Gauge r (map sanitize_point ps)"
| "sanitize_metric (Sum r ps) = Sum r (map sanitize_point ps)"
| "sanitize_metric (Histogram r ps) = Histogram r (map sanitize_point ps)"
| "sanitize_metric (ExponentialHistogram r ps) = ExponentialHistogram r (map sanitize_point ps)"
| "sanitize_metric (Summary r ps) = Summary r (map (map_prod attributes id) ps)"
| "sanitize_metric (NoMetric r) = NoMetric r"

definition sanitize_metrics :: "('r, 'r redacted_metric) payload \<Rightarrow> ('r, 'r redacted_metric) payload" where
  "sanitize_metrics = sanitize_payload sanitize_metric"

section \<open>Captures\<close>

text \<open>\<open>looksJSON\<close> of \<open>cmd/sanitize\<close> and \<open>cmd/inspect\<close>: the first byte that is no white space.\<close>

fun looksJSON :: "string \<Rightarrow> bool" where
  "looksJSON [] = False"
| "looksJSON (b # bs) = (if b \<in> {CHR '' '', CHR 0x09, CHR 0x0D, CHR 0x0A} then looksJSON bs
     else b = CHR 0x7B \<or> b = CHR ''['')"

section \<open>What redaction does to a map\<close>

lemma map_of_remove: "map_of (remove_key k m) j = (if j = k then None else map_of m j)"
  by (induction m) (auto simp: remove_key_def)

lemma map_of_put: "map_of (put_str k v m) j = (if j = k then Some (VStr v) else map_of m j)"
proof (cases "k \<in> fst ` set m")
  case True
  have "map_of (map (\<lambda>e. if fst e = k then (k, VStr v) else e) m) j
      = (if j = k then (if k \<in> fst ` set m then Some (VStr v) else None) else map_of m j)"
    by (induction m) force+
  with True show ?thesis by (simp add: put_str_def)
next
  case False
  then have "map_of m k = None" by (simp add: map_of_eq_None_iff)
  with False show ?thesis by (auto simp: put_str_def map_add_def split: option.split)
qed

lemma redact_keys: "map_of (fold (\<lambda>k m. put_str k Redacted (remove_key k m)) ks m) j
    = (if j \<in> set ks then Some (VStr Redacted) else map_of m j)"
  by (induction ks arbitrary: m) (auto simp: map_of_put map_of_remove)

lemma map_of_attributes: "map_of (attributes m) k
    = (if k \<in> set sensitiveKeys \<and> map_of m k \<noteq> None then Some (VStr Redacted) else map_of m k)"
  by (auto simp: attributes_def redact_keys map_of_eq_None_iff)

lemma distinct_put_str: "distinct (map fst m) \<Longrightarrow> distinct (map fst (put_str k v m))"
proof -
  have "map fst (map (\<lambda>e. if fst e = k then (k, VStr v) else e) m) = map fst m" by auto
  then show "distinct (map fst m) \<Longrightarrow> distinct (map fst (put_str k v m))"
    by (auto simp: put_str_def simp del: map_map)
qed

lemma distinct_attributes: "distinct (map fst m) \<Longrightarrow> distinct (map fst (attributes m))"
proof -
  have "distinct (map fst m) \<Longrightarrow> distinct (map fst (fold (\<lambda>k m. put_str k Redacted (remove_key k m)) ks m))" for ks
    by (induction ks arbitrary: m) (simp_all add: distinct_put_str remove_key_def distinct_map_filter)
  then show "distinct (map fst m) \<Longrightarrow> distinct (map fst (attributes m))" by (simp add: attributes_def)
qed

section \<open>Properties\<close>

text \<open>The attribute maps of a payload in order, and what is left of it without maps and texts.\<close>

definition payload_maps :: "('a \<Rightarrow> vmap list) \<Rightarrow> ('r, 'a) payload \<Rightarrow> vmap list" where
  "payload_maps f p = concat (map (\<lambda>(attrs, rest, scopes). attrs # concat (map (\<lambda>(sattrs, srest, items).
     sattrs # concat (map f items)) scopes)) p)"

definition payload_items :: "('r, 'a) payload \<Rightarrow> 'a list" where
  "payload_items p = concat (map (\<lambda>(attrs, rest, scopes). concat (map (\<lambda>(sattrs, srest, items). items) scopes)) p)"

definition payload_shape :: "('a \<Rightarrow> 'b) \<Rightarrow> ('r, 'a) payload \<Rightarrow> ('r \<times> ('r \<times> 'b list) list) list" where
  "payload_shape f p = map (\<lambda>(attrs, rest, scopes). (rest, map (\<lambda>(sattrs, srest, items). (srest, map f items)) scopes)) p"

definition span_maps :: "'r redacted_span \<Rightarrow> vmap list" where
  "span_maps s = rs_attrs s # map fst (rs_events s) @ map fst (rs_links s)"

definition span_shape :: "'r redacted_span \<Rightarrow> 'r list \<times> 'r list \<times> bool \<times> 'r" where
  "span_shape s = (map snd (rs_events s), map snd (rs_links s), rs_status s = [], rs_rest s)"

fun metric_maps :: "'r redacted_metric \<Rightarrow> vmap list" where
  "metric_maps (Summary r ps) = map fst ps"
| "metric_maps (NoMetric r) = []"
| "metric_maps (Gauge r ps) = concat (map (\<lambda>p. rp_attrs p # map fst (rp_exemplars p)) ps)"
| "metric_maps (Sum r ps) = concat (map (\<lambda>p. rp_attrs p # map fst (rp_exemplars p)) ps)"
| "metric_maps (Histogram r ps) = concat (map (\<lambda>p. rp_attrs p # map fst (rp_exemplars p)) ps)"
| "metric_maps (ExponentialHistogram r ps) = concat (map (\<lambda>p. rp_attrs p # map fst (rp_exemplars p)) ps)"

definition redacted :: "vmap \<Rightarrow> vmap \<Rightarrow> bool" where
  "redacted m m' \<longleftrightarrow> (\<forall>k. map_of m' k =
     (if k \<in> set sensitiveKeys \<and> map_of m k \<noteq> None then Some (VStr Redacted) else map_of m k))"

text \<open>Of a log record the body of a prompt or tool event and the error of a maki event go too.\<close>

definition log_redacted :: "'r redacted_log \<Rightarrow> 'r redacted_log \<Rightarrow> bool" where
  "log_redacted r r' \<longleftrightarrow> rl_rest r' = rl_rest r \<and> (let name = event_name (rl_attrs r) in
     (\<forall>k. map_of (rl_attrs r') k = (if map_of (rl_attrs r) k \<noteq> None
          \<and> (k \<in> set sensitiveKeys \<or> k = ''error'' \<and> prefix ''maki.'' name)
        then Some (VStr Redacted) else map_of (rl_attrs r) k))
     \<and> rl_body r' = (if rl_body r = VEmpty \<or> name \<notin> {''codex.user_prompt'', ''codex.tool_result'',
          ''maki.user_prompt'', ''maki.tool_result''} then rl_body r else VStr Redacted))"

lemma redacted_attributes [simp]: "redacted m (attributes m)"
  by (simp add: redacted_def map_of_attributes)

lemma sanitized_maps:
  assumes "\<And>x. f' (g x) = map attributes (f' x)"
  shows "payload_maps f' (sanitize_payload g p) = map attributes (payload_maps f' p)"
  by (induction p) (auto simp: payload_maps_def sanitize_payload_def map_concat o_def assms split_beta)

lemma span_maps_sanitized: "span_maps (sanitize_span s) = map attributes (span_maps s)"
  by (simp add: span_maps_def sanitize_span_def o_def)

lemma metric_maps_sanitized: "metric_maps (sanitize_metric m) = map attributes (metric_maps m)"
  by (cases m) (auto simp: sanitize_point_def map_concat o_def)

lemma sanitized_shape:
  assumes "\<And>x. f' (g x) = f' x"
  shows "payload_shape f' (sanitize_payload g p) = payload_shape f' p"
  by (auto simp: payload_shape_def sanitize_payload_def assms o_def split_beta)

lemma log_redacted_sanitized: "log_redacted r (sanitize_log r)"
proof -
  have "''error'' \<notin> set sensitiveKeys" by (simp add: sensitiveKeys_def)
  then show ?thesis
    by (auto simp: log_redacted_def sanitize_log_def Let_def map_of_attributes map_of_put)
qed

lemma sanitized_items: "payload_items (sanitize_payload g p) = map g (payload_items p)"
  by (induction p) (auto simp: payload_items_def sanitize_payload_def map_concat o_def split_beta)

lemma span_shape_sanitized: "span_shape (sanitize_span s) = span_shape s"
  by (simp add: span_shape_def sanitize_span_def o_def Redacted_def)

lemma status_redacted: "rs_status (sanitize_span s) \<in> {[], Redacted}"
  by (simp add: sanitize_span_def)

lemma log_rest_sanitized: "rl_rest (sanitize_log r) = rl_rest r"
  by (simp add: sanitize_log_def Let_def)


end
