(* ===== verification/Database.thy ===== *)
theory Database
  imports Prelude
begin

text \<open>
  Opening and migrating the database: \<open>internal/storage/sqlite.go\<close> (the connection, its pool and durable
  transactions), \<open>internal/storage/migrations.go\<close> and the validation of a snapshot in
  \<open>internal/storage/backup.go\<close>.

  SQLite is a parameter: the effect of a migration file on the database is \<open>body\<close>, its final
  synchronisation of the rollups \<open>sync\<close>; faults of statements are given to the operations.
\<close>

section \<open>Migrations\<close>

datatype migration_step = CreateVersions | CheckVersion int | ReadBody int | BeginMigration int
  | RecordVersion int | CommitMigration int

datatype migration_error = StepFailed migration_step | BadPrefix string | BodyFailed int | SyncFailed

text \<open>The table \<open>schema_migrations\<close> and the rest of the database.\<close>

record 'db schema =
  sm_versions :: "(int \<times> int) list"
  sm_data :: 'db

definition versionOf :: "string \<Rightarrow> int option" where
  "versionOf name = parse_int64 (case cut_at (CHR ''_'') name of None \<Rightarrow> name | Some (a, _) \<Rightarrow> a)"

definition version0 :: "string \<Rightarrow> int" where
  "version0 name = (case versionOf name of Some v \<Rightarrow> v | None \<Rightarrow> 0)"

text \<open>\<open>entries\<close> are the embedded directory's files, in its order; sub-directories hold none.\<close>

definition migrationFiles :: "string list \<Rightarrow> string list" where
  "migrationFiles entries = sort_key version0 (filter (suffix ''.sql'') entries)"

definition isApplied :: "int \<Rightarrow> 'db schema \<Rightarrow> bool" where
  "isApplied v s \<longleftrightarrow> v \<in> fst ` set (sm_versions s)"

text \<open>One transaction: it changes the database only when its commit succeeds.\<close>

definition apply_migration :: "(migration_step \<Rightarrow> bool) \<Rightarrow> (string \<Rightarrow> 'db \<Rightarrow> 'db option) \<Rightarrow> int \<Rightarrow> int \<Rightarrow> string
    \<Rightarrow> 'db schema \<Rightarrow> migration_error option \<times> 'db schema" where
  "apply_migration fault body now version name s =
     (if fault (ReadBody version) then (Some (StepFailed (ReadBody version)), s)
      else if fault (BeginMigration version) then (Some (StepFailed (BeginMigration version)), s)
      else case body name (sm_data s) of
        None \<Rightarrow> (Some (BodyFailed version), s)
      | Some d \<Rightarrow>
          if fault (RecordVersion version) \<or> isApplied version s then (Some (StepFailed (RecordVersion version)), s)
          else if fault (CommitMigration version) then (Some (StepFailed (CommitMigration version)), s)
          else (None, s\<lparr>sm_versions := sm_versions s @ [(version, now)], sm_data := d\<rparr>))"

fun migrate_files :: "(migration_step \<Rightarrow> bool) \<Rightarrow> (string \<Rightarrow> 'db \<Rightarrow> 'db option) \<Rightarrow> (int \<Rightarrow> int) \<Rightarrow> string list
    \<Rightarrow> 'db schema \<Rightarrow> migration_error option \<times> 'db schema" where
  "migrate_files fault body now [] s = (None, s)"
| "migrate_files fault body now (f # fs) s = (case versionOf f of
     None \<Rightarrow> (Some (BadPrefix f), s)
   | Some v \<Rightarrow>
       if fault (CheckVersion v) then (Some (StepFailed (CheckVersion v)), s)
       else if isApplied v s then migrate_files fault body now fs s
       else case apply_migration fault body (now v) v f s of
         (Some e, s') \<Rightarrow> (Some e, s')
       | (None, s') \<Rightarrow> migrate_files fault body now fs s')"

definition Migrate :: "(migration_step \<Rightarrow> bool) \<Rightarrow> (string \<Rightarrow> 'db \<Rightarrow> 'db option) \<Rightarrow> ('db \<Rightarrow> 'db option) \<Rightarrow> (int \<Rightarrow> int)
    \<Rightarrow> string list \<Rightarrow> 'db schema \<Rightarrow> migration_error option \<times> 'db schema" where
  "Migrate fault body sync now entries s =
     (if fault CreateVersions then (Some (StepFailed CreateVersions), s)
      else case migrate_files fault body now (migrationFiles entries) s of
        (Some e, s') \<Rightarrow> (Some e, s')
      | (None, s') \<Rightarrow> (case sync (sm_data s') of
          None \<Rightarrow> (Some SyncFailed, s')
        | Some d \<Rightarrow> (None, s'\<lparr>sm_data := d\<rparr>)))"

text \<open>The files embedded from \<open>internal/storage/migrations\<close>.\<close>

definition migrationFS :: "string list" where
  "migrationFS = [''0001_generations.sql'', ''0002_stats_daily.sql'', ''0003_stats_reasons.sql'',
     ''0004_codex_provider.sql'', ''0005_pricing.sql'', ''0006_copilot_reasoning_pricing.sql'',
     ''0007_reasoning_effort.sql'', ''0008_api_tokens.sql'', ''0009_dashboard_settings.sql'',
     ''0010_query_indexes.sql'', ''0011_rollups.sql'']"

section \<open>The connection\<close>

definition poolConns :: "int \<Rightarrow> int" where
  "poolConns numCPU = min (max 4 numCPU) 16"

text \<open>
  \<open>pingWithRetry\<close>: one attempt is whether the ping succeeds, the clock afterwards, whether the context is
  done then and whether it is done before the pause ends.  \<open>None\<close>: the attempts given do not suffice.
\<close>

record ping =
  pg_ok :: bool
  pg_clock :: int
  pg_done :: bool
  pg_interrupted :: bool

datatype ping_result = Reached | Unreachable

fun ping_loop :: "int \<Rightarrow> int \<Rightarrow> ping list \<Rightarrow> ping_result option" where
  "ping_loop deadline backoff [] = None"
| "ping_loop deadline backoff (p # ps) =
     (if pg_ok p then Some Reached
      else if deadline < pg_clock p + backoff \<or> pg_done p \<or> pg_interrupted p then Some Unreachable
      else ping_loop deadline backoff ps)"

definition pingWithRetry :: "int \<Rightarrow> int \<Rightarrow> int \<Rightarrow> ping list \<Rightarrow> ping_result option" where
  "pingWithRetry start limit backoff ps = ping_loop (start + limit) backoff ps"

text \<open>The pings of \<open>Open\<close>: five seconds, with pauses of a tenth of a second.\<close>

definition open_pings :: "int \<Rightarrow> ping list \<Rightarrow> ping_result option" where
  "open_pings start ps = pingWithRetry start 5000000000 100000000 ps"

section \<open>Durable transactions\<close>

datatype synchronous = NormalSync | FullSync

record tx_faults =
  tf_conn :: bool
  tf_full :: bool
  tf_begin :: bool
  tf_commit :: bool
  tf_normal :: bool

text \<open>
  \<open>durableTx\<close>: whether it succeeded, the database, and the mode in which the pool gets the connection
  back (\<open>None\<close>: it is discarded).
\<close>

definition durableTx :: "tx_faults \<Rightarrow> ('db \<Rightarrow> 'db option) \<Rightarrow> 'db \<Rightarrow> bool \<times> 'db \<times> synchronous option" where
  "durableTx ft fn db =
     (if tf_conn ft then (False, db, Some NormalSync)
      else if tf_full ft then (False, db, Some NormalSync)
      else let back = (if tf_normal ft then None else Some NormalSync) in
        if tf_begin ft then (False, db, back)
        else case fn db of None \<Rightarrow> (False, db, back)
        | Some db' \<Rightarrow> if tf_commit ft then (False, db, back) else (True, db', back))"

section \<open>Snapshots\<close>

text \<open>\<open>ValidateSnapshot\<close>: the file's first bytes and the rows of the integrity check, each a text or an error.\<close>

definition sqlite_header :: string where
  "sqlite_header = ''SQLite format 3'' @ [CHR 0x00]"

fun integrity_ok :: "nat \<Rightarrow> string option list \<Rightarrow> bool" where
  "integrity_ok n [] \<longleftrightarrow> n = 1"
| "integrity_ok n (None # rows) \<longleftrightarrow> False"
| "integrity_ok n (Some r # rows) \<longleftrightarrow> r = ''ok'' \<and> integrity_ok (n + 1) rows"

definition ValidateSnapshot :: "string option \<Rightarrow> string option list option \<Rightarrow> bool \<Rightarrow> bool" where
  "ValidateSnapshot bytes check done = (case bytes of None \<Rightarrow> False
     | Some b \<Rightarrow> take 16 b = sqlite_header \<and> (case check of None \<Rightarrow> False | Some rows \<Rightarrow> integrity_ok 0 rows \<and> \<not> done))"

section \<open>Resuming\<close>

definition same_db :: "'db schema \<Rightarrow> 'db schema \<Rightarrow> bool" where
  "same_db s t \<longleftrightarrow> map fst (sm_versions s) = map fst (sm_versions t) \<and> sm_data s = sm_data t"

lemma same_db_refl [simp]: "same_db s s"
  by (simp add: same_db_def)

lemma same_db_trans: "same_db s t \<Longrightarrow> same_db t u \<Longrightarrow> same_db s u"
  by (simp add: same_db_def)

lemma isApplied_same: "same_db s t \<Longrightarrow> isApplied v s = isApplied v t"
  by (simp add: same_db_def isApplied_def flip: set_map)

abbreviation faultless :: "migration_step \<Rightarrow> bool" where
  "faultless \<equiv> \<lambda>_. False"

lemma apply_faultless:
  assumes "apply_migration faultless body now v f s = (None, t)" "same_db s s'"
  obtains t' where "apply_migration faultless body now' v f s' = (None, t')" "same_db t t'"
  using assms isApplied_same [OF assms(2), of v]
  by (cases "body f (sm_data s)") (auto simp: apply_migration_def same_db_def split: if_splits)

lemma apply_any:
  assumes "apply_migration faultless body now v f s = (None, t)" "apply_migration fault body now' v f s' = (e, t')" "same_db s s'"
  shows "if e = None then same_db t t' else t' = s'"
  using assms isApplied_same [OF assms(3), of v]
  by (cases "body f (sm_data s)") (auto simp: apply_migration_def same_db_def split: if_splits)

lemma apply_records: "apply_migration fault body now v f s = (None, t) \<Longrightarrow> \<exists>time. sm_versions t = sm_versions s @ [(v, time)]"
  by (auto simp: apply_migration_def split: if_splits option.splits)

lemma apply_failed: "apply_migration fault body now v f s = (Some e, t) \<Longrightarrow> t = s"
  by (auto simp: apply_migration_def split: if_splits option.splits)

lemma apply_keeps: "apply_migration fault body now w f s = (e, t) \<Longrightarrow> isApplied v s \<Longrightarrow> isApplied v t"
  using apply_records [of fault body now w f s t] apply_failed [of fault body now w f s _ t]
  by (cases e) (auto simp: isApplied_def)

lemma migrate_keeps: "migrate_files fault body now fs s = (e, t) \<Longrightarrow> isApplied v s \<Longrightarrow> isApplied v t"
proof (induction fs arbitrary: s)
  case (Cons f fs)
  show ?case
  proof (cases "versionOf f")
    case (Some w)
    show ?thesis
    proof (cases "fault (CheckVersion w) \<or> isApplied w s")
      case True
      then show ?thesis using Cons Some by (auto split: if_splits)
    next
      case False
      obtain e' s' where a: "apply_migration fault body (now w) w f s = (e', s')" by fastforce
      then have "isApplied v s'"
        using Cons.prems(2) apply_keeps by blast
      then show ?thesis using Cons False Some a by (cases e') auto
    qed
  qed (use Cons in simp)
qed simp

lemma migrate_same:
  "migrate_files faultless body now fs s = (None, t) \<Longrightarrow> same_db s s'
   \<Longrightarrow> \<exists>t'. migrate_files faultless body now' fs s' = (None, t') \<and> same_db t t'"
proof (induction fs arbitrary: s s')
  case (Cons f fs)
  then obtain w where w: "versionOf f = Some w" by (cases "versionOf f") auto
  show ?case
  proof (cases "isApplied w s")
    case True
    then show ?thesis using Cons isApplied_same [OF Cons.prems(2)] w by simp
  next
    case False
    then obtain u where u: "apply_migration faultless body (now w) w f s = (None, u)"
      "migrate_files faultless body now fs u = (None, t)"
      using Cons.prems(1) w by (auto split: prod.splits option.splits)
    from u(1) Cons.prems(2) obtain u' where "apply_migration faultless body (now' w) w f s' = (None, u')" "same_db u u'"
      by (rule apply_faultless)
    then show ?thesis using Cons.IH [OF u(2)] w False isApplied_same [OF Cons.prems(2), of w] by simp
  qed
qed simp

lemma migrate_resumes:
  "migrate_files faultless body now fs s = (None, t) \<Longrightarrow> migrate_files fault body now1 fs s' = (e, s1) \<Longrightarrow> same_db s s'
   \<Longrightarrow> \<exists>t'. migrate_files faultless body now2 fs s1 = (None, t') \<and> same_db t t' \<and> (e = None \<longrightarrow> t' = s1)"
proof (induction fs arbitrary: s s')
  case (Cons f fs)
  then obtain w where w: "versionOf f = Some w" by (cases "versionOf f") auto
  note same = isApplied_same [OF Cons.prems(3), of w]
  show ?case
  proof (cases "fault (CheckVersion w)")
    case True
    then have "s1 = s'" "e \<noteq> None" using Cons.prems(2) w by auto
    then show ?thesis using migrate_same [OF Cons.prems(1,3)] by blast
  next
    case checked: False
    show ?thesis
    proof (cases "isApplied w s")
      case True
      have rest: "migrate_files faultless body now fs s = (None, t)" "migrate_files fault body now1 fs s' = (e, s1)"
        using Cons.prems(1,2) True same w checked by auto
      have "isApplied w s1" using migrate_keeps [OF rest(2)] True same by simp
      then show ?thesis using Cons.IH [OF rest Cons.prems(3)] w by simp
    next
      case False
      then obtain u where u: "apply_migration faultless body (now w) w f s = (None, u)"
        "migrate_files faultless body now fs u = (None, t)"
        using Cons.prems(1) w by (auto split: prod.splits option.splits)
      obtain e' s'' where a: "apply_migration fault body (now1 w) w f s' = (e', s'')" by fastforce
      show ?thesis
      proof (cases e')
        case (Some x)
        then have "s1 = s'" "e \<noteq> None" using Cons.prems(2) a w False same checked apply_failed by auto
        then show ?thesis using migrate_same [OF Cons.prems(1,3)] by blast
      next
        case None
        then have rest: "migrate_files fault body now1 fs s'' = (e, s1)"
          using Cons.prems(2) a w False same checked by auto
        have "same_db u s''" using apply_any [OF u(1) a Cons.prems(3)] None by simp
        moreover have "isApplied w s''" using apply_records [of fault body "now1 w" w f s' s''] a None by (auto simp: isApplied_def)
        ultimately show ?thesis using Cons.IH [OF u(2) rest] migrate_keeps [OF rest] w by simp
      qed
    qed
  qed
qed simp

lemma migrate_versions:
  "migrate_files fault body now fs s = (None, t) \<Longrightarrow> distinct (map fst (sm_versions s))
   \<Longrightarrow> distinct (map fst (sm_versions t)) \<and> fst ` set (sm_versions t) = fst ` set (sm_versions s) \<union> {v. Some v \<in> versionOf ` set fs}"
proof (induction fs arbitrary: s)
  case (Cons f fs)
  then obtain w where w: "versionOf f = Some w" by (cases "versionOf f") auto
  show ?case
  proof (cases "isApplied w s")
    case True
    then have "migrate_files fault body now fs s = (None, t)" using Cons.prems(1) w by (auto split: if_splits)
    from Cons.IH [OF this Cons.prems(2)] True w show ?thesis by (auto simp: isApplied_def)
  next
    case False
    then obtain u where u: "apply_migration fault body (now w) w f s = (None, u)" "migrate_files fault body now fs u = (None, t)"
      using Cons.prems(1) w by (auto split: if_splits prod.splits option.splits)
    from apply_records [OF u(1)] obtain time where "sm_versions u = sm_versions s @ [(w, time)]" by blast
    with Cons.IH [OF u(2)] Cons.prems(2) False w show ?thesis by (auto simp: isApplied_def)
  qed
qed simp

lemma migration_versions: "versionOf ` set (migrationFiles migrationFS) = Some ` {1..11}"
proof -
  have "map versionOf (migrationFiles migrationFS) = map Some [1..11]" by code_simp
  then have "versionOf ` set (migrationFiles migrationFS) = set (map Some [1..11])" by (metis list.set_map)
  then show ?thesis by auto
qed

lemma Migrate_files:
  assumes "Migrate fault body sync now entries s = (None, t)"
  obtains u d where "migrate_files fault body now (migrationFiles entries) s = (None, u)" "sync (sm_data u) = Some d"
    "t = u\<lparr>sm_data := d\<rparr>"
  using assms by (auto simp: Migrate_def split: if_splits prod.splits option.splits)

section \<open>Properties\<close>



lemma ping_loop_None: "ping_loop deadline backoff ps = None \<Longrightarrow> p \<in> set ps \<Longrightarrow> pg_clock p + backoff \<le> deadline"
  by (induction ps) (auto split: if_splits)

lemma ping_loop_Reached: "ping_loop deadline backoff ps = Some Reached \<Longrightarrow> \<exists>p \<in> set ps. pg_ok p"
  by (induction ps) (auto split: if_splits)

text \<open>Opening the database ends: with a clock that advances by the pause between two attempts the
  loop gives up after limit/backoff + 1 attempts, and it reports success only after a ping
  succeeded.\<close>

theorem opening_ends:
  assumes "\<And>k. k < length ps \<Longrightarrow> start + int k * backoff \<le> pg_clock (ps ! k)"
    and "limit < int (length ps) * backoff" "0 \<le> limit"
  shows "pingWithRetry start limit backoff ps \<noteq> None
    \<and> (pingWithRetry start limit backoff ps = Some Reached \<longrightarrow> (\<exists>p \<in> set ps. pg_ok p))"
proof -
  have "ping_loop (start + limit) backoff ps \<noteq> None"
  proof
    assume none: "ping_loop (start + limit) backoff ps = None"
    have "ps \<noteq> []" using assms(2,3) by auto
    then obtain n where n: "length ps = Suc n" by (cases ps) auto
    then have "start + int n * backoff \<le> pg_clock (ps ! n)" using assms(1) by simp
    moreover have "pg_clock (ps ! n) + backoff \<le> start + limit" using ping_loop_None [OF none] n by simp
    ultimately show False using assms(2) n by (simp add: algebra_simps)
  qed
  then show ?thesis using ping_loop_Reached by (auto simp: pingWithRetry_def)
qed

text \<open>A snapshot passes exactly when its header is complete and the integrity check
  answers one row, ok.\<close>

lemma integrity_ok_rows: "integrity_ok n rows \<longleftrightarrow> n + length rows = 1 \<and> rows = replicate (length rows) (Some ''ok'')"
  by (induction n rows rule: integrity_ok.induct) auto

theorem snapshot_is_checked:
  "ValidateSnapshot (Some b) (Some rows) False \<longleftrightarrow> take 16 b = sqlite_header \<and> rows = [Some ''ok'']"
  by (auto simp: ValidateSnapshot_def integrity_ok_rows length_Suc_conv)

end
